(* ===== verification/Prelude.thy ===== *)
theory Prelude
  imports Main "HOL-Library.Word"
begin

text \<open>
  Shared vocabulary of the development: the machine integers of the C code, byte buffers
  with the reads, copies and little-endian packings the code does on them, and the lemma
  collections the component theories extend.
\<close>

unbundle bit_operations_syntax

type_synonym u8 = "8 word"
type_synonym u16 = "16 word"
type_synonym u32 = "32 word"
type_synonym u64 = "64 word"
type_synonym bytes = "u8 list"

text \<open>One 512-byte sector buffer.\<close>

type_synonym sector = "u8 list"

named_theorems buf_simps "lengths and reads of updated buffers"
named_theorems frame_simps "fields an operation leaves alone"

section \<open>Byte buffers\<close>

text \<open>
  \<open>subbuf off n b\<close> is the C expression \<open>memcpy(_, b + off, n)\<close>; \<open>blit off xs b\<close> is
  \<open>memcpy(b + off, xs, length xs)\<close>.  Both are used in range only; the component
  invariants say so.
\<close>

definition subbuf :: "nat \<Rightarrow> nat \<Rightarrow> 'a list \<Rightarrow> 'a list" where
  "subbuf off n b = take n (drop off b)"

definition blit :: "nat \<Rightarrow> 'a list \<Rightarrow> 'a list \<Rightarrow> 'a list" where
  "blit off xs b = take off b @ xs @ drop (off + length xs) b"

lemma length_subbuf [simp, buf_simps]: "length (subbuf off n b) = min n (length b - off)"
  by (simp add: subbuf_def min.commute)

lemma nth_subbuf [buf_simps]:
  "i < n \<Longrightarrow> off + i < length b \<Longrightarrow> subbuf off n b ! i = b ! (off + i)"
  by (simp add: subbuf_def)

lemma length_blit [simp, buf_simps]:
  "off + length xs \<le> length b \<Longrightarrow> length (blit off xs b) = length b"
  by (simp add: blit_def)

lemma nth_blit [buf_simps]:
  "off + length xs \<le> length b \<Longrightarrow> i < length b \<Longrightarrow>
   blit off xs b ! i = (if off \<le> i \<and> i < off + length xs then xs ! (i - off) else b ! i)"
  by (auto simp: blit_def nth_append min_def)

lemma subbuf_blit_same [buf_simps]:
  "off + length xs \<le> length b \<Longrightarrow> n = length xs \<Longrightarrow> subbuf off n (blit off xs b) = xs"
  by (rule nth_equalityI) (auto simp: buf_simps)

lemma subbuf_blit_other [buf_simps]:
  "off + length xs \<le> length b \<Longrightarrow> off' + n \<le> off \<or> off + length xs \<le> off' \<Longrightarrow>
   off' + n \<le> length b \<Longrightarrow> subbuf off' n (blit off xs b) = subbuf off' n b"
  by (rule nth_equalityI) (auto simp: buf_simps)

lemma blit_whole [simp]: "length xs = length b \<Longrightarrow> blit 0 xs b = xs"
  by (simp add: blit_def)

lemma subbuf_whole [simp]: "n = length b \<Longrightarrow> subbuf 0 n b = b"
  by (simp add: subbuf_def)

lemma subbuf_append_left: "off + n \<le> length xs \<Longrightarrow> subbuf off n (xs @ ys) = subbuf off n xs"
  by (simp add: subbuf_def)

lemma subbuf_append_right:
  "length xs \<le> off \<Longrightarrow> subbuf off n (xs @ ys) = subbuf (off - length xs) n ys"
  by (simp add: subbuf_def)

lemma subbuf_Cons: "0 < off \<Longrightarrow> subbuf off n (x # xs) = subbuf (off - 1) n xs"
  by (cases off) (simp_all add: subbuf_def)

text \<open>Equal-width slots laid out one after the other: slot \<open>i\<close> starts at \<open>w * i\<close>.\<close>

lemma subbuf_concat_slots:
  "\<forall>x \<in> set xs. length x = w \<Longrightarrow> i < length xs \<Longrightarrow> subbuf (w * i) w (concat xs) = xs ! i"
proof (induction xs arbitrary: i)
  case (Cons x xs)
  then show ?case
    by (cases i) (auto simp: subbuf_def)
qed simp

lemma length_concat_slots: "\<forall>x \<in> set xs. length x = w \<Longrightarrow> length (concat xs) = w * length xs"
  by (induction xs) auto

section \<open>Maps\<close>

text \<open>A total function with some values replaced by those of a map.\<close>

definition overlay :: "('k \<rightharpoonup> 'v) \<Rightarrow> ('k \<Rightarrow> 'v) \<Rightarrow> 'k \<Rightarrow> 'v" where
  "overlay m f k = (case m k of Some v \<Rightarrow> v | None \<Rightarrow> f k)"

lemma overlay_upd [simp]: "overlay (m(k \<mapsto> v)) f = (overlay m f)(k := v)"
  by (auto simp: overlay_def fun_eq_iff)

lemma overlay_empty [simp]: "overlay Map.empty f = f"
  by (simp add: overlay_def fun_eq_iff)

section \<open>Linear searches\<close>

text \<open>The index a C loop \<open>for (i = 0; i < n; i++) if (p (xs[i])) break;\<close> ends with.\<close>

fun first_index :: "('a \<Rightarrow> bool) \<Rightarrow> 'a list \<Rightarrow> nat" where
  "first_index p [] = 0"
| "first_index p (x # xs) = (if p x then 0 else Suc (first_index p xs))"

lemma first_index_le: "first_index p xs \<le> length xs"
  by (induction xs) auto

lemma first_index_less_iff: "first_index p xs < length xs \<longleftrightarrow> (\<exists>x \<in> set xs. p x)"
  by (induction xs) auto

lemma first_index_nth: "first_index p xs < length xs \<Longrightarrow> p (xs ! first_index p xs)"
  by (induction xs) (auto split: if_splits)

lemma find_upt_Some:
  "find P [a ..< b] = Some k \<longleftrightarrow> a \<le> k \<and> k < b \<and> P k \<and> (\<forall>j. a \<le> j \<and> j < k \<longrightarrow> \<not> P j)"
proof -
  have "find P [a ..< b] = Some k \<longleftrightarrow>
      (\<exists>i < b - a. P (a + i) \<and> k = a + i \<and> (\<forall>j < i. \<not> P (a + j)))"
    by (auto simp: find_Some_iff)
  also have "\<dots> \<longleftrightarrow> a \<le> k \<and> k < b \<and> P k \<and> (\<forall>j. a \<le> j \<and> j < k \<longrightarrow> \<not> P j)" (is "?L \<longleftrightarrow> ?R")
  proof
    assume ?L
    then obtain i where i: "i < b - a" "P (a + i)" "k = a + i" "\<forall>j < i. \<not> P (a + j)"
      by blast
    have "\<not> P j" if "a \<le> j" "j < k" for j
      using i(4) [rule_format, of "j - a"] that i(3) by simp
    with i show ?R by auto
  next
    assume ?R
    then show ?L
      by (intro exI [of _ "k - a"]) auto
  qed
  finally show ?thesis .
qed

lemma find_upt_None: "find P [a ..< b] = None \<longleftrightarrow> (\<forall>j. a \<le> j \<and> j < b \<longrightarrow> \<not> P j)"
  by (auto simp: find_None_iff)

section \<open>Words\<close>

lemma word_of_nat_unat_div: "(word_of_nat (unat (c :: 'a :: len word) div unat k) :: 'a word) = c div k"
proof -
  have "unat c div unat k < 2 ^ LENGTH('a)"
    by (rule order.strict_trans1 [OF div_le_dividend unsigned_less])
  then show ?thesis
    by (simp add: word_unat_eq_iff unat_div unat_of_nat)
qed

lemma sint_small: "unat (c :: u32) < 2 ^ 31 \<Longrightarrow> sint c = int (unat c)"
proof -
  assume "unat c < 2 ^ 31"
  then have "uint c < 2 ^ 31"
    by (simp only: uint_nat) (simp del: of_nat_unat)
  moreover have "- (2 ^ 31) \<le> uint c"
    by (rule order_trans [of _ 0]) simp_all
  ultimately show ?thesis by (simp add: sint_uint signed_take_bit_int_eq_self)
qed

lemma unat_and_mask: "unat ((x :: 'a :: len word) AND mask k) = unat x mod 2 ^ k"
  by (simp only: take_bit_eq_mask [symmetric] unsigned_take_bit_eq) (simp add: take_bit_eq_mod)

lemma unat_div_num [simp]: "unat ((x :: 'a :: len word) div y) = unat x div unat y"
  by (fact unat_div)

section \<open>Little-endian fields\<close>

definition byte_of :: "u32 \<Rightarrow> nat \<Rightarrow> u8" where
  "byte_of v k = ucast (drop_bit (8 * k) v)"

definition le16_bytes :: "u32 \<Rightarrow> bytes" where
  "le16_bytes v = [byte_of v 0, byte_of v 1]"

definition le32_bytes :: "u32 \<Rightarrow> bytes" where
  "le32_bytes v = [byte_of v 0, byte_of v 1, byte_of v 2, byte_of v 3]"

definition le16_at :: "bytes \<Rightarrow> nat \<Rightarrow> u32" where
  "le16_at b off = ucast (b ! off) OR push_bit 8 (ucast (b ! (off + 1)))"

definition le32_at :: "bytes \<Rightarrow> nat \<Rightarrow> u32" where
  "le32_at b off = ucast (b ! off) OR push_bit 8 (ucast (b ! (off + 1)))
     OR push_bit 16 (ucast (b ! (off + 2))) OR push_bit 24 (ucast (b ! (off + 3)))"

lemma length_le_bytes [simp]: "length (le16_bytes v) = 2" "length (le32_bytes v) = 4"
  by (simp_all add: le16_bytes_def le32_bytes_def)

lemma join_bytes:
  "ucast (byte_of v 0) OR push_bit 8 (ucast (byte_of v 1))
     OR push_bit 16 (ucast (byte_of v 2)) OR push_bit 24 (ucast (byte_of v 3)) = v"
proof (rule bit_word_eqI)
  fix n assume "n < LENGTH(32)"
  then show "bit (ucast (byte_of v 0) OR push_bit 8 (ucast (byte_of v 1))
     OR push_bit 16 (ucast (byte_of v 2)) OR push_bit 24 (ucast (byte_of v 3)) :: u32) n = bit v n"
    by (cases "n < 8"; cases "n < 16"; cases "n < 24") (auto simp: byte_of_def bit_simps)
qed

lemma le32_at_blit_same [buf_simps]:
  "off + 4 \<le> length b \<Longrightarrow> le32_at (blit off (le32_bytes v) b) off = v"
  using join_bytes [of v] by (simp add: le32_at_def le32_bytes_def nth_blit)

lemma le32_at_blit_other [buf_simps]:
  "off + length xs \<le> length b \<Longrightarrow> off' + 4 \<le> off \<or> off + length xs \<le> off' \<Longrightarrow>
   off' + 4 \<le> length b \<Longrightarrow> le32_at (blit off xs b) off' = le32_at b off'"
  by (auto simp: le32_at_def nth_blit)

lemma le32_at_eq_0_iff:
  "le32_at b off = 0 \<longleftrightarrow>
     b ! off = 0 \<and> b ! (off + 1) = 0 \<and> b ! (off + 2) = 0 \<and> b ! (off + 3) = 0"
proof -
  have z: "push_bit k (ucast (x :: u8)) = (0 :: u32) \<longleftrightarrow> x = 0" if "k \<le> 24" for k x
  proof -
    have "x = 0" if "push_bit k (ucast x) = (0 :: u32)"
    proof (rule bit_word_eqI)
      fix n assume "n < LENGTH(8)"
      moreover have "bit (push_bit k (ucast x) :: u32) (n + k) = bit (0 :: u32) (n + k)"
        using that by simp
      ultimately show "bit x n = bit (0 :: u8) n"
        using \<open>k \<le> 24\<close> by (simp add: bit_simps)
    qed
    then show ?thesis by auto
  qed
  show ?thesis
    using z [of 0 "b ! off"] z [of 8 "b ! (off + 1)"] z [of 16 "b ! (off + 2)"] z [of 24 "b ! (off + 3)"]
    by (simp add: le32_at_def or_eq_0_iff)
qed

lemma le32_at_join [simp]: "le32_at (le32_bytes v @ ys) 0 = v"
  using join_bytes [of v] by (simp add: le32_at_def le32_bytes_def)

lemma le32_at_self [simp]: "le32_at (le32_bytes v) 0 = v"
  using le32_at_join [of v "[]"] by simp

lemma le32_at_skip: "length xs \<le> off \<Longrightarrow> le32_at (xs @ ys) off = le32_at ys (off - length xs)"
  by (simp add: le32_at_def nth_append Suc_diff_le)

lemma subbuf_le32 [simp]: "subbuf 0 4 (le32_bytes v @ ys) = le32_bytes v"
  by (simp add: subbuf_def)

lemma le32_at_Cons [simp]: "0 < off \<Longrightarrow> le32_at (x # ys) off = le32_at ys (off - 1)"
  by (cases off) (simp_all add: le32_at_def add.commute)

lemma le32_at_skip_le32 [simp]:
  "4 \<le> off \<Longrightarrow> le32_at (le32_bytes v @ ys) off = le32_at ys (off - 4)"
  by (simp add: le32_at_skip)

lemma subbuf_4:
  "off + 4 \<le> length b \<Longrightarrow>
   subbuf off 4 b = [b ! off, b ! (off + 1), b ! (off + 2), b ! (off + 3)]"
  by (simp add: subbuf_def eval_nat_numeral flip: Cons_nth_drop_Suc)

lemma le32_bytes_le32_at: "off + 4 \<le> length b \<Longrightarrow> le32_bytes (le32_at b off) = subbuf off 4 b"
proof -
  assume len: "off + 4 \<le> length b"
  have byte: "byte_of (le32_at b off) k = b ! (off + k)" if "k \<in> {0, 1, 2, 3}" for k
  proof (rule bit_word_eqI)
    fix n assume "n < LENGTH(8)"
    then show "bit (byte_of (le32_at b off) k) n = bit (b ! (off + k)) n"
      using that by (auto simp: byte_of_def le32_at_def bit_simps dest: bit_imp_le_length)
  qed
  then show ?thesis
    using len by (simp add: le32_bytes_def subbuf_4)
qed

end
