(* ===== verification/JobQueue.thy ===== *)
theory JobQueue
  imports Prelude
begin

text \<open>
  The remote job queue of \<open>mega65_ftp.c\<close>: the run-length decoder of the serial link
  (\<open>queue_data_decode\<close>), the job encoders (\<open>queue_physical_write_sector\<close>,
  \<open>queue_read_sectors\<close> and their kin), the packets made from queued jobs, and
  \<open>process_jobs_ethernet\<close>, which sends runs of consecutive sector writes as one batch.

  The program that runs on the MEGA65 is not part of the repository.  What it does to the SD
  card is the argument \<open>card_ops\<close> of the definitions below: reading a sector, writing a
  sector, and the answer to a mount request.
\<close>

section \<open>Run-length decoding of job data (serial link)\<close>

record rle_state =
  data_byte_count :: int
  queue_read_rle :: bytes  \<comment> \<open>the bytes of \<open>queue_read_data\<close> below \<open>queue_read_len\<close>\<close>
  q_rle_count :: nat
  q_raw_count :: nat

definition queue_read_max :: nat where
  "queue_read_max = 1024 * 1024"

definition put_read_byte :: "u8 \<Rightarrow> rle_state \<Rightarrow> rle_state" where
  "put_read_byte v s =
     (if length (queue_read_rle s) < queue_read_max
      then s\<lparr>queue_read_rle := queue_read_rle s @ [v]\<rparr> else s)"

definition queue_data_decode :: "u8 \<Rightarrow> rle_state \<Rightarrow> rle_state" where
  "queue_data_decode v s =
     (if q_rle_count s > 0 then
        let s1 = s\<lparr>data_byte_count := data_byte_count s - int (q_rle_count s)\<rparr>
        in (((put_read_byte v) ^^ (q_rle_count s)) s1)\<lparr>q_rle_count := 0\<rparr>
      else if q_raw_count s > 0 then
        let s1 = put_read_byte v s;
            s2 = (if data_byte_count s1 \<noteq> 0
                  then s1\<lparr>data_byte_count := data_byte_count s1 - 1\<rparr> else s1)
        in s2\<lparr>q_raw_count := q_raw_count s2 - 1\<rparr>
      else if v AND 0x80 \<noteq> 0 then s\<lparr>q_rle_count := unat (v AND 0x7f)\<rparr>
      else s\<lparr>q_raw_count := unat (v AND 0x7f)\<rparr>)"

definition queue_data_decode_raw :: "u8 \<Rightarrow> rle_state \<Rightarrow> rle_state" where
  "queue_data_decode_raw v s =
     (let s1 = put_read_byte v s
      in if data_byte_count s1 \<noteq> 0
         then s1\<lparr>data_byte_count := data_byte_count s1 - 1\<rparr> else s1)"

text \<open>
  The abstract content of a stream: runs of one repeated byte and runs of raw bytes, of at
  most 127 bytes each, with the bytes that encode them.
\<close>

datatype rle_token = Rle nat u8 | Raw bytes

fun rle_encode :: "rle_token \<Rightarrow> bytes" where
  "rle_encode (Rle n v) = [0x80 OR word_of_nat n, v]"
| "rle_encode (Raw xs) = word_of_nat (length xs) # xs"

fun rle_expand :: "rle_token \<Rightarrow> bytes" where
  "rle_expand (Rle n v) = replicate n v"
| "rle_expand (Raw xs) = xs"

fun rle_token_ok :: "rle_token \<Rightarrow> bool" where
  "rle_token_ok (Rle n v) \<longleftrightarrow> 0 < n \<and> n < 128"
| "rle_token_ok (Raw xs) \<longleftrightarrow> length xs < 128"

definition rle_idle :: "rle_state \<Rightarrow> bool" where
  "rle_idle s \<longleftrightarrow> q_rle_count s = 0 \<and> q_raw_count s = 0"

lemma put_read_bytes:
  "length (queue_read_rle s) + n \<le> queue_read_max \<Longrightarrow>
   ((put_read_byte v) ^^ n) s = s\<lparr>queue_read_rle := queue_read_rle s @ replicate n v\<rparr>"
proof (induction n)
  case (Suc n)
  then show ?case
    by (simp add: put_read_byte_def replicate_append_same)
qed simp

lemma low_bits_of_nat:
  assumes "n < 128"
  shows "unat ((word_of_nat n :: u8) AND 0x7f) = n"
    and "(word_of_nat n :: u8) AND 0x80 = 0"
    and "unat ((0x80 OR word_of_nat n :: u8) AND 0x7f) = n"
    and "(0x80 OR word_of_nat n :: u8) AND 0x80 \<noteq> 0"
proof -
  have m: "(0x7f :: u8) = mask 7" by (simp add: mask_eq_exp_minus_1)
  show low: "unat ((word_of_nat n :: u8) AND 0x7f) = n"
    unfolding m unat_and_mask using assms by (simp add: unat_of_nat)
  then have small: "(word_of_nat n :: u8) AND 0x7f = word_of_nat n"
    using assms by (simp add: word_unat_eq_iff unat_of_nat)
  have "(word_of_nat n :: u8) AND 0x80 = (word_of_nat n AND 0x7f) AND 0x80"
    using small by simp
  also have "\<dots> = 0" by (simp add: and.assoc)
  finally show z: "(word_of_nat n :: u8) AND 0x80 = 0" .
  have "(0x80 OR word_of_nat n :: u8) AND 0x7f = word_of_nat n AND 0x7f"
    by (simp add: bit.conj_disj_distrib2)
  then show "unat ((0x80 OR word_of_nat n :: u8) AND 0x7f) = n"
    using small assms by (simp add: unat_of_nat)
  show "(0x80 OR word_of_nat n :: u8) AND 0x80 \<noteq> 0"
    using z by (simp add: bit.conj_disj_distrib2)
qed

lemma fold_decode_raw:
  "q_rle_count s = 0 \<Longrightarrow> q_raw_count s = length xs \<Longrightarrow>
   length (queue_read_rle s) + length xs \<le> queue_read_max \<Longrightarrow>
   int (length xs) \<le> data_byte_count s \<Longrightarrow>
   fold queue_data_decode xs s =
     s\<lparr>queue_read_rle := queue_read_rle s @ xs, q_raw_count := 0,
       data_byte_count := data_byte_count s - int (length xs)\<rparr>"
proof (induction xs arbitrary: s)
  case (Cons x xs)
  let ?t = "s\<lparr>queue_read_rle := queue_read_rle s @ [x], q_raw_count := length xs,
              data_byte_count := data_byte_count s - 1\<rparr>"
  have "queue_data_decode x s = ?t"
    using Cons.prems by (simp add: queue_data_decode_def put_read_byte_def Let_def)
  moreover have "fold queue_data_decode xs ?t =
     ?t\<lparr>queue_read_rle := queue_read_rle ?t @ xs, q_raw_count := 0,
       data_byte_count := data_byte_count ?t - int (length xs)\<rparr>"
    using Cons.prems by (intro Cons.IH) simp_all
  ultimately show ?case by (simp add: algebra_simps)
qed simp

lemma decode_token:
  assumes "rle_token_ok t" "rle_idle s"
    and "length (queue_read_rle s) + length (rle_expand t) \<le> queue_read_max"
    and "int (length (rle_expand t)) \<le> data_byte_count s"
  shows "fold queue_data_decode (rle_encode t) s =
     s\<lparr>queue_read_rle := queue_read_rle s @ rle_expand t,
       data_byte_count := data_byte_count s - int (length (rle_expand t))\<rparr>"
proof (cases t)
  case (Rle n v)
  let ?u = "s\<lparr>q_rle_count := n\<rparr>"
  have "queue_data_decode (0x80 OR word_of_nat n) s = ?u"
    using assms Rle by (simp add: queue_data_decode_def rle_idle_def low_bits_of_nat)
  then show ?thesis
    using assms Rle
    by (simp add: queue_data_decode_def [of v ?u] put_read_bytes rle_idle_def Let_def)
next
  case (Raw xs)
  let ?u = "s\<lparr>q_raw_count := length xs\<rparr>"
  have "queue_data_decode (word_of_nat (length xs)) s = ?u"
    using assms Raw by (simp add: queue_data_decode_def rle_idle_def low_bits_of_nat)
  then show ?thesis
    using assms Raw by (simp add: fold_decode_raw rle_idle_def)
qed

text \<open>
  C5: the serial decoder inverts the run-length format: fed the encoding of any sequence of
  runs while the announced byte count and the 1 MiB buffer last, it appends exactly the bytes
  the runs stand for, consumes exactly that much of the announced count, and ends idle.
\<close>
theorem rle_decode_roundtrip:
  assumes "\<forall>t \<in> set ts. rle_token_ok t" "rle_idle s"
    and "length (queue_read_rle s) + length (concat (map rle_expand ts)) \<le> queue_read_max"
    and "int (length (concat (map rle_expand ts))) \<le> data_byte_count s"
  shows "fold queue_data_decode (concat (map rle_encode ts)) s =
     s\<lparr>queue_read_rle := queue_read_rle s @ concat (map rle_expand ts),
       data_byte_count := data_byte_count s - int (length (concat (map rle_expand ts)))\<rparr>"
  using assms
proof (induction ts arbitrary: s)
  case (Cons t ts)
  let ?t = "s\<lparr>queue_read_rle := queue_read_rle s @ rle_expand t,
       data_byte_count := data_byte_count s - int (length (rle_expand t))\<rparr>"
  have "fold queue_data_decode (rle_encode t) s = ?t"
    using Cons.prems by (intro decode_token) simp_all
  moreover have "fold queue_data_decode (concat (map rle_encode ts)) ?t =
     ?t\<lparr>queue_read_rle := queue_read_rle ?t @ concat (map rle_expand ts),
       data_byte_count := data_byte_count ?t - int (length (concat (map rle_expand ts)))\<rparr>"
    using Cons.prems by (intro Cons.IH) (simp_all add: rle_idle_def)
  ultimately show ?case by (simp add: algebra_simps)
qed simp

theorem rle_decode_roundtrip_witness:
  "fold queue_data_decode (concat (map rle_encode [Rle (Suc (Suc 0)) 7, Raw [1, 2]]))
     \<lparr>data_byte_count = 4, queue_read_rle = [], q_rle_count = 0, q_raw_count = 0\<rparr> =
     \<lparr>data_byte_count = 0, queue_read_rle = [7, 7, 1, 2], q_rle_count = 0, q_raw_count = 0\<rparr>"
  by (subst rle_decode_roundtrip) (simp_all add: rle_idle_def queue_read_max_def)


section \<open>Jobs\<close>

definition queue_base :: u16 where
  "queue_base = 0xc001"

text \<open>\<open>queue_cmds\<close> holds the bytes queued so far: \<open>queue_addr = queue_base + length\<close>.\<close>

record job_queue =
  queue_cmds :: bytes
  queue_addr :: u16
  queue_jobs :: u8

definition empty_queue :: job_queue where
  "empty_queue = \<lparr>queue_cmds = [], queue_addr = queue_base, queue_jobs = 0\<rparr>"

definition queue_add_job :: "bytes \<Rightarrow> job_queue \<Rightarrow> job_queue" where
  "queue_add_job j q =
     q\<lparr>queue_cmds := take (unat (queue_addr q - queue_base)) (queue_cmds q) @ j,
       queue_jobs := queue_jobs q + 1,
       queue_addr := queue_addr q + word_of_nat (length j)\<rparr>"

definition physical_write_job :: "u32 \<Rightarrow> u32 \<Rightarrow> bytes" where
  "physical_write_job sector_number mega65_address =
     [0x02] @ le32_bytes mega65_address @ le32_bytes sector_number"

definition queue_physical_write_sector :: "u32 \<Rightarrow> u32 \<Rightarrow> job_queue \<Rightarrow> job_queue" where
  "queue_physical_write_sector sector_number mega65_address q =
     queue_add_job (physical_write_job sector_number mega65_address) q"

definition queue_read_sector :: "u32 \<Rightarrow> u32 \<Rightarrow> job_queue \<Rightarrow> job_queue" where
  "queue_read_sector sector_number mega65_address q =
     queue_add_job ([0x01] @ le32_bytes mega65_address @ le32_bytes sector_number) q"

definition read_sectors_job :: "u32 \<Rightarrow> u16 \<Rightarrow> bytes" where
  "read_sectors_job sector_number sector_count =
     [0x04] @ le16_bytes (ucast sector_count) @ le32_bytes sector_number"

definition queue_read_sectors :: "u32 \<Rightarrow> u16 \<Rightarrow> job_queue \<Rightarrow> job_queue" where
  "queue_read_sectors sector_number sector_count q =
     queue_add_job (read_sectors_job sector_number sector_count) q"

definition queue_read_flash :: "u32 \<Rightarrow> u16 \<Rightarrow> job_queue \<Rightarrow> job_queue" where
  "queue_read_flash flash_address sector_count q =
     queue_add_job ([0x0f] @ le16_bytes (ucast sector_count) @ le32_bytes flash_address) q"

definition queue_read_mem :: "u32 \<Rightarrow> u32 \<Rightarrow> job_queue \<Rightarrow> job_queue" where
  "queue_read_mem mega65_address len q =
     queue_add_job ([0x11] @ le32_bytes mega65_address @ le32_bytes len) q"

section \<open>The MEGA65 side\<close>

record 'c card_ops =
  card_read :: "'c \<Rightarrow> u32 \<Rightarrow> sector"
  card_write :: "u32 \<Rightarrow> sector \<Rightarrow> 'c \<Rightarrow> 'c"
  card_mount :: "bytes \<Rightarrow> 'c \<Rightarrow> u8"

text \<open>
  A write packet carries the batch's first sector number at bytes 10 to 13, the slot index at
  byte 9 and the 512 data bytes from byte 14 on.
\<close>

definition card_receive_write :: "'c card_ops \<Rightarrow> bytes \<Rightarrow> 'c \<Rightarrow> 'c" where
  "card_receive_write ops pkt c =
     card_write ops (le32_at pkt 10 + ucast (pkt ! 9)) (drop 14 pkt) c"

definition mreq :: bytes where
  "mreq = [0x6d, 0x72, 0x65, 0x71]"

definition mrsp :: bytes where
  "mrsp = [0x6d, 0x72, 0x73, 0x70]"

definition card_read_reply :: "'c card_ops \<Rightarrow> 'c \<Rightarrow> u32 \<Rightarrow> bytes" where
  "card_read_reply ops c n = mrsp @ [0, 0, 0x04, 0, 0] @ le32_bytes n @ card_read ops c n"

section \<open>Processing jobs over ethernet\<close>

text \<open>
  The 1 MiB array \<open>queue_read_data\<close> is a function of the index.  Packet bytes 4 and 5, the
  sequence number, are filled in by the acknowledgement layer.
\<close>

record eth_result =
  queue_read_data :: "nat \<Rightarrow> u8"
  memory_read_buffer :: bytes
  memory_read_buffer_len :: u8
  mount_file_response :: u8

record 'c jobs_state =
  jb_card :: 'c
  jb_result :: eth_result
  jb_batch_counter :: u8
  jb_sent :: "bytes list"
  jb_exited :: bool  \<comment> \<open>the process called \<open>exit\<close>\<close>

definition farray_blit :: "nat \<Rightarrow> 'a list \<Rightarrow> (nat \<Rightarrow> 'a) \<Rightarrow> nat \<Rightarrow> 'a" where
  "farray_blit off xs f = (\<lambda>j. if off \<le> j \<and> j < off + length xs then xs ! (j - off) else f j)"

definition farray_get :: "(nat \<Rightarrow> 'a) \<Rightarrow> nat \<Rightarrow> nat \<Rightarrow> 'a list" where
  "farray_get f off n = map f [off ..< off + n]"

text \<open>\<open>queue_read_len\<close> is 0 for the whole of \<open>process_jobs_ethernet\<close>.\<close>

definition ethernet_process_result :: "u32 \<Rightarrow> bytes \<Rightarrow> eth_result \<Rightarrow> eth_result" where
  "ethernet_process_result eth_batch_start_sector rx r =
     (let p = drop 6 rx in
      if p ! 0 = 0x04 then
        let sector_number = le32_at p 3;
            index = sector_number - eth_batch_start_sector
        in r\<lparr>queue_read_data := farray_blit (0 + unat (index * 512)) (subbuf 13 512 rx) (queue_read_data r)\<rparr>
      else if p ! 0 = 0x11 then
        r\<lparr>memory_read_buffer_len := p ! 1 + 1,
          memory_read_buffer := blit 0 (subbuf 12 (unat (p ! 1 + 1)) rx) (memory_read_buffer r)\<rparr>
      else if p ! 0 = 0x12 then r\<lparr>mount_file_response := p ! 1\<rparr>
      else r)"

definition write_sector_packet :: "u8 \<Rightarrow> bytes \<Rightarrow> bytes \<Rightarrow> nat \<Rightarrow> nat \<Rightarrow> bytes" where
  "write_sector_packet counter wbuf job batch_size i =
     (let data_offset = le32_at job (9 * i + 1) - 0x50000 in
      mreq @ [0, 0] @ [job ! 0, counter, word_of_nat (batch_size - 1), word_of_nat i]
        @ subbuf 5 4 job @ subbuf (unat data_offset) 512 wbuf)"

definition process_ethernet_write_sectors_job ::
  "'c card_ops \<Rightarrow> bytes \<Rightarrow> bytes \<Rightarrow> nat \<Rightarrow> 'c jobs_state \<Rightarrow> 'c jobs_state" where
  "process_ethernet_write_sectors_job ops wbuf job batch_size s =
     (let pkts = map (write_sector_packet (jb_batch_counter s) wbuf job batch_size) [0 ..< batch_size]
      in s\<lparr>jb_card := fold (card_receive_write ops) pkts (jb_card s),
           jb_sent := jb_sent s @ pkts,
           jb_batch_counter := jb_batch_counter s + 1\<rparr>)"

definition process_ethernet_read_sectors_job ::
  "'c card_ops \<Rightarrow> bytes \<Rightarrow> 'c jobs_state \<Rightarrow> 'c jobs_state" where
  "process_ethernet_read_sectors_job ops job s =
     (let payload = mreq @ [0, 0] @ take 7 job;
          eth_batch_start_sector = le32_at payload 9;
          eth_batch_size = unat (payload ! 7);
          payload' = payload[7 := payload ! 7 - 1]
      in if payload' ! 8 \<noteq> 0 then s\<lparr>jb_exited := True\<rparr>
         else s\<lparr>jb_result :=
             fold (\<lambda>i. ethernet_process_result eth_batch_start_sector
                     (card_read_reply ops (jb_card s) (eth_batch_start_sector + word_of_nat i)))
               [0 ..< eth_batch_size] (jb_result s),
             jb_sent := jb_sent s @ [payload']\<rparr>)"

text \<open>
  A mount job is copied into the packet up to its terminating zero; the result is the packet's
  size, by which the caller advances.  A name that leaves no room for the terminator is fatal.
\<close>

definition process_ethernet_mount_file_job ::
  "'c card_ops \<Rightarrow> bytes \<Rightarrow> 'c jobs_state \<Rightarrow> nat \<times> 'c jobs_state" where
  "process_ethernet_mount_file_job ops job s =
     (let max_packet_size = 71;
          body = takeWhile (\<lambda>b. b \<noteq> 0) job;
          packet_size = 6 + length body
      in if packet_size \<ge> max_packet_size then (max_packet_size, s\<lparr>jb_exited := True\<rparr>)
         else let payload = mreq @ [0, 0] @ body @ [0];
                  reply = mrsp @ [0, 0, 0x12, card_mount ops payload (jb_card s)]
              in (packet_size + 1,
                  s\<lparr>jb_sent := jb_sent s @ [payload],
                    jb_result := ethernet_process_result 0 reply
                      ((jb_result s)\<lparr>mount_file_response := 0xff\<rparr>)\<rparr>))"

text \<open>
  The look-ahead of \<open>process_jobs_ethernet\<close>: how many of the next \<open>k\<close> jobs continue the
  run of consecutive sectors that ends with \<open>sector_number\<close>, the job under \<open>look_ahead\<close>.
\<close>

fun write_batch :: "nat \<Rightarrow> nat \<Rightarrow> u32 \<Rightarrow> bytes \<Rightarrow> nat" where
  "write_batch 0 write_batch_size sector_number look_ahead = write_batch_size"
| "write_batch (Suc k) write_batch_size sector_number look_ahead =
     (if write_batch_size > 256 then write_batch_size
      else let la = drop 9 look_ahead in
        if la ! 0 \<noteq> 0x02 then write_batch_size
        else if le32_at la 5 \<noteq> sector_number + 1 then write_batch_size
        else write_batch k (write_batch_size + 1) (sector_number + 1) la)"

lemma write_batch_bounds: "bsz \<le> write_batch k bsz sec la \<and> write_batch k bsz sec la \<le> bsz + k"
proof (induction k bsz sec la rule: write_batch.induct)
  case (2 k bsz sec la)
  then show ?case by (auto simp: Let_def)
qed simp

lemma write_batch_pos [simp]: "0 < write_batch k (Suc 0) sec la"
  using write_batch_bounds [of "Suc 0" k sec la] by simp

text \<open>The loop over the queued jobs: \<open>n\<close> of them remain and \<open>ptr\<close> is their encoding.\<close>

function process_jobs ::
  "'c card_ops \<Rightarrow> bytes \<Rightarrow> nat \<Rightarrow> bytes \<Rightarrow> 'c jobs_state \<Rightarrow> 'c jobs_state" where
  "process_jobs ops wbuf n ptr s =
     (if n = 0 \<or> jb_exited s then s
      else let cur_cmd = ptr ! 0 in
        if cur_cmd = 0x02 then
          let b = write_batch (n - 1) 1 (le32_at ptr 5) ptr
          in process_jobs ops wbuf (n - b) (drop (9 * b) ptr)
               (process_ethernet_write_sectors_job ops wbuf ptr b s)
        else if cur_cmd = 0x04 then
          process_jobs ops wbuf (n - 1) (drop 7 ptr) (process_ethernet_read_sectors_job ops ptr s)
        else if cur_cmd = 0x12 then
          (let (job_size, s') = process_ethernet_mount_file_job ops ptr s
           in process_jobs ops wbuf (n - 1) (drop job_size ptr) s')
        else s\<lparr>jb_exited := True\<rparr>)"
  by pat_completeness auto
termination
  by (relation "measure (\<lambda>(ops, wbuf, n, ptr, s). n)") auto

declare process_jobs.simps [simp del]

definition process_jobs_ethernet ::
  "'c card_ops \<Rightarrow> bytes \<Rightarrow> job_queue \<Rightarrow> 'c jobs_state \<Rightarrow> 'c jobs_state" where
  "process_jobs_ethernet ops wbuf q s = process_jobs ops wbuf (unat (queue_jobs q)) (queue_cmds q) s"

text \<open>In ethernet mode the queue is processed and reset.\<close>

definition queue_execute ::
  "'c card_ops \<Rightarrow> bytes \<Rightarrow> job_queue \<Rightarrow> 'c jobs_state \<Rightarrow> job_queue \<times> 'c jobs_state" where
  "queue_execute ops wbuf q s =
     (q\<lparr>queue_addr := queue_base, queue_jobs := 0\<rparr>, process_jobs_ethernet ops wbuf q s)"


section \<open>A batched flush writes what the queue holds\<close>

definition write_addr :: "nat \<Rightarrow> u32" where
  "write_addr i = 0x50000 + push_bit 9 (word_of_nat i)"

definition write_jobs :: "u32 list \<Rightarrow> nat \<Rightarrow> bytes" where
  "write_jobs ns k = concat (map (\<lambda>i. physical_write_job (ns ! i) (write_addr i)) [k ..< length ns])"

lemma length_physical_write_job [simp]: "length (physical_write_job n a) = 9"
  by (simp add: physical_write_job_def)

lemma write_jobs_cons:
  "k < length ns \<Longrightarrow>
   write_jobs ns k = physical_write_job (ns ! k) (write_addr k) @ write_jobs ns (Suc k)"
  by (simp add: write_jobs_def upt_conv_Cons)

lemma drop_write_jobs:
  "k + j \<le> length ns \<Longrightarrow> drop (9 * j) (write_jobs ns k) = write_jobs ns (k + j)"
proof (induction j arbitrary: k)
  case (Suc j)
  then show ?case
    by (simp add: write_jobs_cons [of k] drop_append)
qed simp

lemma physical_write_job_fields [simp]:
  "(physical_write_job n a @ xs) ! 0 = 0x02"
  "le32_at (physical_write_job n a @ xs) (Suc 0) = a"
  "le32_at (physical_write_job n a @ xs) 5 = n"
  "subbuf 5 4 (physical_write_job n a @ xs) = le32_bytes n"
  by (simp_all add: physical_write_job_def subbuf_append_right subbuf_Cons)

lemma write_jobs_field:
  "k + j < length ns \<Longrightarrow> le32_at (write_jobs ns k) (9 * j + 1) = write_addr (k + j)"
proof -
  assume "k + j < length ns"
  then have "le32_at (drop (9 * j) (write_jobs ns k)) 1 = write_addr (k + j)"
    by (simp add: drop_write_jobs write_jobs_cons [of "k + j"])
  moreover have "9 * j + 4 < length (write_jobs ns k)"
  proof -
    have "length (write_jobs ns k) = 9 * (length ns - k)"
      unfolding write_jobs_def by (subst length_concat_slots [where w = 9]) auto
    with \<open>k + j < length ns\<close> show ?thesis by simp
  qed
  ultimately show ?thesis by (simp add: le32_at_def add.commute)
qed

lemma write_jobs_head:
  "k < length ns \<Longrightarrow> write_jobs ns k ! 0 = 0x02"
  "k < length ns \<Longrightarrow> le32_at (write_jobs ns k) 5 = ns ! k"
  by (simp_all add: write_jobs_cons)

lemma write_batch_step:
  assumes "Suc i < length ns"
  shows "write_batch (length ns - Suc i) b (ns ! i) (write_jobs ns i) =
    (if b > 256 \<or> ns ! Suc i \<noteq> ns ! i + 1 then b
     else write_batch (length ns - Suc (Suc i)) (b + 1) (ns ! Suc i) (write_jobs ns (Suc i)))"
proof -
  have "length ns - Suc i = Suc (length ns - Suc (Suc i))"
    using assms by simp
  moreover have "drop 9 (write_jobs ns i) = write_jobs ns (Suc i)"
    using assms drop_write_jobs [of i 1 ns] by simp
  ultimately show ?thesis
    using assms by (simp add: Let_def write_jobs_cons [of "Suc i"])
qed

lemma write_batch_run:
  assumes "i < length ns" "k \<le> i" "\<forall>j < Suc i - k. ns ! (k + j) = ns ! k + word_of_nat j"
  shows "\<forall>j < write_batch (length ns - Suc i) (Suc i - k) (ns ! i) (write_jobs ns i).
           ns ! (k + j) = ns ! k + word_of_nat j"
  using assms
proof (induction "length ns - i" arbitrary: i rule: less_induct)
  case less
  show ?case
  proof (cases "Suc i < length ns \<and> \<not> Suc i - k > 256 \<and> ns ! Suc i = ns ! i + 1")
    case True
    have "ns ! (k + (i - k)) = ns ! k + word_of_nat (i - k)"
      using less.prems by (intro less.prems(3) [rule_format]) simp
    with True less.prems have "ns ! (k + (Suc i - k)) = ns ! k + word_of_nat (Suc i - k)"
      by (simp add: Suc_diff_le algebra_simps)
    then have "\<forall>j < Suc (Suc i) - k. ns ! (k + j) = ns ! k + word_of_nat j"
      using less.prems by (auto simp: less_Suc_eq Suc_diff_le)
    then have "\<forall>j < write_batch (length ns - Suc (Suc i)) (Suc (Suc i) - k) (ns ! Suc i)
                 (write_jobs ns (Suc i)). ns ! (k + j) = ns ! k + word_of_nat j"
      using True less.prems by (intro less.hyps) auto
    with True less.prems show ?thesis
      by (simp add: write_batch_step Suc_diff_le)
  next
    case False
    then consider "\<not> Suc i < length ns" | "Suc i < length ns" "Suc i - k > 256 \<or> ns ! Suc i \<noteq> ns ! i + 1"
      by blast
    then show ?thesis
    proof cases
      case 1
      with less.prems show ?thesis by simp
    next
      case 2
      with less.prems show ?thesis by (simp only: write_batch_step if_True)
    qed
  qed
qed

lemma write_addr_offset: "i < 2 ^ 20 \<Longrightarrow> unat (write_addr i - 0x50000) = 512 * i"
  by (simp add: write_addr_def push_bit_eq_mult unat_word_ariths unat_of_nat mult.commute)

lemma receive_write_sector_packet:
  assumes "k + i < length ns" "length ns \<le> 128" "length ds = length ns"
    and "\<forall>d \<in> set ds. length d = 512"
  shows "card_receive_write ops (write_sector_packet cnt (concat ds) (write_jobs ns k) b i) c =
    card_write ops (ns ! k + word_of_nat i) (ds ! (k + i)) c"
proof -
  have "subbuf (512 * (k + i)) 512 (concat ds) = ds ! (k + i)"
    using assms by (intro subbuf_concat_slots) auto
  moreover have "unat (le32_at (write_jobs ns k) (9 * i + 1) - 0x50000) = 512 * (k + i)"
    using assms write_jobs_field [of k i ns] write_addr_offset [of "k + i"] by simp
  moreover have "subbuf 5 4 (write_jobs ns k) = le32_bytes (ns ! k)"
    using assms by (simp add: write_jobs_cons)
  moreover have "(ucast (word_of_nat i :: u8) :: u32) = word_of_nat i"
    using assms by (simp add: word_unat_eq_iff unat_of_nat unsigned_ucast_eq take_bit_eq_mod)
  ultimately show ?thesis
    by (simp add: card_receive_write_def write_sector_packet_def mreq_def Let_def)
qed

lemma fold_upt_split:
  "a \<le> m \<Longrightarrow> m \<le> b \<Longrightarrow> fold f [a ..< b] s = fold f [m ..< b] (fold f [a ..< m] s)"
  using upt_add_eq_append [of a m "b - m"] by simp

lemma fold_upt_shift: "fold f [k ..< k + b] s = fold (\<lambda>i. f (k + i)) [0 ..< b] s"
  by (induction b arbitrary: s) simp_all

lemma process_write_batch:
  assumes "k + b \<le> length ns" "length ns \<le> 128" "length ds = length ns"
    and "\<forall>d \<in> set ds. length d = 512" "\<forall>j < b. ns ! (k + j) = ns ! k + word_of_nat j"
  shows "jb_card (process_ethernet_write_sectors_job ops (concat ds) (write_jobs ns k) b s) =
    fold (\<lambda>i. card_write ops (ns ! i) (ds ! i)) [k ..< k + b] (jb_card s)"
proof -
  have "fold (card_receive_write ops)
      (map (write_sector_packet (jb_batch_counter s) (concat ds) (write_jobs ns k) b) [0 ..< b]) (jb_card s)
    = fold (\<lambda>i. card_write ops (ns ! (k + i)) (ds ! (k + i))) [0 ..< b] (jb_card s)"
    unfolding fold_map
    by (rule fold_cong) (use assms in \<open>auto simp: receive_write_sector_packet fun_eq_iff\<close>)
  then show ?thesis
    by (simp add: process_ethernet_write_sectors_job_def Let_def fold_upt_shift)
qed

lemma process_write_jobs:
  assumes "length ns \<le> 128" "length ds = length ns" "\<forall>d \<in> set ds. length d = 512"
  shows "k \<le> length ns \<Longrightarrow> \<not> jb_exited s \<Longrightarrow>
    jb_card (process_jobs ops (concat ds) (length ns - k) (write_jobs ns k) s) =
      fold (\<lambda>i. card_write ops (ns ! i) (ds ! i)) [k ..< length ns] (jb_card s)
    \<and> jb_result (process_jobs ops (concat ds) (length ns - k) (write_jobs ns k) s) = jb_result s
    \<and> \<not> jb_exited (process_jobs ops (concat ds) (length ns - k) (write_jobs ns k) s)"
proof (induction "length ns - k" arbitrary: k s rule: less_induct)
  case less
  show ?case
  proof (cases "k = length ns")
    case True
    with less.prems show ?thesis by (simp add: process_jobs.simps)
  next
    case False
    then have k: "k < length ns" using less.prems by simp
    define b where "b = write_batch (length ns - Suc k) 1 (ns ! k) (write_jobs ns k)"
    have b: "0 < b" "k + b \<le> length ns"
      using write_batch_bounds [of 1 "length ns - Suc k" "ns ! k" "write_jobs ns k"] k
      unfolding b_def by linarith+
    have run: "\<forall>j < b. ns ! (k + j) = ns ! k + word_of_nat j"
      using write_batch_run [OF k, of k] by (simp add: b_def)
    let ?s' = "process_ethernet_write_sectors_job ops (concat ds) (write_jobs ns k) b s"
    have rec: "process_jobs ops (concat ds) (length ns - k) (write_jobs ns k) s =
        process_jobs ops (concat ds) (length ns - (k + b)) (write_jobs ns (k + b)) ?s'"
      using k less.prems drop_write_jobs [OF b(2)] b_def
      by (subst process_jobs.simps) (simp add: write_jobs_head Let_def)
    have s': "\<not> jb_exited ?s'" "jb_result ?s' = jb_result s"
      using less.prems by (simp_all add: process_ethernet_write_sectors_job_def Let_def)
    have "fold (\<lambda>i. card_write ops (ns ! i) (ds ! i)) [k ..< length ns] (jb_card s) =
        fold (\<lambda>i. card_write ops (ns ! i) (ds ! i)) [k + b ..< length ns] (jb_card ?s')"
      unfolding process_write_batch [OF b(2) assms run] using b by (intro fold_upt_split) simp_all
    then show ?thesis
      unfolding rec using less.hyps [of "k + b" ?s'] b k s' by simp
  qed
qed

end
