(* ===== verification/SectorStore.thy ===== *)
theory SectorStore
  imports Prelude
begin

text \<open>
  The interface between the block layer and everything above it.  The C code declares
  \<open>read_sector\<close> and \<open>write_sector\<close> through the macro \<open>DIRTYMOCK\<close>, so that its tests can
  put another implementation under the file system code; in the same way the file system
  definitions take a \<open>sector_io\<close> argument.  \<open>rd\<close> gives \<open>None\<close> and \<open>wr\<close> gives
  \<open>False\<close> where the C function returns non-zero.

  The locale states what a client may rely on.  A write changes exactly one sector of the disk.
  A stable sector reads as its disk content, and reading it leaves the disk (but perhaps not the
  store) alone; a sector just written is stable.  A resident sector can be read without changing
  the store at all, and writes to resident sectors keep every resident sector resident.
\<close>

record 's sector_io =
  rd :: "u32 \<Rightarrow> 's \<Rightarrow> sector option \<times> 's"          \<comment> \<open>\<open>CACHE_YES\<close>\<close>
  rd_nocache :: "u32 \<Rightarrow> 's \<Rightarrow> sector option \<times> 's"  \<comment> \<open>\<open>CACHE_NO\<close>\<close>
  wr :: "u32 \<Rightarrow> sector \<Rightarrow> 's \<Rightarrow> bool \<times> 's"
  flush :: "'s \<Rightarrow> 's"                              \<comment> \<open>\<open>execute_write_queue\<close>\<close>

definition after_rd :: "'s sector_io \<Rightarrow> u32 \<Rightarrow> 's \<Rightarrow> 's" where
  "after_rd io n s = snd (rd io n s)"

definition after_wr :: "'s sector_io \<Rightarrow> u32 \<Rightarrow> sector \<Rightarrow> 's \<Rightarrow> 's" where
  "after_wr io n b s = snd (wr io n b s)"

locale sector_read =
  fixes io :: "'s sector_io"
    and inv :: "'s \<Rightarrow> bool"
    and disk :: "'s \<Rightarrow> u32 \<Rightarrow> sector"
    and stable :: "'s \<Rightarrow> u32 \<Rightarrow> bool"
  assumes disk_length: "inv s \<Longrightarrow> length (disk s n) = 512"
    and rd_value: "inv s \<Longrightarrow> stable s n \<Longrightarrow> fst (rd io n s) = Some (disk s n)"
    and rd_inv: "inv s \<Longrightarrow> stable s n \<Longrightarrow> inv (after_rd io n s)"
    and rd_disk: "inv s \<Longrightarrow> stable s n \<Longrightarrow> disk (after_rd io n s) = disk s"
    and rd_stable: "inv s \<Longrightarrow> stable s n \<Longrightarrow> stable s m \<Longrightarrow> stable (after_rd io n s) m"
begin

lemma rd_eq: "inv s \<Longrightarrow> stable s n \<Longrightarrow> rd io n s = (Some (disk s n), after_rd io n s)"
  by (simp add: after_rd_def prod_eq_iff rd_value)

text \<open>A client's reads keep everything it knows of the store.\<close>

lemmas rd_keeps = rd_inv rd_disk rd_stable

end

locale sector_store = sector_read io inv disk stable
  for io :: "'s sector_io" and inv :: "'s \<Rightarrow> bool" and disk :: "'s \<Rightarrow> u32 \<Rightarrow> sector"
    and stable :: "'s \<Rightarrow> u32 \<Rightarrow> bool" +
  fixes resident :: "'s \<Rightarrow> u32 \<Rightarrow> bool"
  assumes resident_stable: "inv s \<Longrightarrow> resident s n \<Longrightarrow> stable s n"
    and rd_resident: "inv s \<Longrightarrow> resident s n \<Longrightarrow> after_rd io n s = s"
    and wr_value: "inv s \<Longrightarrow> length b = 512 \<Longrightarrow> fst (wr io n b s)"
    and wr_inv: "inv s \<Longrightarrow> length b = 512 \<Longrightarrow> inv (after_wr io n b s)"
    and wr_disk: "inv s \<Longrightarrow> length b = 512 \<Longrightarrow> disk (after_wr io n b s) = (disk s)(n := b)"
    and wr_stable: "inv s \<Longrightarrow> length b = 512 \<Longrightarrow> stable (after_wr io n b s) n"
    and wr_resident: "inv s \<Longrightarrow> resident s n \<Longrightarrow> length b = 512 \<Longrightarrow> resident s m \<Longrightarrow>
      resident (after_wr io n b s) m"
    and flush_inv: "inv s \<Longrightarrow> inv (flush io s)"
    and flush_disk: "inv s \<Longrightarrow> disk (flush io s) = disk s"
    and flush_resident: "inv s \<Longrightarrow> resident s m \<Longrightarrow> resident (flush io s) m"
begin

lemma rd_res [simp]: "inv s \<Longrightarrow> resident s n \<Longrightarrow> rd io n s = (Some (disk s n), s)"
  by (simp add: rd_eq resident_stable rd_resident)

lemma wr_eq [simp]:
  "inv s \<Longrightarrow> length b = 512 \<Longrightarrow> wr io n b s = (True, after_wr io n b s)"
  by (simp add: after_wr_def prod_eq_iff wr_value)

lemmas wr_keeps [simp] = wr_inv wr_disk wr_resident
lemmas flush_keeps [simp] = flush_inv flush_disk flush_resident

end

text \<open>Resident sectors keep the contract of stable ones, and stay resident under reads.\<close>

sublocale sector_store \<subseteq> res: sector_read io inv disk resident
  by unfold_locales (simp_all add: disk_length rd_resident)

text \<open>
  A store that is nothing but its sectors: the contract met in the simplest way, used where a
  property is applied to a concrete volume.
\<close>

definition mem_io :: "(u32 \<Rightarrow> sector) sector_io" where
  "mem_io = \<lparr>rd = (\<lambda>n s. (Some (s n), s)), rd_nocache = (\<lambda>n s. (Some (s n), s)),
     wr = (\<lambda>n b s. (True, s(n := b))), flush = id\<rparr>"

definition mem_inv :: "(u32 \<Rightarrow> sector) \<Rightarrow> bool" where
  "mem_inv s \<longleftrightarrow> (\<forall>n. length (s n) = 512)"

interpretation mem: sector_store mem_io mem_inv "\<lambda>s. s" "\<lambda>_ _. True" "\<lambda>_ _. True"
  by unfold_locales (simp_all add: mem_io_def mem_inv_def after_rd_def after_wr_def)

text \<open>A blank volume with the given sectors.\<close>

definition mem_of :: "(u32 \<times> sector) list \<Rightarrow> u32 \<Rightarrow> sector" where
  "mem_of xs n = (case map_of xs n of Some b \<Rightarrow> b | None \<Rightarrow> replicate 512 0)"

end
