(* ===== verification/SectorCache.thy ===== *)
theory SectorCache
  imports JobQueue SectorStore
begin

text \<open>
  The block layer of \<open>mega65_ftp.c\<close>: the write queue (\<open>queue_write_sector\<close>,
  \<open>execute_write_queue\<close>), the sector cache and \<open>read_sector\<close> / \<open>write_sector\<close>, over
  either a MEGA65 reached by ethernet or a local device file.  It provides the
  \<open>sector_store\<close> interface.
\<close>

section \<open>The device file\<close>

text \<open>\<open>fsdcard\<close>, seen as the function from byte offsets to bytes.\<close>

definition read_sector_from_device :: "u32 \<Rightarrow> (nat \<Rightarrow> u8) \<Rightarrow> sector" where
  "read_sector_from_device n f = farray_get f (unat n * 512) 512"

definition write_sector_to_device :: "u32 \<Rightarrow> sector \<Rightarrow> (nat \<Rightarrow> u8) \<Rightarrow> nat \<Rightarrow> u8" where
  "write_sector_to_device n b f = farray_blit (unat n * 512) b f"

text \<open>What the code relies on of any card, the remote one included.\<close>

locale sector_card =
  fixes ops :: "'c card_ops"
  assumes card_length: "length (card_read ops c n) = 512"
    and card_read_write:
      "length b = 512 \<Longrightarrow> card_read ops (card_write ops n b c) m = (if m = n then b else card_read ops c m)"
begin

lemma card_read_writes:
  "distinct (map fst ps) \<Longrightarrow> \<forall>p \<in> set ps. length (snd p) = 512 \<Longrightarrow>
   card_read ops (fold (\<lambda>p. card_write ops (fst p) (snd p)) ps c) m =
     overlay (map_of ps) (card_read ops c) m"
proof (induction ps arbitrary: c)
  case (Cons p ps)
  have IH: "card_read ops (fold (\<lambda>p. card_write ops (fst p) (snd p)) ps d) m =
      overlay (map_of ps) (card_read ops d) m" for d
    using Cons by simp
  show ?case
  proof (cases "m = fst p")
    case True
    with Cons.prems have "map_of ps m = None"
      by (simp add: map_of_eq_None_iff)
    with True Cons.prems show ?thesis
      unfolding fold_Cons comp_apply IH by (cases p) (simp add: card_read_write overlay_def split: option.split)
  next
    case False
    with Cons.prems show ?thesis
      unfolding fold_Cons comp_apply IH by (cases p) (simp add: card_read_write overlay_def split: option.split)
  qed
qed simp

end

lemma farray_get_blit:
  "length b = n \<Longrightarrow> farray_get (farray_blit off b f) off n = b"
  by (rule nth_equalityI) (auto simp: farray_get_def farray_blit_def)

lemma farray_get_blit_other:
  "off' + n \<le> off \<or> off + length b \<le> off' \<Longrightarrow>
   farray_get (farray_blit off b f) off' n = farray_get f off' n"
  by (auto simp: farray_get_def farray_blit_def)

lemma length_farray_get [simp]: "length (farray_get f off n) = n"
  by (simp add: farray_get_def)

definition device_ops :: "(nat \<Rightarrow> u8) card_ops" where
  "device_ops = \<lparr>card_read = (\<lambda>f n. read_sector_from_device n f),
     card_write = write_sector_to_device, card_mount = (\<lambda>_ _. 0)\<rparr>"

interpretation device: sector_card device_ops
proof
  show "length (card_read device_ops c n) = 512" for c n
    by (simp add: device_ops_def read_sector_from_device_def)
  show "card_read device_ops (card_write device_ops n b c) m = (if m = n then b else card_read device_ops c m)"
    if "length b = 512" for n b c m
  proof (cases "m = n")
    case True
    with that show ?thesis
      by (simp add: device_ops_def read_sector_from_device_def write_sector_to_device_def farray_get_blit)
  next
    case False
    then have "unat m < unat n \<or> unat n < unat m"
      by (metis linorder_neqE_nat word_unat_eq_iff)
    with that False show ?thesis
      by (auto simp: device_ops_def read_sector_from_device_def write_sector_to_device_def
          farray_get_blit_other)
  qed
qed

section \<open>State\<close>

text \<open>
  Arrays with a count are their live prefixes: \<open>write_data\<close> is \<open>write_data_buffer\<close> cut into
  its 512-byte slots, \<open>sector_cache\<close> pairs \<open>sector_cache_sectors\<close> with \<open>sector_cache\<close>;
  \<open>write_sector_count\<close> and \<open>sector_cache_count\<close> are their lengths.
\<close>

record 'c blk =
  blk_card :: 'c
  direct_sdcard_device :: bool
  fsdcard :: "nat \<Rightarrow> u8"
  job_q :: job_queue
  eth_res :: eth_result
  write_batch_counter :: u8
  write_data :: "sector list"
  write_sector_numbers :: "u32 list"
  write_buffer_offset :: nat
  sector_cache :: "(u32 \<times> sector) list"
  exited :: bool

definition sector_cache_size :: nat where
  "sector_cache_size = 4096"

definition run_queue :: "'c card_ops \<Rightarrow> 'c blk \<Rightarrow> 'c blk" where
  "run_queue ops s =
     (let (q, j) = queue_execute ops (concat (write_data s)) (job_q s)
            \<lparr>jb_card = blk_card s, jb_result = eth_res s, jb_batch_counter = write_batch_counter s,
             jb_sent = [], jb_exited = exited s\<rparr>
      in s\<lparr>job_q := q, blk_card := jb_card j, eth_res := jb_result j,
           write_batch_counter := jb_batch_counter j, exited := jb_exited j\<rparr>)"

definition execute_write_queue :: "'c card_ops \<Rightarrow> 'c blk \<Rightarrow> 'c blk" where
  "execute_write_queue ops s =
     (if write_sector_numbers s = [] then s
      else let s1 = s\<lparr>job_q := fold (\<lambda>i. queue_physical_write_sector (write_sector_numbers s ! i) (write_addr i))
                          [0 ..< length (write_sector_numbers s)] (job_q s)\<rparr>;
               s2 = run_queue ops s1
           in s2\<lparr>write_buffer_offset := 0, write_data := [], write_sector_numbers := []\<rparr>)"

definition queue_write_sector :: "'c card_ops \<Rightarrow> u32 \<Rightarrow> sector \<Rightarrow> 'c blk \<Rightarrow> 'c blk" where
  "queue_write_sector ops sector_number buffer s =
     (let i = first_index (\<lambda>n. n = sector_number) (write_sector_numbers s) in
      if i < length (write_sector_numbers s) then s\<lparr>write_data := (write_data s)[i := buffer]\<rparr>
      else let s1 = (if write_buffer_offset s \<ge> 32768 then execute_write_queue ops s else s)
           in s1\<lparr>write_data := write_data s1 @ [buffer],
                 write_buffer_offset := write_buffer_offset s1 + 512,
                 write_sector_numbers := write_sector_numbers s1 @ [sector_number]\<rparr>)"

text \<open>The loop that ends both \<open>read_sector\<close> and \<open>write_sector\<close>: store in cache, or update it.\<close>

definition cache_store :: "'c card_ops \<Rightarrow> u32 \<Rightarrow> sector \<Rightarrow> 'c blk \<Rightarrow> 'c blk" where
  "cache_store ops sector_number buffer s =
     (let i = first_index (\<lambda>e. fst e = sector_number) (sector_cache s) in
      if i < sector_cache_size then
        (if i < length (sector_cache s)
         then s\<lparr>sector_cache := (sector_cache s)[i := (sector_number, buffer)]\<rparr>
         else s\<lparr>sector_cache := sector_cache s @ [(sector_number, buffer)]\<rparr>)
      else (execute_write_queue ops s)\<lparr>sector_cache := []\<rparr>)"

definition read_batch_size :: "nat \<Rightarrow> nat" where
  "read_batch_size readAhead = (if readAhead > 16 then readAhead else 16)"

definition read_sector ::
  "'c card_ops \<Rightarrow> bool \<Rightarrow> nat \<Rightarrow> u32 \<Rightarrow> 'c blk \<Rightarrow> sector option \<times> 'c blk" where
  "read_sector ops useCache readAhead sector_number s =
     (if direct_sdcard_device s then (Some (read_sector_from_device sector_number (fsdcard s)), s)
      else case (if useCache then map_of (sector_cache s) sector_number else None) of
        Some b \<Rightarrow> (Some b, s)
      | None \<Rightarrow>
          let n = read_batch_size readAhead;
              s1 = run_queue ops (s\<lparr>job_q := queue_read_sectors sector_number (word_of_nat n) (job_q s)\<rparr>);
              s2 = fold (\<lambda>k t. cache_store ops (sector_number + word_of_nat k)
                              (farray_get (queue_read_data (eth_res t)) (512 * k) 512) t)
                     [0 ..< n] s1
          in (Some (farray_get (queue_read_data (eth_res s2)) 0 512), s2))"

definition write_sector :: "'c card_ops \<Rightarrow> u32 \<Rightarrow> sector \<Rightarrow> 'c blk \<Rightarrow> bool \<times> 'c blk" where
  "write_sector ops sector_number buffer s =
     (if direct_sdcard_device s
      then (True, s\<lparr>fsdcard := write_sector_to_device sector_number buffer (fsdcard s)\<rparr>)
      else (True, cache_store ops sector_number buffer (queue_write_sector ops sector_number buffer s)))"

definition blk_io :: "'c card_ops \<Rightarrow> 'c blk sector_io" where
  "blk_io ops = \<lparr>rd = read_sector ops True 0, rd_nocache = read_sector ops False 0,
     wr = write_sector ops, flush = execute_write_queue ops\<rparr>"

section \<open>Invariant and abstract disk\<close>

text \<open>
  The disk the host sees: the card, overlaid with the queued writes.  The write queue and cache
  never outgrow their arrays, and a coherent cache agrees with the disk.
\<close>

definition pending :: "'c blk \<Rightarrow> u32 \<rightharpoonup> sector" where
  "pending s = map_of (zip (write_sector_numbers s) (write_data s))"

definition blk_disk :: "'c card_ops \<Rightarrow> 'c blk \<Rightarrow> u32 \<Rightarrow> sector" where
  "blk_disk ops s n =
     (if direct_sdcard_device s then read_sector_from_device n (fsdcard s)
      else overlay (pending s) (card_read ops (blk_card s)) n)"

definition blk_wf :: "'c card_ops \<Rightarrow> 'c blk \<Rightarrow> bool" where
  "blk_wf ops s \<longleftrightarrow> sector_card ops \<and> \<not> exited s
     \<and> length (write_data s) = length (write_sector_numbers s)
     \<and> length (write_sector_numbers s) \<le> 64
     \<and> write_buffer_offset s = 512 * length (write_sector_numbers s)
     \<and> distinct (write_sector_numbers s) \<and> (\<forall>d \<in> set (write_data s). length d = 512)
     \<and> length (sector_cache s) \<le> sector_cache_size \<and> distinct (map fst (sector_cache s))
     \<and> (\<forall>e \<in> set (sector_cache s). length (snd e) = 512)
     \<and> queue_jobs (job_q s) = 0 \<and> queue_addr (job_q s) = queue_base"

definition coherent :: "'c card_ops \<Rightarrow> 'c blk \<Rightarrow> bool" where
  "coherent ops s \<longleftrightarrow> direct_sdcard_device s \<or> (\<forall>n b. map_of (sector_cache s) n = Some b \<longrightarrow> b = blk_disk ops s n)"

definition blk_inv :: "'c card_ops \<Rightarrow> 'c blk \<Rightarrow> bool" where
  "blk_inv ops s \<longleftrightarrow> blk_wf ops s \<and> coherent ops s"

definition cached :: "'c blk \<Rightarrow> u32 \<Rightarrow> bool" where
  "cached s n \<longleftrightarrow> map_of (sector_cache s) n \<noteq> None"

definition blk_resident :: "'c blk \<Rightarrow> u32 \<Rightarrow> bool" where
  "blk_resident s n \<longleftrightarrow> direct_sdcard_device s \<or> cached s n"

definition blk_stable :: "'c blk \<Rightarrow> u32 \<Rightarrow> bool" where
  "blk_stable s n \<longleftrightarrow> blk_resident s n \<or> (\<forall>k < 16. n + word_of_nat k \<notin> set (write_sector_numbers s))"

lemma blk_disk_remote:
  "\<not> direct_sdcard_device s \<Longrightarrow> blk_disk ops s = overlay (pending s) (card_read ops (blk_card s))"
  by (simp add: blk_disk_def fun_eq_iff)

lemma blk_disk_direct:
  "direct_sdcard_device s \<Longrightarrow> blk_disk ops s = (\<lambda>n. read_sector_from_device n (fsdcard s))"
  by (simp add: blk_disk_def fun_eq_iff)

lemma blk_disk_cache [simp]: "blk_disk ops (s\<lparr>sector_cache := c\<rparr>) = blk_disk ops s"
  by (simp add: blk_disk_def pending_def fun_eq_iff)

lemma blk_wf_card: "blk_wf ops s \<Longrightarrow> sector_card ops"
  by (simp add: blk_wf_def)

lemma pending_None: "blk_wf ops s \<Longrightarrow> n \<notin> set (write_sector_numbers s) \<Longrightarrow> pending s n = None"
  by (auto simp: pending_def blk_wf_def map_of_eq_None_iff dest: set_zip_leftD)

subsection \<open>Flushing\<close>

lemma fold_index_zip:
  "length ns = length ds \<Longrightarrow>
   fold (\<lambda>i. f (ns ! i) (ds ! i)) [0 ..< length ns] s = fold (\<lambda>p. f (fst p) (snd p)) (zip ns ds) s"
proof -
  assume "length ns = length ds"
  then have "zip ns ds = map (\<lambda>i. (ns ! i, ds ! i)) [0 ..< length ns]"
    by (intro nth_equalityI) auto
  then show ?thesis by (simp add: fold_map comp_def)
qed

lemma fold_queue_writes:
  assumes "queue_jobs q = 0" "queue_addr q = queue_base"
  shows "m \<le> 64 \<Longrightarrow>
    fold (\<lambda>i. queue_physical_write_sector (f i) (write_addr i)) [0 ..< m] q =
      \<lparr>queue_cmds = (if m = 0 then queue_cmds q
                     else concat (map (\<lambda>i. physical_write_job (f i) (write_addr i)) [0 ..< m])),
       queue_addr = queue_base + word_of_nat (9 * m), queue_jobs = word_of_nat m\<rparr>"
proof (induction m)
  case 0
  with assms show ?case by (cases q) simp
next
  case (Suc m)
  have len: "length (concat (map (\<lambda>i. physical_write_job (f i) (write_addr i)) [0 ..< m])) = 9 * m"
    by (subst length_concat_slots [where w = 9]) auto
  have "unat (word_of_nat (9 * m) :: u16) = 9 * m"
    using Suc.prems by (simp add: unat_word_ariths unat_of_nat)
  with Suc len show ?case
    by (auto simp: queue_physical_write_sector_def queue_add_job_def algebra_simps)
qed

definition flushed_card :: "'c card_ops \<Rightarrow> 'c blk \<Rightarrow> 'c" where
  "flushed_card ops s =
     fold (\<lambda>p. card_write ops (fst p) (snd p)) (zip (write_sector_numbers s) (write_data s)) (blk_card s)"

lemma run_queue_frame [frame_simps]:
  "direct_sdcard_device (run_queue ops s) = direct_sdcard_device s"
  "fsdcard (run_queue ops s) = fsdcard s"
  "write_data (run_queue ops s) = write_data s"
  "write_sector_numbers (run_queue ops s) = write_sector_numbers s"
  "write_buffer_offset (run_queue ops s) = write_buffer_offset s"
  "sector_cache (run_queue ops s) = sector_cache s"
  by (simp_all add: run_queue_def split: prod.split)

lemma execute_write_queue_frame [frame_simps]:
  "direct_sdcard_device (execute_write_queue ops s) = direct_sdcard_device s"
  "fsdcard (execute_write_queue ops s) = fsdcard s"
  "sector_cache (execute_write_queue ops s) = sector_cache s"
  "write_sector_numbers (execute_write_queue ops s) = []"
  by (simp_all add: execute_write_queue_def frame_simps Let_def)

lemma run_write_queue:
  assumes "blk_wf ops s" "write_sector_numbers s \<noteq> []"
    and "s1 = s\<lparr>job_q := fold (\<lambda>i. queue_physical_write_sector (write_sector_numbers s ! i) (write_addr i))
                   [0 ..< length (write_sector_numbers s)] (job_q s)\<rparr>"
  shows "blk_card (run_queue ops s1) = flushed_card ops s \<and> eth_res (run_queue ops s1) = eth_res s
    \<and> \<not> exited (run_queue ops s1) \<and> queue_jobs (job_q (run_queue ops s1)) = 0
    \<and> queue_addr (job_q (run_queue ops s1)) = queue_base"
proof -
  let ?ns = "write_sector_numbers s" and ?ds = "write_data s"
  let ?js = "\<lparr>jb_card = blk_card s, jb_result = eth_res s, jb_batch_counter = write_batch_counter s,
             jb_sent = [], jb_exited = exited s\<rparr>"
  have q: "job_q s1 = \<lparr>queue_cmds = write_jobs ?ns 0,
       queue_addr = queue_base + word_of_nat (9 * length ?ns), queue_jobs = word_of_nat (length ?ns)\<rparr>"
    using assms by (simp add: blk_wf_def fold_queue_writes write_jobs_def)
  have n: "unat (word_of_nat (length ?ns) :: u8) = length ?ns"
    using assms by (simp add: blk_wf_def unat_of_nat)
  have "jb_card (process_jobs ops (concat ?ds) (length ?ns) (write_jobs ?ns 0) ?js) =
      fold (\<lambda>i. card_write ops (?ns ! i) (?ds ! i)) [0 ..< length ?ns] (blk_card s)
    \<and> jb_result (process_jobs ops (concat ?ds) (length ?ns) (write_jobs ?ns 0) ?js) = eth_res s
    \<and> \<not> jb_exited (process_jobs ops (concat ?ds) (length ?ns) (write_jobs ?ns 0) ?js)"
    using process_write_jobs [of ?ns ?ds 0 ?js ops] assms by (simp add: blk_wf_def)
  moreover have "fold (\<lambda>i. card_write ops (?ns ! i) (?ds ! i)) [0 ..< length ?ns] (blk_card s) = flushed_card ops s"
    using assms by (simp add: fold_index_zip flushed_card_def blk_wf_def)
  ultimately show ?thesis
    using assms q n by (simp add: run_queue_def queue_execute_def process_jobs_ethernet_def)
qed

lemma execute_write_queue_state:
  assumes "blk_wf ops s"
  shows "blk_card (execute_write_queue ops s) = flushed_card ops s"
    and "eth_res (execute_write_queue ops s) = eth_res s"
    and "blk_wf ops (execute_write_queue ops s)"
  using assms run_write_queue [OF assms _ refl]
  by (auto simp: execute_write_queue_def flushed_card_def blk_wf_def frame_simps Let_def)

lemma execute_write_queue_disk:
  assumes "blk_wf ops s"
  shows "blk_disk ops (execute_write_queue ops s) = blk_disk ops s"
proof
  fix n
  have "card_read ops (flushed_card ops s) n =
      overlay (pending s) (card_read ops (blk_card s)) n"
    unfolding flushed_card_def pending_def
    using assms by (intro sector_card.card_read_writes) (auto simp: blk_wf_def dest: set_zip_rightD)
  then show "blk_disk ops (execute_write_queue ops s) n = blk_disk ops s n"
    using assms by (simp add: blk_disk_def execute_write_queue_state frame_simps pending_def)
qed

lemma execute_write_queue_inv: "blk_inv ops s \<Longrightarrow> blk_inv ops (execute_write_queue ops s)"
  by (simp add: blk_inv_def coherent_def execute_write_queue_state execute_write_queue_disk frame_simps)

subsection \<open>The cache and the queue as maps\<close>

lemma map_of_first_index:
  "first_index (\<lambda>e. fst e = n) xs < length xs \<Longrightarrow>
   map_of (xs[first_index (\<lambda>e. fst e = n) xs := (n, b)]) = (map_of xs)(n \<mapsto> b)"
  by (induction xs) (auto simp: fun_eq_iff)

lemma keys_first_index:
  "first_index (\<lambda>e. fst e = n) xs < length xs \<Longrightarrow>
   map fst (xs[first_index (\<lambda>e. fst e = n) xs := (n, b)]) = map fst xs"
  by (induction xs) auto

lemma map_of_snoc:
  "\<not> first_index (\<lambda>e. fst e = n) xs < length xs \<Longrightarrow> map_of (xs @ [(n, b)]) = (map_of xs)(n \<mapsto> b)"
  by (induction xs) (auto simp: fun_eq_iff)

lemma zip_first_index:
  "length ns = length ds \<Longrightarrow> first_index (\<lambda>m. m = n) ns < length ns \<Longrightarrow>
   map_of (zip ns (ds[first_index (\<lambda>m. m = n) ns := b])) = (map_of (zip ns ds))(n \<mapsto> b)"
  by (induction ns ds rule: list_induct2) (auto simp: fun_eq_iff)

lemma zip_snoc:
  "length ns = length ds \<Longrightarrow> n \<notin> set ns \<Longrightarrow>
   map_of (zip (ns @ [n]) (ds @ [b])) = (map_of (zip ns ds))(n \<mapsto> b)"
  by (induction ns ds rule: list_induct2) (auto simp: fun_eq_iff)

lemma cache_store_frame [frame_simps]:
  "direct_sdcard_device (cache_store ops n b s) = direct_sdcard_device s"
  "fsdcard (cache_store ops n b s) = fsdcard s"
  by (simp_all add: cache_store_def frame_simps Let_def)

lemma cache_store_eth_res:
  "blk_wf ops s \<Longrightarrow> eth_res (cache_store ops n b s) = eth_res s"
  by (simp add: cache_store_def execute_write_queue_state Let_def)

lemma cache_store_map:
  "map_of (sector_cache (cache_store ops n b s)) =
     (if first_index (\<lambda>e. fst e = n) (sector_cache s) < sector_cache_size
      then (map_of (sector_cache s))(n \<mapsto> b) else Map.empty)"
  by (simp add: cache_store_def map_of_first_index map_of_snoc Let_def del: map_of_append)

lemma cache_store_wf:
  assumes "blk_wf ops s" "length b = 512"
  shows "blk_wf ops (cache_store ops n b s)"
proof -
  let ?i = "first_index (\<lambda>e. fst e = n) (sector_cache s)"
  have new: "n \<notin> fst ` set (sector_cache s)" if "\<not> ?i < length (sector_cache s)"
    using that by (auto simp: first_index_less_iff)
  have len: "?i \<le> length (sector_cache s)" by (rule first_index_le)
  have upd: "\<forall>e \<in> set ((sector_cache s)[?i := (n, b)]). length (snd e) = 512"
    using assms by (auto simp: blk_wf_def dest: set_update_subset_insert [THEN subsetD])
  show ?thesis
    using assms execute_write_queue_state(3) [OF assms(1)] new len upd
    by (auto simp: cache_store_def blk_wf_def keys_first_index frame_simps Let_def)
qed

lemma cache_store_disk: "blk_wf ops s \<Longrightarrow> blk_disk ops (cache_store ops n b s) = blk_disk ops s"
  by (simp add: cache_store_def execute_write_queue_disk Let_def)

lemma cache_store_inv:
  "blk_inv ops s \<Longrightarrow> b = blk_disk ops s n \<Longrightarrow> length b = 512 \<Longrightarrow> blk_inv ops (cache_store ops n b s)"
  by (auto simp: blk_inv_def coherent_def cache_store_wf cache_store_disk cache_store_map frame_simps
      split: if_splits)

lemma cache_store_numbers:
  "set (write_sector_numbers (cache_store ops n b s)) \<subseteq> set (write_sector_numbers s)"
  by (simp add: cache_store_def frame_simps Let_def)

text \<open>A cache store that overflows empties the cache, but the write queue with it.\<close>

lemma cache_store_stable:
  "blk_stable s m \<Longrightarrow> blk_stable (cache_store ops n b s) m"
  using cache_store_numbers [of ops n b s]
  by (auto simp: blk_stable_def blk_resident_def cached_def cache_store_def map_of_first_index
      map_of_snoc frame_simps Let_def)

subsection \<open>Queueing a write\<close>

lemma queue_write_sector_frame [frame_simps]:
  "direct_sdcard_device (queue_write_sector ops n b s) = direct_sdcard_device s"
  "fsdcard (queue_write_sector ops n b s) = fsdcard s"
  "sector_cache (queue_write_sector ops n b s) = sector_cache s"
  by (simp_all add: queue_write_sector_def frame_simps Let_def)

lemma queue_write_sector_state:
  assumes "blk_wf ops s" "length b = 512"
  shows queue_write_sector_wf: "blk_wf ops (queue_write_sector ops n b s)"
    and queue_write_sector_disk: "\<not> direct_sdcard_device s \<Longrightarrow>
      blk_disk ops (queue_write_sector ops n b s) = (blk_disk ops s)(n := b)"
proof -
  let ?i = "first_index (\<lambda>m. m = n) (write_sector_numbers s)"
  let ?t = "if write_buffer_offset s \<ge> 32768 then execute_write_queue ops s else s"
  have upd: "\<forall>d \<in> set ((write_data s)[?i := b]). length d = 512"
    using assms by (auto simp: blk_wf_def dest: set_update_subset_insert [THEN subsetD])
  have t: "blk_wf ops ?t" "blk_disk ops ?t = blk_disk ops s"
    using assms by (simp_all add: execute_write_queue_state execute_write_queue_disk)
  have room: "length (write_sector_numbers ?t) < 64"
    using assms by (auto simp: blk_wf_def frame_simps)
  have new: "n \<notin> set (write_sector_numbers ?t)" if "\<not> ?i < length (write_sector_numbers s)"
    using that by (auto simp: first_index_less_iff frame_simps)
  show "blk_wf ops (queue_write_sector ops n b s)"
    using assms upd t room new by (auto simp: queue_write_sector_def blk_wf_def Let_def)
  show "blk_disk ops (queue_write_sector ops n b s) = (blk_disk ops s)(n := b)"
    if "\<not> direct_sdcard_device s"
  proof (cases "?i < length (write_sector_numbers s)")
    case True
    with assms that show ?thesis
      by (auto simp: queue_write_sector_def blk_disk_def pending_def zip_first_index blk_wf_def
          fun_eq_iff Let_def)
  next
    case False
    define u where "u = ?t"
    have u: "length (write_sector_numbers u) = length (write_data u)" "n \<notin> set (write_sector_numbers u)"
        "\<not> direct_sdcard_device u"
      using t new False that by (auto simp: u_def blk_wf_def frame_simps)
    have q: "queue_write_sector ops n b s = u\<lparr>write_data := write_data u @ [b],
        write_buffer_offset := write_buffer_offset u + 512,
        write_sector_numbers := write_sector_numbers u @ [n]\<rparr>"
      using False by (simp add: queue_write_sector_def u_def Let_def)
    have "pending (queue_write_sector ops n b s) = (pending u)(n \<mapsto> b)"
      using u q by (simp add: pending_def zip_snoc del: zip_append map_of_append)
    then have "blk_disk ops (queue_write_sector ops n b s) = (blk_disk ops u)(n := b)"
      using u q by (simp add: blk_disk_remote)
    with t show ?thesis by (simp add: u_def)
  qed
qed

subsection \<open>Reading and writing\<close>

lemma write_sector_value: "fst (write_sector ops n b s)"
  by (simp add: write_sector_def)

lemma write_sector_wf:
  assumes "blk_wf ops s" "length b = 512"
  shows "blk_wf ops (snd (write_sector ops n b s))"
proof (cases "direct_sdcard_device s")
  case True
  with assms show ?thesis by (simp add: write_sector_def blk_wf_def)
next
  case False
  with assms show ?thesis by (simp add: write_sector_def cache_store_wf queue_write_sector_wf)
qed

lemma write_sector_disk:
  assumes "blk_wf ops s" "length b = 512"
  shows "blk_disk ops (snd (write_sector ops n b s)) = (blk_disk ops s)(n := b)"
proof (cases "direct_sdcard_device s")
  case True
  have "card_read device_ops (card_write device_ops n b (fsdcard s)) m =
      (if m = n then b else card_read device_ops (fsdcard s) m)" for m
    using assms by (intro device.card_read_write)
  with True show ?thesis
    by (simp add: write_sector_def blk_disk_direct fun_eq_iff device_ops_def)
next
  case False
  with assms show ?thesis
    by (simp add: write_sector_def cache_store_disk queue_write_sector_wf queue_write_sector_disk)
qed

lemma write_sector_coherent:
  assumes "blk_inv ops s" "length b = 512"
  shows "coherent ops (snd (write_sector ops n b s))"
proof (cases "direct_sdcard_device s")
  case True
  then show ?thesis
    by (simp add: write_sector_def coherent_def)
next
  case False
  have "map_of (sector_cache (snd (write_sector ops n b s))) m = Some d \<Longrightarrow>
      m = n \<and> d = b \<or> m \<noteq> n \<and> map_of (sector_cache s) m = Some d" for m d
    using False by (auto simp: write_sector_def cache_store_map frame_simps split: if_splits)
  with assms show ?thesis
    unfolding coherent_def by (auto simp: write_sector_disk blk_inv_def coherent_def False)
qed

lemma write_sector_inv:
  "blk_inv ops s \<Longrightarrow> length b = 512 \<Longrightarrow> blk_inv ops (snd (write_sector ops n b s))"
  using write_sector_coherent [of ops s b n] write_sector_wf [of ops s b n] by (simp add: blk_inv_def)

lemma write_sector_resident:
  assumes "blk_wf ops s" "blk_resident s n" "blk_resident s m"
  shows "blk_resident (snd (write_sector ops n b s)) m"
proof (cases "direct_sdcard_device s")
  case True
  then show ?thesis by (simp add: write_sector_def blk_resident_def)
next
  case False
  let ?i = "first_index (\<lambda>e. fst e = n) (sector_cache s)"
  have "n \<in> fst ` set (sector_cache s)"
    using False assms by (simp add: blk_resident_def cached_def map_of_eq_None_iff)
  then have "?i < length (sector_cache s)"
    by (auto simp: first_index_less_iff)
  then have "?i < sector_cache_size" using assms by (simp add: blk_wf_def)
  with False assms show ?thesis
    by (simp add: write_sector_def blk_resident_def cached_def cache_store_map frame_simps)
qed

lemma read_replies:
  assumes "sector_card ops" "b \<le> 256"
  shows "\<forall>k < b. farray_get (queue_read_data
      (fold (\<lambda>i. ethernet_process_result n (card_read_reply ops c (n + word_of_nat i))) [0 ..< b] r))
      (512 * k) 512 = card_read ops c (n + word_of_nat k)"
  using assms(2)
proof (induction b)
  case (Suc b)
  let ?r = "fold (\<lambda>i. ethernet_process_result n (card_read_reply ops c (n + word_of_nat i))) [0 ..< b] r"
  have len: "length (card_read ops c m) = 512" for m
    using assms(1) by (rule sector_card.card_length)
  have off: "unat (word_of_nat b * 512 :: u32) = 512 * b"
    using Suc.prems by (simp add: unat_word_ariths unat_of_nat)
  have "ethernet_process_result n (card_read_reply ops c (n + word_of_nat b)) ?r =
      ?r\<lparr>queue_read_data := farray_blit (512 * b) (card_read ops c (n + word_of_nat b)) (queue_read_data ?r)\<rparr>"
    by (simp add: ethernet_process_result_def card_read_reply_def mrsp_def off len
        subbuf_Cons subbuf_append_right Let_def)
  with Suc len show ?case
    by (auto simp: less_Suc_eq farray_get_blit farray_get_blit_other)
qed simp

lemma run_read_job:
  assumes "blk_wf ops s" "b \<le> 255"
    and "s1 = run_queue ops (s\<lparr>job_q := queue_read_sectors n (word_of_nat b) (job_q s)\<rparr>)"
  shows "\<not> exited s1 \<and> queue_jobs (job_q s1) = 0 \<and> queue_addr (job_q s1) = queue_base
    \<and> blk_card s1 = blk_card s"
    and "\<forall>k < b. farray_get (queue_read_data (eth_res s1)) (512 * k) 512 =
      card_read ops (blk_card s) (n + word_of_nat k)"
proof -
  let ?c = "ucast (word_of_nat b :: u16) :: u32"
  have q: "queue_read_sectors n (word_of_nat b) (job_q s) =
      \<lparr>queue_cmds = read_sectors_job n (word_of_nat b), queue_addr = queue_base + 7, queue_jobs = 1\<rparr>"
    using assms(1) by (cases "job_q s")
      (simp add: queue_read_sectors_def queue_add_job_def blk_wf_def read_sectors_job_def)
  have c: "?c = word_of_nat b"
    using assms(2) by (simp add: word_unat_eq_iff unat_of_nat unsigned_ucast_eq take_bit_eq_mod)
  have b1: "byte_of (word_of_nat b) 1 = 0" and b0: "unat (byte_of (word_of_nat b) 0) = b"
    using assms(2)
    by (simp_all add: byte_of_def word_unat_eq_iff unsigned_ucast_eq take_bit_eq_mod unat_of_nat
        unsigned_drop_bit_eq drop_bit_eq_div)
  have x: "\<not> exited s" using assms(1) by (simp add: blk_wf_def)
  let ?js = "\<lparr>jb_card = blk_card s, jb_result = eth_res s, jb_batch_counter = write_batch_counter s,
             jb_sent = [], jb_exited = exited s\<rparr>"
  have job: "process_jobs ops (concat (write_data s)) 1 (read_sectors_job n (word_of_nat b)) ?js =
      process_ethernet_read_sectors_job ops (read_sectors_job n (word_of_nat b)) ?js"
    using x by (subst process_jobs.simps)
      (simp add: read_sectors_job_def process_jobs.simps [of _ _ 0] Let_def)
  have rd: "jb_card (process_ethernet_read_sectors_job ops (read_sectors_job n (word_of_nat b)) ?js) = blk_card s"
    "jb_exited (process_ethernet_read_sectors_job ops (read_sectors_job n (word_of_nat b)) ?js) = exited s"
    "jb_result (process_ethernet_read_sectors_job ops (read_sectors_job n (word_of_nat b)) ?js) =
       fold (\<lambda>i. ethernet_process_result n (card_read_reply ops (blk_card s) (n + word_of_nat i)))
         [0 ..< b] (eth_res s)"
    using b1 b0 by (simp_all add: process_ethernet_read_sectors_job_def read_sectors_job_def mreq_def c
        le16_bytes_def Let_def)
  have s1: "blk_card s1 = blk_card s" "exited s1 = exited s" "queue_jobs (job_q s1) = 0"
      "queue_addr (job_q s1) = queue_base"
      "eth_res s1 = fold (\<lambda>i. ethernet_process_result n (card_read_reply ops (blk_card s) (n + word_of_nat i)))
             [0 ..< b] (eth_res s)"
    unfolding assms(3) run_queue_def queue_execute_def process_jobs_ethernet_def
    using job by (simp_all add: q rd)
  then show "\<not> exited s1 \<and> queue_jobs (job_q s1) = 0 \<and> queue_addr (job_q s1) = queue_base
      \<and> blk_card s1 = blk_card s"
    using x by simp
  show "\<forall>k < b. farray_get (queue_read_data (eth_res s1)) (512 * k) 512 =
      card_read ops (blk_card s) (n + word_of_nat k)"
    unfolding s1 using assms by (intro read_replies) (auto simp: blk_wf_def)
qed

lemma blk_disk_length: "blk_wf ops s \<Longrightarrow> length (blk_disk ops s n) = 512"
  by (auto simp: blk_disk_def read_sector_from_device_def overlay_def pending_def blk_wf_def
      sector_card.card_length split: option.split dest!: map_of_SomeD set_zip_rightD)

lemma cache_fill:
  assumes "blk_inv ops t"
    and "\<forall>k \<in> set ks. farray_get (queue_read_data (eth_res t)) (512 * k) 512 = blk_disk ops t (n + word_of_nat k)"
    and "t' = fold (\<lambda>k t. cache_store ops (n + word_of_nat k)
                  (farray_get (queue_read_data (eth_res t)) (512 * k) 512) t) ks t"
  shows "blk_inv ops t' \<and> blk_disk ops t' = blk_disk ops t \<and> eth_res t' = eth_res t
    \<and> (\<forall>m. blk_stable t m \<longrightarrow> blk_stable t' m)"
  using assms
proof (induction ks arbitrary: t)
  case (Cons k ks)
  let ?b = "farray_get (queue_read_data (eth_res t)) (512 * k) 512"
  let ?u = "cache_store ops (n + word_of_nat k) ?b t"
  have wf: "blk_wf ops t" using Cons.prems by (simp add: blk_inv_def)
  have "blk_inv ops ?u"
    by (rule cache_store_inv) (use Cons.prems blk_disk_length [OF wf] in simp_all)
  then have u: "blk_inv ops ?u" "blk_disk ops ?u = blk_disk ops t" "eth_res ?u = eth_res t"
    using wf by (simp_all add: cache_store_disk cache_store_eth_res)
  have "blk_inv ops t' \<and> blk_disk ops t' = blk_disk ops ?u \<and> eth_res t' = eth_res ?u
      \<and> (\<forall>m. blk_stable ?u m \<longrightarrow> blk_stable t' m)"
    using Cons.prems u by (intro Cons.IH) simp_all
  with u show ?case by (auto intro: cache_store_stable)
qed simp

lemma read_sector_hit:
  "\<not> direct_sdcard_device s \<Longrightarrow> map_of (sector_cache s) n = Some b \<Longrightarrow>
   read_sector ops True ra n s = (Some b, s)"
  by (simp add: read_sector_def)

lemma read_sector_resident:
  assumes "blk_inv ops s" "blk_resident s n"
  shows "read_sector ops True ra n s = (Some (blk_disk ops s n), s)"
proof (cases "direct_sdcard_device s")
  case True
  then show ?thesis by (simp add: read_sector_def blk_disk_direct)
next
  case False
  with assms obtain b where "map_of (sector_cache s) n = Some b"
    by (auto simp: blk_resident_def cached_def)
  with False assms show ?thesis
    by (auto simp: read_sector_hit blk_inv_def coherent_def)
qed

lemma read_sector_miss:
  assumes "blk_inv ops s" "\<forall>k < read_batch_size ra. n + word_of_nat k \<notin> set (write_sector_numbers s)"
    and "\<not> blk_resident s n" "ra \<le> 255" "s' = snd (read_sector ops True ra n s)"
  shows "fst (read_sector ops True ra n s) = Some (blk_disk ops s n) \<and> blk_inv ops s'
    \<and> blk_disk ops s' = blk_disk ops s \<and> (\<forall>m. blk_stable s m \<longrightarrow> blk_stable s' m)"
proof -
  have nd: "\<not> direct_sdcard_device s" and nc: "map_of (sector_cache s) n = None"
    using assms(3) by (auto simp: blk_resident_def cached_def)
  let ?b = "read_batch_size ra"
  have b: "?b \<le> 255" "0 < ?b" using assms(4) by (simp_all add: read_batch_size_def)
  let ?s1 = "run_queue ops (s\<lparr>job_q := queue_read_sectors n (word_of_nat ?b) (job_q s)\<rparr>)"
  define t where "t = fold (\<lambda>k t. cache_store ops (n + word_of_nat k)
                  (farray_get (queue_read_data (eth_res t)) (512 * k) 512) t) [0 ..< ?b] ?s1"
  have wf: "blk_wf ops s" using assms(1) by (simp add: blk_inv_def)
  note job = run_read_job [OF wf b(1) refl, of n]
  have dk: "blk_disk ops ?s1 = blk_disk ops s"
    using nd job(1) by (simp add: blk_disk_remote frame_simps pending_def)
  have "blk_wf ops ?s1"
    using wf job(1) by (simp add: blk_wf_def frame_simps)
  then have inv: "blk_inv ops ?s1"
    using assms(1) dk unfolding blk_inv_def coherent_def by (simp only: frame_simps) auto
  have data: "farray_get (queue_read_data (eth_res ?s1)) (512 * k) 512 = blk_disk ops s (n + word_of_nat k)"
    if "k < ?b" for k
  proof -
    have "n + word_of_nat k \<notin> set (write_sector_numbers s)"
      using that assms(2) by blast
    with wf have "pending s (n + word_of_nat k) = None" by (rule pending_None)
    with that nd job(2) show ?thesis by (simp add: blk_disk_remote overlay_def)
  qed
  have st: "blk_stable ?s1 m \<longleftrightarrow> blk_stable s m" for m
    by (simp add: blk_stable_def blk_resident_def cached_def frame_simps)
  have fill: "blk_inv ops t \<and> blk_disk ops t = blk_disk ops ?s1 \<and> eth_res t = eth_res ?s1
      \<and> (\<forall>m. blk_stable ?s1 m \<longrightarrow> blk_stable t m)"
    using inv data dk by (intro cache_fill [OF _ _ t_def]) auto
  have "read_sector ops True ra n s = (Some (farray_get (queue_read_data (eth_res t)) 0 512), t)"
    using nd nc by (simp add: read_sector_def t_def Let_def)
  with fill st dk data [of 0] b(2) assms(5) show ?thesis by simp
qed

lemma read_sector_stable:
  assumes "blk_inv ops s" "blk_stable s n" "ra \<le> 16"
  shows "fst (read_sector ops True ra n s) = Some (blk_disk ops s n)"
    and "blk_inv ops (snd (read_sector ops True ra n s))"
    and "blk_disk ops (snd (read_sector ops True ra n s)) = blk_disk ops s"
    and "blk_stable s m \<Longrightarrow> blk_stable (snd (read_sector ops True ra n s)) m"
proof -
  have "\<not> blk_resident s n \<Longrightarrow> \<forall>k < read_batch_size ra. n + word_of_nat k \<notin> set (write_sector_numbers s)"
    using assms(2,3) by (simp add: blk_stable_def read_batch_size_def)
  then show "fst (read_sector ops True ra n s) = Some (blk_disk ops s n)"
    and "blk_inv ops (snd (read_sector ops True ra n s))"
    and "blk_disk ops (snd (read_sector ops True ra n s)) = blk_disk ops s"
    and "blk_stable s m \<Longrightarrow> blk_stable (snd (read_sector ops True ra n s)) m"
    using assms read_sector_resident [of ops s n ra] read_sector_miss [of ops s ra n, OF _ _ _ _ refl]
    by (cases "blk_resident s n"; simp)+
qed

lemma write_sector_stable: "blk_wf ops s \<Longrightarrow> blk_stable (snd (write_sector ops n b s)) n"
  by (auto simp: write_sector_def blk_stable_def blk_resident_def cached_def cache_store_map
      frame_simps) (auto simp: cache_store_def frame_simps Let_def)

text \<open>The block layer keeps the contract of \<open>sector_store\<close>, whichever card it drives.\<close>

interpretation blk: sector_store "blk_io ops" "blk_inv ops" "blk_disk ops" blk_stable blk_resident for ops
proof (unfold_locales, goal_cases)
  case (1 s n) then show ?case by (simp add: blk_inv_def blk_disk_length)
next
  case (2 s n) then show ?case by (simp add: blk_io_def read_sector_stable)
next
  case (3 s n) then show ?case by (simp add: blk_io_def after_rd_def read_sector_stable)
next
  case (4 s n) then show ?case by (simp add: blk_io_def after_rd_def read_sector_stable)
next
  case (5 s n m) then show ?case by (simp add: blk_io_def after_rd_def read_sector_stable)
next
  case (6 s n) then show ?case by (simp add: blk_stable_def)
next
  case (7 s n) then show ?case by (simp add: blk_io_def after_rd_def read_sector_resident)
next
  case (8 s b n) then show ?case by (simp add: blk_io_def write_sector_value)
next
  case (9 s b n) then show ?case by (simp add: blk_io_def after_wr_def write_sector_inv)
next
  case (10 s b n) then show ?case by (simp add: blk_io_def after_wr_def write_sector_disk blk_inv_def)
next
  case (11 s b n) then show ?case by (simp add: blk_io_def after_wr_def write_sector_stable blk_inv_def)
next
  case (12 s n b m) then show ?case by (simp add: blk_io_def after_wr_def write_sector_resident blk_inv_def)
next
  case (13 s) then show ?case by (simp add: blk_io_def execute_write_queue_inv)
next
  case (14 s) then show ?case by (simp add: blk_io_def execute_write_queue_disk blk_inv_def)
next
  case (15 s m) then show ?case
    by (simp add: blk_io_def blk_resident_def cached_def frame_simps)
qed

section \<open>Properties\<close>

definition blk_init :: "'c \<Rightarrow> 'c blk" where
  "blk_init c = \<lparr>blk_card = c, direct_sdcard_device = False, fsdcard = (\<lambda>_. 0),
     job_q = empty_queue,
     eth_res = \<lparr>queue_read_data = (\<lambda>_. 0), memory_read_buffer = replicate 256 0,
       memory_read_buffer_len = 0, mount_file_response = 0\<rparr>,
     write_batch_counter = 0, write_data = [], write_sector_numbers = [], write_buffer_offset = 0,
     sector_cache = [], exited = False\<rparr>"

lemma blk_init_inv: "sector_card ops \<Longrightarrow> blk_inv ops (blk_init c)"
  by (simp add: blk_init_def blk_inv_def blk_wf_def coherent_def empty_queue_def)

text \<open>A device file opened directly, for concrete instances of the laws.\<close>

definition dev_state :: "(nat \<Rightarrow> u8) \<Rightarrow> (nat \<Rightarrow> u8) blk" where
  "dev_state f = (blk_init (\<lambda>_. 0))\<lparr>direct_sdcard_device := True, fsdcard := f\<rparr>"

lemma dev_state_simps [simp]:
  "blk_inv device_ops (dev_state f)" "blk_resident (dev_state f) n" "blk_stable (dev_state f) n"
  "blk_disk device_ops (dev_state f) n = read_sector_from_device n f"
  using device.sector_card_axioms
  by (simp_all add: dev_state_def blk_init_def blk_inv_def blk_wf_def coherent_def empty_queue_def
      blk_resident_def blk_stable_def blk_disk_def)

text \<open>
  A sector that was just written reads back as written, whether it was cached before, newly
  cached, or the write overflowed the cache and forced a flush and a fresh read from the card.
\<close>
lemma read_your_write:
  assumes "blk_inv ops s" "length b = 512" "ra \<le> 16"
  shows "fst (read_sector ops True ra n (snd (write_sector ops n b s))) = Some b"
  using assms write_sector_inv [OF assms(1,2), of n] write_sector_stable [of ops s n b]
  by (simp add: read_sector_stable write_sector_disk blk_inv_def)

text \<open>
  C1: \<open>write_sector\<close> implements the update of one sector: the disk the host sees changes at the
  written sector and nowhere else, and the block layer's invariant (queue and cache bounds, no
  duplicate entries, cache agrees with disk) is kept, even when the write forces a flush.
\<close>
theorem write_sector_refines:
  assumes "blk_inv ops s" "length b = 512"
  shows "blk_inv ops (snd (write_sector ops n b s))
    \<and> blk_disk ops (snd (write_sector ops n b s)) = (blk_disk ops s)(n := b)"
  using assms write_sector_inv [OF assms] by (simp add: write_sector_disk blk_inv_def)

theorem write_sector_refines_witness:
  "blk_inv device_ops (snd (write_sector device_ops 3 (replicate 512 1) (blk_init (\<lambda>_. 0))))
    \<and> blk_disk device_ops (snd (write_sector device_ops 3 (replicate 512 1) (blk_init (\<lambda>_. 0)))) =
      (blk_disk device_ops (blk_init (\<lambda>_. 0)))(3 := replicate 512 1)"
  by (rule write_sector_refines) (simp_all add: blk_init_inv device.sector_card_axioms)



text \<open>
  C3: \<open>execute_write_queue\<close> empties the queue and leaves on the card exactly the disk the host
  saw before: every queued write reaches the card although the job processor merges runs of
  consecutive sectors into batches.
\<close>
lemma flush_reaches_card:
  assumes "blk_inv ops s" "\<not> direct_sdcard_device s"
  shows "write_sector_numbers (execute_write_queue ops s) = []
    \<and> card_read ops (blk_card (execute_write_queue ops s)) = blk_disk ops s"
proof -
  have wf: "blk_wf ops s" using assms by (simp add: blk_inv_def)
  have "pending (execute_write_queue ops s) = Map.empty"
    by (simp add: pending_def frame_simps)
  then show ?thesis
    using assms execute_write_queue_disk [OF wf] by (simp add: blk_disk_remote frame_simps)
qed

lemma cache_fill_wf:
  "blk_wf ops t \<Longrightarrow> blk_wf ops (fold (\<lambda>k t. cache_store ops (n + word_of_nat k)
     (farray_get (queue_read_data (eth_res t)) (512 * k) 512) t) ks t)"
  by (induction ks arbitrary: t) (simp_all add: cache_store_wf)

text \<open>
  C3: no read or write, at any sector and in any state of the cache, overruns the write queue
  (64 sectors, 32 KiB), the job queue or the 4096-entry cache, caches or queues a sector twice,
  or makes the process exit; this needs no coherence.
\<close>
theorem block_layer_bounds:
  assumes "blk_wf ops s" "length b = 512" "ra \<le> 255"
  shows "blk_wf ops (snd (read_sector ops uc ra n s)) \<and> blk_wf ops (snd (write_sector ops n b s))
    \<and> blk_wf ops (execute_write_queue ops s)"
proof -
  have sz: "read_batch_size ra \<le> 255" using assms by (simp add: read_batch_size_def)
  have "blk_wf ops (run_queue ops (s\<lparr>job_q := queue_read_sectors n (word_of_nat (read_batch_size ra)) (job_q s)\<rparr>))"
    using assms run_read_job(1) [OF assms(1) sz refl, of n] by (simp add: blk_wf_def frame_simps)
  then have "blk_wf ops (snd (read_sector ops uc ra n s))"
    using assms by (auto simp: read_sector_def cache_fill_wf Let_def split: option.split)
  with assms show ?thesis
    by (simp add: write_sector_wf execute_write_queue_state)
qed

theorem block_layer_bounds_witness:
  "blk_wf device_ops (snd (read_sector device_ops False 0 3 (blk_init (\<lambda>_. 0))))
    \<and> blk_wf device_ops (snd (write_sector device_ops 3 (replicate 512 1) (blk_init (\<lambda>_. 0))))
    \<and> blk_wf device_ops (execute_write_queue device_ops (blk_init (\<lambda>_. 0)))"
  by (rule block_layer_bounds)
    (use blk_init_inv [OF device.sector_card_axioms, of "\<lambda>_. 0"] in \<open>simp_all add: blk_inv_def\<close>)

text \<open>Without an overflow, a read leaves the whole batch in the cache as it came from the card.\<close>

lemma cache_fill_map:
  assumes "blk_wf ops t" "length (sector_cache t) + b \<le> sector_cache_size" "b \<le> 65536"
    and "t' = fold (\<lambda>k t. cache_store ops (n + word_of_nat k)
             (farray_get (queue_read_data (eth_res t)) (512 * k) 512) t) [0 ..< b] t"
  shows "eth_res t' = eth_res t \<and> length (sector_cache t') \<le> length (sector_cache t) + b
     \<and> direct_sdcard_device t' = direct_sdcard_device t
     \<and> (\<forall>k < b. map_of (sector_cache t') (n + word_of_nat k) =
          Some (farray_get (queue_read_data (eth_res t)) (512 * k) 512))"
  using assms(2,3,4)
proof (induction b arbitrary: t')
  case (Suc b)
  define u where "u = fold (\<lambda>k t. cache_store ops (n + word_of_nat k)
             (farray_get (queue_read_data (eth_res t)) (512 * k) 512) t) [0 ..< b] t"
  have u: "eth_res u = eth_res t" "length (sector_cache u) \<le> length (sector_cache t) + b"
      "direct_sdcard_device u = direct_sdcard_device t"
      "\<forall>k < b. map_of (sector_cache u) (n + word_of_nat k) =
          Some (farray_get (queue_read_data (eth_res t)) (512 * k) 512)"
    using Suc.IH [OF _ _ u_def] Suc.prems by auto
  have wf: "blk_wf ops u" unfolding u_def using assms(1) by (rule cache_fill_wf)
  have t': "t' = cache_store ops (n + word_of_nat b) (farray_get (queue_read_data (eth_res u)) (512 * b) 512) u"
    using Suc.prems(3) by (simp add: u_def)
  have i: "first_index (\<lambda>e. fst e = n + word_of_nat b) (sector_cache u) < sector_cache_size"
    using first_index_le [of "\<lambda>e. fst e = n + word_of_nat b" "sector_cache u"] u(2) Suc.prems by linarith
  have neq: "n + word_of_nat k \<noteq> n + word_of_nat b" if "k < b" for k
  proof
    assume "n + word_of_nat k = n + word_of_nat b"
    then have "unat (word_of_nat k :: u32) = unat (word_of_nat b :: u32)" by simp
    with that Suc.prems show False by (simp add: unat_of_nat)
  qed
  have "length (sector_cache t') \<le> length (sector_cache t) + Suc b"
    using u(2) i by (auto simp: t' cache_store_def Let_def)
  moreover have "map_of (sector_cache t') =
      (map_of (sector_cache u))(n + word_of_nat b \<mapsto> farray_get (queue_read_data (eth_res t)) (512 * b) 512)"
    using i u(1) by (simp add: t' cache_store_map)
  ultimately show ?case
    using u neq wf by (auto simp: less_Suc_eq t' cache_store_eth_res frame_simps)
qed simp

text \<open>
  C4: the read-ahead loses queued writes from the cache.  If sector \<open>n\<close> is queued for writing
  and sector \<open>n - 1\<close> is not cached, reading \<open>n - 1\<close> fetches 16 sectors from the card and
  overwrites the newer cached copy of \<open>n\<close>: the next read of \<open>n\<close> returns what the card held
  before the write.
\<close>
theorem read_ahead_returns_stale:
  assumes "blk_inv ops s" "\<not> direct_sdcard_device s" "\<not> cached s (n - 1)"
    and "length (sector_cache s) + 16 \<le> sector_cache_size"
  shows "fst (read_sector ops True 0 n (snd (read_sector ops True 0 (n - 1) s)))
     = Some (card_read ops (blk_card s) n)"
proof -
  let ?m = "n - 1"
  let ?s1 = "run_queue ops (s\<lparr>job_q := queue_read_sectors ?m (word_of_nat 16) (job_q s)\<rparr>)"
  let ?D = "\<lambda>k. farray_get (queue_read_data (eth_res ?s1)) (512 * k) 512"
  define t where "t = fold (\<lambda>k t. cache_store ops (?m + word_of_nat k)
                  (farray_get (queue_read_data (eth_res t)) (512 * k) 512) t) [0 ..< 16] ?s1"
  have wf: "blk_wf ops s" using assms(1) by (simp add: blk_inv_def)
  note job = run_read_job [OF wf _ refl, of 16 ?m]
  have wf1: "blk_wf ops ?s1"
    using wf job(1) by (simp add: blk_wf_def frame_simps)
  have t: "snd (read_sector ops True 0 ?m s) = t"
    using assms(2,3) by (simp add: read_sector_def cached_def read_batch_size_def t_def Let_def)
  have fill: "direct_sdcard_device t = direct_sdcard_device ?s1"
      "\<forall>k < 16. map_of (sector_cache t) (?m + word_of_nat k) = Some (?D k)"
    using cache_fill_map [OF wf1 _ _ t_def] assms(4) by (simp_all add: frame_simps)
  have "map_of (sector_cache t) n = Some (card_read ops (blk_card s) n)"
    using fill(2) [rule_format, of 1] job(2) [rule_format, of 1] by simp
  moreover have "\<not> direct_sdcard_device t"
    using fill(1) assms(2) by (simp add: frame_simps)
  ultimately show ?thesis
    unfolding t by (simp add: read_sector_hit)
qed

theorem read_ahead_returns_stale_witness:
  "blk_disk device_ops (snd (write_sector device_ops 8 (replicate 512 1) (blk_init (\<lambda>_. 0)))) 8 = replicate 512 1
   \<and> fst (read_sector device_ops True 0 8 (snd (read_sector device_ops True 0 (8 - 1)
       (snd (write_sector device_ops 8 (replicate 512 1) (blk_init (\<lambda>_. 0)))))))
     = Some (replicate 512 0)"
proof -
  let ?s = "snd (write_sector device_ops 8 (replicate 512 1) (blk_init (\<lambda>_. 0)))"
  have s: "blk_inv device_ops ?s"
    by (simp add: write_sector_inv blk_init_inv device.sector_card_axioms)
  have f: "sector_cache ?s = [(8, replicate 512 1)]" "\<not> direct_sdcard_device ?s"
      "blk_card ?s = (\<lambda>_. 0)"
    by (simp_all add: write_sector_def queue_write_sector_def cache_store_def blk_init_def sector_cache_size_def)
  have "fst (read_sector device_ops True 0 8 (snd (read_sector device_ops True 0 (8 - 1) ?s)))
      = Some (card_read device_ops (blk_card ?s) 8)"
    by (rule read_ahead_returns_stale) (use s f in \<open>simp_all add: cached_def sector_cache_size_def\<close>)
  moreover have "card_read device_ops (\<lambda>_. 0) 8 = replicate 512 0"
    by (simp add: device_ops_def read_sector_from_device_def farray_get_def map_replicate_const)
  moreover have "blk_disk device_ops ?s 8 = replicate 512 1"
    by (simp add: write_sector_disk blk_init_inv [unfolded blk_inv_def] device.sector_card_axioms)
  ultimately show ?thesis using f by simp
qed

end
