(* ===== verification/Fat.thy ===== *)
theory Fat
  imports SectorCache
begin

text \<open>
  The volume and its file allocation table (\<open>mega65_ftp.c\<close>): mounting
  (\<open>open_file_system\<close>), reading and writing FAT entries, the search for free and for
  contiguous clusters, and the walk along a cluster chain.
\<close>

section \<open>The volume\<close>

record vol =
  partition_start :: u32
  partition_size :: u32
  sectors_per_cluster :: u8
  sectors_per_fat :: u32
  data_sectors :: u32
  first_cluster :: u32
  fsinfo_sector :: u32
  reserved_sectors :: u32
  fat1_sector :: u32
  fat2_sector :: u32
  first_cluster_sector :: u32
  syspart_start :: u32
  syspart_size :: u32
  syspart_freeze_area :: u32
  syspart_freeze_program_size :: u32
  syspart_slot_size :: u32
  syspart_slot_count :: u32
  syspart_slotdir_sectors :: u32
  syspart_service_area :: u32
  syspart_service_area_size :: u32
  syspart_service_slot_size :: u32
  syspart_service_slot_count :: u32
  syspart_service_slotdir_sectors :: u32
  file_system_found :: bool

definition scan_partition :: "sector \<Rightarrow> nat \<Rightarrow> vol \<Rightarrow> vol" where
  "scan_partition mbr i v =
     (let e = 0x1be + i * 0x10;
          v1 = (if mbr ! (e + 4) = 0x0c \<or> mbr ! (e + 4) = 0x0b
                then v\<lparr>partition_start := le32_at mbr (e + 8), partition_size := le32_at mbr (e + 12)\<rparr>
                else v)
      in if mbr ! (e + 4) = 0x41
         then v1\<lparr>syspart_start := le32_at mbr (e + 8), syspart_size := le32_at mbr (e + 12)\<rparr>
         else v1)"

text \<open>The ten bytes \<open>MEGA65SYS0\<close> that \<open>strncmp\<close> compares, and \<open>FAT32\<close>.\<close>

definition syspart_marker :: bytes where
  "syspart_marker = [0x4d, 0x45, 0x47, 0x41, 0x36, 0x35, 0x53, 0x59, 0x53, 0x30]"

definition fat32_marker :: bytes where
  "fat32_marker = [0x46, 0x41, 0x54, 0x33, 0x32]"

definition read_syspart :: "sector \<Rightarrow> vol \<Rightarrow> vol" where
  "read_syspart b v = v\<lparr>syspart_freeze_area := le32_at b 0x10,
     syspart_freeze_program_size := le32_at b 0x14, syspart_slot_size := le32_at b 0x18,
     syspart_slot_count := le16_at b 0x1c, syspart_slotdir_sectors := le16_at b 0x1e,
     syspart_service_area := le32_at b 0x20, syspart_service_area_size := le32_at b 0x24,
     syspart_service_slot_size := le32_at b 0x28, syspart_service_slot_count := le16_at b 0x2c,
     syspart_service_slotdir_sectors := le16_at b 0x2e\<rparr>"

definition read_bpb :: "sector \<Rightarrow> vol \<Rightarrow> vol" where
  "read_bpb b v =
     (let v1 = v\<lparr>sectors_per_cluster := b ! 13, reserved_sectors := le16_at b 14,
        data_sectors := le32_at b 0x20, sectors_per_fat := le32_at b 0x24,
        first_cluster := le32_at b 0x2c, fsinfo_sector := le16_at b 0x30\<rparr>;
        v2 = v1\<lparr>fat1_sector := reserved_sectors v1\<rparr>;
        v3 = v2\<lparr>fat2_sector := fat1_sector v2 + sectors_per_fat v2\<rparr>;
        v4 = v3\<lparr>first_cluster_sector := fat2_sector v3 + sectors_per_fat v3\<rparr>
      in v4\<lparr>file_system_found := True\<rparr>)"

definition bpb_valid :: "sector \<Rightarrow> bool" where
  "bpb_valid b \<longleftrightarrow> b ! 510 = 0x55 \<and> b ! 511 = 0xAA \<and> b ! 12 = 2 \<and> b ! 16 = 2"

definition open_fat :: "'s sector_io \<Rightarrow> vol \<Rightarrow> 's \<Rightarrow> bool \<times> vol \<times> 's" where
  "open_fat io v s =
     (if partition_start v = 0xffffffff then (False, v, s)
      else if partition_size v = 0 then (False, v, s)
      else case rd io (partition_start v) s of
        (None, s1) \<Rightarrow> (False, v, s1)
      | (Some fat_mbr, s1) \<Rightarrow>
          if \<not> bpb_valid fat_mbr then (False, v, s1) else (True, read_bpb fat_mbr v, s1))"

definition open_file_system ::
  "'s sector_io \<Rightarrow> bool \<Rightarrow> bool \<Rightarrow> vol \<Rightarrow> 's \<Rightarrow> bool \<times> vol \<times> 's" where
  "open_file_system io direct nosys v s =
     (case rd io 0 s of
        (None, s1) \<Rightarrow> (False, v, s1)
      | (Some mbr, s1) \<Rightarrow>
          let v1 = fold (scan_partition mbr) [0 ..< 4] v;
              v2 = (if partition_start v1 = 0xffffffff \<and> direct \<and> subbuf 0x52 5 mbr = fat32_marker
                    then v1\<lparr>partition_start := 0, partition_size := le32_at mbr 0x20\<rparr> else v1)
          in if syspart_start v2 \<noteq> 0 \<and> \<not> nosys then
               (case rd io (syspart_start v2) s1 of
                  (None, s2) \<Rightarrow> (False, v2, s2)
                | (Some b, s2) \<Rightarrow>
                    if take 10 b \<noteq> syspart_marker then (False, v2, s2)
                    else open_fat io (read_syspart b v2) s2)
             else open_fat io v2 s1)"

section \<open>FAT entries\<close>

definition end_marker :: u32 where  \<comment> \<open>\<open>FAT32_MIN_END_OF_CLUSTER_MARKER\<close>\<close>
  "end_marker = 0xffffff8"

definition fat_offset :: "u32 \<Rightarrow> nat" where
  "fat_offset cluster = unat ((cluster * 4) AND 0x1FF)"

text \<open>C's division of the \<open>int\<close> argument of \<open>get_next_cluster\<close> truncates towards zero.\<close>

definition int_div_128 :: "u32 \<Rightarrow> u32" where
  "int_div_128 c = (if 0 \<le> sint c then word_of_int (sint c div 128)
                    else word_of_int (- ((- sint c) div 128)))"

definition get_next_cluster :: "'s sector_io \<Rightarrow> vol \<Rightarrow> u32 \<Rightarrow> 's \<Rightarrow> u32 \<times> 's" where
  "get_next_cluster io v cluster s =
     (case rd io (partition_start v + fat1_sector v + int_div_128 cluster) s of
        (None, s1) \<Rightarrow> (0xFFFFFFFF, s1)
      | (Some buf, s1) \<Rightarrow> (le32_at buf (fat_offset cluster) AND 0x0fffffff, s1))"

definition write_fat_entry :: "'s sector_io \<Rightarrow> vol \<Rightarrow> u32 \<Rightarrow> u32 \<Rightarrow> 's \<Rightarrow> bool \<times> 's" where
  "write_fat_entry io v cluster value s =
     (let n = cluster div 128 in
      if n \<ge> sectors_per_fat v then (False, s)
      else case rd io (partition_start v + fat1_sector v + n) s of
        (None, s1) \<Rightarrow> (False, s1)
      | (Some fat_sector, s1) \<Rightarrow>
          let b = blit (fat_offset cluster) (le32_bytes value) fat_sector in
          case wr io (partition_start v + fat1_sector v + n) b s1 of
            (False, s2) \<Rightarrow> (False, s2)
          | (True, s2) \<Rightarrow> wr io (partition_start v + fat2_sector v + n) b s2)"

text \<open>\<open>chain_cluster\<close> masks the top byte with \<open>0x0f\<close>, \<open>set_fat_cluster_ptr\<close> does not.\<close>

definition chain_cluster :: "'s sector_io \<Rightarrow> vol \<Rightarrow> u32 \<Rightarrow> u32 \<Rightarrow> 's \<Rightarrow> bool \<times> 's" where
  "chain_cluster io v cluster next_cluster s = write_fat_entry io v cluster (next_cluster AND 0x0fffffff) s"

definition set_fat_cluster_ptr :: "'s sector_io \<Rightarrow> vol \<Rightarrow> u32 \<Rightarrow> u32 \<Rightarrow> 's \<Rightarrow> bool \<times> 's" where
  "set_fat_cluster_ptr io v cluster value s = write_fat_entry io v cluster value s"

definition deallocate_cluster :: "'s sector_io \<Rightarrow> vol \<Rightarrow> u32 \<Rightarrow> 's \<Rightarrow> bool \<times> 's" where
  "deallocate_cluster io v cluster s = set_fat_cluster_ptr io v cluster 0 s"

definition allocate_cluster :: "'s sector_io \<Rightarrow> vol \<Rightarrow> u32 \<Rightarrow> 's \<Rightarrow> bool \<times> 's" where
  "allocate_cluster io v cluster s = set_fat_cluster_ptr io v cluster 0x0ffffff8 s"

definition chained_cluster :: "'s sector_io \<Rightarrow> vol \<Rightarrow> u32 \<Rightarrow> 's \<Rightarrow> u32 \<times> 's" where
  "chained_cluster io v cluster s =
     (if cluster div 128 \<ge> sectors_per_fat v then (-1, s)
      else case rd io (partition_start v + fat1_sector v + cluster div 128) s of
        (None, s1) \<Rightarrow> (-1, s1)
      | (Some fat_sector, s1) \<Rightarrow> (le32_at fat_sector (fat_offset cluster), s1))"

section \<open>Free clusters\<close>

text \<open>\<open>None\<close> is the call of \<open>exit\<close> when the FAT cannot be read.\<close>

definition is_free_cluster :: "'s sector_io \<Rightarrow> vol \<Rightarrow> u32 \<Rightarrow> 's \<Rightarrow> bool option \<times> 's" where
  "is_free_cluster io v cluster s =
     (case rd io (partition_start v + fat1_sector v + cluster div 128) s of
        (None, s1) \<Rightarrow> (None, s1)
      | (Some fat_sector, s1) \<Rightarrow> (Some (le32_at fat_sector (4 * unat (cluster mod 128)) = 0), s1))"

datatype scan = Found u32 | NoneFree | ReadFailed

text \<open>
  Pass 1 of \<open>find_free_cluster\<close>: \<open>k\<close> FAT sectors remain, from sector \<open>i\<close>, entry \<open>e\<close>.
\<close>

fun free_forward :: "'s sector_io \<Rightarrow> vol \<Rightarrow> nat \<Rightarrow> nat \<Rightarrow> nat \<Rightarrow> 's \<Rightarrow> scan \<times> 's" where
  "free_forward io v 0 i e s = (NoneFree, s)"
| "free_forward io v (Suc k) i e s =
     (case rd io (partition_start v + fat1_sector v + word_of_nat i) s of
        (None, s1) \<Rightarrow> (ReadFailed, s1)
      | (Some fat_sector, s1) \<Rightarrow>
          (case find (\<lambda>e. le32_at fat_sector (4 * e) = 0) [e ..< 128] of
             Some e' \<Rightarrow> (Found (word_of_nat (i * 128 + e')), s1)
           | None \<Rightarrow> free_forward io v k (Suc i) 0 s1))"

text \<open>Pass 2: from cluster 2 up to \<open>wrap_end\<close>; \<open>k\<close> sectors remain, from sector \<open>i\<close>.\<close>

fun free_wrapped :: "'s sector_io \<Rightarrow> vol \<Rightarrow> nat \<Rightarrow> nat \<Rightarrow> nat \<Rightarrow> 's \<Rightarrow> scan \<times> 's" where
  "free_wrapped io v wrap_end 0 i s = (NoneFree, s)"
| "free_wrapped io v wrap_end (Suc k) i s =
     (case rd io (partition_start v + fat1_sector v + word_of_nat i) s of
        (None, s1) \<Rightarrow> (ReadFailed, s1)
      | (Some fat_sector, s1) \<Rightarrow>
          let max_e = (if i = wrap_end div 128 then wrap_end mod 128 else 127) in
          (case find (\<lambda>e. \<not> i * 128 + e < 2 \<and> le32_at fat_sector (4 * e) = 0) [0 ..< Suc max_e] of
             Some e' \<Rightarrow> (Found (word_of_nat (i * 128 + e')), s1)
           | None \<Rightarrow> free_wrapped io v wrap_end k (Suc i) s1))"

definition find_free_cluster :: "'s sector_io \<Rightarrow> vol \<Rightarrow> u32 \<Rightarrow> 's \<Rightarrow> u32 \<times> 's" where
  "find_free_cluster io v first s =
     (let first = (if first < 2 then 2 else first);
          i = unat first div 128
      in case free_forward io v (unat (sectors_per_fat v) - i) i (unat first mod 128) s of
        (Found c, s1) \<Rightarrow> (c, s1)
      | (ReadFailed, s1) \<Rightarrow> (0, s1)
      | (NoneFree, s1) \<Rightarrow>
          if first > 2 then
            let wrap_end = unat first - 1 in
            (case free_wrapped io v wrap_end (Suc (wrap_end div 128)) 0 s1 of
               (Found c, s2) \<Rightarrow> (c, s2)
             | (_, s2) \<Rightarrow> (0, s2))
          else (0, s1))"

text \<open>The \<open>for\<close> loop of \<open>find_contiguous_clusters\<close>: \<open>k\<close> more clusters to check from \<open>cnt\<close>.\<close>

fun contiguous_run :: "'s sector_io \<Rightarrow> vol \<Rightarrow> u32 \<Rightarrow> nat \<Rightarrow> nat \<Rightarrow> 's \<Rightarrow> (bool \<times> nat) option \<times> 's" where
  "contiguous_run io v start 0 cnt s = (Some (True, cnt), s)"
| "contiguous_run io v start (Suc k) cnt s =
     (case is_free_cluster io v (start + word_of_nat cnt) s of
        (None, s1) \<Rightarrow> (None, s1)
      | (Some False, s1) \<Rightarrow> (Some (False, cnt), s1)
      | (Some True, s1) \<Rightarrow> contiguous_run io v start k (Suc cnt) s1)"

text \<open>
  The outer loop has no bound: \<open>None\<close> is a search that never returns.  \<open>Some (None, s)\<close> is the
  call of \<open>exit\<close>, \<open>Some (Some c, s)\<close> a return of \<open>c\<close>.
\<close>

partial_function (option) find_contiguous_from ::
  "'s sector_io \<Rightarrow> vol \<Rightarrow> u32 \<Rightarrow> u32 \<Rightarrow> 's \<Rightarrow> (u32 option \<times> 's) option" where
  "find_contiguous_from io v total_clusters start s =
     (case find_free_cluster io v start s of (start', s1) \<Rightarrow>
        if start' = 0 then Some (Some 0, s1)
        else (case contiguous_run io v start' (unat total_clusters - 1) 1 s1 of
            (None, s2) \<Rightarrow> Some (None, s2)
          | (Some (ok, cnt), s2) \<Rightarrow>
              if ok then Some (Some start', s2)
              else find_contiguous_from io v total_clusters (start' + word_of_nat cnt) s2))"

declare find_contiguous_from.simps [code]

definition find_contiguous_clusters ::
  "'s sector_io \<Rightarrow> vol \<Rightarrow> u32 \<Rightarrow> 's \<Rightarrow> (u32 option \<times> 's) option" where
  "find_contiguous_clusters io v total_clusters s = find_contiguous_from io v total_clusters 0 s"

text \<open>\<open>count_free_clusters\<close>, and \<open>count_total_clusters\<close> with the test left out.\<close>

fun count_entries ::
  "'s sector_io \<Rightarrow> vol \<Rightarrow> (u32 \<Rightarrow> bool) \<Rightarrow> nat \<Rightarrow> nat \<Rightarrow> nat \<Rightarrow> nat \<Rightarrow> 's \<Rightarrow> nat \<times> 's" where
  "count_entries io v p 0 i e acc s = (acc, s)"
| "count_entries io v p (Suc k) i e acc s =
     (case rd io (partition_start v + fat1_sector v + word_of_nat i) s of
        (None, s1) \<Rightarrow> (acc, s1)
      | (Some fat_sector, s1) \<Rightarrow>
          count_entries io v p k (Suc i) 0
            (acc + length (filter (\<lambda>e. p (le32_at fat_sector (4 * e))) [e ..< 128])) s1)"

definition count_free_clusters :: "'s sector_io \<Rightarrow> vol \<Rightarrow> u32 \<Rightarrow> 's \<Rightarrow> nat \<times> 's" where
  "count_free_clusters io v first s =
     (let i = unat first div 128
      in count_entries io v (\<lambda>x. x = 0) (unat (sectors_per_fat v) - i) i (unat first mod 128) 0 s)"

definition count_total_clusters :: "'s sector_io \<Rightarrow> vol \<Rightarrow> u32 \<Rightarrow> 's \<Rightarrow> nat \<times> 's" where
  "count_total_clusters io v first s =
     (let i = unat first div 128
      in count_entries io v (\<lambda>_. True) (unat (sectors_per_fat v) - i) i (unat first mod 128) 0 s)"

text \<open>
  \<open>count_cluster_chain\<close> of \<open>m65ftp_lib.c\<close>: the number of clusters of a chain and its last one.
  A cyclic chain never ends.
\<close>

partial_function (option) count_cluster_chain ::
  "'s sector_io \<Rightarrow> vol \<Rightarrow> u32 \<Rightarrow> u32 \<Rightarrow> 's \<Rightarrow> ((u32 \<times> u32) \<times> 's) option" where
  "count_cluster_chain io v cluster count s =
     (case chained_cluster io v cluster s of (nxt, s1) \<Rightarrow>
        if nxt = 0 \<or> nxt \<ge> end_marker then Some ((count, cluster), s1)
        else count_cluster_chain io v nxt (count + 1) s1)"

declare count_cluster_chain.simps [code]

section \<open>The FAT as a table\<close>

text \<open>
  The abstract content of the FAT: entry \<open>n\<close> of the first copy.  \<open>vol_ok\<close> is what a mounted
  volume satisfies: the second copy follows the first and nothing wraps around.
\<close>

abbreviation fat1_at :: "vol \<Rightarrow> nat \<Rightarrow> u32" where
  "fat1_at v i \<equiv> partition_start v + fat1_sector v + word_of_nat i"

abbreviation fat2_at :: "vol \<Rightarrow> nat \<Rightarrow> u32" where
  "fat2_at v i \<equiv> partition_start v + fat2_sector v + word_of_nat i"

abbreviation fat_len :: "vol \<Rightarrow> nat" where
  "fat_len v \<equiv> unat (sectors_per_fat v)"

definition fat_get :: "(u32 \<Rightarrow> sector) \<Rightarrow> vol \<Rightarrow> nat \<Rightarrow> u32" where
  "fat_get d v n = le32_at (d (fat1_at v (n div 128))) (4 * (n mod 128))"

definition vol_ok :: "vol \<Rightarrow> bool" where
  "vol_ok v \<longleftrightarrow> 0 < fat_len v \<and> fat_len v \<le> 2 ^ 21 \<and> fat2_sector v = fat1_sector v + sectors_per_fat v
     \<and> unat (partition_start v) + unat (fat1_sector v) + 2 * fat_len v < 2 ^ 32"

definition fat_all :: "('s \<Rightarrow> u32 \<Rightarrow> bool) \<Rightarrow> vol \<Rightarrow> 's \<Rightarrow> bool" where
  "fat_all P v s \<longleftrightarrow> (\<forall>i < fat_len v. P s (fat1_at v i))"

definition fat_both :: "('s \<Rightarrow> u32 \<Rightarrow> bool) \<Rightarrow> vol \<Rightarrow> 's \<Rightarrow> bool" where
  "fat_both P v s \<longleftrightarrow> (\<forall>i < fat_len v. P s (fat1_at v i) \<and> P s (fat2_at v i))"

lemma fat_both_all: "fat_both P v s \<Longrightarrow> fat_all P v s"
  by (simp add: fat_both_def fat_all_def)

lemma fat_offset_eq: "fat_offset c = 4 * (unat c mod 128)"
proof -
  have "(0x1FF :: u32) = mask 9"
    by (simp add: mask_eq_exp_minus_1)
  have "fat_offset c = unat (c * 4) mod 512"
    unfolding fat_offset_def \<open>0x1FF = mask 9\<close> unat_and_mask by simp
  also have "\<dots> = (unat c * 4) mod 512"
    by (simp add: unat_word_ariths mod_mod_cancel)
  also have "\<dots> = 4 * (unat c mod 128)"
    using mult_mod_right [of 4 "unat c" 128] by (simp add: mult.commute)
  finally show ?thesis .
qed

lemma fat_offset_less: "fat_offset c + 4 \<le> 512"
  using mod_less_divisor [of 128 "unat c"] by (simp add: fat_offset_eq)

lemma div128 [simp]: "(word_of_nat (unat (c :: u32) div 128) :: u32) = c div 128"
  using word_of_nat_unat_div [of c 128] by simp

lemma div128_less: "c div 128 < sectors_per_fat v \<longleftrightarrow> unat c div 128 < fat_len v"
  by (simp add: word_less_nat_alt)

lemma fat_at_unat:
  assumes "vol_ok v" "i < fat_len v"
  shows "unat (fat1_at v i) = unat (partition_start v) + unat (fat1_sector v) + i"
    and "unat (fat2_at v i) = unat (partition_start v) + unat (fat1_sector v) + fat_len v + i"
  using assms by (simp_all add: vol_ok_def unat_word_ariths unat_of_nat)

lemma fat_at_eq:
  assumes "vol_ok v" "i < fat_len v" "j < fat_len v"
  shows "fat1_at v i = fat1_at v j \<longleftrightarrow> i = j" "fat1_at v i \<noteq> fat2_at v j"
    "fat2_at v i = fat2_at v j \<longleftrightarrow> i = j"
  using fat_at_unat [OF assms(1)] assms(2,3) by (simp_all add: word_unat_eq_iff)

text \<open>Writing an entry into both copies updates the table at that entry only.\<close>

lemma fat_get_update:
  assumes "vol_ok v" "unat c < 128 * fat_len v" "n < 128 * fat_len v"
    and len: "length (d (fat1_at v (unat c div 128))) = 512"
    and d': "d' = d(fat1_at v (unat c div 128) :=
               blit (fat_offset c) (le32_bytes value) (d (fat1_at v (unat c div 128))),
             fat2_at v (unat c div 128) := x)"
  shows "fat_get d' v n = (if n = unat c then value else fat_get d v n)"
proof -
  have k: "unat c div 128 < fat_len v" "n div 128 < fat_len v"
    using assms(2,3) by (simp_all add: less_mult_imp_div_less mult.commute)
  have same: "n = unat c \<longleftrightarrow> n div 128 = unat c div 128 \<and> n mod 128 = unat c mod 128"
    by (metis div_mult_mod_eq)
  have e: "d' (fat1_at v (n div 128)) = (if n div 128 = unat c div 128
      then blit (fat_offset c) (le32_bytes value) (d (fat1_at v (unat c div 128)))
      else d (fat1_at v (n div 128)))"
    using fat_at_eq [OF assms(1) k] fat_at_eq [OF assms(1) k(2,1)] by (simp add: d' del: div128)
  have r: "4 * (n mod 128) + 4 \<le> 512" "4 * (unat c mod 128) + 4 \<le> 512"
    using mod_less_divisor [of 128 n] mod_less_divisor [of 128 "unat c"] by simp_all
  have "le32_at (blit (4 * (unat c mod 128)) (le32_bytes value) b) (4 * (n mod 128)) = le32_at b (4 * (n mod 128))"
    if "n mod 128 \<noteq> unat c mod 128" "length b = 512" for b
    using r that by (intro le32_at_blit_other) auto
  with r len show ?thesis
    unfolding fat_get_def e same by (auto simp: fat_offset_eq le32_at_blit_same)
qed

text \<open>
  \<open>read_only\<close> collects what a routine that only reads the FAT leaves as it was.
\<close>

definition read_only ::
  "('s \<Rightarrow> bool) \<Rightarrow> ('s \<Rightarrow> u32 \<Rightarrow> sector) \<Rightarrow> ('s \<Rightarrow> u32 \<Rightarrow> bool) \<Rightarrow> 's \<Rightarrow> 's \<Rightarrow> bool" where
  "read_only I D S s s' \<longleftrightarrow> I s' \<and> D s' = D s \<and> (\<forall>n. S s n \<longrightarrow> S s' n)"

lemma read_only_refl: "I s \<Longrightarrow> read_only I D S s s"
  by (simp add: read_only_def)

lemma read_only_trans: "read_only I D S s s1 \<Longrightarrow> read_only I D S s1 s2 \<Longrightarrow> read_only I D S s s2"
  by (simp add: read_only_def)

lemma read_onlyD:
  assumes "read_only I D S s s'"
  shows "I s'" "D s' = D s" "fat_all S v s \<Longrightarrow> fat_all S v s'" "fat_both S v s \<Longrightarrow> fat_both S v s'"
  using assms by (simp_all add: read_only_def fat_all_def fat_both_def)

context sector_read
begin

lemma rd_read_only: "inv s \<Longrightarrow> stable s n \<Longrightarrow> read_only inv disk stable s (after_rd io n s)"
  by (simp add: read_only_def rd_keeps)

lemma rd_fat:
  assumes "inv s" "fat_all stable v s" "i < fat_len v"
  shows "rd io (fat1_at v i) s = (Some (disk s (fat1_at v i)), after_rd io (fat1_at v i) s)"
    and "read_only inv disk stable s (after_rd io (fat1_at v i) s)"
  using assms by (simp_all add: fat_all_def rd_eq rd_read_only)

lemma chained_cluster_eq:
  assumes "inv s" "fat_all stable v s" "unat c < 128 * fat_len v"
  shows "fst (chained_cluster io v c s) = fat_get (disk s) v (unat c)
    \<and> read_only inv disk stable s (snd (chained_cluster io v c s))"
proof -
  have k: "unat c div 128 < fat_len v"
    using assms(3) by (simp add: less_mult_imp_div_less mult.commute)
  then have "\<not> c div 128 \<ge> sectors_per_fat v" by (simp add: div128_less not_le)
  then show ?thesis
    using rd_fat [OF assms(1,2) k] by (simp add: chained_cluster_def fat_get_def fat_offset_eq)
qed

lemma get_next_cluster_eq:
  assumes "inv s" "fat_all stable v s" "unat c < 128 * fat_len v" "unat c < 2 ^ 31"
  shows "fst (get_next_cluster io v c s) = fat_get (disk s) v (unat c) AND 0x0fffffff
    \<and> read_only inv disk stable s (snd (get_next_cluster io v c s))"
proof -
  have k: "unat c div 128 < fat_len v"
    using assms(3) by (simp add: less_mult_imp_div_less mult.commute)
  have "sint c = int (unat c)"
    using assms(4) by (rule sint_small)
  then have "int_div_128 c = c div 128"
    by (simp add: int_div_128_def word_div_def)
  then show ?thesis
    using rd_fat [OF assms(1,2) k] by (simp add: get_next_cluster_def fat_get_def fat_offset_eq)
qed

end

section \<open>The search for free clusters\<close>

lemma fat_get_in_sector:
  "e < 128 \<Longrightarrow> fat_get d v (128 * i + e) = le32_at (d (fat1_at v i)) (4 * e)"
  by (simp add: fat_get_def del: div128)

lemma in_sector_split:
  fixes j :: nat
  assumes "128 * i + e \<le> j" "j < 128 * m" "i < m"
  shows "(\<exists>e'. j = 128 * i + e' \<and> e \<le> e' \<and> e' < 128) \<or> 128 * Suc i \<le> j"
proof (cases "j < 128 * Suc i")
  case True
  with assms show ?thesis by (intro disjI1 exI [of _ "j - 128 * i"]) auto
qed simp

text \<open>The outcome of a scan of the table \<open>E\<close> over \<open>[a, b)\<close>.\<close>

fun scan_result :: "(nat \<Rightarrow> u32) \<Rightarrow> nat \<Rightarrow> nat \<Rightarrow> scan \<Rightarrow> bool" where
  "scan_result E a b (Found c) \<longleftrightarrow>
     (\<exists>n. c = word_of_nat n \<and> a \<le> n \<and> n < b \<and> E n = 0 \<and> (\<forall>j. a \<le> j \<and> j < n \<longrightarrow> E j \<noteq> 0))"
| "scan_result E a b NoneFree \<longleftrightarrow> (\<forall>j. a \<le> j \<and> j < b \<longrightarrow> E j \<noteq> 0)"
| "scan_result E a b ReadFailed \<longleftrightarrow> False"

lemma scan_result_extend:
  assumes "scan_result E m b r" "a \<le> m" "\<forall>j. a \<le> j \<and> j < m \<longrightarrow> E j \<noteq> 0"
  shows "scan_result E a b r"
proof (cases r)
  case (Found c)
  with assms(1) obtain n where "c = word_of_nat n" "m \<le> n" "n < b" "E n = 0"
      "\<forall>j. m \<le> j \<and> j < n \<longrightarrow> E j \<noteq> 0"
    by auto
  with assms(2,3) Found show ?thesis
    by (auto intro!: exI [of _ n]) (metis not_le_imp_less)
next
  case NoneFree
  with assms show ?thesis by (auto, metis not_le_imp_less)
next
  case ReadFailed
  with assms show ?thesis by simp
qed

text \<open>Pass 2 skips clusters 0 and 1, as if they were taken.\<close>

definition reserve2 :: "(nat \<Rightarrow> u32) \<Rightarrow> nat \<Rightarrow> u32" where
  "reserve2 E n = (if n < 2 then 1 else E n)"

context sector_read
begin

lemma free_forward_spec:
  assumes "inv s" "fat_all stable v s" "i + k = fat_len v" "e \<le> 128"
  shows "scan_result (fat_get (disk s) v) (128 * i + e) (128 * fat_len v) (fst (free_forward io v k i e s))
    \<and> read_only inv disk stable s (snd (free_forward io v k i e s))"
  using assms
proof (induction k arbitrary: i e s)
  case 0
  then show ?case by (auto simp: read_only_def)
next
  case (Suc k)
  let ?E = "fat_get (disk s) v"
  have i: "i < fat_len v" using Suc.prems by simp
  note r = rd_fat [OF Suc.prems(1,2) i]
  note k = read_onlyD [OF r(2)] read_only_trans [OF r(2)]
  let ?s1 = "after_rd io (fat1_at v i) s"
  let ?P = "\<lambda>e. le32_at (disk s (fat1_at v i)) (4 * e) = 0"
  show ?case
  proof (cases "find ?P [e ..< 128]")
    case None
    then have none: "\<forall>j. 128 * i + e \<le> j \<and> j < 128 * Suc i \<longrightarrow> ?E j \<noteq> 0"
      using i by (auto simp: find_upt_None fat_get_in_sector dest!: in_sector_split [of i e _ "Suc i"])
    have "scan_result ?E (128 * Suc i + 0) (128 * fat_len v) (fst (free_forward io v k (Suc i) 0 ?s1))
      \<and> read_only inv disk stable ?s1 (snd (free_forward io v k (Suc i) 0 ?s1))"
      using Suc.IH [OF k(1,3), of "Suc i" 0] Suc.prems k(2) by simp
    moreover have "scan_result ?E (128 * i + e) (128 * fat_len v) res"
      if "scan_result ?E (128 * Suc i + 0) (128 * fat_len v) res" for res
      by (rule scan_result_extend [OF that]) (use none Suc.prems in auto)
    ultimately show ?thesis
      using None r k(5) by simp
  next
    case (Some e')
    then have e': "e \<le> e'" "e' < 128" "?P e'" "\<forall>j. e \<le> j \<and> j < e' \<longrightarrow> \<not> ?P j"
      by (simp_all add: find_upt_Some)
    have "?E j \<noteq> 0" if "128 * i + e \<le> j" "j < 128 * i + e'" for j
    proof -
      have "j = 128 * i + (j - 128 * i)" "e \<le> j - 128 * i" "j - 128 * i < e'"
        using that by auto
      then show ?thesis
        using e'(2,4) fat_get_in_sector [of "j - 128 * i" "disk s" v i] by auto
    qed
    moreover have "?E (128 * i + e') = 0" using e' by (simp add: fat_get_in_sector)
    moreover have "128 * i + e' < 128 * fat_len v" using i e'(2) by simp
    ultimately have "scan_result ?E (128 * i + e) (128 * fat_len v) (Found (word_of_nat (i * 128 + e')))"
      using e'(1) by (auto intro!: exI [of _ "128 * i + e'"] simp: mult.commute)
    then show ?thesis
      using Some r by simp
  qed
qed

lemma free_wrapped_spec:
  assumes "inv s" "fat_all stable v s" "wrap_end div 128 < fat_len v" "i + k = Suc (wrap_end div 128)"
  shows "scan_result (reserve2 (fat_get (disk s) v)) (128 * i) (Suc wrap_end) (fst (free_wrapped io v wrap_end k i s))
    \<and> read_only inv disk stable s (snd (free_wrapped io v wrap_end k i s))"
  using assms
proof (induction k arbitrary: i s)
  case 0
  then have "wrap_end < 128 * i" by simp
  with 0 show ?case by (auto simp: read_only_def)
next
  case (Suc k)
  let ?E = "reserve2 (fat_get (disk s) v)"
  have i: "i < fat_len v" using Suc.prems by simp
  note r = rd_fat [OF Suc.prems(1,2) i]
  note k = read_onlyD [OF r(2)] read_only_trans [OF r(2)]
  let ?s1 = "after_rd io (fat1_at v i) s"
  let ?P = "\<lambda>e. \<not> i * 128 + e < 2 \<and> le32_at (disk s (fat1_at v i)) (4 * e) = 0"
  define m where "m = (if i = wrap_end div 128 then wrap_end mod 128 else 127)"
  have m: "m < 128" "i = wrap_end div 128 \<Longrightarrow> 128 * i + m = wrap_end"
    by (simp_all add: m_def)
  have m_le: "128 * i + m \<le> wrap_end"
    using Suc.prems m by (cases "i = wrap_end div 128") auto
  have P: "?P e \<longleftrightarrow> ?E (128 * i + e) = 0" if "e < 128" for e
    using that fat_get_in_sector [OF that, of "disk s" v i] by (simp add: reserve2_def mult.commute)
  have mid: "?E j \<noteq> 0" if "\<forall>e. e < n \<longrightarrow> \<not> ?P e" "n \<le> 128" "128 * i \<le> j" "j < 128 * i + n" for j n
  proof -
    obtain e where e: "j = 128 * i + e" using \<open>128 * i \<le> j\<close> by (auto simp: le_iff_add)
    with that(2,4) have "e < n" "e < 128" by simp_all
    with that(1) P [of e] e show ?thesis by blast
  qed
  show ?case
  proof (cases "find ?P [0 ..< Suc m]")
    case None
    then have none: "\<forall>j. 128 * i \<le> j \<and> j < 128 * i + Suc m \<longrightarrow> ?E j \<noteq> 0"
      unfolding find_upt_None using mid [of "Suc m"] m(1) by auto
    have "scan_result ?E (128 * Suc i) (Suc wrap_end) (fst (free_wrapped io v wrap_end k (Suc i) ?s1))
      \<and> read_only inv disk stable ?s1 (snd (free_wrapped io v wrap_end k (Suc i) ?s1))"
      using Suc.IH [OF k(1,3), of "Suc i"] Suc.prems k(2) by simp
    moreover have "scan_result ?E (128 * i) (Suc wrap_end) res"
      if "scan_result ?E (128 * Suc i) (Suc wrap_end) res" for res
    proof (cases "i = wrap_end div 128")
      case True
      with none m that show ?thesis by (cases res) auto
    next
      case False
      with none show ?thesis by (intro scan_result_extend [OF that]) (auto simp: m_def)
    qed
    ultimately show ?thesis
      using None r k(5) by (simp add: m_def Let_def)
  next
    case (Some e')
    then have e': "e' \<le> m" "?P e'" "\<forall>j. j < e' \<longrightarrow> \<not> ?P j"
      unfolding find_upt_Some by auto
    have "scan_result ?E (128 * i) (Suc wrap_end) (Found (word_of_nat (i * 128 + e')))"
      using e' m m_le mid [of e'] P [of e'] by (auto intro!: exI [of _ "128 * i + e'"] simp: mult.commute)
    with Some r show ?thesis
      by (simp add: m_def Let_def)
  qed
qed

lemma scan_result_find:
  "scan_result E a b r \<Longrightarrow>
   r = (case find (\<lambda>n. E n = 0) [a ..< b] of Some n \<Rightarrow> Found (word_of_nat n) | None \<Rightarrow> NoneFree)"
proof (cases r)
  case (Found c)
  moreover assume "scan_result E a b r"
  ultimately obtain n where n: "c = word_of_nat n" "find (\<lambda>n. E n = 0) [a ..< b] = Some n"
    by (auto simp: find_upt_Some)
  with Found show ?thesis by simp
next
  case NoneFree
  moreover assume "scan_result E a b r"
  ultimately have "find (\<lambda>n. E n = 0) [a ..< b] = None"
    by (simp add: find_upt_None)
  with NoneFree show ?thesis by simp
qed simp

end

text \<open>
  The specification of the search: the first free entry from \<open>a\<close> to the end of the table, else
  the first one from cluster 2 up to \<open>a\<close>, else 0.
\<close>

definition next_free :: "(nat \<Rightarrow> u32) \<Rightarrow> nat \<Rightarrow> nat \<Rightarrow> nat" where
  "next_free E a m =
     (case find (\<lambda>n. E n = 0) [a ..< m] of
        Some n \<Rightarrow> n
      | None \<Rightarrow> (case find (\<lambda>n. E n = 0) [2 ..< a] of Some n \<Rightarrow> n | None \<Rightarrow> 0))"

lemma find_reserve2:
  "2 \<le> a \<Longrightarrow> find (\<lambda>n. reserve2 E n = 0) [0 ..< a] = find (\<lambda>n. E n = 0) [2 ..< a]"
proof -
  assume "2 \<le> a"
  then have "[0 ..< a] = 0 # 1 # [2 ..< a]"
    by (simp add: upt_conv_Cons numeral_2_eq_2)
  moreover have "find (\<lambda>n. reserve2 E n = 0) [2 ..< a] = find (\<lambda>n. E n = 0) [2 ..< a]"
    by (rule find_cong) (auto simp: reserve2_def)
  ultimately show ?thesis by (simp add: reserve2_def)
qed

lemma next_free_cases:
  obtains "find (\<lambda>n. E n = 0) [a ..< m] = Some (next_free E a m)" "a \<le> next_free E a m" "next_free E a m < m"
      "E (next_free E a m) = 0"
  | "find (\<lambda>n. E n = 0) [a ..< m] = None" "2 \<le> next_free E a m" "next_free E a m < a"
      "E (next_free E a m) = 0"
  | "\<forall>n. a \<le> n \<and> n < m \<longrightarrow> E n \<noteq> 0" "\<forall>n. 2 \<le> n \<and> n < a \<longrightarrow> E n \<noteq> 0" "next_free E a m = 0"
proof (cases "find (\<lambda>n. E n = 0) [a ..< m]")
  case None
  note hi = this
  show ?thesis
  proof (cases "find (\<lambda>n. E n = 0) [2 ..< a]")
    case None
    with hi have "next_free E a m = 0" by (simp add: next_free_def)
    with hi None show ?thesis unfolding find_upt_None by (intro that(3))
  next
    case (Some n)
    moreover have "2 \<le> n \<and> n < a \<and> E n = 0" using Some by (simp only: find_upt_Some)
    ultimately show ?thesis using hi by (intro that(2)) (simp_all add: next_free_def)
  qed
next
  case (Some n)
  moreover have "a \<le> n \<and> n < m \<and> E n = 0" using Some by (simp only: find_upt_Some)
  ultimately show ?thesis by (intro that(1)) (simp_all add: next_free_def)
qed

lemma next_free_0_iff:
  assumes "2 \<le> a" "a \<le> m"
  shows "next_free E a m = 0 \<longleftrightarrow> (\<forall>n. 2 \<le> n \<and> n < m \<longrightarrow> E n \<noteq> 0)"
proof (cases rule: next_free_cases [of E a m])
  case 1 with assms show ?thesis by (metis le_trans not_numeral_le_zero)
next
  case 2 with assms show ?thesis by (metis not_numeral_le_zero order.strict_trans2)
next
  case 3 then show ?thesis by (metis not_le_imp_less)
qed

lemma next_free_entry:
  assumes "2 \<le> a" "a \<le> m" "next_free E a m \<noteq> 0"
  shows "2 \<le> next_free E a m \<and> next_free E a m < m \<and> E (next_free E a m) = 0"
  using assms by (cases rule: next_free_cases [of E a m]) auto

context sector_read
begin

lemma find_free_cluster_eq:
  assumes "inv s" "fat_all stable v s" "vol_ok v" "unat first \<le> 128 * fat_len v"
    and a: "a = max 2 (unat first)"
  shows "fst (find_free_cluster io v first s) = word_of_nat (next_free (fat_get (disk s) v) a (128 * fat_len v))
    \<and> read_only inv disk stable s (snd (find_free_cluster io v first s))"
proof -
  define f :: u32 where "f = (if first < 2 then 2 else first)"
  have f: "unat f = a" by (auto simp: f_def a word_less_nat_alt)
  have a2: "2 \<le> a" "a \<le> 128 * fat_len v"
    using assms(3,4) by (auto simp: a vol_ok_def)
  define i where "i = unat f div 128"
  have i: "i \<le> fat_len v" "128 * i + unat f mod 128 = a"
    using a2 by (simp_all add: i_def f)
  obtain r1 s1 where p1: "free_forward io v (fat_len v - i) i (unat f mod 128) s = (r1, s1)"
    by fastforce
  have "scan_result (fat_get (disk s) v) a (128 * fat_len v) r1 \<and> read_only inv disk stable s s1"
    using free_forward_spec [OF assms(1,2), of i "fat_len v - i" "unat f mod 128"] i p1
    by (simp add: less_imp_le)
  note r1 = scan_result_find [OF conjunct1 [OF this]] conjunct2 [OF this]
  have big: "2 < f \<longleftrightarrow> 2 < a" using f by (simp add: word_less_nat_alt)
  show ?thesis
  proof (cases "find (\<lambda>n. fat_get (disk s) v n = 0) [a ..< 128 * fat_len v]")
    case (Some n)
    with r1 p1 show ?thesis
      by (simp add: find_free_cluster_def f_def [symmetric] i_def next_free_def)
  next
    case None
    show ?thesis
    proof (cases "2 < a")
      case False
      with None r1 p1 big a2 show ?thesis
        by (simp add: find_free_cluster_def f_def [symmetric] i_def next_free_def)
    next
      case True
      let ?w = "a - 1"
      obtain r2 s2 where p2: "free_wrapped io v ?w (Suc (?w div 128)) 0 s1 = (r2, s2)"
        by fastforce
      note s1 = read_onlyD [OF r1(2)]
      have s1_all: "fat_all stable v s1" using s1(3) assms(2) by simp
      have "?w div 128 < fat_len v" using True a2 by simp
      from free_wrapped_spec [OF s1(1) s1_all this, of 0 "Suc (?w div 128)"] p2 s1(2) True
      have "scan_result (reserve2 (fat_get (disk s) v)) 0 a r2 \<and> read_only inv disk stable s1 s2"
        by simp
      note r2 = scan_result_find [OF conjunct1 [OF this]] conjunct2 [OF this]
      have "read_only inv disk stable s s2"
        using r1(2) r2(2) by (rule read_only_trans)
      with None r1(1) p1 p2 r2(1) True big a2 show ?thesis
        by (simp add: find_free_cluster_def f_def [symmetric] i_def next_free_def f find_reserve2
          split: option.splits)
    qed
  qed
qed

end

section \<open>Writing FAT entries\<close>

text \<open>
  \<open>fat_set v d n x d'\<close>: entry \<open>n\<close> of both copies became \<open>x\<close>, and no other entry and no
  sector outside the two FAT sectors that hold entry \<open>n\<close> changed.
\<close>

definition fat_set :: "vol \<Rightarrow> (u32 \<Rightarrow> sector) \<Rightarrow> nat \<Rightarrow> u32 \<Rightarrow> (u32 \<Rightarrow> sector) \<Rightarrow> bool" where
  "fat_set v d n x d' \<longleftrightarrow>
     (\<forall>m < 128 * fat_len v. fat_get d' v m = (if m = n then x else fat_get d v m))
     \<and> d' (fat2_at v (n div 128)) = d' (fat1_at v (n div 128))
     \<and> (\<forall>a. a \<noteq> fat1_at v (n div 128) \<and> a \<noteq> fat2_at v (n div 128) \<longrightarrow> d' a = d a)"

text \<open>What a client of writes keeps: the invariant, and which sectors are resident.\<close>

definition store_kept :: "('s \<Rightarrow> bool) \<Rightarrow> ('s \<Rightarrow> u32 \<Rightarrow> bool) \<Rightarrow> 's \<Rightarrow> 's \<Rightarrow> bool" where
  "store_kept I R s s' \<longleftrightarrow> I s' \<and> (\<forall>n. R s n \<longrightarrow> R s' n)"

lemma store_kept_trans: "store_kept I R s s1 \<Longrightarrow> store_kept I R s1 s2 \<Longrightarrow> store_kept I R s s2"
  by (simp add: store_kept_def)

lemma store_keptD:
  assumes "store_kept I R s s'"
  shows "I s'" "R s n \<Longrightarrow> R s' n" "fat_both R v s \<Longrightarrow> fat_both R v s'"
  using assms by (simp_all add: store_kept_def fat_both_def)

context sector_store
begin

lemma wr_store_kept:
  "inv s \<Longrightarrow> resident s n \<Longrightarrow> length b = 512 \<Longrightarrow> store_kept inv resident s (after_wr io n b s)"
  by (simp add: store_kept_def)

lemma write_fat_entry_eq:
  assumes "inv s" "vol_ok v" "stable s (fat1_at v (unat c div 128))" "unat c < 128 * fat_len v"
  shows "fst (write_fat_entry io v c x s)
    \<and> fat_set v (disk s) (unat c) x (disk (snd (write_fat_entry io v c x s)))
    \<and> inv (snd (write_fat_entry io v c x s))
    \<and> (resident s (fat1_at v (unat c div 128)) \<and> resident s (fat2_at v (unat c div 128)) \<longrightarrow>
       store_kept inv resident s (snd (write_fat_entry io v c x s)))"
proof -
  let ?k = "unat c div 128"
  let ?b = "blit (fat_offset c) (le32_bytes x) (disk s (fat1_at v ?k))"
  let ?s1 = "after_rd io (fat1_at v ?k) s"
  let ?s2 = "after_wr io (fat1_at v ?k) ?b ?s1"
  let ?s3 = "after_wr io (fat2_at v ?k) ?b ?s2"
  have k: "?k < fat_len v"
    using assms(4) by (simp add: less_mult_imp_div_less mult.commute)
  then have ng: "\<not> sectors_per_fat v \<le> c div 128"
    by (simp add: div128_less not_le)
  note r = rd_eq [OF assms(1,3)] read_onlyD [OF rd_read_only [OF assms(1,3)]]
  have len: "length ?b = 512"
    using fat_offset_less [of c] by (simp add: disk_length [OF assms(1)])
  have inv2: "inv ?s2" using r(2) len by simp
  have w: "write_fat_entry io v c x s = (True, ?s3)"
    using ng r(1,2) len inv2 unfolding write_fat_entry_def by (simp add: Let_def)
  have d: "disk ?s3 = (disk s)(fat1_at v ?k := ?b, fat2_at v ?k := ?b)"
    using r(2,3) len inv2 by simp
  have "fat_set v (disk s) (unat c) x (disk ?s3)"
    unfolding fat_set_def
  proof (intro conjI allI impI)
    fix m assume "m < 128 * fat_len v"
    then show "fat_get (disk ?s3) v m = (if m = unat c then x else fat_get (disk s) v m)"
      by (rule fat_get_update [OF assms(2,4) _ disk_length [OF assms(1)] d])
  qed (simp_all add: d del: div128)
  moreover have "store_kept inv resident s ?s3"
    if "resident s (fat1_at v ?k)" "resident s (fat2_at v ?k)"
  proof -
    have "?s1 = s" using assms(1) that(1) by (rule rd_resident)
    note k1 = wr_store_kept [OF assms(1) that(1) len]
    from wr_store_kept [OF store_keptD(1) [OF k1] store_keptD(2) [OF k1 that(2)] len]
    show ?thesis using k1 \<open>?s1 = s\<close> by (simp add: store_kept_def)
  qed
  moreover have "inv ?s3" using inv2 len by simp
  ultimately show ?thesis using w by simp
qed

end

section \<open>Counting\<close>

lemma filter_sector:
  assumes "e \<le> 128"
  shows "filter (\<lambda>n. p (fat_get d v n)) [128 * i + e ..< 128 * Suc i] =
    map (\<lambda>e. 128 * i + e) (filter (\<lambda>e. p (le32_at (d (fat1_at v i)) (4 * e))) [e ..< 128])"
proof -
  have "[128 * i + e ..< 128 * Suc i] = map (\<lambda>e. 128 * i + e) [e ..< 128]"
    by (rule nth_equalityI) auto
  moreover have "filter (\<lambda>e. p (fat_get d v (128 * i + e))) [e ..< 128]
      = filter (\<lambda>e. p (le32_at (d (fat1_at v i)) (4 * e))) [e ..< 128]"
    by (rule filter_cong) (simp_all add: fat_get_in_sector)
  ultimately show ?thesis by (simp add: filter_map o_def)
qed

lemma upt_split: "a \<le> b \<Longrightarrow> b \<le> (c :: nat) \<Longrightarrow> [a ..< c] = [a ..< b] @ [b ..< c]"
  by (metis le_add_diff_inverse upt_add_eq_append)

context sector_read
begin

lemma count_entries_eq:
  assumes "inv s" "fat_all stable v s" "i + k = fat_len v" "e \<le> 128"
  shows "fst (count_entries io v p k i e acc s)
      = acc + length (filter (\<lambda>n. p (fat_get (disk s) v n)) [128 * i + e ..< 128 * fat_len v])
    \<and> read_only inv disk stable s (snd (count_entries io v p k i e acc s))"
  using assms
proof (induction k arbitrary: i e acc s)
  case 0
  then show ?case by (simp add: read_only_refl)
next
  case (Suc k)
  have i: "i < fat_len v" using Suc.prems by simp
  note r = rd_fat [OF Suc.prems(1,2) i]
  note k = read_onlyD [OF r(2)] read_only_trans [OF r(2)]
  let ?acc = "acc + length (filter (\<lambda>e. p (le32_at (disk s (fat1_at v i)) (4 * e))) [e ..< 128])"
  have "[128 * i + e ..< 128 * fat_len v] = [128 * i + e ..< 128 * Suc i] @ [128 * Suc i ..< 128 * fat_len v]"
    using Suc.prems by (intro upt_split) simp_all
  moreover have "count_entries io v p (Suc k) i e acc s
      = count_entries io v p k (Suc i) 0 ?acc (after_rd io (fat1_at v i) s)"
    using r(1) by simp
  moreover note Suc.IH [OF k(1,3), of "Suc i" 0 ?acc] filter_sector [OF Suc.prems(4), of p "disk s" v i]
  ultimately show ?case
    using Suc.prems k(2,5) by simp
qed

lemma count_free_clusters_eq:
  assumes "inv s" "fat_all stable v s" "unat first \<le> 128 * fat_len v"
  shows "fst (count_free_clusters io v first s)
      = card {n. unat first \<le> n \<and> n < 128 * fat_len v \<and> fat_get (disk s) v n = 0}
    \<and> read_only inv disk stable s (snd (count_free_clusters io v first s))"
proof -
  have "length (filter (\<lambda>n. fat_get (disk s) v n = 0) [unat first ..< 128 * fat_len v])
      = card {n. unat first \<le> n \<and> n < 128 * fat_len v \<and> fat_get (disk s) v n = 0}"
    by (subst distinct_card [symmetric]) (auto intro: arg_cong [of _ _ card])
  moreover have "unat first div 128 \<le> fat_len v" using assms(3) by simp
  ultimately show ?thesis
    using count_entries_eq [OF assms(1,2), of "unat first div 128" "fat_len v - unat first div 128"
        "unat first mod 128" "\<lambda>x. x = 0" 0]
    by (simp add: count_free_clusters_def Let_def less_imp_le)
qed

end

text \<open>
  The clusters of a file from its first one: every entry but the last one links to the next
  cluster; the last one holds 0 or an end marker.
\<close>

fun fat_chain :: "(nat \<Rightarrow> u32) \<Rightarrow> u32 list \<Rightarrow> bool" where
  "fat_chain E [] \<longleftrightarrow> False"
| "fat_chain E [c] \<longleftrightarrow> E (unat c) = 0 \<or> E (unat c) \<ge> end_marker"
| "fat_chain E (c # d # cs) \<longleftrightarrow> E (unat c) = d \<and> d \<noteq> 0 \<and> d < end_marker \<and> fat_chain E (d # cs)"

context sector_read
begin

lemma count_cluster_chain_eq:
  assumes "inv s" "fat_all stable v s" "fat_chain (fat_get (disk s) v) (c # cs)"
    and "\<forall>d \<in> set (c # cs). unat d < 128 * fat_len v"
  shows "\<exists>s'. count_cluster_chain io v c n s = Some ((n + word_of_nat (length cs), last (c # cs)), s')
    \<and> read_only inv disk stable s s'"
  using assms
proof (induction cs arbitrary: c n s)
  case Nil
  then show ?case
    using chained_cluster_eq [of s v c]
    by (cases "chained_cluster io v c s") (simp add: count_cluster_chain.simps)
next
  case (Cons d cs)
  obtain s1 where s1: "chained_cluster io v c s = (d, s1)" "read_only inv disk stable s s1"
    using chained_cluster_eq [of s v c] Cons.prems by (cases "chained_cluster io v c s") simp
  note k = read_onlyD [OF s1(2)]
  obtain s2 where "count_cluster_chain io v d (n + 1) s1 =
      Some ((n + 1 + word_of_nat (length cs), last (d # cs)), s2)" "read_only inv disk stable s1 s2"
    using Cons.IH [OF k(1), of d "n + 1"] Cons.prems k(2,3) by auto
  with s1 Cons.prems show ?case
    by (subst count_cluster_chain.simps) (auto intro: read_only_trans simp: algebra_simps)
qed

end

section \<open>Contiguous runs\<close>

text \<open>
  The search checks clusters up to the end of the run it wants, so it may read the first sector
  of the second FAT copy as entry \<open>128 * fat_len v\<close>; \<open>fat_get\<close> has the same value there.
\<close>

lemma fat2_at_0: "vol_ok v \<Longrightarrow> fat2_at v 0 = fat1_at v (fat_len v)"
  by (simp add: vol_ok_def)

text \<open>The first entry that ends a run which starts at a free entry.\<close>

lemma run_end:
  fixes E :: "nat \<Rightarrow> u32"
  assumes "E n = 0" "j < t" "E (n + j) \<noteq> 0"
  obtains k where "0 < k" "k \<le> j" "E (n + k) \<noteq> 0" "\<forall>i < k. E (n + i) = 0"
proof -
  define k where "k = (LEAST j. E (n + j) \<noteq> 0)"
  have k: "E (n + k) \<noteq> 0" "k \<le> j" "\<forall>i < k. E (n + i) = 0"
    using LeastI [of "\<lambda>j. E (n + j) \<noteq> 0", OF assms(3)] Least_le [of "\<lambda>j. E (n + j) \<noteq> 0", OF assms(3)]
    unfolding k_def by (auto dest: not_less_Least)
  moreover have "0 < k" using k(1) assms(1) by (cases k) auto
  ultimately show thesis using that by blast
qed

context sector_read
begin

lemma rd_fat_end:
  assumes "inv s" "fat_both stable v s" "vol_ok v" "i \<le> fat_len v"
  shows "rd io (fat1_at v i) s = (Some (disk s (fat1_at v i)), after_rd io (fat1_at v i) s)"
    and "read_only inv disk stable s (after_rd io (fat1_at v i) s)"
proof -
  have "stable s (fat1_at v i)"
  proof (cases "i < fat_len v")
    case True with assms show ?thesis by (simp add: fat_both_def)
  next
    case False
    with assms have "i = fat_len v" "0 < fat_len v" by (simp_all add: vol_ok_def)
    with assms(2) have "stable s (fat2_at v 0)" unfolding fat_both_def by blast
    then show ?thesis unfolding fat2_at_0 [OF assms(3)] \<open>i = fat_len v\<close> .
  qed
  with assms show "rd io (fat1_at v i) s = (Some (disk s (fat1_at v i)), after_rd io (fat1_at v i) s)"
    and "read_only inv disk stable s (after_rd io (fat1_at v i) s)"
    by (simp_all add: rd_eq rd_read_only)
qed

lemma is_free_cluster_eq:
  assumes "inv s" "fat_both stable v s" "vol_ok v" "unat c \<le> 128 * fat_len v"
  shows "fst (is_free_cluster io v c s) = Some (fat_get (disk s) v (unat c) = 0)
    \<and> read_only inv disk stable s (snd (is_free_cluster io v c s))"
proof -
  have "unat c div 128 \<le> fat_len v" using assms(4) by simp
  from rd_fat_end [OF assms(1-3) this] show ?thesis
    by (simp add: is_free_cluster_def fat_get_def unat_mod)
qed

lemma contiguous_run_eq:
  assumes "inv s" "fat_both stable v s" "vol_ok v"
    and "(\<forall>j < n. fat_get (disk s) v (unat start + cnt + j) = 0)
       \<and> unat start + cnt + n \<le> 128 * fat_len v + (if n = k then 1 else 0)"
    and "n \<le> k" "n = k \<or> fat_get (disk s) v (unat start + cnt + n) \<noteq> 0"
  shows "fst (contiguous_run io v start k cnt s) = Some (n = k, cnt + n)
    \<and> read_only inv disk stable s (snd (contiguous_run io v start k cnt s))"
  using assms
proof (induction k arbitrary: n cnt s)
  case 0
  then show ?case by (simp add: read_only_refl)
next
  case (Suc k)
  have small: "128 * fat_len v < 2 ^ 32" using Suc.prems(3) by (simp add: vol_ok_def)
  have le: "unat start + cnt \<le> 128 * fat_len v"
    using Suc.prems(4,5) by (cases n) (auto split: if_splits)
  then have c: "unat (start + word_of_nat cnt) = unat start + cnt"
    using small by (simp add: unat_word_ariths unat_of_nat)
  obtain s1 where s1: "is_free_cluster io v (start + word_of_nat cnt) s =
      (Some (fat_get (disk s) v (unat start + cnt) = 0), s1)" "read_only inv disk stable s s1"
    using is_free_cluster_eq [OF Suc.prems(1-3)] c le by (metis prod.collapse)
  note kp = read_onlyD [OF s1(2)]
  show ?case
  proof (cases n)
    case 0
    with Suc.prems(6) have "fat_get (disk s) v (unat start + cnt) \<noteq> 0" by simp
    with s1 0 show ?thesis by simp
  next
    case (Suc n')
    have free: "fat_get (disk s) v (unat start + cnt) = 0"
      using Suc.prems(4) Suc by auto
    have "fst (contiguous_run io v start k (Suc cnt) s1) = Some (n' = k, Suc cnt + n')
        \<and> read_only inv disk stable s1 (snd (contiguous_run io v start k (Suc cnt) s1))"
      using Suc.prems Suc kp
      by (intro Suc.IH) (auto split: if_splits simp: add.assoc)
    with s1 free Suc show ?thesis
      by (auto intro: read_only_trans)
  qed
qed

text \<open>One turn of the outer loop, from the cluster that the search for a free one returned.\<close>

lemma find_contiguous_turn:
  assumes "inv s" "fat_both stable v s" "vol_ok v" "unat start \<le> 128 * fat_len v"
    and n: "n = next_free (fat_get (disk s) v) (max 2 (unat start)) (128 * fat_len v)" "n \<noteq> 0"
    and k: "\<forall>j < k. fat_get (disk s) v (n + j) = 0" "0 < k" "k \<le> unat t"
      "k = unat t \<or> fat_get (disk s) v (n + k) \<noteq> 0 \<and> n + k \<le> 128 * fat_len v"
      "n + k \<le> 128 * fat_len v + 1"
  shows "\<exists>s1 s2. find_free_cluster io v start s = (word_of_nat n, s1) \<and> (word_of_nat n :: u32) \<noteq> 0
    \<and> contiguous_run io v (word_of_nat n) (unat t - 1) 1 s1 = (Some (k = unat t, k), s2)
    \<and> read_only inv disk stable s s2"
proof -
  have all: "fat_all stable v s" using assms(2) by (rule fat_both_all)
  have N: "128 * fat_len v < 2 ^ 32" "2 \<le> 128 * fat_len v" using assms(3) by (simp_all add: vol_ok_def)
  obtain s1 where s1: "find_free_cluster io v start s = (word_of_nat n, s1)" "read_only inv disk stable s s1"
    using find_free_cluster_eq [OF assms(1) all assms(3,4) refl] n by (metis prod.collapse)
  note kp = read_onlyD [OF s1(2)]
  have "n < 128 * fat_len v" using next_free_entry [of "max 2 (unat start)" "128 * fat_len v"] n assms(4) N
    by simp
  then have nw: "unat (word_of_nat n :: u32) = n" using N by (simp add: unat_of_nat)
  then have nz: "(word_of_nat n :: u32) \<noteq> 0" using n(2) by auto
  have j: "fat_get (disk s) v (Suc (n + j)) = 0" if "j < k - 1" for j
    using that k(1) [rule_format, of "Suc j"] by simp
  have "fst (contiguous_run io v (word_of_nat n) (unat t - 1) 1 s1) = Some (k - 1 = unat t - 1, 1 + (k - 1))
    \<and> read_only inv disk stable s1 (snd (contiguous_run io v (word_of_nat n) (unat t - 1) 1 s1))"
    using k j kp assms(2,3) by (intro contiguous_run_eq) (auto simp: nw)
  moreover have "(k - 1 = unat t - 1) = (k = unat t)" using k(2,3) by auto
  ultimately obtain s2 where s2: "contiguous_run io v (word_of_nat n) (unat t - 1) 1 s1 = (Some (k = unat t, k), s2)"
      "read_only inv disk stable s1 s2"
    using k(2) by (cases "contiguous_run io v (word_of_nat n) (unat t - 1) 1 s1") auto
  with read_only_trans [OF s1(2) s2(2)] s1(1) nz show ?thesis by blast
qed

lemma find_contiguous_step:
  assumes "inv s" "fat_both stable v s" "vol_ok v" "unat start \<le> 128 * fat_len v"
    and n: "n = next_free (fat_get (disk s) v) (max 2 (unat start)) (128 * fat_len v)" "n \<noteq> 0"
    and k: "\<forall>j < k. fat_get (disk s) v (n + j) = 0" "0 < k" "k \<le> unat t"
      "k = unat t \<or> fat_get (disk s) v (n + k) \<noteq> 0 \<and> n + k \<le> 128 * fat_len v"
      "n + k \<le> 128 * fat_len v + 1"
  shows "\<exists>s'. read_only inv disk stable s s' \<and> find_contiguous_from io v t start s =
     (if k = unat t then Some (Some (word_of_nat n), s')
      else find_contiguous_from io v t (word_of_nat (n + k)) s')"
proof -
  obtain s1 s2 where "find_free_cluster io v start s = (word_of_nat n, s1)" "(word_of_nat n :: u32) \<noteq> 0"
      "contiguous_run io v (word_of_nat n) (unat t - 1) 1 s1 = (Some (k = unat t, k), s2)"
      "read_only inv disk stable s s2"
    using find_contiguous_turn [OF assms] by blast
  then show ?thesis
    by (intro exI [of _ s2]) (subst find_contiguous_from.simps, simp)
qed

lemma find_contiguous_from_returns:
  assumes "inv s" "fat_both stable v s" "vol_ok v" "unat start \<le> c"
    and "2 \<le> c" "c + unat t \<le> 128 * fat_len v" "0 < t" "\<forall>j < unat t. fat_get (disk s) v (c + j) = 0"
  shows "\<exists>b s'. find_contiguous_from io v t start s = Some (Some b, s') \<and> 2 \<le> unat b \<and> unat b \<le> c
    \<and> (\<forall>j < unat t. fat_get (disk s) v (unat b + j) = 0) \<and> read_only inv disk stable s s'"
  using assms
proof (induction "c - unat start" arbitrary: start s rule: less_induct)
  case less
  let ?E = "fat_get (disk s) v" and ?N = "128 * fat_len v" and ?a = "max 2 (unat start)"
  define n where "n = next_free ?E ?a ?N"
  have N: "?N < 2 ^ 32" using less.prems(3) by (simp add: vol_ok_def)
  have t: "0 < unat t" using less.prems(7) by (simp add: word_less_nat_alt)
  have c: "?E c = 0" "?a \<le> c" "c < ?N" using less.prems t by (auto dest: spec [of _ 0])
  then have n: "?a \<le> n" "n \<le> c" "?E n = 0"
  proof -
    obtain m where m: "find (\<lambda>n. ?E n = 0) [?a ..< ?N] = Some m"
      using c by (cases "find (\<lambda>n. ?E n = 0) [?a ..< ?N]") (auto simp: find_upt_None)
    then have "n = m" by (simp add: n_def next_free_def)
    with m c show "?a \<le> n" "n \<le> c" "?E n = 0"
      unfolding find_upt_Some by (simp_all add: not_less [symmetric]) blast
  qed
  have nw: "unat (word_of_nat n :: u32) = n" using n N c by (simp add: unat_of_nat)
  have le: "unat start \<le> ?N" using less.prems(4) c by simp
  have n0: "n \<noteq> 0" using n(1) by simp
  show ?case
  proof (cases "\<forall>j < unat t. ?E (n + j) = 0")
    case True
    obtain s' where "read_only inv disk stable s s'"
        "find_contiguous_from io v t start s = Some (Some (word_of_nat n), s')"
      using find_contiguous_step [OF less.prems(1-3) le n_def n0 True t le_refl] n less.prems(6) by auto
    with n True show ?thesis by (auto simp: nw)
  next
    case False
    then obtain k where k: "?E (n + k) \<noteq> 0" "k < unat t" "\<forall>j < k. ?E (n + j) = 0" and k0: "0 < k"
      using run_end [of ?E n _ "unat t"] n(3) by (metis order.strict_trans1)
    have nk: "n + k < c"
    proof (rule ccontr)
      assume "\<not> n + k < c"
      then obtain i where "n + k = c + i" using le_Suc_ex [of c "n + k"] by auto
      with k(1,2) n(2) less.prems(8) show False by auto
    qed
    then obtain s' where s': "read_only inv disk stable s s'"
        "find_contiguous_from io v t start s = find_contiguous_from io v t (word_of_nat (n + k)) s'"
      using find_contiguous_step [OF less.prems(1-3) le n_def n0 k(3) k0, of t] k c(3) by auto
    note kp = read_onlyD [OF s'(1)]
    have nkw: "unat (word_of_nat (n + k) :: u32) = n + k" using nk N c by (simp add: unat_of_nat del: of_nat_add)
    have "c - (n + k) < c - unat start" using nk n(1) k0 by (intro diff_less_mono2) simp_all
    then obtain b s'' where "find_contiguous_from io v t (word_of_nat (n + k)) s' = Some (Some b, s'')"
        "2 \<le> unat b \<and> unat b \<le> c \<and> (\<forall>j < unat t. fat_get (disk s) v (unat b + j) = 0)"
        "read_only inv disk stable s' s''"
      using less.hyps [of "word_of_nat (n + k)" s'] less.prems kp nk nkw by auto
    with s' show ?thesis by (auto intro: read_only_trans)
  qed
qed

end

text \<open>
  With a free cluster left but no free run that is long enough, the wrap-around of the search
  for a free cluster keeps the outer loop going for ever.
\<close>

definition fragmented :: "(nat \<Rightarrow> u32) \<Rightarrow> nat \<Rightarrow> nat \<Rightarrow> bool" where
  "fragmented E m t \<longleftrightarrow> (\<exists>n. 2 \<le> n \<and> n < m \<and> E n = 0)
     \<and> (\<forall>n. 2 \<le> n \<and> n < m \<and> E n = 0 \<longrightarrow> (\<exists>k < t. n + k \<le> m \<and> E (n + k) \<noteq> 0))"

lemma find_contiguous_from_diverges:
  assumes "find_contiguous_from io v t start s = Some y"
  shows "sector_read io I D S \<Longrightarrow> I s \<Longrightarrow> fat_both S v s \<Longrightarrow> vol_ok v \<Longrightarrow> unat start \<le> 128 * fat_len v
    \<Longrightarrow> fragmented (fat_get (D s) v) (128 * fat_len v) (unat t) \<Longrightarrow> False"
  using assms
proof (induction io v t start s y rule: find_contiguous_from.raw_induct [rotated, consumes 1])
  case (1 rec io v t start s y)
  let ?E = "fat_get (D s) v" and ?N = "128 * fat_len v"
  define n where "n = next_free ?E (max 2 (unat start)) ?N"
  have N: "?N < 2 ^ 32" "2 \<le> ?N" using 1(6) by (simp_all add: vol_ok_def)
  have "n \<noteq> 0"
    using 1(8) next_free_0_iff [of "max 2 (unat start)" ?N ?E] 1(7) N(2) unfolding n_def fragmented_def by auto
  with next_free_entry [of "max 2 (unat start)" ?N ?E] 1(7) N(2)
  have n: "2 \<le> n" "n < ?N" "?E n = 0" unfolding n_def by auto
  then obtain j where j: "j < unat t" "n + j \<le> ?N" "?E (n + j) \<noteq> 0"
    using 1(8) unfolding fragmented_def by blast
  then obtain k where k: "0 < k" "k \<le> j" "?E (n + k) \<noteq> 0" "\<forall>i < k. ?E (n + i) = 0"
    using run_end [OF n(3) j(1,3)] by blast
  have kt: "k < unat t" "n + k \<le> ?N" using k(2) j by simp_all
  obtain s1 s2 where turn: "find_free_cluster io v start s = (word_of_nat n, s1)" "(word_of_nat n :: u32) \<noteq> 0"
      "contiguous_run io v (word_of_nat n) (unat t - 1) 1 s1 = (Some (k = unat t, k), s2)"
      "read_only I D S s s2"
    using sector_read.find_contiguous_turn [OF 1(3-7) n_def \<open>n \<noteq> 0\<close> k(4,1), of t] k kt by auto
  have nk: "unat (word_of_nat (n + k) :: u32) = n + k"
    using kt(2) N(1) by (simp add: unat_of_nat del: of_nat_add)
  have "rec io v t (word_of_nat (n + k)) s2 = Some y"
    using 1(2) turn kt(1) by simp
  from 1(1) [OF this 1(3)] read_onlyD [OF turn(4)] show False
    using 1(5,6,8) nk kt(2) by simp
qed

section \<open>Properties\<close>

text \<open>
  A small volume for the concrete instances: one FAT sector, on a device whose every sector holds
  the table \<open>E\<close>.
\<close>

definition small_vol :: vol where
  "small_vol = \<lparr>partition_start = 2048, partition_size = 4096, sectors_per_cluster = 8,
     sectors_per_fat = 1, data_sectors = 1024, first_cluster = 2, fsinfo_sector = 1,
     reserved_sectors = 32, fat1_sector = 32, fat2_sector = 33, first_cluster_sector = 34,
     syspart_start = 0, syspart_size = 0, syspart_freeze_area = 0, syspart_freeze_program_size = 0,
     syspart_slot_size = 0, syspart_slot_count = 0, syspart_slotdir_sectors = 0,
     syspart_service_area = 0, syspart_service_area_size = 0, syspart_service_slot_size = 0,
     syspart_service_slot_count = 0, syspart_service_slotdir_sectors = 0, file_system_found = True\<rparr>"

definition table_device :: "(nat \<Rightarrow> u32) \<Rightarrow> nat \<Rightarrow> u8" where
  "table_device E a = le32_bytes (E (a div 4 mod 128)) ! (a mod 4)"

abbreviation table_state :: "(nat \<Rightarrow> u32) \<Rightarrow> (nat \<Rightarrow> u8) blk" where
  "table_state E \<equiv> dev_state (table_device E)"

lemma small_vol_simps [simp]: "vol_ok small_vol" "fat_len small_vol = 1" "sectors_per_fat small_vol = 1"
  by (simp_all add: small_vol_def vol_ok_def)

lemma dev_fat_ready [simp]: "fat_all blk_stable v (dev_state f)" "fat_both blk_stable v (dev_state f)"
    "fat_both blk_resident v (dev_state f)"
  by (simp_all add: fat_all_def fat_both_def)

lemma fat_get_table [simp]: "fat_get (blk_disk device_ops (table_state E)) v = (\<lambda>n. E (n mod 128))"
proof -
  have d: "(a * 512 + (4 * (n mod 128) + k)) div 4 mod 128 = n mod 128"
    "(a * 512 + (4 * (n mod 128) + k)) mod 4 = k" if "k < 4" for a k n :: nat
  proof -
    have "a * 512 + (4 * (n mod 128) + k) = k + 4 * (n mod 128 + 128 * a)" by simp
    with that show "(a * 512 + (4 * (n mod 128) + k)) div 4 mod 128 = n mod 128"
      "(a * 512 + (4 * (n mod 128) + k)) mod 4 = k"
      by (simp_all only: div_mult_self2 mod_mult_self2) simp_all
  qed
  have b: "4 * (n mod 128) + k < 512" if "k < 4" for k n :: nat
    using that mod_less_divisor [of 128 n] by linarith
  have "read_sector_from_device m (table_device E) ! (4 * (n mod 128) + k) = le32_bytes (E (n mod 128)) ! k"
    if "k < 4" for m k n
    using that b [OF that] d [OF that, of "unat m"]
    by (simp add: read_sector_from_device_def farray_get_def table_device_def)
  from this [of 0] this [of 1] this [of 2] this [of 3] have
    "le32_at (read_sector_from_device m (table_device E)) (4 * (n mod 128)) = le32_at (le32_bytes (E (n mod 128))) 0" for m n
    by (simp add: le32_at_def numeral_2_eq_2)
  then show ?thesis by (simp add: fat_get_def fun_eq_iff)
qed

text \<open>
  C6: \<open>set_fat_cluster_ptr\<close> refines the update of one table entry.  It succeeds, both copies of
  the FAT get the new value at that entry, no other entry and no other sector changes, and the
  block layer's invariant is kept.  It needs only the FAT sector it reads to be readable, not the
  whole table to be cached.
\<close>
theorem set_fat_cluster_ptr_refines:
  assumes "blk_inv ops s" "vol_ok v" "blk_stable s (fat1_at v (unat c div 128))" "unat c < 128 * fat_len v"
  shows "fst (set_fat_cluster_ptr (blk_io ops) v c x s)
    \<and> fat_set v (blk_disk ops s) (unat c) x (blk_disk ops (snd (set_fat_cluster_ptr (blk_io ops) v c x s)))
    \<and> blk_inv ops (snd (set_fat_cluster_ptr (blk_io ops) v c x s))"
  using blk.write_fat_entry_eq [OF assms, of x] by (simp add: set_fat_cluster_ptr_def)

theorem set_fat_cluster_ptr_refines_witness:
  "fst (set_fat_cluster_ptr (blk_io device_ops) small_vol 7 9 (table_state (\<lambda>_. 0)))
    \<and> fat_set small_vol (blk_disk device_ops (table_state (\<lambda>_. 0))) (unat (7 :: u32)) 9
        (blk_disk device_ops (snd (set_fat_cluster_ptr (blk_io device_ops) small_vol 7 9 (table_state (\<lambda>_. 0)))))
    \<and> blk_inv device_ops (snd (set_fat_cluster_ptr (blk_io device_ops) small_vol 7 9 (table_state (\<lambda>_. 0))))"
  by (rule set_fat_cluster_ptr_refines) simp_all

lemma chain_cluster_kept:
  assumes "blk_inv ops s" "vol_ok v" "fat_both blk_resident v s" "unat c < 128 * fat_len v"
  shows "fat_set v (blk_disk ops s) (unat c) x (blk_disk ops (snd (write_fat_entry (blk_io ops) v c x s)))"
    "blk_inv ops (snd (write_fat_entry (blk_io ops) v c x s))"
    "fat_both blk_resident v (snd (write_fat_entry (blk_io ops) v c x s))"
    "fst (write_fat_entry (blk_io ops) v c x s)"
proof -
  have "unat c div 128 < fat_len v" using assms(4) by (simp add: less_mult_imp_div_less mult.commute)
  with assms(3) have r: "blk_resident s (fat1_at v (unat c div 128))" "blk_resident s (fat2_at v (unat c div 128))"
    by (simp_all add: fat_both_def del: div128)
  note w = blk.write_fat_entry_eq [OF assms(1,2) blk.resident_stable [OF assms(1) r(1)] assms(4), of x]
  with r show "fat_set v (blk_disk ops s) (unat c) x (blk_disk ops (snd (write_fat_entry (blk_io ops) v c x s)))"
    "blk_inv ops (snd (write_fat_entry (blk_io ops) v c x s))"
    "fst (write_fat_entry (blk_io ops) v c x s)" by simp_all
  from w r have "store_kept (blk_inv ops) blk_resident s (snd (write_fat_entry (blk_io ops) v c x s))" by simp
  from store_keptD(3) [OF this assms(3)] show "fat_both blk_resident v (snd (write_fat_entry (blk_io ops) v c x s))" .
qed

lemma resident_fat_stable: "blk_inv ops s \<Longrightarrow> fat_both blk_resident v s \<Longrightarrow> fat_both blk_stable v s"
  by (simp add: fat_both_def blk.resident_stable)

text \<open>
  Following a link that was just chained.  After \<open>chain_cluster c n\<close>, \<open>get_next_cluster\<close> at
  \<open>c\<close> gives \<open>n\<close> without its top four bits, and at every other cluster what it gave before.
\<close>
lemma chain_then_follow:
  assumes "blk_inv ops s" "vol_ok v" "fat_both blk_resident v s"
    and "unat c < 128 * fat_len v" "unat d < 128 * fat_len v"
  shows "fst (get_next_cluster (blk_io ops) v d (snd (chain_cluster (blk_io ops) v c n s)))
     = (if d = c then n AND 0x0fffffff else fst (get_next_cluster (blk_io ops) v d s))"
proof -
  note k = chain_cluster_kept [OF assms(1-4), of "n AND 0x0fffffff"]
  have d: "unat d < 2 ^ 31" using assms(2,5) by (simp add: vol_ok_def)
  show ?thesis
    using blk.get_next_cluster_eq [OF k(2) fat_both_all [OF resident_fat_stable [OF k(2,3)]] assms(5) d]
      blk.get_next_cluster_eq [OF assms(1) fat_both_all [OF resident_fat_stable [OF assms(1,3)]] assms(5) d]
      k(1) assms(5)
    by (simp add: chain_cluster_def fat_set_def and.assoc word_unat_eq_iff [of d c])
qed

text \<open>
  C7: \<open>find_free_cluster first\<close> returns the first free cluster at or after \<open>max 2 first\<close>, or,
  when there is none up to the end of the table, the first free one from cluster 2 on, or 0 when
  the table has no free cluster at all; it reads every sector it needs and writes nothing.
\<close>
theorem find_free_cluster_refines:
  assumes "blk_inv ops s" "fat_all blk_stable v s" "vol_ok v" "unat first \<le> 128 * fat_len v"
  shows "fst (find_free_cluster (blk_io ops) v first s)
      = word_of_nat (next_free (fat_get (blk_disk ops s) v) (max 2 (unat first)) (128 * fat_len v))
    \<and> blk_inv ops (snd (find_free_cluster (blk_io ops) v first s))
    \<and> blk_disk ops (snd (find_free_cluster (blk_io ops) v first s)) = blk_disk ops s"
  using blk.find_free_cluster_eq [OF assms refl] by (simp add: read_only_def)

theorem find_free_cluster_refines_witness:
  "fst (find_free_cluster (blk_io device_ops) small_vol 10 (table_state (\<lambda>n. if n = 5 then 0 else 7))) = 5"
proof -
  have "next_free (\<lambda>n. if n mod 128 = 5 then 0 else 7) 10 128 = 5"
  proof -
    have "find (\<lambda>n. (if n mod 128 = 5 then 0 else 7 :: u32) = 0) [10 ..< 128] = None"
      by (auto simp: find_upt_None)
    moreover have "find (\<lambda>n. (if n mod 128 = 5 then 0 else 7 :: u32) = 0) [2 ..< 10] = Some 5"
      unfolding find_upt_Some by auto
    ultimately show ?thesis by (simp add: next_free_def)
  qed
  then show ?thesis
    using find_free_cluster_refines [of device_ops "table_state (\<lambda>n. if n = 5 then 0 else 7)" small_vol 10]
    by simp
qed

lemma card_free_update:
  fixes E E' :: "nat \<Rightarrow> u32"
  assumes "n < m" "E n = 0" "x \<noteq> 0" "\<forall>j < m. E' j = (if j = n then x else E j)"
  shows "Suc (card {j. j < m \<and> E' j = 0}) = card {j. j < m \<and> E j = 0}"
proof -
  have "{j. j < m \<and> E j = 0} = insert n {j. j < m \<and> E' j = 0}"
    using assms by (auto split: if_splits)
  moreover have "n \<notin> {j. j < m \<and> E' j = 0}" using assms by auto
  ultimately show ?thesis by simp
qed

text \<open>
  Allocating the cluster that the search returned.  If \<open>find_free_cluster\<close> gives a cluster
  other than 0, \<open>allocate_cluster\<close> on it succeeds, the cluster was free, is in the data range and
  reads back as the end of a chain, all other entries are as before, and \<open>count_free_clusters\<close>
  counts one cluster less.
\<close>
lemma allocate_takes_a_free_cluster:
  assumes "blk_inv ops s" "vol_ok v" "fat_both blk_resident v s" "unat first \<le> 128 * fat_len v"
    and "find_free_cluster (blk_io ops) v first s = (c, s1)" "c \<noteq> 0"
    and "allocate_cluster (blk_io ops) v c s1 = (ok, s2)"
  shows "ok \<and> 2 \<le> unat c \<and> unat c < 128 * fat_len v
    \<and> fat_get (blk_disk ops s) v (unat c) = 0
    \<and> fst (chained_cluster (blk_io ops) v c s2) \<ge> end_marker
    \<and> fat_set v (blk_disk ops s) (unat c) 0x0ffffff8 (blk_disk ops s2)
    \<and> Suc (fst (count_free_clusters (blk_io ops) v 0 s2)) = fst (count_free_clusters (blk_io ops) v 0 s)"
proof -
  let ?E = "fat_get (blk_disk ops s) v" and ?N = "128 * fat_len v"
  have N: "?N < 2 ^ 32" "2 \<le> ?N" using assms(2) by (simp_all add: vol_ok_def)
  note st = resident_fat_stable [OF assms(1,3)]
  note f = blk.res.find_free_cluster_eq [OF assms(1) fat_both_all [OF assms(3)] assms(2,4) refl]
  define n where "n = next_free ?E (max 2 (unat first)) ?N"
  have s1: "read_only (blk_inv ops) (blk_disk ops) blk_resident s s1" and cn: "c = word_of_nat n"
    using f unfolding assms(5) n_def by simp_all
  have "n \<noteq> 0"
  proof
    assume "n = 0"
    then have "c = 0" unfolding cn by simp
    with assms(6) show False by contradiction
  qed
  then have n: "2 \<le> n" "n < ?N" "?E n = 0"
    using next_free_entry [of "max 2 (unat first)" ?N ?E] assms(4) N(2) unfolding n_def by simp_all
  then have c: "unat c = n" using cn N by (simp add: unat_of_nat)
  note d1 = read_onlyD [OF s1]
  have cN: "unat c < ?N" using c n by simp
  note w = chain_cluster_kept [OF d1(1) assms(2) d1(4) [OF assms(3)] cN, where x = "0x0ffffff8"]
  have s2: "write_fat_entry (blk_io ops) v c 0x0ffffff8 s1 = (ok, s2)"
    using assms(7) by (simp add: allocate_cluster_def set_fat_cluster_ptr_def)
  have set: "fat_set v (blk_disk ops s) (unat c) 0x0ffffff8 (blk_disk ops s2)" and ok: ok
      and i2: "blk_inv ops s2" and r2: "fat_both blk_resident v s2"
    using w unfolding s2 d1(2) by simp_all
  then have ent: "\<forall>m < ?N. fat_get (blk_disk ops s2) v m = (if m = n then 0x0ffffff8 else ?E m)"
    unfolding fat_set_def c by blast
  note st2 = fat_both_all [OF resident_fat_stable [OF i2 r2]]
  have "fst (chained_cluster (blk_io ops) v c s2) = 0x0ffffff8"
    using blk.chained_cluster_eq [OF i2 st2 cN] ent n(2) unfolding c by simp
  moreover have "Suc (fst (count_free_clusters (blk_io ops) v 0 s2)) = fst (count_free_clusters (blk_io ops) v 0 s)"
    using blk.count_free_clusters_eq [OF i2 st2, where first = 0]
      blk.count_free_clusters_eq [OF assms(1) fat_both_all [OF st], where first = 0]
      card_free_update [OF n(2,3) _ ent] by simp
  ultimately show ?thesis using set c n ok by (simp add: end_marker_def)
qed

lemma find_free_witness:
  "find_free_cluster (blk_io device_ops) small_vol 10 (table_state (\<lambda>n. if n = 5 then 0 else 7))
     = (5, snd (find_free_cluster (blk_io device_ops) small_vol 10 (table_state (\<lambda>n. if n = 5 then 0 else 7))))"
proof -
  have "next_free (\<lambda>n. if n mod 128 = 5 then 0 else 7) 10 128 = 5"
  proof -
    have "find (\<lambda>n. (if n mod 128 = 5 then 0 else 7 :: u32) = 0) [10 ..< 128] = None"
      by (auto simp: find_upt_None)
    moreover have "find (\<lambda>n. (if n mod 128 = 5 then 0 else 7 :: u32) = 0) [2 ..< 10] = Some 5"
      unfolding find_upt_Some by auto
    ultimately show ?thesis by (simp add: next_free_def)
  qed
  then show ?thesis
    using blk.find_free_cluster_eq [of device_ops "table_state (\<lambda>n. if n = 5 then 0 else 7)" small_vol 10]
    by (simp add: prod_eq_iff)
qed

text \<open>
  The walk along a cluster chain returns.  On a chain that ends (with 0 or an end marker)
  \<open>count_cluster_chain\<close> terminates with its start count plus the number of links, and with the
  last cluster of the chain; it changes nothing on the disk.
\<close>
lemma count_cluster_chain_returns:
  assumes "blk_inv ops s" "fat_all blk_stable v s" "fat_chain (fat_get (blk_disk ops s) v) (c # cs)"
    and "\<forall>d \<in> set (c # cs). unat d < 128 * fat_len v"
  shows "\<exists>s'. count_cluster_chain (blk_io ops) v c n s = Some ((n + word_of_nat (length cs), last (c # cs)), s')
    \<and> blk_disk ops s' = blk_disk ops s"
  using blk.count_cluster_chain_eq [OF assms, of n] by (auto simp: read_only_def)

text \<open>
  The search for \<open>t\<close> contiguous clusters returns whenever a run of \<open>t\<close> free entries exists
  from some cluster \<open>c\<close>, and what it returns is the start of a run of \<open>t\<close> free entries, not
  after \<open>c\<close>.
\<close>
lemma find_contiguous_clusters_returns:
  assumes "blk_inv ops s" "fat_both blk_stable v s" "vol_ok v"
    and "2 \<le> c" "c + unat t \<le> 128 * fat_len v" "0 < t" "\<forall>j < unat t. fat_get (blk_disk ops s) v (c + j) = 0"
  shows "\<exists>b s'. find_contiguous_clusters (blk_io ops) v t s = Some (Some b, s') \<and> 2 \<le> unat b \<and> unat b \<le> c
    \<and> (\<forall>j < unat t. fat_get (blk_disk ops s) v (unat b + j) = 0) \<and> blk_disk ops s' = blk_disk ops s"
  using blk.find_contiguous_from_returns [OF assms(1-3), of 0 c t] assms(4-)
  by (auto simp: find_contiguous_clusters_def read_only_def)

text \<open>
  C8: the search for contiguous clusters does not return on a fragmented volume.  If some cluster
  is free but no run of \<open>t\<close> free clusters exists, the loop wraps around for ever instead of
  giving up.
\<close>
theorem find_contiguous_clusters_diverges:
  assumes "blk_inv ops s" "fat_both blk_stable v s" "vol_ok v"
    and "fragmented (fat_get (blk_disk ops s) v) (128 * fat_len v) (unat t)"
  shows "find_contiguous_clusters (blk_io ops) v t s = None"
proof (cases "find_contiguous_clusters (blk_io ops) v t s")
  case (Some y)
  then have "find_contiguous_from (blk_io ops) v t 0 s = Some y"
    by (simp add: find_contiguous_clusters_def)
  from find_contiguous_from_diverges [OF this blk.sector_read_axioms assms(1-3) _ assms(4)] show ?thesis
    by simp
qed

theorem find_contiguous_clusters_diverges_witness:
  "find_contiguous_clusters (blk_io device_ops) small_vol 2 (table_state (\<lambda>n. if n = 5 then 0 else 7)) = None"
proof (rule find_contiguous_clusters_diverges)
  show "fragmented (fat_get (blk_disk device_ops (table_state (\<lambda>n. if n = 5 then 0 else 7))) small_vol)
      (128 * fat_len small_vol) (unat (2 :: u32))"
    unfolding fragmented_def
  proof (intro conjI allI impI)
    fix n
    assume "2 \<le> n \<and> n < 128 * fat_len small_vol \<and>
      fat_get (blk_disk device_ops (table_state (\<lambda>n. if n = 5 then 0 else 7))) small_vol n = 0"
    then have "n = 5" by (auto split: if_splits)
    then show "\<exists>k < unat (2 :: u32). n + k \<le> 128 * fat_len small_vol \<and>
        fat_get (blk_disk device_ops (table_state (\<lambda>n. if n = 5 then 0 else 7))) small_vol (n + k) \<noteq> 0"
      by (intro exI [of _ 1]) simp
  qed (simp, intro exI [of _ 5], simp)
qed simp_all


text \<open>A device with one FAT32 partition at sector 2048: the bytes that \<open>open_file_system\<close> looks at.\<close>

definition card_image :: "nat \<Rightarrow> u8" where
  "card_image a =
     (if a = 0x1c2 then 0x0c else if a = 0x1c7 then 0x08 else if a = 0x1cb then 0x10
      else if a = 2048 * 512 + 12 then 2 else if a = 2048 * 512 + 13 then 8
      else if a = 2048 * 512 + 14 then 32 else if a = 2048 * 512 + 16 then 2
      else if a = 2048 * 512 + 0x24 then 1 else if a = 2048 * 512 + 0x2c then 2
      else if a = 2048 * 512 + 510 then 0x55 else if a = 2048 * 512 + 511 then 0xaa else 0)"


end
