(* ===== verification/Dir.thy ===== *)
theory Dir
  imports Fat "HOL-Library.Monad_Syntax"
begin

text \<open>
  Reading directories (\<open>mega65_ftp.c\<close>): the cursor kept in the globals \<open>dir_cluster\<close>,
  \<open>dir_sector\<close>, \dots, \<open>fat_opendir\<close>, \<open>fat_readdir\<close> with the long file names, and the
  time stamps.  A result \<open>None\<close> is a call that does not return (an endless loop or \<open>exit\<close>).
\<close>

section \<open>Entries\<close>

record tm =
  tm_sec :: int
  tm_min :: int
  tm_hour :: int
  tm_mday :: int
  tm_mon :: int
  tm_year :: int

definition tm_zero :: tm where
  "tm_zero = \<lparr>tm_sec = 0, tm_min = 0, tm_hour = 0, tm_mday = 0, tm_mon = 0, tm_year = 0\<rparr>"

record m65dirent =
  d_ino :: u32
  d_filelen :: int
  d_attr :: u8
  d_type :: nat
  d_time :: tm
  d_mtime :: tm
  d_name :: bytes
  d_longname :: bytes
  de_cluster :: u32
  de_sector :: u32
  de_sector_offset :: int
  de_raw :: bytes

definition filename_max :: nat where
  "filename_max = 4096"

text \<open>\<open>memset(d, 0, sizeof(struct m65dirent))\<close>\<close>

definition dirent_zero :: m65dirent where
  "dirent_zero = \<lparr>d_ino = 0, d_filelen = 0, d_attr = 0, d_type = 0, d_time = tm_zero, d_mtime = tm_zero,
     d_name = replicate filename_max 0, d_longname = replicate filename_max 0, de_cluster = 0,
     de_sector = 0, de_sector_offset = 0, de_raw = replicate 32 0\<rparr>"

definition M65DT_REG :: nat where "M65DT_REG = 1"
definition M65DT_DIR :: nat where "M65DT_DIR = 2"
definition M65DT_UNKNOWN :: nat where "M65DT_UNKNOWN = 4"
definition M65DT_FREESLOT :: nat where "M65DT_FREESLOT = 0xff"

text \<open>The C string in a buffer, \<open>tolower\<close> and \<open>toupper\<close> of the C locale, \<open>strcasecmp\<close>.\<close>

definition cstr :: "bytes \<Rightarrow> bytes" where
  "cstr b = takeWhile (\<lambda>c. c \<noteq> 0) b"

definition to_lower :: "u8 \<Rightarrow> u8" where
  "to_lower c = (if 0x41 \<le> c \<and> c \<le> 0x5a then c + 0x20 else c)"

definition to_upper :: "u8 \<Rightarrow> u8" where
  "to_upper c = (if 0x61 \<le> c \<and> c \<le> 0x7a then c - 0x20 else c)"

definition same_caseless :: "bytes \<Rightarrow> bytes \<Rightarrow> bool" where
  "same_caseless a b \<longleftrightarrow> map to_lower a = map to_lower b"

definition name_match :: "m65dirent \<Rightarrow> bytes \<Rightarrow> bool" where
  "name_match de name \<longleftrightarrow> same_caseless (cstr (d_name de)) name \<or> same_caseless (cstr (d_longname de)) name"

text \<open>The bit fields of a time stamp are read with the masks and shifts of the source.\<close>

definition time_from_raw :: "nat \<Rightarrow> bytes \<Rightarrow> tm" where
  "time_from_raw off b =
     \<lparr>tm_sec = uint (push_bit 1 (b ! off AND 0x1f)),
      tm_min = uint (drop_bit 5 (b ! off) AND 0x07 OR push_bit 3 (b ! (off + 1) AND 0x7)),
      tm_hour = uint (drop_bit 3 (b ! (off + 1))),
      tm_mday = uint (b ! (off + 2) AND 0x1f),
      tm_mon = uint (drop_bit 5 (b ! (off + 2)) AND 0x7 OR push_bit 3 (b ! (off + 3) AND 0x1)) - 1,
      tm_year = uint (drop_bit 1 (b ! (off + 3))) + 80\<rparr>"

definition assemble_time_from_raw :: "bytes \<Rightarrow> m65dirent \<Rightarrow> m65dirent" where
  "assemble_time_from_raw b de = de\<lparr>d_time := time_from_raw 0xe b\<rparr>"

text \<open>\<open>assemble_time_into_raw_at_offset\<close>: the ints are cut to bytes by the assignments.\<close>

definition assemble_time_into_raw_at_offset :: "nat \<Rightarrow> tm \<Rightarrow> bytes \<Rightarrow> bytes" where
  "assemble_time_into_raw_at_offset offs t b = blit offs
     [word_of_int ((drop_bit 1 (tm_sec t) AND 0x1F) OR push_bit 5 (tm_min t AND 0x7)),
      word_of_int ((drop_bit 3 (tm_min t) AND 0x7) OR push_bit 3 (tm_hour t)),
      word_of_int ((tm_mday t AND 0x1f) OR push_bit 5 ((tm_mon t + 1) AND 0x7)),
      word_of_int ((drop_bit 3 (tm_mon t + 1) AND 0x1) OR push_bit 1 (tm_year t - 80))] b"

definition assemble_time_into_raw :: "tm \<Rightarrow> bytes \<Rightarrow> bytes" where
  "assemble_time_into_raw t b =
     assemble_time_into_raw_at_offset 0x16 t (assemble_time_into_raw_at_offset 0x0e t b)"

section \<open>The cursor\<close>

record 's dir_state =
  store :: 's
  current_dir :: bytes
  dir_cluster :: u32
  dir_sector :: u32
  dir_sector_in_cluster :: nat
  dir_sector_offset :: int
  dir_sector_buffer :: sector
  vfatEntry :: bool
  vfat_entry_count :: nat
  vfat_dir_cluster :: u32
  vfat_dir_sector :: u32
  vfat_dir_sector_in_cluster :: nat
  vfat_dir_sector_offset :: int

definition no_dir :: u32 where  \<comment> \<open>\<open>dir_sector = -1\<close>\<close>
  "no_dir = - 1"

text \<open>Byte \<open>k\<close> of the entry under the cursor.\<close>

definition entry_byte :: "('s, 'a) dir_state_scheme \<Rightarrow> nat \<Rightarrow> u8" where
  "entry_byte d k = dir_sector_buffer d ! (nat (dir_sector_offset d) + k)"

definition cur_entry :: "('s, 'a) dir_state_scheme \<Rightarrow> bytes" where
  "cur_entry d = subbuf (nat (dir_sector_offset d)) 32 (dir_sector_buffer d)"

definition cluster_sector :: "vol \<Rightarrow> u32 \<Rightarrow> u32" where
  "cluster_sector v cluster =
     first_cluster_sector v + (cluster - first_cluster v) * ucast (sectors_per_cluster v)"

text \<open>\<open>read_sector(partition_start + dir_sector, dir_sector_buffer, CACHE_YES, 0)\<close>\<close>

definition dir_load ::
  "'s sector_io \<Rightarrow> vol \<Rightarrow> ('s, 'a) dir_state_scheme \<Rightarrow> bool \<times> ('s, 'a) dir_state_scheme" where
  "dir_load io v d =
     (case rd io (partition_start v + dir_sector d) (store d) of
        (None, s) \<Rightarrow> (False, d\<lparr>store := s\<rparr>)
      | (Some b, s) \<Rightarrow> (True, d\<lparr>store := s, dir_sector_buffer := b\<rparr>))"

definition set_cursor :: "vol \<Rightarrow> u32 \<Rightarrow> ('s, 'a) dir_state_scheme \<Rightarrow> ('s, 'a) dir_state_scheme" where
  "set_cursor v cluster d = d\<lparr>dir_cluster := cluster, dir_sector := cluster_sector v cluster,
     dir_sector_offset := - 32, dir_sector_in_cluster := 0\<rparr>"

definition set_cursor_root :: "vol \<Rightarrow> ('s, 'a) dir_state_scheme \<Rightarrow> ('s, 'a) dir_state_scheme" where
  "set_cursor_root v d = d\<lparr>dir_cluster := first_cluster v, dir_sector := first_cluster_sector v,
     dir_sector_offset := - 32, dir_sector_in_cluster := 0\<rparr>"

text \<open>
  The comparison \<open>next_cluster < 0xFFFFFF0\<close> is on \<open>int\<close>, so a failed read of the FAT
  (\<open>0xFFFFFFFF\<close>) passes it.
\<close>

definition advance_to_next_entry ::
  "'s sector_io \<Rightarrow> vol \<Rightarrow> ('s, 'a) dir_state_scheme \<Rightarrow> int \<times> ('s, 'a) dir_state_scheme" where
  "advance_to_next_entry io v d =
     (let d1 = d\<lparr>dir_sector_offset := dir_sector_offset d + 32\<rparr> in
      if dir_sector_offset d1 \<noteq> 512 then (0, d1)
      else
        let d2 = d1\<lparr>dir_sector_offset := 0, dir_sector := dir_sector d1 + 1,
               dir_sector_in_cluster := dir_sector_in_cluster d1 + 1\<rparr>;
            load = (\<lambda>d. if dir_sector d = no_dir then (0, d)
                        else case dir_load io v d of
                            (True, d') \<Rightarrow> (0, d')
                          | (False, d') \<Rightarrow> (- 1, d'\<lparr>dir_sector := no_dir\<rparr>))
        in if dir_sector_in_cluster d2 \<noteq> unat (sectors_per_cluster v) then load d2
           else case get_next_cluster io v (dir_cluster d2) (store d2) of (next_cluster, s) \<Rightarrow>
             if sint next_cluster < 0xFFFFFF0 \<and> next_cluster \<noteq> 0
             then load (d2\<lparr>store := s, dir_cluster := next_cluster, dir_sector_in_cluster := 0,
                          dir_sector := cluster_sector v next_cluster\<rparr>)
             else (- 2, d2\<lparr>store := s, dir_sector := no_dir\<rparr>))"

section \<open>Names\<close>

definition copy_to_dnamechunk_from_offset :: "bytes \<Rightarrow> nat \<Rightarrow> nat \<Rightarrow> bytes" where
  "copy_to_dnamechunk_from_offset e offset n = map (\<lambda>k. e ! (offset + k * 2)) [0 ..< n]"

definition vfat_chunk :: "bytes \<Rightarrow> bytes" where
  "vfat_chunk e = copy_to_dnamechunk_from_offset e 0x01 5 @ copy_to_dnamechunk_from_offset e 0x0E 6
     @ copy_to_dnamechunk_from_offset e 0x1C 2"

text \<open>
  \<open>copy_vfat_chars_into_dname(d->d_longname, seqnumber)\<close>: sequence number 0 points 13 bytes
  before the buffer, which is the end of \<open>d_name\<close>.
\<close>

definition copy_vfat_chars_into_dname :: "nat \<Rightarrow> bytes \<Rightarrow> m65dirent \<Rightarrow> m65dirent" where
  "copy_vfat_chars_into_dname seqnumber e de =
     (if seqnumber = 0 then de\<lparr>d_name := blit (filename_max - 13) (vfat_chunk e) (d_name de)\<rparr>
      else de\<lparr>d_longname := blit (13 * (seqnumber - 1)) (vfat_chunk e) (d_longname de)\<rparr>)"

definition rtrim :: "bytes \<Rightarrow> bytes" where
  "rtrim xs = rev (dropWhile (\<lambda>c. c = 0x20) (rev xs))"

definition cased :: "bool \<Rightarrow> u8 \<Rightarrow> u8" where
  "cased lower c = (if lower then to_lower c else c)"

text \<open>\<open>extract_out_dos8_3name\<close>, as the string it stores (nothing for an empty entry).\<close>

definition dos8_3name :: "bytes \<Rightarrow> bytes" where
  "dos8_3name e =
     (let base_lower = (e ! 0x0C AND 0x08 \<noteq> 0); ext_lower = (e ! 0x0C AND 0x10 \<noteq> 0);
          base = rtrim (map (cased base_lower) (filter (\<lambda>c. c \<noteq> 0) (subbuf 0 8 e)))
      in if e ! 8 \<noteq> 0 \<and> e ! 8 \<noteq> 0x20
         then rtrim (base @ [0x2e] @ map (cased ext_lower) (filter (\<lambda>c. c \<noteq> 0) (subbuf 8 3 e)))
         else base)"

definition extract_out_dos8_3name :: "bytes \<Rightarrow> bytes \<Rightarrow> bytes" where
  "extract_out_dos8_3name e name_buf =
     (if e ! 0 \<noteq> 0 then blit 0 (dos8_3name e @ [0]) name_buf else name_buf)"

section \<open>Growing a directory\<close>

text \<open>The results of the writes are ignored by the source.\<close>

definition wipe_cluster :: "'s sector_io \<Rightarrow> vol \<Rightarrow> u32 \<Rightarrow> 's \<Rightarrow> 's" where
  "wipe_cluster io v cluster s =
     fold (\<lambda>k s. after_wr io (partition_start v + cluster_sector v cluster + word_of_nat k) (replicate 512 0) s)
       [0 ..< unat (sectors_per_cluster v)] s"

definition extend_dir_cluster_chain ::
  "'s sector_io \<Rightarrow> vol \<Rightarrow> ('s, 'a) dir_state_scheme \<Rightarrow> bool \<times> ('s, 'a) dir_state_scheme" where
  "extend_dir_cluster_chain io v d =
     (case find_free_cluster io v (dir_cluster d) (store d) of (next_cluster, s1) \<Rightarrow>
      case allocate_cluster io v next_cluster s1 of
        (False, s2) \<Rightarrow> (False, d\<lparr>store := s2\<rparr>)
      | (True, s2) \<Rightarrow>
          (case chain_cluster io v (dir_cluster d) next_cluster s2 of
             (False, s3) \<Rightarrow> (False, d\<lparr>store := s3\<rparr>)
           | (True, s3) \<Rightarrow>
               let d1 = set_cursor v next_cluster (d\<lparr>store := flush io (wipe_cluster io v next_cluster s3)\<rparr>)
               in (True, snd (dir_load io v d1))))"

section \<open>\<open>fat_readdir\<close>\<close>

text \<open>
  The loop over the long file name entries before a short one; \<open>None\<close> is a loop that never
  ends.
\<close>

partial_function (option) vfat_loop ::
  "'s sector_io \<Rightarrow> vol \<Rightarrow> bool \<Rightarrow> m65dirent \<Rightarrow> bool \<Rightarrow> 's dir_state \<Rightarrow> (m65dirent \<times> bool \<times> 's dir_state) option" where
  "vfat_loop io v first_time de deleted d =
     (let seq = entry_byte d 0;
          deleted1 = (deleted \<or> seq = 0xE5);
          seqnumber = unat (seq AND 0x1F);
          de1 = (if first_time then de\<lparr>d_name := (d_name de)[seqnumber * 13 := 0]\<rparr> else de);
          de2 = copy_vfat_chars_into_dname seqnumber (cur_entry d) de1;
          d1 = d\<lparr>vfat_entry_count := vfat_entry_count d + 1\<rparr>;
          d2 = snd (advance_to_next_entry io v d1)
      in if entry_byte d2 0x0B \<noteq> 0x0F then Some (de2, deleted1, d2)
         else if seqnumber = 1 then Some (de2, deleted1, d2)
         else vfat_loop io v False de2 deleted1 d2)"

declare vfat_loop.simps [code]

text \<open>The fields taken from a 32-byte entry once the cursor is on it.\<close>

definition fill_debug :: "vol \<Rightarrow> 's dir_state \<Rightarrow> m65dirent \<Rightarrow> m65dirent" where
  "fill_debug v d de =
     (let e = cur_entry d in
      (assemble_time_from_raw e (de\<lparr>de_raw := e, de_cluster := dir_cluster d,
         de_sector := partition_start v + dir_sector d, de_sector_offset := dir_sector_offset d\<rparr>))
        \<lparr>d_mtime := time_from_raw 0x16 e\<rparr>)"

definition start_cluster :: "bytes \<Rightarrow> u32" where
  "start_cluster e = ucast (e ! 0x1A) OR push_bit 8 (ucast (e ! 0x1B))
     OR push_bit 16 (ucast (e ! 0x14)) OR push_bit 24 (ucast (e ! 0x15))"

definition hide :: "m65dirent \<Rightarrow> m65dirent" where  \<comment> \<open>\<open>d->d_name[0] = 0\<close>\<close>
  "hide de = de\<lparr>d_name := (d_name de)[0 := 0]\<rparr>"

definition entry_type :: "m65dirent \<Rightarrow> nat" where
  "entry_type de =
     (if d_attr de AND 0xC8 \<noteq> 0 then M65DT_UNKNOWN else if d_attr de AND 0x10 \<noteq> 0 then M65DT_DIR
      else if d_attr de = 0 \<and> d_name de ! 0 = 0 then M65DT_FREESLOT else M65DT_REG)"

definition decode_entry :: "bool \<Rightarrow> bool \<Rightarrow> bytes \<Rightarrow> m65dirent \<Rightarrow> m65dirent" where
  "decode_entry is_vfat deleted e de =
     (if is_vfat \<and> d_longname de ! 0 = 0x2e then hide de
      else if deleted then hide de
      else if e ! 0 = 0xE5 then hide de
      else if e ! 0 = 0x00 then (hide de)\<lparr>d_type := M65DT_FREESLOT\<rparr>
      else if e ! 0x0B = 0x08 then hide de
      else if e ! 0x0B AND 0x02 \<noteq> 0 then hide de
      else let de1 = de\<lparr>d_ino := start_cluster e, d_name := extract_out_dos8_3name e (d_name de),
                  d_filelen := sint (le32_at e 0x1C), d_attr := e ! 0x0b\<rparr>
           in de1\<lparr>d_type := entry_type de1\<rparr>)"

text \<open>The start of \<open>fat_readdir\<close>: step to the next entry, growing the directory if asked to.\<close>

definition next_entry ::
  "'s sector_io \<Rightarrow> vol \<Rightarrow> bool \<Rightarrow> 's dir_state \<Rightarrow> int option \<times> 's dir_state" where
  "next_entry io v extend_dir_flag d =
     (let (r, d1) = advance_to_next_entry io v (d\<lparr>vfatEntry := False, vfat_entry_count := 0\<rparr>) in
      if extend_dir_flag \<and> dir_sector d1 = no_dir then
        (case extend_dir_cluster_chain io v d1 of
           (False, d2) \<Rightarrow> (None, d2)
         | (True, d2) \<Rightarrow> (let (r', d3) = advance_to_next_entry io v d2 in (Some r', d3)))
      else (Some r, d1))"

definition fat_readdir ::
  "'s sector_io \<Rightarrow> vol \<Rightarrow> bool \<Rightarrow> 's dir_state \<Rightarrow> (int \<times> m65dirent \<times> 's dir_state) option" where
  "fat_readdir io v extend_dir_flag d =
     (case next_entry io v extend_dir_flag d of
        (None, d1) \<Rightarrow> Some (- 1, dirent_zero, d1)
      | (Some r, d1) \<Rightarrow>
          if r = - 2 \<or> dir_sector d1 = no_dir then Some (- 1, dirent_zero, d1)
          else if entry_byte d1 0x0B = 0x0F \<and> entry_byte d1 0 \<noteq> 0x00 \<and> entry_byte d1 0 \<noteq> 0xE5 then
            do {
              (de, deleted, d2) \<leftarrow> vfat_loop io v True dirent_zero False
                (d1\<lparr>vfatEntry := True, vfat_dir_cluster := dir_cluster d1, vfat_dir_sector := dir_sector d1,
                    vfat_dir_sector_in_cluster := dir_sector_in_cluster d1,
                    vfat_dir_sector_offset := dir_sector_offset d1\<rparr>);
              Some (r, decode_entry True deleted (cur_entry d2) (fill_debug v d2 de), d2)
            }
          else Some (r, decode_entry False False (cur_entry d1) (fill_debug v d1 dirent_zero), d1))"

section \<open>Searching and opening\<close>

text \<open>
  The loop \<open>while (!fat_readdir(&d, FALSE)) if (name_match(&d, name)) ...\<close> that several
  functions share: the entry found, with the cursor on it.  It does not return on a cyclic
  cluster chain.
\<close>

partial_function (option) search_dir ::
  "'s sector_io \<Rightarrow> vol \<Rightarrow> bytes \<Rightarrow> 's dir_state \<Rightarrow> (m65dirent option \<times> 's dir_state) option" where
  "search_dir io v name d =
     do {
       (r, de, d1) \<leftarrow> fat_readdir io v False d;
       if r \<noteq> 0 then Some (None, d1)
       else if name_match de name then Some (Some de, d1)
       else search_dir io v name d1
     }"

declare search_dir.simps [code]

definition open_first :: "'s sector_io \<Rightarrow> vol \<Rightarrow> 's dir_state \<Rightarrow> int \<times> 's dir_state" where
  "open_first io v d =
     (case dir_load io v d of (True, d1) \<Rightarrow> (0, d1) | (False, d1) \<Rightarrow> (- 1, d1\<lparr>dir_sector := no_dir\<rparr>))"

partial_function (option) opendir_segments ::
  "'s sector_io \<Rightarrow> vol \<Rightarrow> bytes \<Rightarrow> int \<Rightarrow> 's dir_state \<Rightarrow> (int \<times> 's dir_state) option" where
  "opendir_segments io v path r d =
     (if path = [] then Some (r, d)
      else
        let path_seg = takeWhile (\<lambda>c. c \<noteq> 0x2f) path;
            rest = dropWhile (\<lambda>c. c = 0x2f) (drop (length path_seg) path)
        in if path_seg = [] then (if r \<noteq> 0 then Some (r, d) else opendir_segments io v rest r d)
           else do {
             (found, d1) \<leftarrow> search_dir io v path_seg d;
             case found of
               None \<Rightarrow> Some (- 1, set_cursor_root v d1)
             | Some de \<Rightarrow>
                 if d_attr de AND 0x10 = 0 then Some (- 1, set_cursor_root v d1)
                 else case open_first io v (set_cursor v (d_ino de) d1) of (r', d2) \<Rightarrow>
                   if r' \<noteq> 0 then Some (- 1, set_cursor_root v d2) else opendir_segments io v rest r' d2
           })"

declare opendir_segments.simps [code]

definition fat_opendir ::
  "'s sector_io \<Rightarrow> vol \<Rightarrow> bytes \<Rightarrow> 's dir_state \<Rightarrow> (int \<times> 's dir_state) option" where
  "fat_opendir io v path d =
     (case open_first io v (set_cursor_root v d) of (r, d1) \<Rightarrow> opendir_segments io v path r d1)"

section \<open>Time stamps\<close>

lemma or_shift: "0 \<le> a \<Longrightarrow> a < 2 ^ k \<Longrightarrow> a OR push_bit k b = a + 2 ^ k * (b :: int)"
proof -
  assume "0 \<le> a" "a < 2 ^ k"
  then have "take_bit k a = a" by (simp add: take_bit_int_eq_self)
  then have "a OR push_bit k b = take_bit k a + push_bit k b"
    using concat_bit_eq [of k a b] by (simp add: concat_bit_def)
  with \<open>take_bit k a = a\<close> show ?thesis by (simp add: push_bit_eq_mult mult.commute)
qed

lemma int_and_masks:
  "(x :: int) AND 0x1F = x mod 32" "x AND 0x7 = x mod 8" "x AND 0x1 = x mod 2"
  using take_bit_eq_mask [of 5 x] take_bit_eq_mask [of 3 x] take_bit_eq_mask [of 1 x]
  by (simp_all add: take_bit_eq_mod mask_eq_exp_minus_1)

lemma uint_of_word: "uint (word_of_int z :: u8) = z mod 256"
  by (simp add: unsigned_of_int take_bit_eq_mod)

lemma uint_and_or: "uint (a AND b) = uint a AND uint (b :: u8)" "uint (a OR b) = uint a OR uint (b :: u8)"
  by (simp_all add: unsigned_and_eq unsigned_or_eq)

lemma uint_u8: "0 \<le> uint (a :: u8)" "uint a < 256" "uint a mod 256 = uint a"
  using uint_lt2p [of a] by (simp_all add: mod_pos_pos_trivial)

lemma uint_shift: "uint (push_bit k (a :: u8)) = (uint a * 2 ^ k) mod 256" "uint (drop_bit k a) = uint a div 2 ^ k"
  unfolding unsigned_push_bit_eq unsigned_drop_bit_eq take_bit_eq_mod
  by (simp_all add: push_bit_eq_mult drop_bit_eq_div uint_u8)

lemma nth_time_bytes:
  assumes "offs + 4 \<le> length b" "k < 4"
  shows "assemble_time_into_raw_at_offset offs t b ! (offs + k) =
     [word_of_int ((drop_bit 1 (tm_sec t) AND 0x1F) OR push_bit 5 (tm_min t AND 0x7)),
      word_of_int ((drop_bit 3 (tm_min t) AND 0x7) OR push_bit 3 (tm_hour t)),
      word_of_int ((tm_mday t AND 0x1f) OR push_bit 5 ((tm_mon t + 1) AND 0x7)),
      word_of_int ((drop_bit 3 (tm_mon t + 1) AND 0x1) OR push_bit 1 (tm_year t - 80))] ! k"
  using assms by (simp add: assemble_time_into_raw_at_offset_def nth_blit)

definition tm_ok :: "tm \<Rightarrow> bool" where
  "tm_ok t \<longleftrightarrow> 0 \<le> tm_sec t \<and> tm_sec t < 64 \<and> 0 \<le> tm_min t \<and> tm_min t < 60 \<and> 0 \<le> tm_hour t \<and> tm_hour t < 24
     \<and> 0 \<le> tm_mday t \<and> tm_mday t < 32 \<and> 0 \<le> tm_mon t \<and> tm_mon t < 12 \<and> 80 \<le> tm_year t \<and> tm_year t < 208"

text \<open>
  Time stamps round trip.  A time written into a directory entry and read back is the same
  time with its seconds rounded down to an even number, at any offset of the entry and for every
  time the format can hold (years 1980 to 2107).
\<close>
lemma time_stamp_roundtrip:
  assumes "tm_ok t" "offs + 4 \<le> length b"
  shows "time_from_raw offs (assemble_time_into_raw_at_offset offs t b) = t\<lparr>tm_sec := 2 * (tm_sec t div 2)\<rparr>"
proof -
  have nth: "assemble_time_into_raw_at_offset offs t b ! offs = word_of_int ((drop_bit 1 (tm_sec t) AND 0x1F) OR push_bit 5 (tm_min t AND 0x7))"
    "assemble_time_into_raw_at_offset offs t b ! (offs + 1) = word_of_int ((drop_bit 3 (tm_min t) AND 0x7) OR push_bit 3 (tm_hour t))"
    "assemble_time_into_raw_at_offset offs t b ! (offs + 2) = word_of_int ((tm_mday t AND 0x1f) OR push_bit 5 ((tm_mon t + 1) AND 0x7))"
    "assemble_time_into_raw_at_offset offs t b ! (offs + 3) = word_of_int ((drop_bit 3 (tm_mon t + 1) AND 0x1) OR push_bit 1 (tm_year t - 80))"
    using nth_time_bytes [OF assms(2), of 0 t] nth_time_bytes [OF assms(2), of 1 t]
      nth_time_bytes [OF assms(2), of 2 t] nth_time_bytes [OF assms(2), of 3 t] by simp_all
  have b0: "(drop_bit 1 (tm_sec t) AND 0x1F) OR push_bit 5 (tm_min t AND 0x7) = tm_sec t div 2 mod 32 + 32 * (tm_min t mod 8)"
    by (subst or_shift) (simp_all add: int_and_masks drop_bit_eq_div)
  have b1: "(drop_bit 3 (tm_min t) AND 0x7) OR push_bit 3 (tm_hour t) = tm_min t div 8 mod 8 + 8 * tm_hour t"
    by (subst or_shift) (simp_all add: int_and_masks drop_bit_eq_div)
  have b2: "(tm_mday t AND 0x1f) OR push_bit 5 ((tm_mon t + 1) AND 0x7) = tm_mday t mod 32 + 32 * ((tm_mon t + 1) mod 8)"
    by (subst or_shift) (simp_all add: int_and_masks drop_bit_eq_div)
  have b3: "(drop_bit 3 (tm_mon t + 1) AND 0x1) OR push_bit 1 (tm_year t - 80) = (tm_mon t + 1) div 8 mod 2 + 2 * (tm_year t - 80)"
    by (subst or_shift) (simp_all add: int_and_masks drop_bit_eq_div)
  have mn: "(a mod 8) OR push_bit 3 (c mod 8) = a mod 8 + 8 * (c mod 8)" for a c :: int
    by (subst or_shift) simp_all
  define s m0 m1 h dy n0 n1 y where d: "s = tm_sec t div 2" "m0 = tm_min t mod 8" "m1 = tm_min t div 8" "h = tm_hour t"
    "dy = tm_mday t" "n0 = (tm_mon t + 1) mod 8" "n1 = (tm_mon t + 1) div 8" "y = tm_year t - 80"
  have r: "0 \<le> s" "s < 32" "0 \<le> m0" "m0 < 8" "0 \<le> m1" "m1 < 8" "0 \<le> h" "h < 24" "0 \<le> dy" "dy < 32"
      "0 \<le> n0" "n0 < 8" "0 \<le> n1" "n1 < 2" "0 \<le> y" "y < 128"
  proof -
    have t: "0 \<le> tm_sec t" "tm_sec t < 64" "0 \<le> tm_min t" "tm_min t < 60" "0 \<le> tm_mon t" "tm_mon t < 12"
      using assms(1) by (simp_all add: tm_ok_def)
    then have "0 \<le> tm_sec t div 2" "tm_sec t div 2 < 32" "0 \<le> tm_min t div 8" "tm_min t div 8 < 8"
        "0 \<le> (tm_mon t + 1) div 8" "(tm_mon t + 1) div 8 < 2"
      by linarith+
    then show "0 \<le> s" "s < 32" "0 \<le> m0" "m0 < 8" "0 \<le> m1" "m1 < 8" "0 \<le> h" "h < 24" "0 \<le> dy" "dy < 32"
      "0 \<le> n0" "n0 < 8" "0 \<le> n1" "n1 < 2" "0 \<le> y" "y < 128"
      using assms(1) by (simp_all add: tm_ok_def d)
  qed
  have e: "tm_min t = m0 + 8 * m1" "tm_mon t = n0 + 8 * n1 - 1" "tm_year t = y + 80" "tm_hour t = h" "tm_mday t = dy"
      "tm_sec t div 2 = s"
    by (simp_all add: d)
  have w: "(s + 32 * m0) mod 256 = s + 32 * m0" "(m1 + 8 * h) mod 256 = m1 + 8 * h"
      "(dy + 32 * n0) mod 256 = dy + 32 * n0" "(n1 + 2 * y) mod 256 = n1 + 2 * y"
    using r by (simp_all add: mod_pos_pos_trivial)
  have q: "s mod 32 = s" "m0 mod 8 = m0" "m1 mod 8 = m1" "dy mod 32 = dy" "n1 mod 2 = n1" "n0 mod 8 = n0"
      "(s + 32 * m0) mod 32 = s" "(s + 32 * m0) div 32 = m0" "(m1 + 8 * h) mod 8 = m1" "(m1 + 8 * h) div 8 = h"
      "(dy + 32 * n0) mod 32 = dy" "(dy + 32 * n0) div 32 = n0" "(n1 + 2 * y) mod 2 = n1" "(n1 + 2 * y) div 2 = y"
      "s * 2 mod 256 = s * 2" "n1 * 8 mod 256 = n1 * 8" "m1 * 8 mod 256 = m1 * 8"
    using r by (simp_all add: mod_pos_pos_trivial div_pos_pos_trivial)
  have o: "m0 OR m1 * 8 = m0 + 8 * m1" "n0 OR n1 * 8 = n0 + 8 * n1"
    using or_shift [of m0 3 m1] or_shift [of n0 3 n1] r by (simp_all add: push_bit_eq_mult mult.commute)
  have mon: "tm_mon t + 1 = n0 + 8 * n1" by (simp add: e)
  have z: "(n0 + 8 * n1) mod 8 = n0" "(n0 + 8 * n1) div 8 = n1" "(m0 + 8 * m1) mod 8 = m0" "(m0 + 8 * m1) div 8 = m1"
    using r by (simp_all add: mod_pos_pos_trivial div_pos_pos_trivial)
  show ?thesis
    unfolding time_from_raw_def nth b0 b1 b2 b3
    by (simp only: uint_and_or uint_shift uint_of_word mon e(1,3-6) z q w) 
      (simp add: int_and_masks w q o e)
qed

section \<open>A directory as a sequence of slots\<close>

text \<open>
  A directory on the clusters \<open>cs\<close> is the sequence of the 32-byte slots of their sectors.
  \<open>dir_chain\<close> says how the FAT links them, in the terms of \<open>advance_to_next_entry\<close>;
  \<open>cursor_at n\<close> is the cursor on slot \<open>n\<close>.
\<close>

abbreviation spc :: "vol \<Rightarrow> nat" where
  "spc v \<equiv> unat (sectors_per_cluster v)"

fun dir_chain :: "(nat \<Rightarrow> u32) \<Rightarrow> u32 list \<Rightarrow> bool" where
  "dir_chain E [] \<longleftrightarrow> False"
| "dir_chain E [c] \<longleftrightarrow> E (unat c) AND 0x0fffffff = 0 \<or> E (unat c) AND 0x0fffffff \<ge> 0xFFFFFF0"
| "dir_chain E (c # d # cs) \<longleftrightarrow>
     E (unat c) AND 0x0fffffff = d \<and> d \<noteq> 0 \<and> d < 0xFFFFFF0 \<and> dir_chain E (d # cs)"

definition dir_sector_no :: "vol \<Rightarrow> u32 list \<Rightarrow> nat \<Rightarrow> u32" where
  "dir_sector_no v cs j = cluster_sector v (cs ! (j div spc v)) + word_of_nat (j mod spc v)"

definition slot_count :: "vol \<Rightarrow> u32 list \<Rightarrow> nat" where
  "slot_count v cs = 16 * (spc v * length cs)"

definition dir_slot :: "(u32 \<Rightarrow> sector) \<Rightarrow> vol \<Rightarrow> u32 list \<Rightarrow> nat \<Rightarrow> bytes" where
  "dir_slot disk v cs n =
     subbuf (32 * (n mod 16)) 32 (disk (partition_start v + dir_sector_no v cs (n div 16)))"

definition cursor_at :: "(u32 \<Rightarrow> sector) \<Rightarrow> vol \<Rightarrow> u32 list \<Rightarrow> nat \<Rightarrow> ('s, 'a) dir_state_scheme \<Rightarrow> bool" where
  "cursor_at disk v cs n d \<longleftrightarrow> n < slot_count v cs
     \<and> dir_cluster d = cs ! (n div 16 div spc v) \<and> dir_sector_in_cluster d = n div 16 mod spc v
     \<and> dir_sector d = dir_sector_no v cs (n div 16) \<and> dir_sector_offset d = int (32 * (n mod 16))
     \<and> dir_sector_buffer d = disk (partition_start v + dir_sector_no v cs (n div 16))"

text \<open>What the clusters of a directory satisfy: entries of the FAT, and no sector number of theirs is \<open>-1\<close>.\<close>

definition dir_ok :: "vol \<Rightarrow> u32 list \<Rightarrow> bool" where
  "dir_ok v cs \<longleftrightarrow> vol_ok v \<and> 0 < spc v \<and> cs \<noteq> [] \<and> (\<forall>c \<in> set cs. unat c < 128 * fat_len v)
     \<and> (\<forall>j < spc v * length cs. dir_sector_no v cs j \<noteq> no_dir)"

definition dir_ready :: "('s \<Rightarrow> u32 \<Rightarrow> bool) \<Rightarrow> vol \<Rightarrow> u32 list \<Rightarrow> 's \<Rightarrow> bool" where
  "dir_ready S v cs s \<longleftrightarrow> fat_all S v s \<and> (\<forall>j < spc v * length cs. S s (partition_start v + dir_sector_no v cs j))"

lemma dir_ready_read_only: "read_only I D S s s' \<Longrightarrow> dir_ready S v cs s \<Longrightarrow> dir_ready S v cs s'"
  by (simp add: dir_ready_def read_only_def fat_all_def)

lemma dir_chain_nth:
  "dir_chain E cs \<Longrightarrow> Suc i < length cs \<Longrightarrow>
     E (unat (cs ! i)) AND 0x0fffffff = cs ! Suc i \<and> cs ! Suc i \<noteq> 0 \<and> cs ! Suc i < 0xFFFFFF0"
proof (induction E cs arbitrary: i rule: dir_chain.induct)
  case (3 E c d cs)
  then show ?case by (cases i) auto
qed auto

lemma dir_chain_last:
  "dir_chain E cs \<Longrightarrow> E (unat (last cs)) AND 0x0fffffff = 0 \<or> E (unat (last cs)) AND 0x0fffffff \<ge> 0xFFFFFF0"
  by (induction E cs rule: dir_chain.induct) auto

lemma sint_masked: "sint (x AND 0x0fffffff :: u32) = int (unat (x AND 0x0fffffff))"
proof (rule sint_small)
  have "x AND 0x0fffffff \<le> 0x0fffffff" by (rule word_and_le1)
  then have "unat (x AND 0x0fffffff) \<le> 0x0fffffff" by (simp add: word_le_nat_alt)
  then show "unat (x AND 0x0fffffff) < 2 ^ 31" by simp
qed

lemma masked_continue:
  "sint (x AND 0x0fffffff :: u32) < 0xFFFFFF0 \<longleftrightarrow> x AND 0x0fffffff < 0xFFFFFF0"
  by (simp add: sint_masked word_less_nat_alt del: of_nat_unat)

context sector_read
begin

lemma dir_load_eq:
  assumes "inv (store d)" "stable (store d) (partition_start v + dir_sector d)"
  shows "dir_load io v d = (True, d\<lparr>store := after_rd io (partition_start v + dir_sector d) (store d),
      dir_sector_buffer := disk (store d) (partition_start v + dir_sector d)\<rparr>)"
    and "read_only inv disk stable (store d) (after_rd io (partition_start v + dir_sector d) (store d))"
  using assms by (simp_all add: dir_load_def rd_eq rd_read_only)

lemma advance_in_sector:
  assumes "cursor_at (disk (store d)) v cs n d" "Suc n mod 16 \<noteq> 0"
  shows "advance_to_next_entry io v d = (0, d\<lparr>dir_sector_offset := dir_sector_offset d + 32\<rparr>)
    \<and> cursor_at (disk (store d)) v cs (Suc n) (d\<lparr>dir_sector_offset := dir_sector_offset d + 32\<rparr>)"
proof -
  have m: "Suc n mod 16 = Suc (n mod 16)" "Suc n div 16 = n div 16"
    using assms(2) by (simp_all add: mod_Suc div_Suc split: if_splits)
  have "n mod 16 \<noteq> 15" using assms(2) by (auto simp: mod_Suc)
  then have "n mod 16 < 15" using mod_less_divisor [of 16 n] by linarith
  moreover have "Suc n < slot_count v cs"
  proof (rule ccontr)
    assume "\<not> Suc n < slot_count v cs"
    with assms(1) have "Suc n = slot_count v cs" by (simp add: cursor_at_def)
    with assms(2) show False by (simp add: slot_count_def)
  qed
  ultimately show ?thesis
    using assms(1) m by (simp add: advance_to_next_entry_def cursor_at_def)
qed

lemma advance_next_sector:
  assumes "inv (store d)" "dir_ok v cs" "dir_ready stable v cs (store d)" "dir_chain (fat_get (disk (store d)) v) cs"
    and "cursor_at (disk (store d)) v cs n d" "Suc n mod 16 = 0" "Suc n < slot_count v cs"
    and "advance_to_next_entry io v d = (r, d')"
  shows "r = 0 \<and> cursor_at (disk (store d)) v cs (Suc n) d' \<and> read_only inv disk stable (store d) (store d')"
proof -
  define j where "j = n div 16"
  have n: "n mod 16 = 15" "Suc n div 16 = Suc j" "Suc n mod 16 = 0"
    using assms(6) by (simp_all add: mod_Suc div_Suc j_def split: if_splits)
  have s: "0 < spc v" using assms(2) by (simp add: dir_ok_def)
  have j: "Suc j < spc v * length cs"
    using assms(7) n by (simp add: slot_count_def flip: n(2))
  have ready: "stable s (partition_start v + dir_sector_no v cs (Suc j))"
    if "read_only inv disk stable (store d) s" for s
    using dir_ready_read_only [OF that assms(3)] j by (simp add: dir_ready_def)
  have nd: "dir_sector_no v cs (Suc j) \<noteq> no_dir" using assms(2) j by (simp add: dir_ok_def)
  have c: "dir_cluster d = cs ! (j div spc v)" "dir_sector_in_cluster d = j mod spc v"
      "dir_sector d = dir_sector_no v cs j" "dir_sector_offset d = 480"
    using assms(5) n by (simp_all add: cursor_at_def j_def)
  show ?thesis
  proof (cases "Suc (j mod spc v) = spc v")
    case False
    then have m: "Suc j mod spc v = Suc (j mod spc v)" "Suc j div spc v = j div spc v"
      using s by (simp_all add: mod_Suc div_Suc)
    have sec: "dir_sector_no v cs j + 1 = dir_sector_no v cs (Suc j)"
      by (simp add: dir_sector_no_def m)
    have ro: "read_only inv disk stable (store d) (store d)"
      using assms(1) by (rule read_only_refl)
    have m': "dir_sector_in_cluster d + 1 \<noteq> spc v" using False by (simp add: c)
    let ?d2 = "d\<lparr>dir_sector_offset := 0, dir_sector := dir_sector d + 1,
               dir_sector_in_cluster := dir_sector_in_cluster d + 1\<rparr>"
    have load: "dir_load io v ?d2 = (True, ?d2\<lparr>store := after_rd io (partition_start v + dir_sector_no v cs (Suc j)) (store d),
        dir_sector_buffer := disk (store d) (partition_start v + dir_sector_no v cs (Suc j))\<rparr>)"
      "read_only inv disk stable (store d) (after_rd io (partition_start v + dir_sector_no v cs (Suc j)) (store d))"
      using dir_load_eq [of ?d2 v] assms(1) ready [OF ro] by (simp_all add: c sec)
    have "advance_to_next_entry io v d = (0, ?d2\<lparr>store := after_rd io (partition_start v + dir_sector_no v cs (Suc j)) (store d),
        dir_sector_buffer := disk (store d) (partition_start v + dir_sector_no v cs (Suc j))\<rparr>)"
      unfolding advance_to_next_entry_def Let_def using m' nd load(1) by (simp add: c sec)
    with assms(8) load(2) show ?thesis
      using assms(7) by (auto simp: cursor_at_def n m c sec)
  next
    case True
    then have m: "Suc j mod spc v = 0" "Suc j div spc v = Suc (j div spc v)"
      using s by (simp_all add: mod_Suc div_Suc)
    let ?i = "j div spc v"
    have i: "Suc ?i < length cs"
      using j m s by (metis less_mult_imp_div_less mult.commute)
    note link = dir_chain_nth [OF assms(4) i]
    have cin: "unat (cs ! ?i) < 128 * fat_len v"
      using assms(2) i by (simp add: dir_ok_def)
    moreover have "unat (cs ! ?i) < 2 ^ 31"
      using cin assms(2) by (simp add: dir_ok_def vol_ok_def)
    moreover have "fat_all stable v (store d)" using assms(3) by (simp add: dir_ready_def)
    ultimately obtain s1 where s1: "get_next_cluster io v (cs ! ?i) (store d) = (cs ! Suc ?i, s1)"
        "read_only inv disk stable (store d) s1"
      using get_next_cluster_eq [OF assms(1), of v "cs ! ?i"] link by (metis prod.collapse)
    have cont: "sint (cs ! Suc ?i) < 0xFFFFFF0" "cs ! Suc ?i \<noteq> 0"
      using link masked_continue [of "fat_get (disk (store d)) v (unat (cs ! ?i))"] by simp_all
    let ?d2 = "d\<lparr>dir_sector_offset := 0, store := s1, dir_cluster := cs ! Suc ?i,
               dir_sector_in_cluster := 0, dir_sector := cluster_sector v (cs ! Suc ?i)\<rparr>"
    have sec: "cluster_sector v (cs ! Suc ?i) = dir_sector_no v cs (Suc j)"
      by (simp add: dir_sector_no_def m)
    let ?s2 = "after_rd io (partition_start v + dir_sector_no v cs (Suc j)) s1"
    have load: "dir_load io v ?d2 = (True, ?d2\<lparr>store := ?s2,
        dir_sector_buffer := disk (store d) (partition_start v + dir_sector_no v cs (Suc j))\<rparr>)"
      "read_only inv disk stable s1 ?s2"
      using dir_load_eq [of ?d2 v] read_onlyD [OF s1(2)] ready [OF s1(2)] by (simp_all add: sec)
    have "advance_to_next_entry io v d = (0, ?d2\<lparr>store := ?s2,
        dir_sector_buffer := disk (store d) (partition_start v + dir_sector_no v cs (Suc j))\<rparr>)"
      unfolding advance_to_next_entry_def Let_def using True nd load(1) cont s1(1) by (simp add: c sec)
    with assms(8) read_only_trans [OF s1(2) load(2)] show ?thesis
      using assms(7) by (auto simp: cursor_at_def n m c sec)
  qed
qed

lemma advance_end:
  assumes "inv (store d)" "dir_ok v cs" "dir_ready stable v cs (store d)" "dir_chain (fat_get (disk (store d)) v) cs"
    and "cursor_at (disk (store d)) v cs n d" "Suc n = slot_count v cs"
    and "advance_to_next_entry io v d = (r, d')"
  shows "r = - 2 \<and> dir_sector d' = no_dir \<and> read_only inv disk stable (store d) (store d')"
proof -
  define j where "j = n div 16"
  have s: "0 < spc v" "cs \<noteq> []" using assms(2) by (simp_all add: dir_ok_def)
  have n: "Suc n = 16 * (spc v * length cs)" using assms(6) by (simp add: slot_count_def)
  then have n': "n mod 16 = 15" by presburger
  have "Suc j = spc v * length cs" using n by (simp add: j_def)
  then have j: "Suc j = spc v * length cs" .
  then have m: "Suc (j mod spc v) = spc v" "j div spc v = length cs - 1"
  proof -
    obtain k where k: "length cs = Suc k" using s(2) by (cases cs) auto
    have jj: "j = (spc v - 1) + spc v * k" using j s(1) by (simp add: k)
    have "j mod spc v = (spc v - 1) mod spc v" "j div spc v = k + (spc v - 1) div spc v"
      using s(1) by (simp_all only: jj mod_mult_self2 div_mult_self2)
    then have "j mod spc v = spc v - 1" "j div spc v = k" using s(1) by simp_all
    with s(1) k show "Suc (j mod spc v) = spc v" "j div spc v = length cs - 1" by simp_all
  qed
  have c: "dir_cluster d = last cs" "dir_sector_in_cluster d = j mod spc v" "dir_sector_offset d = 480"
    using assms(5) n' m(2) s(2) by (simp_all add: cursor_at_def j_def last_conv_nth)
  have cin: "unat (last cs) < 128 * fat_len v"
    using assms(2) s(2) by (simp add: dir_ok_def)
  moreover have "fat_len v \<le> 2 ^ 21" using assms(2) by (simp add: dir_ok_def vol_ok_def)
  with cin have "unat (last cs) < 2 ^ 31" by simp
  moreover have "fat_all stable v (store d)" using assms(3) by (simp add: dir_ready_def)
  ultimately obtain s1 where s1: "get_next_cluster io v (last cs) (store d) =
      (fat_get (disk (store d)) v (unat (last cs)) AND 0x0fffffff, s1)" "read_only inv disk stable (store d) s1"
    using get_next_cluster_eq [OF assms(1), of v "last cs"] by (metis prod.collapse)
  have stop: "\<not> (sint (fat_get (disk (store d)) v (unat (last cs)) AND 0x0fffffff) < 0xFFFFFF0
      \<and> fat_get (disk (store d)) v (unat (last cs)) AND 0x0fffffff \<noteq> 0)"
    using dir_chain_last [OF assms(4)] by (auto simp: masked_continue not_less)
  have "advance_to_next_entry io v d = (- 2, d\<lparr>dir_sector_offset := 0, dir_sector := no_dir,
      dir_sector_in_cluster := dir_sector_in_cluster d + 1, store := s1\<rparr>)"
    unfolding advance_to_next_entry_def Let_def using stop s1(1) m(1) by (auto simp: c)
  with assms(7) s1(2) show ?thesis by auto
qed

end

section \<open>Reading a directory to its end\<close>

text \<open>The cursor from which the next step goes to slot \<open>n\<close>.\<close>

definition cursor_next :: "(u32 \<Rightarrow> sector) \<Rightarrow> vol \<Rightarrow> u32 list \<Rightarrow> nat \<Rightarrow> ('s, 'a) dir_state_scheme \<Rightarrow> bool" where
  "cursor_next disk v cs n d \<longleftrightarrow>
     (case n of
        0 \<Rightarrow> dir_cluster d = cs ! 0 \<and> dir_sector_in_cluster d = 0 \<and> dir_sector d = dir_sector_no v cs 0
           \<and> dir_sector_offset d = - 32 \<and> dir_sector_buffer d = disk (partition_start v + dir_sector_no v cs 0)
      | Suc m \<Rightarrow> cursor_at disk v cs m d)"

definition dir_view ::
  "('s \<Rightarrow> bool) \<Rightarrow> ('s \<Rightarrow> u32 \<Rightarrow> sector) \<Rightarrow> ('s \<Rightarrow> u32 \<Rightarrow> bool) \<Rightarrow> vol \<Rightarrow> u32 list \<Rightarrow> 's \<Rightarrow> bool" where
  "dir_view I D S v cs s \<longleftrightarrow>
     I s \<and> dir_ok v cs \<and> dir_ready S v cs s \<and> dir_chain (fat_get (D s) v) cs
     \<and> (\<forall>n. length (D s n) = 512)"

text \<open>The last slot does not belong to a long name, so no long name runs over the end.\<close>

definition no_open_name :: "(u32 \<Rightarrow> sector) \<Rightarrow> vol \<Rightarrow> u32 list \<Rightarrow> bool" where
  "no_open_name disk v cs \<longleftrightarrow> dir_slot disk v cs (slot_count v cs - 1) ! 0x0B \<noteq> 0x0F"

lemma cursor_at_flags [simp]:
  "cursor_at D v cs n (d\<lparr>vfatEntry := a\<rparr>) = cursor_at D v cs n d"
  "cursor_at D v cs n (d\<lparr>vfat_entry_count := k\<rparr>) = cursor_at D v cs n d"
  "cursor_at D v cs n (d\<lparr>vfat_dir_cluster := c\<rparr>) = cursor_at D v cs n d"
  "cursor_at D v cs n (d\<lparr>vfat_dir_sector := c\<rparr>) = cursor_at D v cs n d"
  "cursor_at D v cs n (d\<lparr>vfat_dir_sector_in_cluster := k\<rparr>) = cursor_at D v cs n d"
  "cursor_at D v cs n (d\<lparr>vfat_dir_sector_offset := z\<rparr>) = cursor_at D v cs n d"
  by (simp_all add: cursor_at_def)

lemma cursor_next_flags [simp]:
  "cursor_next D v cs n (d\<lparr>vfatEntry := a\<rparr>) = cursor_next D v cs n d"
  "cursor_next D v cs n (d\<lparr>vfat_entry_count := k\<rparr>) = cursor_next D v cs n d"
  by (simp_all add: cursor_next_def split: nat.split)

lemma entry_at:
  assumes "cursor_at D v cs n d" "\<forall>m. length (D m) = 512"
  shows "cur_entry d = dir_slot D v cs n" and "k < 32 \<Longrightarrow> entry_byte d k = dir_slot D v cs n ! k"
proof -
  have b: "dir_sector_buffer d = D (partition_start v + dir_sector_no v cs (n div 16))"
    and "dir_sector_offset d = int (32 * (n mod 16))"
    using assms(1) unfolding cursor_at_def by blast+
  then have off: "nat (dir_sector_offset d) = 32 * (n mod 16)" by (simp only: nat_int)
  show "cur_entry d = dir_slot D v cs n"
    by (simp add: cur_entry_def dir_slot_def b off)
  have "32 * (n mod 16) + 32 \<le> 512" using mod_less_divisor [of 16 n] by linarith
  then show "entry_byte d k = dir_slot D v cs n ! k" if "k < 32"
    using that assms(2) by (simp add: entry_byte_def dir_slot_def b off nth_subbuf)
qed

lemma cursor_at_dir_sector: "cursor_at D v cs n d \<Longrightarrow> dir_ok v cs \<Longrightarrow> dir_sector d \<noteq> no_dir"
proof -
  assume a: "cursor_at D v cs n d" "dir_ok v cs"
  then have "n div 16 < spc v * length cs"
    by (simp add: cursor_at_def slot_count_def less_mult_imp_div_less mult.commute)
  with a show ?thesis by (simp add: cursor_at_def dir_ok_def)
qed

context sector_read
begin

lemma dir_view_read_only:
  "read_only inv disk stable s s' \<Longrightarrow> dir_view inv disk stable v cs s \<Longrightarrow> dir_view inv disk stable v cs s'"
  using dir_ready_read_only [of inv disk stable s s' v cs]
  by (simp add: dir_view_def) (simp add: read_only_def)

lemma advance_eq:
  assumes "dir_view inv disk stable v cs (store d)" "cursor_next (disk (store d)) v cs n d"
    and "advance_to_next_entry io v d = (r, d')"
  shows "read_only inv disk stable (store d) (store d')
     \<and> (if n < slot_count v cs then r = 0 \<and> cursor_at (disk (store d)) v cs n d'
        else r = - 2 \<and> dir_sector d' = no_dir)"
proof (cases n)
  case 0
  have "0 < slot_count v cs" using assms(1) by (simp add: dir_view_def dir_ok_def slot_count_def)
  with 0 assms show ?thesis
    by (auto simp: cursor_next_def advance_to_next_entry_def cursor_at_def dir_view_def intro: read_only_refl)
next
  case (Suc m)
  with assms(2) have at: "cursor_at (disk (store d)) v cs m d" by (simp add: cursor_next_def)
  then have "m < slot_count v cs" by (simp add: cursor_at_def)
  note v = assms(1) [unfolded dir_view_def]
  show ?thesis
  proof (cases "n < slot_count v cs")
    case False
    with Suc \<open>m < slot_count v cs\<close> have "Suc m = slot_count v cs" by simp
    with advance_end [of d v cs m r d'] v at assms(3) Suc show ?thesis by simp
  next
    case True
    show ?thesis
    proof (cases "Suc m mod 16 = 0")
      case True
      with advance_next_sector [of d v cs m r d'] v at assms(3) Suc \<open>n < slot_count v cs\<close> show ?thesis by simp
    next
      case False
      with advance_in_sector [OF at] assms(3) Suc \<open>n < slot_count v cs\<close> v show ?thesis
        by (auto intro: read_only_refl)
    qed
  qed
qed

lemma vfat_loop_returns:
  assumes "dir_view inv disk stable v cs (store d)" "no_open_name (disk (store d)) v cs"
    and "cursor_at (disk (store d)) v cs m d" "entry_byte d 0x0B = 0x0F"
  shows "\<exists>de' del' d' n. vfat_loop io v first de del d = Some (de', del', d') \<and> m < n
     \<and> cursor_at (disk (store d)) v cs n d' \<and> read_only inv disk stable (store d) (store d')"
  using assms
proof (induction "slot_count v cs - m" arbitrary: m d first de del rule: less_induct)
  case less
  have len: "\<forall>n. length (disk (store d) n) = 512" using less.prems(1) by (simp add: dir_view_def)
  have m: "m < slot_count v cs" using less.prems(3) by (simp add: cursor_at_def)
  have "m \<noteq> slot_count v cs - 1"
    using less.prems(2,4) entry_at(2) [OF less.prems(3) len, where k = "0x0B"] by (auto simp: no_open_name_def)
  with m have m1: "Suc m < slot_count v cs" by simp
  let ?d1 = "d\<lparr>vfat_entry_count := Suc (vfat_entry_count d)\<rparr>"
  obtain r d2 where adv: "advance_to_next_entry io v ?d1 = (r, d2)" by fastforce
  have d2: "read_only inv disk stable (store d) (store d2)" "cursor_at (disk (store d)) v cs (Suc m) d2"
    using advance_eq [of v cs ?d1 "Suc m" r d2] less.prems(1,3) adv m1 by (simp_all add: cursor_next_def)
  let ?seq = "unat (entry_byte d 0 AND 0x1F)"
  let ?de = "copy_vfat_chars_into_dname ?seq (cur_entry d)
     (if first then de\<lparr>d_name := (d_name de)[?seq * 13 := 0]\<rparr> else de)"
  show ?case
  proof (cases "entry_byte d2 0x0B \<noteq> 0x0F \<or> ?seq = 1")
    case True
    then have "vfat_loop io v first de del d = Some (?de, del \<or> entry_byte d 0 = 0xE5, d2)"
      by (subst vfat_loop.simps) (auto simp: Let_def adv)
    with d2 show ?thesis by blast
  next
    case False
    then have "vfat_loop io v first de del d = vfat_loop io v False ?de (del \<or> entry_byte d 0 = 0xE5) d2"
      by (subst vfat_loop.simps) (auto simp: Let_def adv)
    moreover have "disk (store d2) = disk (store d)" using read_onlyD(2) [OF d2(1)] .
    moreover have "slot_count v cs - Suc m < slot_count v cs - m" using m by simp
    ultimately obtain de' del' d' n where n: "vfat_loop io v first de del d = Some (de', del', d')" "Suc m < n"
        "cursor_at (disk (store d)) v cs n d'" "read_only inv disk stable (store d2) (store d')"
      using less.hyps [where m = "Suc m" and d = d2 and first = False and de = ?de and del = "del \<or> entry_byte d 0 = 0xE5"] False d2(2) less.prems(2)
        dir_view_read_only [OF d2(1) less.prems(1)] by auto
    then show ?thesis using read_only_trans [OF d2(1)] Suc_lessD by blast
  qed
qed

text \<open>One call of \<open>fat_readdir\<close>: it returns, and either ends or moves the cursor forward.\<close>

lemma fat_readdir_returns:
  assumes "dir_view inv disk stable v cs (store d)" "no_open_name (disk (store d)) v cs"
    and "cursor_next (disk (store d)) v cs n d"
  shows "\<exists>r de d'. fat_readdir io v False d = Some (r, de, d') \<and> read_only inv disk stable (store d) (store d')
    \<and> (if n < slot_count v cs
       then r = 0 \<and> (\<exists>n' \<ge> n. cursor_at (disk (store d)) v cs n' d')
          \<and> (let e = dir_slot (disk (store d)) v cs n in
             e ! 0x0B \<noteq> 0x0F \<or> e ! 0 = 0 \<or> e ! 0 = 0xE5 \<longrightarrow>
               cursor_at (disk (store d)) v cs n d' \<and> de = decode_entry False False e (fill_debug v d' dirent_zero))
       else r = - 1)"
proof -
  let ?D = "disk (store d)"
  obtain r d1 where adv: "advance_to_next_entry io v (d\<lparr>vfatEntry := False, vfat_entry_count := 0\<rparr>) = (r, d1)"
    by fastforce
  then have a: "read_only inv disk stable (store d) (store d1)"
      "if n < slot_count v cs then r = 0 \<and> cursor_at ?D v cs n d1 else r = - 2 \<and> dir_sector d1 = no_dir"
    using advance_eq [of v cs "d\<lparr>vfatEntry := False, vfat_entry_count := 0\<rparr>" n r d1] assms(1,3)
    by (auto split: if_splits)
  have ne: "next_entry io v False d = (Some r, d1)" by (simp add: next_entry_def adv)
  show ?thesis
  proof (cases "n < slot_count v cs")
    case False
    with a ne show ?thesis by (simp add: fat_readdir_def)
  next
    case True
    with a have at: "r = 0" "cursor_at ?D v cs n d1" by simp_all
    have len: "\<forall>n. length (?D n) = 512" and ok: "dir_ok v cs" using assms(1) by (simp_all add: dir_view_def)
    note e = entry_at [OF at(2) len]
    have sec: "dir_sector d1 \<noteq> no_dir" using cursor_at_dir_sector [OF at(2) ok] .
    have D1: "disk (store d1) = ?D" using read_onlyD(2) [OF a(1)] .
    show ?thesis
    proof (cases "entry_byte d1 0x0B = 0x0F \<and> entry_byte d1 0 \<noteq> 0 \<and> entry_byte d1 0 \<noteq> 0xE5")
      case False
      then have "fat_readdir io v False d = Some (0, decode_entry False False (cur_entry d1) (fill_debug v d1 dirent_zero), d1)"
        using ne at(1) sec by (auto simp: fat_readdir_def)
      with True a(1) at(2) e show ?thesis by (auto simp: Let_def)
    next
      case vfat: True
      let ?d2 = "d1\<lparr>vfatEntry := True, vfat_dir_cluster := dir_cluster d1, vfat_dir_sector := dir_sector d1,
                    vfat_dir_sector_in_cluster := dir_sector_in_cluster d1,
                    vfat_dir_sector_offset := dir_sector_offset d1\<rparr>"
      obtain de' del' d' m where l: "vfat_loop io v True dirent_zero False ?d2 = Some (de', del', d')" "n < m"
          "cursor_at ?D v cs m d'" "read_only inv disk stable (store d1) (store d')"
        using vfat_loop_returns [of v cs ?d2 n True dirent_zero False] dir_view_read_only [OF a(1) assms(1)]
          assms(2) at(2) vfat D1 by (auto simp: entry_byte_def)
      then have "fat_readdir io v False d = Some (0, decode_entry True del' (cur_entry d') (fill_debug v d' de'), d')"
        using ne at(1) sec vfat by (simp add: fat_readdir_def)
      moreover have "\<not> (dir_slot ?D v cs n ! 0x0B \<noteq> 0x0F \<or> dir_slot ?D v cs n ! 0 = 0 \<or> dir_slot ?D v cs n ! 0 = 0xE5)"
        using vfat e by simp
      moreover have "\<exists>n' \<ge> n. cursor_at ?D v cs n' d'" using l(2,3) less_imp_le by blast
      ultimately show ?thesis using True read_only_trans [OF a(1) l(4)] by (simp add: Let_def)
    qed
  qed
qed

lemma search_dir_returns:
  assumes "dir_view inv disk stable v cs (store d)" "no_open_name (disk (store d)) v cs"
    and "cursor_next (disk (store d)) v cs n d"
  shows "\<exists>res d'. search_dir io v name d = Some (res, d') \<and> read_only inv disk stable (store d) (store d')
    \<and> (\<forall>de. res = Some de \<longrightarrow> name_match de name \<and> (\<exists>n' \<ge> n. cursor_at (disk (store d)) v cs n' d'))"
  using assms
proof (induction "slot_count v cs - n" arbitrary: n d rule: less_induct)
  case less
  from fat_readdir_returns [OF less.prems] obtain r de d1 where
      rd: "fat_readdir io v False d = Some (r, de, d1)" "read_only inv disk stable (store d) (store d1)"
      and step: "if n < slot_count v cs
       then r = 0 \<and> (\<exists>n' \<ge> n. cursor_at (disk (store d)) v cs n' d1)
          \<and> (let e = dir_slot (disk (store d)) v cs n in
             e ! 0x0B \<noteq> 0x0F \<or> e ! 0 = 0 \<or> e ! 0 = 0xE5 \<longrightarrow>
               cursor_at (disk (store d)) v cs n d1 \<and> de = decode_entry False False e (fill_debug v d1 dirent_zero))
       else r = - 1"
    by (elim exE conjE) (rule that)
  show ?case
  proof (cases "n < slot_count v cs \<and> \<not> name_match de name")
    case False
    have "search_dir io v name d = Some (if n < slot_count v cs then Some de else None, d1)"
      using False step rd(1) by (subst search_dir.simps) (auto split: if_splits)
    with False step rd(2) show ?thesis by (auto split: if_splits)
  next
    case True
    with step have "r = 0 \<and> (\<exists>n' \<ge> n. cursor_at (disk (store d)) v cs n' d1)" by simp
    then obtain n' where n': "n \<le> n'" "cursor_at (disk (store d)) v cs n' d1" and r: "r = 0"
      by blast
    have D: "disk (store d1) = disk (store d)" using read_onlyD(2) [OF rd(2)] .
    have "slot_count v cs - Suc n' < slot_count v cs - n" using True n'(1) by linarith
    moreover have "cursor_next (disk (store d1)) v cs (Suc n') d1" using n'(2) by (simp add: cursor_next_def D)
    ultimately obtain res d' where IH: "search_dir io v name d1 = Some (res, d')"
        "read_only inv disk stable (store d1) (store d')"
        "\<forall>de. res = Some de \<longrightarrow> name_match de name \<and> (\<exists>m \<ge> Suc n'. cursor_at (disk (store d)) v cs m d')"
      using less.hyps [of "Suc n'" d1] dir_view_read_only [OF rd(2) less.prems(1)] less.prems(2) D by auto
    have "search_dir io v name d = Some (res, d')"
      using rd(1) r True IH(1) by (subst search_dir.simps) simp
    moreover have "name_match de' name \<and> (\<exists>m \<ge> n. cursor_at (disk (store d)) v cs m d')" if "res = Some de'" for de'
    proof -
      obtain m where "name_match de' name" "Suc n' \<le> m" "cursor_at (disk (store d)) v cs m d'"
        using IH(3) \<open>res = Some de'\<close> by blast
      moreover have "n \<le> m" using n'(1) \<open>Suc n' \<le> m\<close> by linarith
      ultimately show ?thesis by blast
    qed
    ultimately show ?thesis
      by (intro exI [of _ res] exI [of _ d'] conjI read_only_trans [OF rd(2) IH(2)]) simp_all
  qed
qed

end

text \<open>A one-cluster directory on the small volume, for concrete instances.\<close>

definition cursor_start :: "'s sector_io \<Rightarrow> 's \<Rightarrow> ('s \<Rightarrow> u32 \<Rightarrow> sector) \<Rightarrow> 's dir_state" where
  "cursor_start io s disk = \<lparr>store = s, current_dir = [0x2f], dir_cluster = 2, dir_sector = 34,
     dir_sector_in_cluster = 0, dir_sector_offset = - 32, dir_sector_buffer = disk s (2048 + 34),
     vfatEntry = False, vfat_entry_count = 0, vfat_dir_cluster = 0, vfat_dir_sector = 0,
     vfat_dir_sector_in_cluster = 0, vfat_dir_sector_offset = 0\<rparr>"

abbreviation small_dir :: "(nat \<Rightarrow> u8) blk dir_state" where
  "small_dir \<equiv> cursor_start (blk_io device_ops) (table_state (\<lambda>_. 0xfffffff8)) (blk_disk device_ops)"

lemma small_dir_no: "dir_sector_no small_vol [2] j = 34 + word_of_nat (j mod 8)" if "j < 8"
  using that by (simp add: dir_sector_no_def cluster_sector_def small_vol_def)

lemma small_dir_view [simp]:
  "dir_view (blk_inv device_ops) (blk_disk device_ops) blk_stable small_vol [2] (store small_dir)"
proof -
  have "spc small_vol = 8" by (simp add: small_vol_def)
  moreover have "34 + word_of_nat j \<noteq> no_dir" if "j < 8" for j
  proof
    assume "34 + word_of_nat j = no_dir"
    then have "unat (34 + word_of_nat j :: u32) = unat no_dir" by simp
    moreover have "unat (34 + word_of_nat j :: u32) = 34 + j"
      using that by (simp add: unat_word_ariths unat_of_nat)
    moreover have "unat no_dir = 4294967295" by (simp add: no_dir_def unsigned_minus_1_eq_mask mask_eq_exp_minus_1)
    ultimately show False using that by linarith
  qed
  ultimately have "dir_ok small_vol [2]" by (simp add: dir_ok_def small_dir_no)
  then show ?thesis
    by (simp add: dir_view_def cursor_start_def dir_ready_def read_sector_from_device_def)
qed

lemma small_dir_cursor [simp]: "cursor_next (blk_disk device_ops (store small_dir)) small_vol [2] 0 small_dir"
  by (simp add: cursor_next_def cursor_start_def small_dir_no) (simp add: small_vol_def)

text \<open>
  The directory cursor visits the slots in order.  From the position before slot \<open>n\<close> of a
  directory on any chain of clusters, \<open>advance_to_next_entry\<close> goes to slot \<open>n\<close>, through the
  sector and cluster boundaries, or reports the end of the directory (\<open>-2\<close>) exactly when slot
  \<open>n\<close> does not exist; it changes nothing on the disk.
\<close>
lemma directory_cursor_advances:
  assumes "dir_view (blk_inv ops) (blk_disk ops) blk_stable v cs (store d)"
    and "cursor_next (blk_disk ops (store d)) v cs n d"
    and "advance_to_next_entry (blk_io ops) v d = (r, d')"
  shows "blk_disk ops (store d') = blk_disk ops (store d)
     \<and> (if n < slot_count v cs then r = 0 \<and> cursor_at (blk_disk ops (store d)) v cs n d'
        else r = - 2 \<and> dir_sector d' = no_dir)"
  using blk.advance_eq [OF assms] by (simp add: read_only_def)

text \<open>
  One step of reading a directory.  \<open>fat_readdir\<close> returns from every position; it gives
  \<open>-1\<close> exactly at the end of the directory, never moves the cursor back, and for a slot that does
  not start a long name its result is that slot's 32 bytes, decoded.
\<close>
lemma readdir_decodes_slot:
  assumes "dir_view (blk_inv ops) (blk_disk ops) blk_stable v cs (store d)"
    and "no_open_name (blk_disk ops (store d)) v cs" "cursor_next (blk_disk ops (store d)) v cs n d"
  shows "\<exists>r de d'. fat_readdir (blk_io ops) v False d = Some (r, de, d')
    \<and> blk_disk ops (store d') = blk_disk ops (store d)
    \<and> (if n < slot_count v cs
       then r = 0 \<and> (\<exists>n' \<ge> n. cursor_at (blk_disk ops (store d)) v cs n' d')
          \<and> (let e = dir_slot (blk_disk ops (store d)) v cs n in
             e ! 0x0B \<noteq> 0x0F \<or> e ! 0 = 0 \<or> e ! 0 = 0xE5 \<longrightarrow>
               cursor_at (blk_disk ops (store d)) v cs n d' \<and> de = decode_entry False False e (fill_debug v d' dirent_zero))
       else r = - 1)"
  using blk.fat_readdir_returns [OF assms] by (elim exE conjE) (intro exI conjI, simp_all add: read_only_def)

lemma small_dir_closed [simp]: "no_open_name (blk_disk device_ops (store small_dir)) small_vol [2]"
proof -
  have "(x * 512 + 491) mod 4 = (3 :: nat)" for x by presburger
  then have "read_sector_from_device m (table_device (\<lambda>_. 0xfffffff8)) ! 491 = 0xff" for m
    by (simp add: read_sector_from_device_def farray_get_def table_device_def le32_bytes_def byte_of_def)
  moreover have "slot_count small_vol [2] = 128" by (simp add: slot_count_def small_vol_def)
  ultimately show ?thesis
    by (simp add: no_open_name_def dir_slot_def cursor_start_def nth_subbuf read_sector_from_device_def)
qed

text \<open>
  C10: searching a directory terminates.  On an acyclic chain of clusters the loop over
  \<open>fat_readdir\<close> returns from every position, whatever the name; an entry it returns matches the
  name, and the cursor is then on a slot of the directory.
\<close>
theorem directory_search_returns:
  assumes "dir_view (blk_inv ops) (blk_disk ops) blk_stable v cs (store d)"
    and "no_open_name (blk_disk ops (store d)) v cs" "cursor_next (blk_disk ops (store d)) v cs n d"
  shows "\<exists>res d'. search_dir (blk_io ops) v name d = Some (res, d')
    \<and> blk_disk ops (store d') = blk_disk ops (store d)
    \<and> (\<forall>de. res = Some de \<longrightarrow> name_match de name
         \<and> (\<exists>n' \<ge> n. cursor_at (blk_disk ops (store d)) v cs n' d'))"
  using blk.search_dir_returns [OF assms, of name]
  by (elim exE conjE) (intro exI conjI, simp_all add: read_only_def)

theorem directory_search_returns_witness:
  "\<exists>res d'. search_dir (blk_io device_ops) small_vol [0x41] small_dir = Some (res, d')"
  using directory_search_returns [OF small_dir_view small_dir_closed small_dir_cursor] by blast

end
