(* ===== verification/DirOps.thy ===== *)
theory DirOps
  imports Dir
begin

text \<open>
  Changing directories (\<open>mega65_ftp.c\<close>): short and long names, free entries, creating, deleting
  and renaming entries, and new sub-directories.  \<open>now\<close> is
  \<open>localtime(time(0))\<close>.  The volume \<open>v\<close> is mounted.  \<open>None\<close> is a call that does not return:
  an endless loop, \<open>exit\<close>, or an access outside an array.
\<close>

definition DE_ATTRIB_DIR :: u8 where "DE_ATTRIB_DIR = 0x10"
definition DE_ATTRIB_FILE :: u8 where "DE_ATTRIB_FILE = 0x20"

section \<open>Finding\<close>

definition find_file_in_curdir ::
  "'s sector_io \<Rightarrow> vol \<Rightarrow> bytes \<Rightarrow> 's dir_state \<Rightarrow> (m65dirent option \<times> 's dir_state) option" where
  "find_file_in_curdir io v name d =
     do { (r, d1) \<leftarrow> fat_opendir io v (current_dir d) d;
          if r \<noteq> 0 then Some (None, d1) else search_dir io v name d1 }"

definition contains_file_or_dir ::
  "'s sector_io \<Rightarrow> vol \<Rightarrow> bytes \<Rightarrow> 's dir_state \<Rightarrow> (int \<times> 's dir_state) option" where
  "contains_file_or_dir io v name d =
     do { (r, d1) \<leftarrow> fat_opendir io v (current_dir d) d;
          if r \<noteq> 0 then Some (- 1, d1)
          else do { (found, d2) \<leftarrow> search_dir io v name d1;
                    Some (if found = None then 0 else 1, d2) } }"

section \<open>Writing entries\<close>

definition dir_write ::
  "'s sector_io \<Rightarrow> vol \<Rightarrow> 's dir_state \<Rightarrow> bool \<times> 's dir_state" where
  "dir_write io v d =
     (case wr io (partition_start v + dir_sector d) (dir_sector_buffer d) (store d) of
        (ok, s) \<Rightarrow> (ok, d\<lparr>store := s\<rparr>))"

definition set_entry :: "bytes \<Rightarrow> 's dir_state \<Rightarrow> 's dir_state" where
  "set_entry e d = d\<lparr>dir_sector_buffer := blit (nat (dir_sector_offset d)) e (dir_sector_buffer d)\<rparr>"

definition set_entry_bytes :: "nat \<Rightarrow> bytes \<Rightarrow> 's dir_state \<Rightarrow> 's dir_state" where
  "set_entry_bytes k xs d =
     d\<lparr>dir_sector_buffer := blit (nat (dir_sector_offset d) + k) xs (dir_sector_buffer d)\<rparr>"

definition dir_flush :: "'s sector_io \<Rightarrow> 's dir_state \<Rightarrow> 's dir_state" where
  "dir_flush io d = d\<lparr>store := flush io (store d)\<rparr>"

definition deleted_entry :: bytes where
  "deleted_entry = 0xE5 # replicate 31 0"

fun wipe_vfat_entries :: "'s sector_io \<Rightarrow> vol \<Rightarrow> nat \<Rightarrow> 's dir_state \<Rightarrow> 's dir_state" where
  "wipe_vfat_entries io v 0 d = d"
| "wipe_vfat_entries io v (Suc k) d =
     wipe_vfat_entries io v k
       (snd (dir_write io v (set_entry deleted_entry (snd (advance_to_next_entry io v d)))))"

definition wipe_direntries_of_current_file_or_dir :: "'s sector_io \<Rightarrow> vol \<Rightarrow> 's dir_state \<Rightarrow> 's dir_state" where
  "wipe_direntries_of_current_file_or_dir io v d =
     (let d1 = (if vfatEntry d then
                  let d0 = d\<lparr>dir_cluster := vfat_dir_cluster d, dir_sector := vfat_dir_sector d,
                        dir_sector_in_cluster := vfat_dir_sector_in_cluster d,
                        dir_sector_offset := vfat_dir_sector_offset d - 32\<rparr>
                  in snd (advance_to_next_entry io v
                       (wipe_vfat_entries io v (vfat_entry_count d) (snd (dir_load io v d0))))
                else d)
      in dir_flush io (snd (dir_write io v (set_entry deleted_entry d1))))"

definition start_cluster_bytes :: "u32 \<Rightarrow> bytes \<Rightarrow> bytes" where
  "start_cluster_bytes c e = blit 0x14 [byte_of c 2, byte_of c 3] (blit 0x1A [byte_of c 0, byte_of c 1] e)"

definition write_cluster_number_into_direntry :: "u32 \<Rightarrow> 's dir_state \<Rightarrow> 's dir_state" where
  "write_cluster_number_into_direntry c d =
     set_entry_bytes 0x14 [byte_of c 2, byte_of c 3] (set_entry_bytes 0x1A [byte_of c 0, byte_of c 1] d)"

definition write_file_size_into_direntry :: "u32 \<Rightarrow> 's dir_state \<Rightarrow> 's dir_state" where
  "write_file_size_into_direntry sz d = set_entry_bytes 0x1C (le32_bytes sz) d"

section \<open>Short names\<close>

record name_scan =
  needs_long_name :: bool
  dot_count :: nat
  base_len :: nat
  ext_len :: nat
  short_name :: bytes

definition last_dot :: "bytes \<Rightarrow> nat option" where  \<comment> \<open>\<open>strrchr(name, '.')\<close> as an index\<close>
  "last_dot name = find (\<lambda>i. name ! i = 0x2e) (rev [0 ..< length name])"

definition long_name_step :: "nat option \<Rightarrow> nat \<times> u8 \<Rightarrow> name_scan \<Rightarrow> name_scan" where
  "long_name_step lastdot ic s =
     (case ic of (i, c) \<Rightarrow>
      if c = 0x2e then
        (if i = 0 then s\<lparr>needs_long_name := True\<rparr>
         else if lastdot = Some i then s\<lparr>dot_count := dot_count s + 1, ext_len := 0\<rparr>
         else s\<lparr>needs_long_name := True\<rparr>)
      else if c = 0x20 then s
      else
        let s1 = (if to_upper c \<noteq> c then s\<lparr>needs_long_name := True\<rparr> else s) in
        if dot_count s1 = 0 then
          (if base_len s1 < 8
           then s1\<lparr>short_name := (short_name s1)[base_len s1 := to_upper c], base_len := base_len s1 + 1\<rparr>
           else s1\<lparr>needs_long_name := True\<rparr>)
        else if dot_count s1 = 1 then
          (if ext_len s1 < 3
           then s1\<lparr>short_name := (short_name s1)[8 + ext_len s1 := to_upper c], ext_len := ext_len s1 + 1\<rparr>
           else s1\<lparr>needs_long_name := True\<rparr>)
        else s1)"

definition is_long_name_needed :: "bytes \<Rightarrow> bytes \<Rightarrow> bool \<times> bytes" where
  "is_long_name_needed long_name short =
     (let s = fold (long_name_step (last_dot long_name)) (zip [0 ..< length long_name] long_name)
            \<lparr>needs_long_name = False, dot_count = 0, base_len = 0, ext_len = 0, short_name = short\<rparr>
      in (needs_long_name s, short_name s))"

text \<open>\<open>num_digits\<close> and the \<open>%d\<close> of \<open>sprintf\<close>.\<close>

fun num_digits :: "nat \<Rightarrow> nat" where
  "num_digits i = (if i < 10 then 1 else Suc (num_digits (i div 10)))"

fun decimal :: "nat \<Rightarrow> bytes" where
  "decimal i = (if i < 10 then [0x30 + word_of_nat i] else decimal (i div 10) @ [0x30 + word_of_nat (i mod 10)])"

declare num_digits.simps [simp del] decimal.simps [simp del]

definition put_tilde_number_in_shortname :: "bytes \<Rightarrow> nat \<Rightarrow> bytes option" where
  "put_tilde_number_in_shortname short i =
     (let n = num_digits i; last = length (rtrim (take 8 short)) in
      if last = 0 \<or> n > 7 then None
      else let ofs = (if last > 7 - n then 7 - n else last) in Some (blit ofs (0x7e # decimal i) short))"

definition is_tilde_needed :: "bytes \<Rightarrow> bool" where
  "is_tilde_needed longname =
     (if longname \<noteq> [] \<and> hd longname = 0x2e then True
      else let (basename_len, suffix_len) =
               (case last_dot longname of
                  Some p \<Rightarrow> (p, length longname - p - 1)
                | None \<Rightarrow> (length longname, 0))
           in \<not> (basename_len \<le> 8 \<and> suffix_len \<le> 3))"

definition get_dotted_shortname :: "bytes \<Rightarrow> bytes" where
  "get_dotted_shortname short =
     (let base = takeWhile (\<lambda>c. c \<noteq> 0x20) (take 8 short); ext = takeWhile (\<lambda>c. c \<noteq> 0x20) (subbuf 8 3 short)
      in if ext = [] then base else base @ [0x2e] @ ext)"

definition blank_short :: bytes where
  "blank_short = replicate 11 0x20"

partial_function (option) find_tilde_name ::
  "'s sector_io \<Rightarrow> vol \<Rightarrow> bytes \<Rightarrow> bytes \<Rightarrow> nat \<Rightarrow> 's dir_state \<Rightarrow> (bytes \<times> 's dir_state) option" where
  "find_tilde_name io v long_name short i d =
     do {
       short1 \<leftarrow> put_tilde_number_in_shortname short i;
       (found, d1) \<leftarrow> find_file_in_curdir io v (get_dotted_shortname short1) d;
       case found of
         None \<Rightarrow> Some (short1, d1)
       | Some de \<Rightarrow>
           if same_caseless long_name (cstr (d_longname de)) then Some (short1, d1)
           else find_tilde_name io v long_name short1 (i + 1) d1
     }"

declare find_tilde_name.simps [code]

definition normalise_long_name ::
  "'s sector_io \<Rightarrow> vol \<Rightarrow> bytes \<Rightarrow> 's dir_state \<Rightarrow> ((bool \<times> bytes) \<times> 's dir_state) option" where
  "normalise_long_name io v long_name d =
     (if long_name = [0x2e] then Some ((False, blit 0 [0x2e] blank_short), d)
      else if long_name = [0x2e, 0x2e] then Some ((False, blit 0 [0x2e, 0x2e] blank_short), d)
      else
        let (needs, short) = is_long_name_needed long_name blank_short in
        if needs \<and> is_tilde_needed long_name
        then do { (short1, d1) \<leftarrow> find_tilde_name io v long_name short 1 d; Some ((needs, short1), d1) }
        else Some ((needs, short), d))"

definition lfn_checksum :: "bytes \<Rightarrow> u8" where
  "lfn_checksum short = fold (\<lambda>c sum. push_bit 7 (sum AND 1) + drop_bit 1 sum + c) (take 11 short) 0"

section \<open>Long name entries\<close>

definition calculate_needed_direntries_for_vfat :: "bytes \<Rightarrow> nat option" where
  "calculate_needed_direntries_for_vfat name =
     (if length name > 255 then None else Some (if name = [] then 1 else (length name - 1) div 13 + 1))"

text \<open>\<open>copy_from_dnamechunk_to_offset\<close>: \<open>None\<close> is the null pointer, the end of the list is the terminator.\<close>

fun dname_pairs :: "bytes option \<Rightarrow> nat \<Rightarrow> bytes" where
  "dname_pairs s 0 = []"
| "dname_pairs None (Suc k) = [0xff, 0xff] @ dname_pairs None k"
| "dname_pairs (Some []) (Suc k) = [0, 0] @ dname_pairs None k"
| "dname_pairs (Some (c # cs)) (Suc k) = [c, 0] @ dname_pairs (Some cs) k"

definition vfat_parts :: "bytes \<Rightarrow> bytes \<times> bytes \<times> bytes" where
  "vfat_parts s =
     (dname_pairs (Some s) 5,
      dname_pairs (if length s < 5 then None else Some (drop 5 s)) 6,
      dname_pairs (if length s < 11 then None else Some (drop 11 s)) 2)"

definition vfat_direntry :: "nat \<Rightarrow> nat \<Rightarrow> bytes \<Rightarrow> u8 \<Rightarrow> bytes" where
  "vfat_direntry seq needed name csum =
     (case vfat_parts (drop (13 * (seq - 1)) name) of (p1, p2, p3) \<Rightarrow>
      [if seq = needed then word_of_nat seq OR 0x40 else word_of_nat seq] @ p1 @ [0x0f, 0, csum] @ p2 @ [0, 0] @ p3)"

definition write_vfat_direntry_chunk ::
  "'s sector_io \<Rightarrow> vol \<Rightarrow> nat \<Rightarrow> bytes \<Rightarrow> u8 \<Rightarrow> 's dir_state \<Rightarrow> (bool \<times> 's dir_state) option" where
  "write_vfat_direntry_chunk io v seq name csum d =
     do { needed \<leftarrow> calculate_needed_direntries_for_vfat name;
          Some (dir_write io v (set_entry (vfat_direntry seq needed name csum) d)) }"

definition read_next_direntry_and_assure_is_free ::
  "'s sector_io \<Rightarrow> vol \<Rightarrow> 's dir_state \<Rightarrow> (bool \<times> m65dirent \<times> 's dir_state) option" where
  "read_next_direntry_and_assure_is_free io v d =
     do { (r, de, d1) \<leftarrow> fat_readdir io v True d;
          Some (r = 0 \<and> \<not> (vfatEntry d1 \<or> d_name de ! 0 \<noteq> 0 \<or> d_type de \<noteq> M65DT_FREESLOT \<or> de_raw de ! 0 = 0xE5),
                de, d1) }"

text \<open>The loop of \<open>find_contiguous_free_direntries\<close>; \<open>start\<close> is the cursor at the first free entry.\<close>

partial_function (option) free_direntries_loop ::
  "'s sector_io \<Rightarrow> vol \<Rightarrow> nat \<Rightarrow> nat \<Rightarrow> (u32 \<times> u32 \<times> nat \<times> int) option \<Rightarrow> 's dir_state
     \<Rightarrow> ((u32 \<times> u32 \<times> nat \<times> int) option \<times> 's dir_state) option" where
  "free_direntries_loop io v needed count start d =
     (if count \<ge> needed then Some (start, d)
      else do {
        (free, de, d1) \<leftarrow> read_next_direntry_and_assure_is_free io v d;
        if free then
          let start1 = (if start = None
                        then Some (dir_cluster d1, dir_sector d1, dir_sector_in_cluster d1, dir_sector_offset d1)
                        else start)
          in if de_raw de ! 0 = 0 then Some (start1, d1)
             else free_direntries_loop io v needed (count + 1) start1 d1
        else free_direntries_loop io v needed 0 None d1
      })"

declare free_direntries_loop.simps [code]

definition find_contiguous_free_direntries ::
  "'s sector_io \<Rightarrow> vol \<Rightarrow> nat \<Rightarrow> 's dir_state \<Rightarrow> (bool \<times> 's dir_state) option" where
  "find_contiguous_free_direntries io v needed d =
     do {
       (r, d1) \<leftarrow> fat_opendir io v (current_dir d) d;
       if r \<noteq> 0 then Some (False, d1)
       else do {
         (start, d2) \<leftarrow> free_direntries_loop io v needed 0 None d1;
         case start of
           None \<Rightarrow> None
         | Some (c, sec, inc, off) \<Rightarrow>
             Some (True, snd (dir_load io v (d2\<lparr>dir_cluster := c, dir_sector := sec,
                    dir_sector_in_cluster := inc, dir_sector_offset := off - 32\<rparr>)))
       }
     }"

definition short_direntry :: "bytes \<Rightarrow> u8 \<Rightarrow> tm \<Rightarrow> bytes" where
  "short_direntry short attrib now = assemble_time_into_raw now (take 11 short @ [attrib] @ replicate 20 0)"

definition create_directory_entry_for_shortname ::
  "'s sector_io \<Rightarrow> vol \<Rightarrow> tm \<Rightarrow> bytes \<Rightarrow> u8 \<Rightarrow> 's dir_state \<Rightarrow> bool \<times> 's dir_state" where
  "create_directory_entry_for_shortname io v now short attrib d =
     dir_write io v (set_entry (short_direntry short attrib now) d)"

text \<open>\<open>k\<close> long name entries are still to be written, the one with the highest number first.\<close>

fun create_vfat_entries ::
  "'s sector_io \<Rightarrow> vol \<Rightarrow> nat \<Rightarrow> bytes \<Rightarrow> u8 \<Rightarrow> 's dir_state \<Rightarrow> (bool \<times> 's dir_state) option" where
  "create_vfat_entries io v 0 name csum d = Some (True, d)"
| "create_vfat_entries io v (Suc k) name csum d =
     do {
       (free, de, d1) \<leftarrow> read_next_direntry_and_assure_is_free io v d;
       if \<not> free then Some (False, d1)
       else do {
         (ok, d2) \<leftarrow> write_vfat_direntry_chunk io v (Suc k) name csum d1;
         if \<not> ok then Some (False, d2) else create_vfat_entries io v k name csum (dir_flush io d2)
       }
     }"

definition create_directory_entry_for_item ::
  "'s sector_io \<Rightarrow> vol \<Rightarrow> tm \<Rightarrow> bytes \<Rightarrow> bytes \<Rightarrow> u8 \<Rightarrow> bool \<Rightarrow> u8 \<Rightarrow> 's dir_state \<Rightarrow> (bool \<times> 's dir_state) option" where
  "create_directory_entry_for_item io v now dest_name short csum needs_long attrib d =
     do {
       (ok, d1) \<leftarrow> (if needs_long
          then do { n \<leftarrow> calculate_needed_direntries_for_vfat dest_name;
                    create_vfat_entries io v n dest_name csum d }
          else Some (True, d));
       if \<not> ok then Some (False, d1)
       else do {
         (free, de, d2) \<leftarrow> read_next_direntry_and_assure_is_free io v d1;
         if \<not> free then Some (False, d2)
         else Some (True, dir_flush io (snd (create_directory_entry_for_shortname io v now short attrib d2)))
       }
     }"

definition create_direntry_with_attrib ::
  "'s sector_io \<Rightarrow> vol \<Rightarrow> tm \<Rightarrow> bytes \<Rightarrow> u8 \<Rightarrow> 's dir_state \<Rightarrow> (bool \<times> 's dir_state) option" where
  "create_direntry_with_attrib io v now dest_name attrib d =
     do {
       (r, d1) \<leftarrow> fat_opendir io v (current_dir d) d;
       if r \<noteq> 0 then Some (False, d1)
       else do {
         ((needs_long, short), d2) \<leftarrow> normalise_long_name io v dest_name d1;
         needed \<leftarrow> (if needs_long then do { n \<leftarrow> calculate_needed_direntries_for_vfat dest_name; Some (1 + n) }
                    else Some 1);
         (ok, d3) \<leftarrow> find_contiguous_free_direntries io v needed d2;
         if \<not> ok then Some (False, d3)
         else create_directory_entry_for_item io v now dest_name short (lfn_checksum short) needs_long attrib d3
       }
     }"

end
