(* ===== verification/DirTree.thy ===== *)
theory DirTree
  imports DirOps
begin

text \<open>
  Operations on whole files and directories (\<open>mega65_ftp.c\<close>): sorted listings, the current
  directory, deleting (recursively), renaming and creating directories.  \<open>answer\<close> is what the
  user types at a security question, \<open>ignore_q\<close> is \<open>ignore_security_questions\<close>.
\<close>

section \<open>Listings\<close>

fun stricmp :: "bytes \<Rightarrow> bytes \<Rightarrow> int" where
  "stricmp [] [] = 0"
| "stricmp [] (b # bs) = - uint (to_lower b)"
| "stricmp (a # as) [] = uint (to_lower a)"
| "stricmp (a # as) (b # bs) =
     (if to_lower a = to_lower b then stricmp as bs else uint (to_lower a) - uint (to_lower b))"

definition is_dir_entry :: "m65dirent \<Rightarrow> bool" where
  "is_dir_entry de \<longleftrightarrow> d_attr de AND 0x10 \<noteq> 0"

definition compare_dirents :: "m65dirent \<Rightarrow> m65dirent \<Rightarrow> int" where
  "compare_dirents src dest =
     (if is_dir_entry dest \<and> is_dir_entry src then stricmp (cstr (d_name src)) (cstr (d_name dest))
      else if is_dir_entry dest \<and> \<not> is_dir_entry src then 1
      else if \<not> is_dir_entry dest \<and> is_dir_entry src then - 1
      else stricmp (cstr (d_name src)) (cstr (d_name dest)))"

fun llist_add :: "('a \<Rightarrow> 'a \<Rightarrow> int) \<Rightarrow> 'a list \<Rightarrow> 'a \<Rightarrow> 'a list" where
  "llist_add cmp [] item = [item]"
| "llist_add cmp (x # xs) item = (if cmp x item > 0 then item # x # xs else x # llist_add cmp xs item)"

partial_function (option) readdir_all ::
  "'s sector_io \<Rightarrow> vol \<Rightarrow> m65dirent list \<Rightarrow> 's dir_state \<Rightarrow> (m65dirent list \<times> 's dir_state) option" where
  "readdir_all io v lst d =
     do {
       (r, de, d1) \<leftarrow> fat_readdir io v False d;
       if r \<noteq> 0 then Some (lst, d1)
       else if d_name de ! 0 = 0 then readdir_all io v lst d1
       else readdir_all io v (llist_add compare_dirents lst de) d1
     }"

declare readdir_all.simps [code]

definition read_direntries ::
  "'s sector_io \<Rightarrow> vol \<Rightarrow> m65dirent list \<Rightarrow> bytes \<Rightarrow> 's dir_state \<Rightarrow> ((bool \<times> m65dirent list) \<times> 's dir_state) option" where
  "read_direntries io v lst path d =
     do { (r, d1) \<leftarrow> fat_opendir io v path d;
          if r \<noteq> 0 then Some ((False, lst), d1)
          else do { (lst1, d2) \<leftarrow> readdir_all io v lst d1; Some ((True, lst1), d2) } }"

definition contains_dir :: "m65dirent list \<Rightarrow> bytes \<Rightarrow> bool" where
  "contains_dir lst path \<longleftrightarrow> (\<exists>itm \<in> set lst. is_dir_entry itm \<and> cstr (d_name itm) = path)"

definition compare_char :: "u8 \<Rightarrow> u8 \<Rightarrow> bool \<Rightarrow> bool" where
  "compare_char a b case_sensitive = (if case_sensitive then a = b else to_lower a = to_lower b)"

text \<open>
  \<open>is_match\<close>, from the top of its \<open>do\<close> loop; \<open>None\<close> is a pointer run past the end of \<open>line\<close>.
\<close>

fun is_match_loop :: "bool \<Rightarrow> bool \<Rightarrow> bytes \<Rightarrow> bytes \<Rightarrow> bool option" where
  "is_match_loop cs wildcard [] [] = None"
| "is_match_loop cs wildcard [] (p # ps) =
     (if p = 0x3f then None else if p = 0x2a then Some (ps = []) else if wildcard then None else Some False)"
| "is_match_loop cs wildcard (c # line) [] =
     (if wildcard then (if line = [] then Some True else is_match_loop cs wildcard line []) else Some False)"
| "is_match_loop cs wildcard (c # line) (p # ps) =
     (if compare_char p c cs \<or> p = 0x3f then
        (if line = [] then Some (ps = []) else is_match_loop cs wildcard line ps)
      else if p = 0x2a then (if ps = [] then Some True else is_match_loop cs True (c # line) ps)
      else if wildcard then (if line = [] then Some False else is_match_loop cs wildcard line (p # ps))
      else Some False)"

definition is_match :: "bytes \<Rightarrow> bytes \<Rightarrow> bool \<Rightarrow> bool option" where
  "is_match line pat cs = is_match_loop cs False line pat"

text \<open>
  \<open>read_remote_dirents\<close>: the listing and the search term.  When a sub-directory is listed, the
  caller is left with the list that was freed: \<open>None\<close>.
\<close>

definition read_remote_dirents ::
  "'s sector_io \<Rightarrow> vol \<Rightarrow> bytes \<Rightarrow> 's dir_state
     \<Rightarrow> ((m65dirent list \<times> bytes option) option \<times> 's dir_state) option" where
  "read_remote_dirents io v path d =
     do {
       (r, d1) \<leftarrow> fat_opendir io v path d;
       if r = 0 then do {
         ((ok, lst), d2) \<leftarrow> read_direntries io v [] path d1;
         Some (if ok then Some (lst, None) else None, d2)
       }
       else do {
         ((ok, lst), d2) \<leftarrow> read_direntries io v [] (current_dir d1) d1;
         if \<not> ok then Some (None, d2)
         else if contains_dir lst path then do {
           ((ok, _), d3) \<leftarrow> read_direntries io v [] path d2;
           if ok then None else Some (None, d3)
         }
         else Some (Some (lst, if path \<noteq> current_dir d2 then Some path else None), d2)
       }
     }"

text \<open>Whether an item passes the search term, tested on its short and then its long name.\<close>

definition selected :: "bytes option \<Rightarrow> m65dirent \<Rightarrow> bool option" where
  "selected searchterm itm =
     (case searchterm of None \<Rightarrow> Some True
      | Some pat \<Rightarrow> do {
          m \<leftarrow> is_match (cstr (d_name itm)) pat True;
          if m then Some True else is_match (cstr (d_longname itm)) pat True })"

definition is_dot_entry :: "m65dirent \<Rightarrow> bool" where
  "is_dot_entry itm \<longleftrightarrow> cstr (d_name itm) = [0x2e, 0x2e] \<or> cstr (d_name itm) = [0x2e]"

fun count_items :: "bytes option \<Rightarrow> m65dirent list \<Rightarrow> nat \<Rightarrow> nat \<Rightarrow> (nat \<times> nat) option" where
  "count_items searchterm [] dirs files = Some (dirs, files)"
| "count_items searchterm (itm # lst) dirs files =
     do {
       sel \<leftarrow> selected searchterm itm;
       if \<not> sel then count_items searchterm lst dirs files
       else if is_dir_entry itm then
         count_items searchterm lst (if is_dot_entry itm then dirs else dirs + 1) files
       else if d_name itm ! 0 \<noteq> 0 \<and> d_filelen itm \<ge> 0 then count_items searchterm lst dirs (files + 1)
       else count_items searchterm lst dirs files
     }"

definition count_directory ::
  "'s sector_io \<Rightarrow> vol \<Rightarrow> bytes \<Rightarrow> 's dir_state \<Rightarrow> ((nat \<times> nat) option \<times> 's dir_state) option" where
  "count_directory io v path d =
     do {
       (res, d1) \<leftarrow> read_remote_dirents io v (if path = [] then current_dir d else path) d;
       case res of
         None \<Rightarrow> Some (None, d1)
       | Some (lst, searchterm) \<Rightarrow> do { counts \<leftarrow> count_items searchterm lst 0 0; Some (Some counts, d1) }
     }"

section \<open>The current directory\<close>

text \<open>One path segment applied to \<open>temp_path\<close>.\<close>

definition parent_path :: "bytes \<Rightarrow> bytes" where
  "parent_path p =
     (let len = (case find (\<lambda>i. p ! i = 0x2f) (rev [0 ..< length p]) of Some i \<Rightarrow> i | None \<Rightarrow> 0)
      in take (if len < 1 then 1 else len) p)"

definition apply_segment :: "bytes \<Rightarrow> bytes \<Rightarrow> bytes" where
  "apply_segment temp seg =
     (if seg = [0x2e] then temp
      else if seg = [0x2e, 0x2e] then parent_path temp
      else if temp \<noteq> [0x2f] then take 1023 (temp @ 0x2f # seg) else take 1023 (temp @ seg))"

function resolve_path :: "bytes \<Rightarrow> bytes \<Rightarrow> bytes" where
  "resolve_path temp src =
     (if src = [] then temp
      else let src1 = dropWhile (\<lambda>c. c = 0x2f) src; seg = takeWhile (\<lambda>c. c \<noteq> 0x2f) src1
           in resolve_path (apply_segment temp seg) (drop (length seg) src1))"
  by pat_completeness auto
termination
proof (relation "measure (length \<circ> snd)", simp)
  fix temp src src1 seg :: bytes
  assume a: "src \<noteq> []" "src1 = dropWhile (\<lambda>c. c = 0x2f) src" "seg = takeWhile (\<lambda>c. c \<noteq> 0x2f) src1"
  have "length (drop (length seg) src1) < length src"
  proof (cases "hd src = 0x2f")
    case True
    with a(1,2) have "length src1 < length src"
      by (cases src) (simp_all add: length_dropWhile_le le_imp_less_Suc)
    then show ?thesis by simp
  next
    case False
    with a have "src1 = src" "seg \<noteq> []" by (cases src; simp)+
    with a(1) show ?thesis by simp
  qed
  then show "((apply_segment temp seg, drop (length seg) src1), temp, src) \<in> measure (length \<circ> snd)"
    by simp
qed

declare resolve_path.simps [simp del]

definition change_dir :: "'s sector_io \<Rightarrow> vol \<Rightarrow> bytes \<Rightarrow> 's dir_state \<Rightarrow> 's dir_state option" where
  "change_dir io v path d =
     (let target = (if path \<noteq> [] \<and> hd path = 0x2f then path else resolve_path (current_dir d) path)
      in do { (r, d1) \<leftarrow> fat_opendir io v target d;
              Some (if r \<noteq> 0 then d1 else d1\<lparr>current_dir := target\<rparr>) })"

section \<open>Deleting\<close>

partial_function (option) dealloc_chain :: "'s sector_io \<Rightarrow> vol \<Rightarrow> u32 \<Rightarrow> 's \<Rightarrow> 's option" where
  "dealloc_chain io v cluster s =
     (case chained_cluster io v cluster s of (next_cluster, s1) \<Rightarrow>
      case deallocate_cluster io v cluster s1 of (_, s2) \<Rightarrow>
        if next_cluster > 0 \<and> next_cluster < end_marker then dealloc_chain io v next_cluster s2 else Some s2)"

declare dealloc_chain.simps [code]

text \<open>What follows once the entry is found and, for a directory, its content is gone.\<close>

definition delete_entry :: "'s sector_io \<Rightarrow> vol \<Rightarrow> u32 \<Rightarrow> 's dir_state \<Rightarrow> (int \<times> 's dir_state) option" where
  "delete_entry io v first_cluster_of_file d =
     (let d1 = wipe_direntries_of_current_file_or_dir io v d in
      do { s \<leftarrow> dealloc_chain io v first_cluster_of_file (store d1); Some (0, dir_flush io (d1\<lparr>store := s\<rparr>)) })"

text \<open>The loops over a listing; \<open>del\<close> deletes one name.\<close>

type_synonym 's deleter = "bytes \<Rightarrow> bool \<Rightarrow> 's dir_state \<Rightarrow> (int \<times> 's dir_state) option"

fun delete_matching :: "'s deleter \<Rightarrow> bytes \<Rightarrow> bool \<Rightarrow> m65dirent list \<Rightarrow> 's dir_state \<Rightarrow> 's dir_state option" where
  "delete_matching del name consent [] d = Some d"
| "delete_matching del name consent (itm # lst) d =
     do {
       m \<leftarrow> is_match (cstr (d_name itm)) name False;
       m' \<leftarrow> (if m then Some True else is_match (cstr (d_longname itm)) name False);
       if m' \<and> \<not> is_dir_entry itm \<and> d_name itm ! 0 \<noteq> 0 \<and> d_filelen itm \<ge> 0 then do {
         (_, d1) \<leftarrow> del (if d_longname itm ! 0 \<noteq> 0 then cstr (d_longname itm) else cstr (d_name itm)) consent d;
         delete_matching del name consent lst d1
       }
       else delete_matching del name consent lst d
     }"

definition delete_file_or_dir_consent ::
  "'s sector_io \<Rightarrow> vol \<Rightarrow> bool \<Rightarrow> bool \<Rightarrow> 's deleter \<Rightarrow> bytes \<Rightarrow> bool \<Rightarrow> 's dir_state \<Rightarrow> (int \<times> 's dir_state) option" where
  "delete_file_or_dir_consent io v ignore_q answer del name consent d =
     (if 0x2a \<notin> set name then del name consent d
      else if \<not> ignore_q \<and> \<not> answer then Some (0, d)
      else do {
        (res, d1) \<leftarrow> read_remote_dirents io v (current_dir d) d;
        case res of
          None \<Rightarrow> Some (0, d1)
        | Some (lst, _) \<Rightarrow> do { d2 \<leftarrow> delete_matching del name consent lst d1; Some (1, dir_flush io d2) }
      })"

fun purge_items ::
  "'s sector_io \<Rightarrow> vol \<Rightarrow> 's deleter \<Rightarrow> bytes \<Rightarrow> bytes option \<Rightarrow> m65dirent list \<Rightarrow> 's dir_state
     \<Rightarrow> (int \<times> 's dir_state) option" where
  "purge_items io v del path searchterm [] d = Some (0, d)"
| "purge_items io v del path searchterm (itm # lst) d =
     do {
       sel \<leftarrow> selected searchterm itm;
       if \<not> sel \<or> is_dot_entry itm then purge_items io v del path searchterm lst d
       else do {
         let backup = current_dir d;
         d1 \<leftarrow> change_dir io v path d;
         (ret, d2) \<leftarrow> (if d_longname itm ! 0 \<noteq> 0 then del (cstr (d_longname itm)) True d1
                      else if d_name itm ! 0 \<noteq> 0 then del (cstr (d_name itm)) True d1 else Some (- 1, d1));
         d3 \<leftarrow> change_dir io v backup (dir_flush io d2);
         if ret \<noteq> 0 then Some (- 1, d3) else purge_items io v del path searchterm lst d3
       }
     }"

definition purge_directory_or_file ::
  "'s sector_io \<Rightarrow> vol \<Rightarrow> 's deleter \<Rightarrow> bytes \<Rightarrow> 's dir_state \<Rightarrow> (int \<times> 's dir_state) option" where
  "purge_directory_or_file io v del path d =
     do {
       (res, d1) \<leftarrow> read_remote_dirents io v (if path = [] then current_dir d else path) d;
       case res of
         None \<Rightarrow> Some (- 1, d1)
       | Some (lst, searchterm) \<Rightarrow>
           purge_items io v del (if path = [] then current_dir d else path) searchterm lst d1
     }"

text \<open>
  \<open>delete_single_file\<close>.  The recursion into sub-directories is bounded by its first argument,
  the number of directory levels it may still enter; the 1024-byte path buffers of the source
  bound the nesting in the same way, and a deeper tree is \<open>None\<close>.
\<close>

fun delete_single_file ::
  "nat \<Rightarrow> 's sector_io \<Rightarrow> vol \<Rightarrow> bool \<Rightarrow> bool \<Rightarrow> 's deleter" where
  "delete_single_file 0 io v ignore_q answer name consent d = None"
| "delete_single_file (Suc k) io v ignore_q answer name consent d =
     do {
       (r, d1) \<leftarrow> fat_opendir io v (current_dir d) d;
       if r \<noteq> 0 then Some (- 1, d1)
       else do {
         (found, d2) \<leftarrow> find_file_in_curdir io v name d1;
         if found = None then Some (- 1, d2)
         else
           let first_cluster_of_file = start_cluster (cur_entry d2) in
           if entry_byte d2 0x0b \<noteq> DE_ATTRIB_DIR then delete_entry io v first_cluster_of_file d2
           else do {
             let dir = (if current_dir d2 = [0x2f] then 0x2f # name else current_dir d2 @ 0x2f # name);
             (counts, d3) \<leftarrow> count_directory io v dir d2;
             case counts of
               None \<Rightarrow> Some (- 1, d3)
             | Some (dirs, files) \<Rightarrow>
                 if (dirs > 0 \<or> files > 0) \<and> \<not> consent \<and> \<not> ignore_q \<and> \<not> answer then Some (0, d3)
                 else do {
                   (p, d4) \<leftarrow> purge_directory_or_file io v
                     (delete_file_or_dir_consent io v ignore_q answer (delete_single_file k io v ignore_q answer)) dir d3;
                   if p \<noteq> 0 then Some (0, d4)
                   else delete_entry io v first_cluster_of_file
                     (d2\<lparr>store := store d4, current_dir := current_dir d4\<rparr>)
                 }
           }
       }
     }"

section \<open>Renaming\<close>

text \<open>The \<open>!\<close> of C takes the error value of \<open>contains_file_or_dir\<close> for a hit.\<close>

definition rename_file_or_dir ::
  "'s sector_io \<Rightarrow> vol \<Rightarrow> tm \<Rightarrow> bytes \<Rightarrow> bytes \<Rightarrow> 's dir_state \<Rightarrow> (int \<times> 's dir_state) option" where
  "rename_file_or_dir io v now name dest_name d =
     do {
       (c, d1) \<leftarrow> contains_file_or_dir io v name d;
       if c = 0 then Some (- 1, d1)
       else do {
         (c', d2) \<leftarrow> contains_file_or_dir io v dest_name d1;
         if c' = 1 then Some (- 2, d2)
         else do {
           ((needs_long, short), d3) \<leftarrow> normalise_long_name io v dest_name d2;
           (_, d4) \<leftarrow> contains_file_or_dir io v name d3;
           let attrib = entry_byte d4 0x0b;
           let first_cluster_of_file = start_cluster (cur_entry d4);
           let sz = le32_at (cur_entry d4) 0x1C;
           let d5 = wipe_direntries_of_current_file_or_dir io v d4;
           n \<leftarrow> calculate_needed_direntries_for_vfat dest_name;
           (ok, d6) \<leftarrow> find_contiguous_free_direntries io v (1 + n) d5;
           if \<not> ok then Some (- 1, d6)
           else do {
             (ok', d7) \<leftarrow> create_directory_entry_for_item io v now dest_name short (lfn_checksum short) needs_long attrib d6;
             if \<not> ok' then Some (- 1, d7)
             else
               let d8 = write_file_size_into_direntry sz (write_cluster_number_into_direntry first_cluster_of_file d7)
               in Some (0, dir_flush io (snd (dir_write io v d8)))
           }
         }
       }
     }"

section \<open>Creating a sub-directory\<close>

definition dot_entry :: "bytes \<Rightarrow> tm \<Rightarrow> u32 \<Rightarrow> bytes" where
  "dot_entry name now cluster =
     start_cluster_bytes cluster
       (assemble_time_into_raw now (name @ replicate (11 - length name) 0x20 @ [0x10] @ replicate 20 0))"

definition first_dir_sector :: "tm \<Rightarrow> u32 \<Rightarrow> u32 \<Rightarrow> sector" where
  "first_dir_sector now cluster parent_cluster =
     dot_entry [0x2e] now cluster @ dot_entry [0x2e, 0x2e] now parent_cluster @ replicate 448 0"

text \<open>
  The loop that fills a new directory, with \<open>k\<close> of its 8 sectors left to write.  A failure
  leaves the loop, but not the function.
\<close>

fun fill_new_dir ::
  "'s sector_io \<Rightarrow> vol \<Rightarrow> sector \<Rightarrow> nat \<Rightarrow> nat \<Rightarrow> u32 \<Rightarrow> 's \<Rightarrow> bool \<times> 's" where
  "fill_new_dir io v first_sector 0 sector_in_cluster file_cluster s = (True, s)"
| "fill_new_dir io v first_sector (Suc k) sector_in_cluster file_cluster s =
     (let write = (\<lambda>sector_in_cluster file_cluster s.
            case wr io (partition_start v + cluster_sector v file_cluster + word_of_nat sector_in_cluster)
                   (if Suc k = 8 then first_sector else replicate 512 0) s of
              (True, s') \<Rightarrow> fill_new_dir io v first_sector k (sector_in_cluster + 1) file_cluster s'
            | (False, s') \<Rightarrow> (False, s'))
      in if sector_in_cluster < unat (sectors_per_cluster v) then write sector_in_cluster file_cluster s
         else case chained_cluster io v file_cluster s of (next_cluster, s1) \<Rightarrow>
           if next_cluster = 0 \<or> sint next_cluster \<ge> sint end_marker then
             (case find_free_cluster io v file_cluster s1 of (c, s2) \<Rightarrow>
              case allocate_cluster io v c s2 of
                (False, s3) \<Rightarrow> (False, s3)
              | (True, s3) \<Rightarrow>
                  (case chain_cluster io v file_cluster c s3 of
                     (False, s4) \<Rightarrow> (False, s4)
                   | (True, s4) \<Rightarrow> if sint c \<le> 0 then (False, s4) else write 0 c s4))
           else if sint next_cluster \<le> 0 then (False, s1)
           else write 0 next_cluster s1)"

text \<open>
  The first cluster of a new directory: \<open>Inl\<close> is a return with an error.  The file size stored
  at the end is \<open>(4096) & 0xff\<close> in all four bytes.
\<close>

definition new_dir_cluster ::
  "'s sector_io \<Rightarrow> vol \<Rightarrow> 's dir_state \<Rightarrow> u32 option \<times> 's dir_state" where
  "new_dir_cluster io v d =
     (let c = start_cluster (cur_entry d) in
      if c \<noteq> 0 then (Some c, d)
      else case find_free_cluster io v 0 (store d) of (a_cluster, s1) \<Rightarrow>
        if a_cluster = 0 then (None, d\<lparr>store := s1\<rparr>)
        else case allocate_cluster io v a_cluster s1 of
          (False, s2) \<Rightarrow> (None, d\<lparr>store := s2\<rparr>)
        | (True, s2) \<Rightarrow>
            (case dir_write io v (write_cluster_number_into_direntry a_cluster (d\<lparr>store := s2\<rparr>)) of
               (False, d3) \<Rightarrow> (None, d3)
             | (True, d3) \<Rightarrow> (Some a_cluster, d3)))"

definition create_dir ::
  "'s sector_io \<Rightarrow> vol \<Rightarrow> tm \<Rightarrow> bytes \<Rightarrow> 's dir_state \<Rightarrow> (int \<times> 's dir_state) option" where
  "create_dir io v now dest_name d =
     do {
       (r, d1) \<leftarrow> fat_opendir io v (current_dir d) d;
       if r \<noteq> 0 then Some (0, d1)
       else do {
         let parent_cluster = dir_cluster d1;
         (c, d2) \<leftarrow> contains_file_or_dir io v dest_name d1;
         if c \<noteq> 0 then Some (- 1, d2)
         else do {
           (ok, d3) \<leftarrow> create_direntry_with_attrib io v now dest_name DE_ATTRIB_DIR d2;
           if \<not> ok then Some (- 1, d3)
           else if dir_sector d3 = no_dir then Some (- 1, d3)
           else case new_dir_cluster io v d3 of
             (None, d4) \<Rightarrow> Some (- 1, d4)
           | (Some fc, d4) \<Rightarrow>
               let (ok1, s) = fill_new_dir io v (first_dir_sector now fc parent_cluster) 8 0 fc (store d4);
                   d5 = set_entry_bytes 0x1C (replicate 4 0) (d4\<lparr>store := s\<rparr>)
               in case dir_write io v d5 of
                    (False, d6) \<Rightarrow> Some (- 1, d6)
                  | (True, d6) \<Rightarrow> Some (if ok1 then 0 else - 1, dir_flush io d6)
         }
       }
     }"

end
