(* ===== verification/Lib.thy ===== *)
theory Lib
  imports DirTree
begin

text \<open>
  The file layer (\<open>src/m65ftp_lib.c\<close>): descriptors, host-memory write buffers, \<open>pread\<close>,
  \<open>pwrite\<close>, \<open>ftruncate\<close> and the operations on paths.  Every function of the file takes the
  one mutex, so each is one step of the model.  \<open>None\<close> is a call that does not return.
\<close>

section \<open>State\<close>

definition M65FTP_MAX_FILES :: nat where "M65FTP_MAX_FILES = 4096"
definition M65FTP_BUFFER_LIMIT :: nat where "M65FTP_BUFFER_LIMIT = 64 * 1024 * 1024"
definition M65FTP_PATH_MAX :: nat where "M65FTP_PATH_MAX = 1024"
definition M65FTP_NAME_MAX :: nat where "M65FTP_NAME_MAX = 256"

text \<open>\<open>write_buf\<close> is its allocated \<open>write_buf_cap\<close> bytes; no allocation is the empty list.\<close>

record fileinfo =
  fi_first_cluster :: u32
  file_size :: u32
  current_cluster :: u32
  current_cluster_idx :: u32
  last_offset :: nat
  is_writable :: bool
  fi_dir_sector :: u32
  fi_dir_sector_offset :: int
  dir_sector_buf :: sector
  buffered :: bool
  write_buf :: bytes
  write_cluster :: u32
  sector_in_cluster :: nat
  in_use :: bool

record 's lib =
  dirs :: "'s dir_state"
  initialized :: bool
  files :: "fileinfo list"   \<comment> \<open>\<open>s_files\<close> up to \<open>s_file_count\<close>\<close>
  free_fds :: "nat list"     \<comment> \<open>the stack \<open>s_free_fds\<close>, top first\<close>

definition no_file :: fileinfo where
  "no_file = \<lparr>fi_first_cluster = 0, file_size = 0, current_cluster = 0, current_cluster_idx = 0,
     last_offset = 0, is_writable = False, fi_dir_sector = 0, fi_dir_sector_offset = 0,
     dir_sector_buf = replicate 512 0, buffered = False, write_buf = [], write_cluster = 0,
     sector_in_cluster = 0, in_use = False\<rparr>"

definition alloc_fd :: "'s lib \<Rightarrow> nat option \<times> 's lib" where
  "alloc_fd l =
     (case free_fds l of
        fd # fds \<Rightarrow> (Some fd, l\<lparr>free_fds := fds\<rparr>)
      | [] \<Rightarrow> if length (files l) \<ge> M65FTP_MAX_FILES then (None, l)
              else (Some (length (files l)), l\<lparr>files := files l @ [no_file]\<rparr>))"

definition set_file :: "nat \<Rightarrow> fileinfo \<Rightarrow> 's lib \<Rightarrow> 's lib" where
  "set_file fd fi l = l\<lparr>files := (files l)[fd := fi]\<rparr>"

definition set_store :: "'s \<Rightarrow> 's lib \<Rightarrow> 's lib" where
  "set_store s l = l\<lparr>dirs := (dirs l)\<lparr>store := s\<rparr>\<rparr>"

abbreviation lib_store :: "'s lib \<Rightarrow> 's" where
  "lib_store l \<equiv> store (dirs l)"

section \<open>Helpers\<close>

definition pack_dir_entry_le16 :: "bytes \<Rightarrow> nat \<Rightarrow> u32 \<Rightarrow> bytes" where
  "pack_dir_entry_le16 buffer offset value = blit offset (le16_bytes value) buffer"

definition pack_dir_entry_le32 :: "bytes \<Rightarrow> nat \<Rightarrow> u32 \<Rightarrow> bytes" where
  "pack_dir_entry_le32 buffer offset value = blit offset (le32_bytes value) buffer"

definition set_entry_first_cluster :: "u32 \<Rightarrow> fileinfo \<Rightarrow> fileinfo" where
  "set_entry_first_cluster c fi =
     (let off = nat (fi_dir_sector_offset fi);
          b = pack_dir_entry_le16 (dir_sector_buf fi) (off + 0x1A) (c AND 0xFFFF)
      in fi\<lparr>dir_sector_buf := pack_dir_entry_le16 b (off + 0x14) (drop_bit 16 c AND 0xFFFF)\<rparr>)"

definition set_entry_file_size :: "u32 \<Rightarrow> fileinfo \<Rightarrow> fileinfo" where
  "set_entry_file_size sz fi =
     fi\<lparr>dir_sector_buf := pack_dir_entry_le32 (dir_sector_buf fi) (nat (fi_dir_sector_offset fi) + 0x1C) sz\<rparr>"

definition has_entry :: "fileinfo \<Rightarrow> bool" where
  "has_entry fi \<longleftrightarrow> sint (fi_dir_sector fi) \<ge> 0 \<and> fi_dir_sector_offset fi \<ge> 0"

definition write_entry_sector :: "'s sector_io \<Rightarrow> vol \<Rightarrow> fileinfo \<Rightarrow> 's \<Rightarrow> 's" where
  "write_entry_sector io v fi s = after_wr io (partition_start v + fi_dir_sector fi) (dir_sector_buf fi) s"

definition cluster_size :: "vol \<Rightarrow> nat" where
  "cluster_size v = unat (sectors_per_cluster v) * 512"

text \<open>The sector of a file's data, with the file layer's own formula.\<close>

definition first_data_sector :: "vol \<Rightarrow> u32" where
  "first_data_sector v = partition_start v + reserved_sectors v + 2 * sectors_per_fat v"

definition file_sector :: "vol \<Rightarrow> u32 \<Rightarrow> nat \<Rightarrow> u32" where
  "file_sector v cluster sec =
     first_data_sector v + (cluster - 2) * ucast (sectors_per_cluster v) + word_of_nat sec"

definition is_end :: "u32 \<Rightarrow> bool" where
  "is_end c \<longleftrightarrow> c = 0 \<or> c \<ge> end_marker"

text \<open>Clusters \<open>start + i\<close> for \<open>i\<close> in the list are allocated and each chained to the one before.\<close>

definition chain_block :: "'s sector_io \<Rightarrow> vol \<Rightarrow> u32 \<Rightarrow> nat list \<Rightarrow> 's \<Rightarrow> 's" where
  "chain_block io v start is s =
     fold (\<lambda>i s. snd (chain_cluster io v (start + word_of_nat i - 1) (start + word_of_nat i)
                   (snd (allocate_cluster io v (start + word_of_nat i) s)))) is s"

section \<open>Flushing a write buffer\<close>

text \<open>The data of buffer sector \<open>k\<close> of a file of \<open>n\<close> bytes, padded with zeros.\<close>

definition buffer_sector :: "bytes \<Rightarrow> nat \<Rightarrow> nat \<Rightarrow> sector" where
  "buffer_sector buf n k =
     (let off = 512 * k; copy = min 512 (n - off); data = take copy (drop off buf)
      in data @ replicate (512 - length data) 0)"

text \<open>\<open>count\<close> sectors are left, from sector \<open>sec\<close> of \<open>cluster\<close>, which is sector \<open>k\<close> of the file.\<close>

fun write_buffer_sectors ::
  "'s sector_io \<Rightarrow> vol \<Rightarrow> bytes \<Rightarrow> nat \<Rightarrow> nat \<Rightarrow> nat \<Rightarrow> u32 \<Rightarrow> nat \<Rightarrow> 's \<Rightarrow> bool \<times> 's" where
  "write_buffer_sectors io v buf n 0 k cluster sec s = (True, s)"
| "write_buffer_sectors io v buf n (Suc count) k cluster sec s =
     (case wr io (file_sector v cluster sec) (buffer_sector buf n k) s of
        (False, s1) \<Rightarrow> (False, s1)
      | (True, s1) \<Rightarrow>
          if sec + 1 < unat (sectors_per_cluster v)
          then write_buffer_sectors io v buf n count (k + 1) cluster (sec + 1) s1
          else write_buffer_sectors io v buf n count (k + 1) (cluster + 1) 0 s1)"

definition flush_write_buffer ::
  "'s sector_io \<Rightarrow> vol \<Rightarrow> fileinfo \<Rightarrow> 's \<Rightarrow> (bool \<times> fileinfo \<times> 's) option" where
  "flush_write_buffer io v fi s =
     (if file_size fi = 0 then
        (let (fi1, s1) = (if has_entry fi
               then let fi' = set_entry_file_size 0 (set_entry_first_cluster 0 fi) in (fi', write_entry_sector io v fi' s)
               else (fi, s))
         in Some (True, fi1\<lparr>write_buf := [], buffered := False, fi_first_cluster := 0\<rparr>, s1))
      else
        let n = unat (file_size fi);
            cs = word_of_nat (cluster_size v) :: u32;
            needed = (file_size fi + cs - 1) div cs
        in do {
          (found, s1) \<leftarrow> find_contiguous_clusters io v needed s;
          start \<leftarrow> found;
          if is_end start then Some (False, fi, s1)
          else
            let s2 = chain_block io v start [1 ..< unat needed] (snd (allocate_cluster io v start s1)) in
            case write_buffer_sectors io v (write_buf fi) n ((n + 511) div 512) 0 start 0 s2 of
              (False, s3) \<Rightarrow> Some (False, fi, s3)
            | (True, s3) \<Rightarrow>
                let (fi1, s4) = (if has_entry fi
                      then let fi' = set_entry_file_size (file_size fi) (set_entry_first_cluster start fi)
                           in (fi', write_entry_sector io v fi' s3)
                      else (fi, s3))
                in Some (True, fi1\<lparr>fi_first_cluster := start, write_cluster := start, sector_in_cluster := 0,
                     last_offset := 0, current_cluster := start, current_cluster_idx := 0,
                     write_buf := [], buffered := False\<rparr>, s4)
        })"

section \<open>The partition table\<close>

record partition_info =
  part_type :: u8
  start_sector :: u32
  sector_count :: u32

definition partition_entry :: "sector \<Rightarrow> nat \<Rightarrow> partition_info" where
  "partition_entry mbr i =
     (let base = 0x1BE + i * 16
      in \<lparr>part_type = mbr ! (base + 4), start_sector = le32_at mbr (base + 8), sector_count = le32_at mbr (base + 12)\<rparr>)"

definition m65ftp_mbrinfo ::
  "'s sector_io \<Rightarrow> 's lib \<Rightarrow> (nat \<times> partition_info list) option \<times> 's lib" where
  "m65ftp_mbrinfo io l =
     (if \<not> initialized l then (None, l)
      else case rd_nocache io 0 (lib_store l) of
        (None, s) \<Rightarrow> (None, set_store s l)
      | (Some mbr, s) \<Rightarrow>
          if mbr ! 510 \<noteq> 0x55 \<or> mbr ! 511 \<noteq> 0xAA then (None, set_store s l)
          else
            let ps = map (partition_entry mbr) [0 ..< 4]
            in (Some (length (filter (\<lambda>p. part_type p \<noteq> 0 \<and> sector_count p > 0) ps), ps), set_store s l))"

section \<open>Paths\<close>

text \<open>
  The opening lines of every path function: the copy cut to the buffer, the last slash, the name
  after it and the directory before it.
\<close>

definition last_slash :: "bytes \<Rightarrow> nat option" where
  "last_slash p = find (\<lambda>i. p ! i = 0x2f) (rev [0 ..< length p])"

definition split_path :: "bytes \<Rightarrow> (bytes \<times> bytes) option" where
  "split_path path =
     (let p = take (M65FTP_PATH_MAX - 1) path in
      case last_slash p of
        None \<Rightarrow> None
      | Some i \<Rightarrow> Some (if i = 0 then take 1 p else take i p, take (M65FTP_NAME_MAX - 1) (drop (i + 1) p)))"

definition best_name :: "m65dirent \<Rightarrow> bytes" where
  "best_name de = (if d_longname de ! 0 \<noteq> 0 then cstr (d_longname de) else cstr (d_name de))"

text \<open>The loop of \<open>m65ftp_open\<close>, \<open>m65ftp_open_writable\<close> and \<open>m65ftp_stat\<close>: an exact match.\<close>

partial_function (option) find_exact ::
  "'s sector_io \<Rightarrow> vol \<Rightarrow> bytes \<Rightarrow> 's dir_state \<Rightarrow> (m65dirent option \<times> 's dir_state) option" where
  "find_exact io v name d =
     do {
       (r, de, d1) \<leftarrow> fat_readdir io v False d;
       if r \<noteq> 0 then Some (None, d1)
       else if d_name de ! 0 = 0 then find_exact io v name d1
       else if best_name de = name then Some (Some de, d1)
       else find_exact io v name d1
     }"

declare find_exact.simps [code]

definition lookup_path ::
  "'s sector_io \<Rightarrow> vol \<Rightarrow> bytes \<Rightarrow> 's dir_state \<Rightarrow> (m65dirent option \<times> 's dir_state) option" where
  "lookup_path io v path d =
     (case split_path path of
        None \<Rightarrow> Some (None, d)
      | Some (dir_path, file_name) \<Rightarrow> do {
          (r, d1) \<leftarrow> fat_opendir io v dir_path d;
          if r \<noteq> 0 then Some (None, d1) else find_exact io v file_name d1 })"

section \<open>Opening and closing\<close>

definition file_of_dirent :: "m65dirent \<Rightarrow> fileinfo \<Rightarrow> fileinfo" where
  "file_of_dirent de fi = fi\<lparr>fi_first_cluster := d_ino de, file_size := word_of_int (d_filelen de),
     current_cluster := d_ino de, current_cluster_idx := 0, last_offset := 0, is_writable := False,
     buffered := False, write_buf := [], dir_sector_buf := replicate 512 0, fi_dir_sector := no_dir,
     write_cluster := 0, sector_in_cluster := 0, in_use := True\<rparr>"

definition writable_of_dirent :: "m65dirent \<Rightarrow> 's dir_state \<Rightarrow> fileinfo \<Rightarrow> fileinfo" where
  "writable_of_dirent de d fi = (file_of_dirent de fi)\<lparr>is_writable := True, fi_dir_sector := dir_sector d,
     fi_dir_sector_offset := dir_sector_offset d, dir_sector_buf := dir_sector_buffer d, write_cluster := d_ino de\<rparr>"

definition install_file :: "(fileinfo \<Rightarrow> fileinfo) \<Rightarrow> 's lib \<Rightarrow> nat option \<times> 's lib" where
  "install_file f l =
     (case alloc_fd l of
        (None, l1) \<Rightarrow> (None, l1)
      | (Some fd, l1) \<Rightarrow> (Some fd, set_file fd (f (files l1 ! fd)) l1))"

definition m65ftp_open :: "'s sector_io \<Rightarrow> vol \<Rightarrow> bytes \<Rightarrow> 's lib \<Rightarrow> (nat option \<times> 's lib) option" where
  "m65ftp_open io v path l =
     (if \<not> initialized l then Some (None, l)
      else do {
        (found, d) \<leftarrow> lookup_path io v path (dirs l);
        case found of
          None \<Rightarrow> Some (None, l\<lparr>dirs := d\<rparr>)
        | Some de \<Rightarrow> Some (install_file (file_of_dirent de) (l\<lparr>dirs := d\<rparr>)) })"

definition m65ftp_open_writable :: "'s sector_io \<Rightarrow> vol \<Rightarrow> bytes \<Rightarrow> 's lib \<Rightarrow> (nat option \<times> 's lib) option" where
  "m65ftp_open_writable io v path l =
     (if \<not> initialized l then Some (None, l)
      else do {
        (found, d) \<leftarrow> lookup_path io v path (dirs l);
        case found of
          None \<Rightarrow> Some (None, l\<lparr>dirs := d\<rparr>)
        | Some de \<Rightarrow> Some (install_file (writable_of_dirent de d) (l\<lparr>dirs := d\<rparr>)) })"

definition created_file :: "'s dir_state \<Rightarrow> fileinfo \<Rightarrow> fileinfo" where
  "created_file d fi = fi\<lparr>fi_first_cluster := 0, file_size := 0, current_cluster := 0, current_cluster_idx := 0,
     last_offset := 0, is_writable := True, buffered := True, write_buf := [], fi_dir_sector := dir_sector d,
     fi_dir_sector_offset := dir_sector_offset d, dir_sector_buf := dir_sector_buffer d, write_cluster := 0,
     sector_in_cluster := 0, in_use := True\<rparr>"

text \<open>\<open>with_dir\<close> sets \<open>current_dir\<close> for one operation and puts the saved one back.\<close>

definition with_dir ::
  "bytes \<Rightarrow> ('s dir_state \<Rightarrow> ('a \<times> 's dir_state) option) \<Rightarrow> 's dir_state \<Rightarrow> ('a \<times> 's dir_state) option" where
  "with_dir dir_path f d =
     do { (r, d1) \<leftarrow> f (d\<lparr>current_dir := dir_path\<rparr>); Some (r, d1\<lparr>current_dir := current_dir d\<rparr>) }"

text \<open>
  The FUSE program leaves \<open>ignore_security_questions\<close> at 0; \<open>answer\<close> is what is read from its
  console.  A path buffer holds at most 512 directory levels.
\<close>

definition max_depth :: nat where
  "max_depth = 512"

definition lib_delete :: "'s sector_io \<Rightarrow> vol \<Rightarrow> bool \<Rightarrow> 's deleter" where
  "lib_delete io v answer = delete_single_file max_depth io v False answer"

definition delete_file_or_dir ::
  "'s sector_io \<Rightarrow> vol \<Rightarrow> bool \<Rightarrow> bytes \<Rightarrow> 's dir_state \<Rightarrow> (int \<times> 's dir_state) option" where
  "delete_file_or_dir io v answer name d =
     delete_file_or_dir_consent io v False answer (lib_delete io v answer) name False d"

definition create_entry ::
  "'s sector_io \<Rightarrow> vol \<Rightarrow> tm \<Rightarrow> bool \<Rightarrow> bytes \<Rightarrow> bytes \<Rightarrow> 's dir_state \<Rightarrow> (bool \<times> 's dir_state) option" where
  "create_entry io v now answer dir_path file_name d =
     do {
       (r, d1) \<leftarrow> fat_opendir io v dir_path d;
       if r \<noteq> 0 then Some (False, d1)
       else do {
         (found, d2) \<leftarrow> find_file_in_curdir io v file_name d1;
         d3 \<leftarrow> (if found = None then Some d2
               else do { (_, d') \<leftarrow> delete_file_or_dir io v answer file_name d2;
                         (_, d'') \<leftarrow> fat_opendir io v dir_path d'; Some d'' });
         (ok, d4) \<leftarrow> create_direntry_with_attrib io v now file_name DE_ATTRIB_FILE d3;
         Some (if ok then (True, snd (dir_write io v d4)) else (False, d4))
       }
     }"

definition m65ftp_create ::
  "'s sector_io \<Rightarrow> vol \<Rightarrow> tm \<Rightarrow> bool \<Rightarrow> bytes \<Rightarrow> 's lib \<Rightarrow> (nat option \<times> 's lib) option" where
  "m65ftp_create io v now answer path l =
     (if \<not> initialized l then Some (None, l)
      else case split_path path of
        None \<Rightarrow> Some (None, l)
      | Some (dir_path, file_name) \<Rightarrow>
          if file_name = [] then Some (None, l)
          else do {
            (ok, d) \<leftarrow> with_dir dir_path (create_entry io v now answer dir_path file_name) (dirs l);
            let l1 = l\<lparr>dirs := d\<rparr>;
            Some (if ok then install_file (created_file d) l1 else (None, l1))
          })"

definition valid_fd :: "'s lib \<Rightarrow> nat \<Rightarrow> bool" where
  "valid_fd l fd \<longleftrightarrow> fd < length (files l) \<and> in_use (files l ! fd)"

text \<open>The end of \<open>m65ftp_close\<close>: the descriptor goes back on the stack.\<close>

definition release_file :: "nat \<Rightarrow> fileinfo \<Rightarrow> 's lib \<Rightarrow> 's lib" where
  "release_file fd fi l =
     (let l1 = set_file fd (fi\<lparr>write_buf := [], fi_first_cluster := 0, in_use := False\<rparr>) l
      in if length (free_fds l1) < M65FTP_MAX_FILES then l1\<lparr>free_fds := fd # free_fds l1\<rparr> else l1)"

definition close_writable ::
  "'s sector_io \<Rightarrow> vol \<Rightarrow> fileinfo \<Rightarrow> 's \<Rightarrow> (fileinfo \<times> 's) option" where
  "close_writable io v fi s =
     do {
       (fi1, s1) \<leftarrow> (if buffered fi
          then do { (_, fi', s') \<leftarrow> flush_write_buffer io v fi s; Some (fi', s') }
          else Some (fi, s));
       let (fi2, s2) = (if has_entry fi1
            then let f = set_entry_file_size (file_size fi1) fi1 in (f, write_entry_sector io v f s1)
            else (fi1, s1));
       Some (fi2, flush io s2)
     }"

definition m65ftp_close :: "'s sector_io \<Rightarrow> vol \<Rightarrow> nat \<Rightarrow> 's lib \<Rightarrow> 's lib option" where
  "m65ftp_close io v fd l =
     (if \<not> valid_fd l fd then Some l
      else
        let fi = files l ! fd in
        do {
          (fi1, s1) \<leftarrow> (if is_writable fi then close_writable io v fi (lib_store l) else Some (fi, lib_store l));
          Some (release_file fd fi1 (set_store s1 l))
        })"

section \<open>Reading\<close>

text \<open>The walk to the cluster of an offset, \<open>k\<close> links at most; it stops at an end marker.\<close>

fun walk_clusters :: "'s sector_io \<Rightarrow> vol \<Rightarrow> nat \<Rightarrow> u32 \<Rightarrow> u32 \<Rightarrow> 's \<Rightarrow> (u32 \<times> u32) \<times> 's" where
  "walk_clusters io v 0 cluster idx s = ((cluster, idx), s)"
| "walk_clusters io v (Suc k) cluster idx s =
     (case get_next_cluster io v cluster s of (c, s1) \<Rightarrow>
        if c \<ge> end_marker then ((c, idx + 1), s1) else walk_clusters io v k c (idx + 1) s1)"

text \<open>
  The loop of \<open>m65ftp_pread\<close>, with the bytes read so far in \<open>acc\<close>; the result says whether it
  ended without a read error.
\<close>

function pread_loop ::
  "'s sector_io \<Rightarrow> vol \<Rightarrow> u32 \<Rightarrow> u32 \<Rightarrow> nat \<Rightarrow> nat \<Rightarrow> bytes \<Rightarrow> 's \<Rightarrow> (bool \<times> bytes \<times> u32 \<times> u32 \<times> nat) \<times> 's" where
  "pread_loop io v cluster idx off remaining acc s =
     (if remaining = 0 \<or> cluster \<ge> end_marker then ((True, acc, cluster, idx, off), s)
      else
        let target = word_of_nat (off div cluster_size v) :: u32;
            in_cluster = off mod cluster_size v
        in case walk_clusters io v (unat target - unat idx) cluster idx s of ((c, i), s1) \<Rightarrow>
          if c \<ge> end_marker then ((True, acc, c, i, off), s1)
          else
            let n = min (512 - in_cluster mod 512) remaining in
            case rd io (file_sector v c (in_cluster div 512)) s1 of
              (None, s2) \<Rightarrow> ((False, acc, c, i, off), s2)
            | (Some b, s2) \<Rightarrow>
                pread_loop io v c i (off + n) (remaining - n) (acc @ subbuf (in_cluster mod 512) n b) s2)"
  by pat_completeness auto
termination
  by (relation "measure (\<lambda>(_, _, _, _, _, remaining, _, _). remaining)") (auto simp: min_def)

declare pread_loop.simps [simp del]

definition clip_count :: "nat \<Rightarrow> nat \<Rightarrow> nat \<Rightarrow> nat" where
  "clip_count sz count offset = (if offset + count > sz then sz - offset else count)"

definition buffered_read :: "fileinfo \<Rightarrow> nat \<Rightarrow> nat \<Rightarrow> bytes" where
  "buffered_read fi count offset =
     (let n = clip_count (unat (file_size fi)) count offset; data = take n (drop offset (write_buf fi))
      in data @ replicate (n - length data) 0)"

definition m65ftp_pread ::
  "'s sector_io \<Rightarrow> vol \<Rightarrow> nat \<Rightarrow> nat \<Rightarrow> nat \<Rightarrow> 's lib \<Rightarrow> bytes option \<times> 's lib" where
  "m65ftp_pread io v fd count offset l =
     (if \<not> initialized l \<or> \<not> valid_fd l fd then (None, l)
      else
        let fi = files l ! fd in
        if buffered fi then
          (if count = 0 \<or> offset \<ge> unat (file_size fi) then (Some [], l)
           else (Some (buffered_read fi count offset), l))
        else if count = 0 \<or> fi_first_cluster fi = 0 \<or> offset \<ge> unat (file_size fi) then (Some [], l)
        else
          let n = clip_count (unat (file_size fi)) count offset;
              (cluster, idx) = (if offset = last_offset fi then (current_cluster fi, current_cluster_idx fi)
                                else (fi_first_cluster fi, 0))
          in case pread_loop io v cluster idx offset n [] (lib_store l) of
               ((ok, data, c, i, off), s) \<Rightarrow>
                 (if ok \<or> data \<noteq> [] then Some data else None,
                  set_store s (set_file fd
                    (fi\<lparr>current_cluster := c, current_cluster_idx := i, last_offset := off\<rparr>) l)))"

section \<open>Writing\<close>

text \<open>Follows up to \<open>k\<close> links; the second result is how many of them exist.\<close>

fun walk_chain :: "'s sector_io \<Rightarrow> vol \<Rightarrow> nat \<Rightarrow> u32 \<Rightarrow> 's \<Rightarrow> (u32 \<times> nat) \<times> 's" where
  "walk_chain io v 0 cluster s = ((cluster, 0), s)"
| "walk_chain io v (Suc k) cluster s =
     (case chained_cluster io v cluster s of (c, s1) \<Rightarrow>
        if is_end c then ((cluster, 0), s1)
        else case walk_chain io v k c s1 of ((c', n), s2) \<Rightarrow> ((c', n + 1), s2))"

function power_above :: "nat \<Rightarrow> nat \<Rightarrow> nat" where
  "power_above p t = (if 0 < p \<and> p \<le> t then power_above (2 * p) t else p)"
  by pat_completeness auto
termination
  by (relation "measure (\<lambda>(p, t). Suc t - p)") auto

declare power_above.simps [simp del]

definition first_batch :: "nat \<Rightarrow> nat" where
  "first_batch clusters =
     (let t = power_above 1 (if clusters > 64 then 64 else clusters) div 2 in if t < 2 then 2 else t)"

text \<open>Batches of descending size; the result is a batch and its size.\<close>

function find_batch ::
  "'s sector_io \<Rightarrow> vol \<Rightarrow> nat \<Rightarrow> 's \<Rightarrow> ((u32 \<times> nat) option \<times> 's) option" where
  "find_batch io v try_batch s =
     (if try_batch < 2 then Some (None, s)
      else do {
        (found, s1) \<leftarrow> find_contiguous_clusters io v (word_of_nat try_batch) s;
        c \<leftarrow> found;
        if is_end c then find_batch io v (try_batch div 2) s1 else Some (Some (c, try_batch), s1)
      })"
  by pat_completeness auto
termination
  by (relation "measure (\<lambda>(_, _, t, _). t)") auto

declare find_batch.simps [simp del]

definition next_write_cluster ::
  "'s sector_io \<Rightarrow> vol \<Rightarrow> u32 \<Rightarrow> nat \<Rightarrow> 's \<Rightarrow> (u32 option \<times> 's) option" where
  "next_write_cluster io v cluster remaining s =
     (case chained_cluster io v cluster s of (c, s1) \<Rightarrow>
      if \<not> is_end c then Some (Some c, s1)
      else do {
        (batch, s2) \<leftarrow> find_batch io v
           (first_batch ((remaining + cluster_size v - 1) div cluster_size v + 1)) s1;
        case batch of
          Some (start, try_batch) \<Rightarrow>
            Some (Some start,
              chain_block io v start [1 ..< try_batch]
                (snd (chain_cluster io v cluster start (snd (allocate_cluster io v start s2)))))
        | None \<Rightarrow>
            (case find_free_cluster io v cluster s2 of (c, s3) \<Rightarrow>
               if is_end c then Some (None, s3)
               else Some (Some c, snd (chain_cluster io v cluster c (snd (allocate_cluster io v c s3)))))
      })"

text \<open>
  The loop of \<open>m65ftp_pwrite\<close> over the bytes still to write.  The result starts with whether the
  call goes on after the loop; it does not when nothing was written before a failure.
\<close>

function pwrite_loop ::
  "'s sector_io \<Rightarrow> vol \<Rightarrow> bytes \<Rightarrow> u32 \<Rightarrow> nat \<Rightarrow> nat \<Rightarrow> nat \<Rightarrow> 's
     \<Rightarrow> ((bool \<times> u32 \<times> nat \<times> nat \<times> nat) \<times> 's) option" where
  "pwrite_loop io v data cluster sec off total_written s =
     (if data = [] then Some ((True, cluster, sec, off, total_written), s)
      else do {
        (pos, s1) \<leftarrow> (if sec \<ge> unat (sectors_per_cluster v)
           then do { (c, s') \<leftarrow> next_write_cluster io v cluster (length data) s;
                     Some (map_option (\<lambda>c. (c, 0)) c, s') }
           else Some (Some (cluster, sec), s));
        case pos of
          None \<Rightarrow> Some ((total_written > 0, cluster, sec, off, total_written), s1)
        | Some (c, k) \<Rightarrow>
            let o' = off mod 512; n = min (512 - o') (length data); sector_number = file_sector v c k in
            case (if n < 512 \<or> o' \<noteq> 0 then rd io sector_number s1 else (Some (replicate 512 0), s1)) of
              (None, s2) \<Rightarrow> Some ((total_written > 0, c, k, off, total_written), s2)
            | (Some b, s2) \<Rightarrow>
                (case wr io sector_number (blit o' (take n data) b) s2 of
                   (False, s3) \<Rightarrow> Some ((total_written > 0, c, k, off, total_written), s3)
                 | (True, s3) \<Rightarrow> pwrite_loop io v (drop n data) c (k + 1) (off + n) (total_written + n) s3)
      })"
  by pat_completeness auto
termination
  by (relation "measure (\<lambda>(_, _, data, _). length data)") (auto simp: min_def)

declare pwrite_loop.simps [simp del]

function grown_cap :: "nat \<Rightarrow> nat \<Rightarrow> nat" where
  "grown_cap cap n = (if 0 < cap \<and> cap < n then grown_cap (2 * cap) n else cap)"
  by pat_completeness auto
termination
  by (relation "measure (\<lambda>(cap, n). n - cap)") auto

declare grown_cap.simps [simp del]

definition grow_buffer :: "nat \<Rightarrow> bytes \<Rightarrow> bytes" where
  "grow_buffer n buf =
     (if n > length buf then
        let cap = grown_cap (if buf = [] then 4096 else length buf) n;
            new_cap = (if cap > M65FTP_BUFFER_LIMIT then M65FTP_BUFFER_LIMIT else cap)
        in buf @ replicate (new_cap - length buf) 0
      else buf)"

definition buffered_write :: "bytes \<Rightarrow> nat \<Rightarrow> fileinfo \<Rightarrow> fileinfo" where
  "buffered_write data offset fi =
     (let n = offset + length data
      in fi\<lparr>write_buf := blit offset data (grow_buffer n (write_buf fi)),
            file_size := (if n > unat (file_size fi) then word_of_nat n else file_size fi)\<rparr>)"

definition direct_write ::
  "'s sector_io \<Rightarrow> vol \<Rightarrow> bytes \<Rightarrow> nat \<Rightarrow> fileinfo \<Rightarrow> 's \<Rightarrow> (nat option \<times> fileinfo \<times> 's) option" where
  "direct_write io v data offset fi s =
     (if data = [] then Some (Some 0, fi, s)
      else
        let ((cluster, sec), s1) =
              (if offset = last_offset fi \<and> last_offset fi > 0 \<and> write_cluster fi \<noteq> 0
               then ((write_cluster fi, sector_in_cluster fi), s)
               else
                 let idx = offset div cluster_size v in
                 case walk_chain io v idx (fi_first_cluster fi) s of ((c, n), s') \<Rightarrow>
                   ((c, if n < idx then unat (sectors_per_cluster v) else offset mod cluster_size v div 512), s'))
        in do {
          ((go_on, c, k, off, total_written), s2) \<leftarrow> pwrite_loop io v data cluster sec offset 0 s1;
          if \<not> go_on then Some (None, fi, s2)
          else
            let fi1 = fi\<lparr>write_cluster := c, sector_in_cluster := k, last_offset := off,
                  file_size := (if offset + total_written > unat (file_size fi)
                                then word_of_nat (offset + total_written) else file_size fi)\<rparr>;
                (fi2, s3) = (if has_entry fi1
                   then let f = set_entry_file_size (file_size fi1) fi1 in (f, write_entry_sector io v f s2)
                   else (fi1, s2))
            in Some (Some total_written, fi2, s3)
        })"

definition m65ftp_pwrite ::
  "'s sector_io \<Rightarrow> vol \<Rightarrow> nat \<Rightarrow> bytes \<Rightarrow> nat \<Rightarrow> 's lib \<Rightarrow> (nat option \<times> 's lib) option" where
  "m65ftp_pwrite io v fd data offset l =
     (if \<not> initialized l \<or> \<not> valid_fd l fd \<or> \<not> is_writable (files l ! fd) then Some (None, l)
      else
        let fi = files l ! fd in
        if buffered fi \<and> data = [] then Some (Some 0, l)
        else if buffered fi \<and> offset + length data \<le> M65FTP_BUFFER_LIMIT
        then Some (Some (length data), set_file fd (buffered_write data offset fi) l)
        else do {
          (ok, fi1, s1) \<leftarrow> (if buffered fi then flush_write_buffer io v fi (lib_store l)
                           else Some (True, fi, lib_store l));
          if \<not> ok then Some (None, set_store s1 (set_file fd fi1 l))
          else do {
            (r, fi2, s2) \<leftarrow> direct_write io v data offset fi1 s1;
            Some (r, set_store s2 (set_file fd fi2 l))
          }
        })"

section \<open>Truncating\<close>

definition free_chain :: "'s sector_io \<Rightarrow> vol \<Rightarrow> u32 \<Rightarrow> 's \<Rightarrow> 's option" where
  "free_chain io v cluster s = (if is_end cluster then Some s else dealloc_chain io v cluster s)"

text \<open>Allocating and chaining a new block; \<open>i\<close> clusters of it are allocated.\<close>

fun alloc_block :: "'s sector_io \<Rightarrow> vol \<Rightarrow> u32 \<Rightarrow> nat \<Rightarrow> nat \<Rightarrow> 's \<Rightarrow> (bool \<times> nat) \<times> 's" where
  "alloc_block io v start 0 i s = ((True, i), s)"
| "alloc_block io v start (Suc k) i s =
     (let cluster = start + word_of_nat i in
      case allocate_cluster io v cluster s of
        (False, s1) \<Rightarrow> ((False, i), s1)
      | (True, s1) \<Rightarrow>
          if i > 0 then
            (case chain_cluster io v (cluster - 1) cluster s1 of
               (False, s2) \<Rightarrow> ((False, i + 1), s2)
             | (True, s2) \<Rightarrow> alloc_block io v start k (i + 1) s2)
          else alloc_block io v start k (i + 1) s1)"

definition dealloc_block :: "'s sector_io \<Rightarrow> vol \<Rightarrow> u32 \<Rightarrow> nat \<Rightarrow> 's \<Rightarrow> 's" where
  "dealloc_block io v start n s = fold (\<lambda>i s. snd (deallocate_cluster io v (start + word_of_nat i) s)) [0 ..< n] s"

partial_function (option) copy_data ::
  "'s sector_io \<Rightarrow> vol \<Rightarrow> u32 \<Rightarrow> u32 \<Rightarrow> nat \<Rightarrow> nat \<Rightarrow> 's \<Rightarrow> (bool \<times> 's) option" where
  "copy_data io v old_cluster new_cluster sec remaining s =
     (if remaining = 0 then Some (True, s)
      else if sec < unat (sectors_per_cluster v) then
        (case rd io (file_sector v old_cluster sec) s of
           (None, s1) \<Rightarrow> Some (False, s1)
         | (Some b, s1) \<Rightarrow>
             (case wr io (file_sector v new_cluster sec) b s1 of (ok, s2) \<Rightarrow>
                if ok then copy_data io v old_cluster new_cluster (sec + 1) (remaining - min 512 remaining) s2
                else Some (False, s2)))
      else case chained_cluster io v old_cluster s of (next_old, s1) \<Rightarrow>
        if is_end next_old then Some (True, s1)
        else copy_data io v next_old (new_cluster + 1) 0 remaining s1)"

declare copy_data.simps [code]

text \<open>
  The growing branch: a new block, the old data copied to it, the old chain freed.  The result is
  the new first cluster, or nothing on an error.
\<close>

definition grow_file ::
  "'s sector_io \<Rightarrow> vol \<Rightarrow> nat \<Rightarrow> nat \<Rightarrow> fileinfo \<Rightarrow> 's \<Rightarrow> (u32 option \<times> 's) option" where
  "grow_file io v needed len fi s =
     do {
       (found, s1) \<leftarrow> find_contiguous_clusters io v (word_of_nat needed) s;
       start \<leftarrow> found;
       if is_end start then Some (None, s1)
       else case alloc_block io v start needed 0 s1 of
         ((False, n), s2) \<Rightarrow> Some (None, dealloc_block io v start n s2)
       | ((True, n), s2) \<Rightarrow> do {
           (ok, s3) \<leftarrow> copy_data io v (fi_first_cluster fi) start 0 (min (unat (file_size fi)) (unat (word_of_nat len :: u32))) s2;
           if \<not> ok then Some (None, dealloc_block io v start needed s3)
           else do { s4 \<leftarrow> free_chain io v (fi_first_cluster fi) s3; Some (Some start, s4) }
         }
     }"

definition shrink_file :: "'s sector_io \<Rightarrow> vol \<Rightarrow> nat \<Rightarrow> u32 \<Rightarrow> 's \<Rightarrow> 's option" where
  "shrink_file io v needed first s =
     (case walk_chain io v (needed - 1) first s of ((cluster, _), s1) \<Rightarrow>
      case chained_cluster io v cluster s1 of (free_start, s2) \<Rightarrow>
        do { s3 \<leftarrow> free_chain io v free_start s2;
             Some (snd (set_fat_cluster_ptr io v cluster end_marker s3)) })"

definition empty_file :: "fileinfo \<Rightarrow> fileinfo" where
  "empty_file fi = fi\<lparr>fi_first_cluster := 0, file_size := 0, write_cluster := 0, sector_in_cluster := 0,
     last_offset := 0, current_cluster := 0, current_cluster_idx := 0\<rparr>"

definition write_entry ::
  "'s sector_io \<Rightarrow> vol \<Rightarrow> (fileinfo \<Rightarrow> fileinfo) \<Rightarrow> fileinfo \<Rightarrow> 's \<Rightarrow> fileinfo \<times> 's" where
  "write_entry io v f fi s =
     (if has_entry fi then (f fi, flush io (write_entry_sector io v (f fi) s)) else (fi, s))"

definition truncate_buffered :: "'s sector_io \<Rightarrow> vol \<Rightarrow> nat \<Rightarrow> fileinfo \<Rightarrow> 's \<Rightarrow> fileinfo \<times> 's" where
  "truncate_buffered io v len fi s =
     (if len = 0 then
        write_entry io v (\<lambda>f. set_entry_file_size 0 (set_entry_first_cluster 0 f)) (empty_file (fi\<lparr>write_buf := []\<rparr>)) s
      else (fi\<lparr>file_size := word_of_nat len, write_buf := grow_buffer len (write_buf fi)\<rparr>, s))"

text \<open>The two branches of a truncation that keeps some clusters: a new chain or a shorter one.\<close>

definition resize_chain ::
  "'s sector_io \<Rightarrow> vol \<Rightarrow> nat \<Rightarrow> nat \<Rightarrow> nat \<Rightarrow> fileinfo \<Rightarrow> 's \<Rightarrow> (u32 option \<times> fileinfo \<times> 's) option" where
  "resize_chain io v needed current_count len fi s =
     (if needed > current_count then do {
        (r, s1) \<leftarrow> grow_file io v needed len fi s;
        Some (case r of
          None \<Rightarrow> (None, fi, s1)
        | Some start \<Rightarrow> (Some start, if has_entry fi then set_entry_first_cluster start fi else fi, s1))
      }
      else if needed < current_count then do {
        s1 \<leftarrow> shrink_file io v needed (fi_first_cluster fi) s; Some (Some (fi_first_cluster fi), fi, s1) }
      else Some (Some (fi_first_cluster fi), fi, s))"

definition truncate_direct ::
  "'s sector_io \<Rightarrow> vol \<Rightarrow> nat \<Rightarrow> fileinfo \<Rightarrow> 's \<Rightarrow> (bool \<times> fileinfo \<times> 's) option" where
  "truncate_direct io v len fi s =
     (let needed = (if len = 0 then 0 else unat (word_of_nat ((len + cluster_size v - 1) div cluster_size v) :: u32)) in
      if needed = 0 then do {
        s1 \<leftarrow> free_chain io v (fi_first_cluster fi) s;
        let (fi1, s2) = write_entry io v (\<lambda>f. set_entry_file_size 0 (set_entry_first_cluster 0 f)) fi s1;
        Some (True, empty_file fi1, s2)
      }
      else if is_end (fi_first_cluster fi) then Some (False, fi, s)
      else do {
        ((current_count, _), s1) \<leftarrow> count_cluster_chain io v (fi_first_cluster fi) 1 s;
        (first', fi1, s2) \<leftarrow> resize_chain io v needed (unat current_count) len fi s1;
        case first' of
          None \<Rightarrow> Some (False, fi1, s2)
        | Some c \<Rightarrow>
            let (fi2, s3) = write_entry io v (set_entry_file_size (word_of_nat len)) fi1 s2
            in Some (True, fi2\<lparr>file_size := word_of_nat len, fi_first_cluster := c, write_cluster := c,
                 sector_in_cluster := 0, last_offset := 0, current_cluster := c, current_cluster_idx := 0\<rparr>, s3)
      })"

definition m65ftp_ftruncate ::
  "'s sector_io \<Rightarrow> vol \<Rightarrow> nat \<Rightarrow> int \<Rightarrow> 's lib \<Rightarrow> (bool \<times> 's lib) option" where
  "m65ftp_ftruncate io v fd len l =
     (if \<not> initialized l \<or> \<not> valid_fd l fd \<or> \<not> is_writable (files l ! fd) then Some (False, l)
      else if len < 0 then Some (False, l)
      else
        let fi = files l ! fd in
        if buffered fi
        then (case truncate_buffered io v (nat len) fi (lib_store l) of (fi1, s1) \<Rightarrow>
                Some (True, set_store s1 (set_file fd fi1 l)))
        else do {
          (ok, fi1, s1) \<leftarrow> truncate_direct io v (nat len) fi (lib_store l);
          Some (ok, set_store s1 (set_file fd fi1 l))
        })"

definition m65ftp_fsync :: "'s sector_io \<Rightarrow> vol \<Rightarrow> nat \<Rightarrow> 's lib \<Rightarrow> (bool \<times> 's lib) option" where
  "m65ftp_fsync io v fd l =
     (if \<not> initialized l \<or> \<not> valid_fd l fd then Some (False, l)
      else
        let fi = files l ! fd in
        do {
          (ok, fi1, s1) \<leftarrow> (if is_writable fi \<and> buffered fi then flush_write_buffer io v fi (lib_store l)
                           else Some (True, fi, lib_store l));
          let l1 = set_file fd fi1 l;
          Some (if ok then (True, set_store (flush io s1) l1) else (False, set_store s1 l1))
        })"

definition m65ftp_sync :: "'s sector_io \<Rightarrow> 's lib \<Rightarrow> bool \<times> 's lib" where
  "m65ftp_sync io l = (if initialized l then (True, set_store (flush io (lib_store l)) l) else (False, l))"

section \<open>Operations on paths\<close>

text \<open>\<open>mktime\<close> and \<open>localtime\<close> are the C library's, for the time zone of the host.\<close>

definition m65ftp_stat ::
  "'s sector_io \<Rightarrow> vol \<Rightarrow> (tm \<Rightarrow> int) \<Rightarrow> int \<Rightarrow> bytes \<Rightarrow> 's lib \<Rightarrow> ((u32 \<times> bool \<times> int) option \<times> 's lib) option" where
  "m65ftp_stat io v mktime now path l =
     (if \<not> initialized l then Some (None, l)
      else if path = [0x2f] then Some (Some (0, True, now), l)
      else do {
        (found, d) \<leftarrow> lookup_path io v path (dirs l);
        Some (map_option (\<lambda>de. (word_of_int (d_filelen de), is_dir_entry de, mktime (d_mtime de))) found, l\<lparr>dirs := d\<rparr>)
      })"

text \<open>The callback gets name, size, directory flag and time, and says whether to stop.\<close>

partial_function (option) list_entries ::
  "'s sector_io \<Rightarrow> vol \<Rightarrow> (tm \<Rightarrow> int) \<Rightarrow> (bytes \<Rightarrow> u32 \<Rightarrow> bool \<Rightarrow> int \<Rightarrow> 'x \<Rightarrow> bool \<times> 'x) \<Rightarrow> 'x \<Rightarrow> 's dir_state
     \<Rightarrow> ('x \<times> 's dir_state) option" where
  "list_entries io v mktime cb x d =
     do {
       (r, de, d1) \<leftarrow> fat_readdir io v False d;
       if r \<noteq> 0 then Some (x, d1)
       else if d_name de ! 0 = 0 then list_entries io v mktime cb x d1
       else case cb (best_name de) (word_of_int (d_filelen de)) (is_dir_entry de) (mktime (d_mtime de)) x of (stop, x1) \<Rightarrow>
         if stop then Some (x1, d1) else list_entries io v mktime cb x1 d1
     }"

declare list_entries.simps [code]

definition m65ftp_readdir ::
  "'s sector_io \<Rightarrow> vol \<Rightarrow> (tm \<Rightarrow> int) \<Rightarrow> bytes \<Rightarrow> (bytes \<Rightarrow> u32 \<Rightarrow> bool \<Rightarrow> int \<Rightarrow> 'x \<Rightarrow> bool \<times> 'x) \<Rightarrow> 'x \<Rightarrow> 's lib
     \<Rightarrow> ((bool \<times> 'x) \<times> 's lib) option" where
  "m65ftp_readdir io v mktime path cb x l =
     (if \<not> initialized l then Some ((False, x), l)
      else do {
        (r, d1) \<leftarrow> fat_opendir io v path (dirs l);
        if r \<noteq> 0 then Some ((False, x), l\<lparr>dirs := d1\<rparr>)
        else do { (x1, d2) \<leftarrow> list_entries io v mktime cb x d1; Some ((True, x1), l\<lparr>dirs := d2\<rparr>) }
      })"

datatype utime = Omit | Now | At int

definition utime_value :: "int \<Rightarrow> utime \<Rightarrow> int option" where
  "utime_value now u = (case u of Omit \<Rightarrow> None | Now \<Rightarrow> Some now | At t \<Rightarrow> Some t)"

definition time_word :: "tm \<Rightarrow> u16" where
  "time_word t = word_of_int (push_bit 11 (tm_hour t) OR push_bit 5 (tm_min t) OR drop_bit 1 (tm_sec t))"

definition date_word :: "tm \<Rightarrow> u16" where
  "date_word t = word_of_int (push_bit 9 (tm_year t - 80) OR push_bit 5 (tm_mon t + 1) OR tm_mday t)"

definition le16_of :: "u16 \<Rightarrow> bytes" where
  "le16_of w = [ucast w, ucast (drop_bit 8 w)]"

definition set_entry_times :: "(int \<Rightarrow> tm option) \<Rightarrow> int option \<Rightarrow> int option \<Rightarrow> 's dir_state \<Rightarrow> 's dir_state" where
  "set_entry_times localtime mtime atime d =
     (let d1 = (case Option.bind mtime localtime of
                  Some t \<Rightarrow> set_entry_bytes 0x18 (le16_of (date_word t)) (set_entry_bytes 0x16 (le16_of (time_word t)) d)
                | None \<Rightarrow> d)
      in case Option.bind atime localtime of
           Some t \<Rightarrow> set_entry_bytes 0x12 (le16_of (date_word t)) d1
         | None \<Rightarrow> d1)"

definition m65ftp_utimens ::
  "'s sector_io \<Rightarrow> vol \<Rightarrow> (int \<Rightarrow> tm option) \<Rightarrow> int \<Rightarrow> bytes \<Rightarrow> (utime \<times> utime) option \<Rightarrow> 's lib \<Rightarrow> (bool \<times> 's lib) option" where
  "m65ftp_utimens io v localtime now path tv l =
     (if \<not> initialized l \<or> path = [] \<or> path = [0x2f] then Some (False, l)
      else case split_path path of
        None \<Rightarrow> Some (False, l)
      | Some (dir_path, file_name) \<Rightarrow>
          if file_name = [] then Some (False, l)
          else do {
            (ok, d) \<leftarrow> with_dir dir_path (\<lambda>d. do {
              (found, d1) \<leftarrow> find_file_in_curdir io v file_name d;
              if found = None then Some (False, d1)
              else
                let (atime, mtime) = (case tv of Some (a, m) \<Rightarrow> (utime_value now a, utime_value now m)
                                      | None \<Rightarrow> (Some now, Some now));
                    (ok, d2) = dir_write io v (set_entry_times localtime mtime atime d1)
                in Some (ok, if ok then dir_flush io d2 else d2) }) (dirs l);
            Some (ok, l\<lparr>dirs := d\<rparr>)
          })"

definition m65ftp_mkdir :: "'s sector_io \<Rightarrow> vol \<Rightarrow> tm \<Rightarrow> bytes \<Rightarrow> 's lib \<Rightarrow> (bool \<times> 's lib) option" where
  "m65ftp_mkdir io v now path l =
     (if \<not> initialized l \<or> path = [] then Some (False, l)
      else case split_path path of
        None \<Rightarrow> Some (False, l)
      | Some (dir_path, dir_name) \<Rightarrow>
          if dir_name = [] then Some (False, l)
          else do {
            (ret, d) \<leftarrow> with_dir dir_path (create_dir io v now dir_name) (dirs l);
            Some (ret = 0, l\<lparr>dirs := d\<rparr>)
          })"

text \<open>The scan of \<open>m65ftp_rmdir\<close> for anything but the dot entries.\<close>

partial_function (option) dir_is_empty ::
  "'s sector_io \<Rightarrow> vol \<Rightarrow> 's dir_state \<Rightarrow> (bool \<times> 's dir_state) option" where
  "dir_is_empty io v d =
     do {
       (r, de, d1) \<leftarrow> fat_readdir io v False d;
       if r \<noteq> 0 then Some (True, d1)
       else if d_name de ! 0 = 0 then dir_is_empty io v d1
       else if best_name de = [0x2e] \<or> best_name de = [0x2e, 0x2e] then dir_is_empty io v d1
       else Some (False, d1)
     }"

declare dir_is_empty.simps [code]

definition rmdir_in ::
  "'s sector_io \<Rightarrow> vol \<Rightarrow> bool \<Rightarrow> bytes \<Rightarrow> bytes \<Rightarrow> 's dir_state \<Rightarrow> (bool \<times> 's dir_state) option" where
  "rmdir_in io v answer dir_path dir_name d =
     do {
       (r, d1) \<leftarrow> fat_opendir io v dir_path d;
       if r \<noteq> 0 then Some (False, d1)
       else do {
         (found, d2) \<leftarrow> find_file_in_curdir io v dir_name d1;
         case found of
           None \<Rightarrow> Some (False, d2)
         | Some de \<Rightarrow>
             if \<not> is_dir_entry de then Some (False, d2)
             else do {
               let full_path = take (M65FTP_PATH_MAX - 1)
                 (if dir_path = [0x2f] then 0x2f # dir_name else dir_path @ 0x2f # dir_name);
               (r', d3) \<leftarrow> fat_opendir io v full_path (d2\<lparr>current_dir := full_path\<rparr>);
               if r' \<noteq> 0 then Some (False, d3)
               else do {
                 (empty, d4) \<leftarrow> dir_is_empty io v d3;
                 if \<not> empty then Some (False, d4)
                 else do { (ret, d5) \<leftarrow> lib_delete io v answer dir_name True (d4\<lparr>current_dir := dir_path\<rparr>); Some (ret = 0, d5) }
               }
             }
       }
     }"

definition m65ftp_rmdir :: "'s sector_io \<Rightarrow> vol \<Rightarrow> bool \<Rightarrow> bytes \<Rightarrow> 's lib \<Rightarrow> (bool \<times> 's lib) option" where
  "m65ftp_rmdir io v answer path l =
     (if \<not> initialized l \<or> path = [] \<or> path = [0x2f] then Some (False, l)
      else case split_path path of
        None \<Rightarrow> Some (False, l)
      | Some (dir_path, dir_name) \<Rightarrow>
          if dir_name = [] then Some (False, l)
          else do { (ok, d) \<leftarrow> with_dir dir_path (rmdir_in io v answer dir_path dir_name) (dirs l);
                    Some (ok, l\<lparr>dirs := d\<rparr>) })"

definition unlink_in ::
  "'s sector_io \<Rightarrow> vol \<Rightarrow> bool \<Rightarrow> bytes \<Rightarrow> bytes \<Rightarrow> 's dir_state \<Rightarrow> (bool \<times> 's dir_state) option" where
  "unlink_in io v answer dir_path file_name d =
     do {
       (r, d1) \<leftarrow> fat_opendir io v dir_path d;
       if r \<noteq> 0 then Some (False, d1)
       else do {
         (found, d2) \<leftarrow> find_file_in_curdir io v file_name d1;
         case found of
           None \<Rightarrow> Some (False, d2)
         | Some de \<Rightarrow>
             if is_dir_entry de then Some (False, d2)
             else do { (ret, d3) \<leftarrow> lib_delete io v answer file_name True d2; Some (ret = 0, d3) }
       }
     }"

definition m65ftp_unlink :: "'s sector_io \<Rightarrow> vol \<Rightarrow> bool \<Rightarrow> bytes \<Rightarrow> 's lib \<Rightarrow> (bool \<times> 's lib) option" where
  "m65ftp_unlink io v answer path l =
     (if \<not> initialized l \<or> path = [] then Some (False, l)
      else case split_path path of
        None \<Rightarrow> Some (False, l)
      | Some (dir_path, file_name) \<Rightarrow>
          if file_name = [] then Some (False, l)
          else do { (ok, d) \<leftarrow> with_dir dir_path (unlink_in io v answer dir_path file_name) (dirs l);
                    Some (ok, l\<lparr>dirs := d\<rparr>) })"

definition m65ftp_rename ::
  "'s sector_io \<Rightarrow> vol \<Rightarrow> tm \<Rightarrow> bytes \<Rightarrow> bytes \<Rightarrow> 's lib \<Rightarrow> (bool \<times> 's lib) option" where
  "m65ftp_rename io v now oldpath newpath l =
     (if \<not> initialized l \<or> oldpath = [] \<or> newpath = [] then Some (False, l)
      else case (split_path oldpath, split_path newpath) of
        (Some (old_dir, old_name), Some (new_dir, new_name)) \<Rightarrow>
          if old_name = [] \<or> new_name = [] \<or> old_dir \<noteq> new_dir then Some (False, l)
          else do {
            (ret, d) \<leftarrow> with_dir old_dir (rename_file_or_dir io v now old_name new_name) (dirs l);
            Some (ret = 0, l\<lparr>dirs := d\<rparr>)
          }
      | _ \<Rightarrow> Some (False, l))"

end
