(* ===== verification/FsCache.thy ===== *)
theory FsCache
  imports Lib
begin

text \<open>
  The FUSE program (\<open>src/mega65fs.c\<close>): the cache of directory listings and the file system
  callbacks over the file layer.  \<open>s_cache_mutex\<close> makes each use of the cache one step.
\<close>

section \<open>State\<close>

definition MAX_ENTRIES :: nat where "MAX_ENTRIES = 512"
definition MAX_PATH :: nat where "MAX_PATH = 512"
definition ENTRY_NAME_MAX :: nat where "ENTRY_NAME_MAX = 256"
definition MAX_CACHED_DIRS :: nat where "MAX_CACHED_DIRS = 16"
definition CACHE_TTL_SECONDS :: int where "CACHE_TTL_SECONDS = 5"

record directory_entry =
  e_name :: bytes
  e_size :: nat
  e_is_dir :: bool
  e_mtime :: int

record dir_cache =
  c_path :: bytes
  c_entries :: "directory_entry list"
  c_last_updated :: int
  c_valid :: bool

text \<open>The environment of a call: the store below, the volume, and the host's clock and C library.\<close>

record 's env =
  e_io :: "'s sector_io"
  e_vol :: vol
  e_now :: int
  e_now_tm :: tm
  e_mktime :: "tm \<Rightarrow> int"
  e_localtime :: "int \<Rightarrow> tm option"
  e_answer :: bool

record 's fs =
  slots :: "dir_cache list"
  ftp :: "'s lib"

definition empty_slot :: dir_cache where
  "empty_slot = \<lparr>c_path = [], c_entries = [], c_last_updated = 0, c_valid = False\<rparr>"

section \<open>The directory cache\<close>

text \<open>The scan of \<open>get_cache_slot\<close> from slot \<open>i\<close>, with the oldest slot seen so far.\<close>

fun slot_scan :: "bytes \<Rightarrow> dir_cache list \<Rightarrow> nat \<Rightarrow> nat \<Rightarrow> int \<Rightarrow> nat" where
  "slot_scan path [] i oldest_idx oldest_time = oldest_idx"
| "slot_scan path (c # cs) i oldest_idx oldest_time =
     (if c_valid c \<and> c_path c = path then i
      else if \<not> c_valid c then i
      else if c_last_updated c < oldest_time then slot_scan path cs (i + 1) i (c_last_updated c)
      else slot_scan path cs (i + 1) oldest_idx oldest_time)"

definition get_cache_slot :: "int \<Rightarrow> bytes \<Rightarrow> dir_cache list \<Rightarrow> nat" where
  "get_cache_slot now path cs = slot_scan path cs 0 0 (now + 1)"

text \<open>The listing callback, over the entries gathered so far.\<close>

definition fill_dir_cache ::
  "bytes \<Rightarrow> u32 \<Rightarrow> bool \<Rightarrow> int \<Rightarrow> directory_entry list \<Rightarrow> bool \<times> directory_entry list" where
  "fill_dir_cache name sz is_dir mtime es =
     (if name = [0x2e] \<or> name = [0x2e, 0x2e] then (False, es)
      else if length es \<ge> MAX_ENTRIES then (True, es)
      else (False, es @ [\<lparr>e_name = take (ENTRY_NAME_MAX - 1) name, e_size = unat sz,
                         e_is_dir = is_dir, e_mtime = mtime\<rparr>]))"

definition fresh :: "int \<Rightarrow> dir_cache \<Rightarrow> bool" where
  "fresh now c \<longleftrightarrow> now - c_last_updated c < CACHE_TTL_SECONDS"

text \<open>The slot chosen for the path is overwritten by a listing taken at time \<open>now\<close>.\<close>

definition store_listing :: "int \<Rightarrow> bytes \<Rightarrow> directory_entry list \<Rightarrow> dir_cache list \<Rightarrow> dir_cache list" where
  "store_listing now path es cs = cs[get_cache_slot now path cs :=
     \<lparr>c_path = take (MAX_PATH - 1) path, c_entries = es, c_last_updated = now, c_valid = True\<rparr>]"

definition refresh_cache_if_expired ::
  "('s, 'a) env_scheme \<Rightarrow> bytes \<Rightarrow> 's fs \<Rightarrow> (dir_cache \<times> 's fs) option" where
  "refresh_cache_if_expired env path f =
     (let i = get_cache_slot (e_now env) path (slots f); c = slots f ! i in
      if c_valid c \<and> c_path c = path \<and> fresh (e_now env) c then Some (c, f)
      else do {
        ((_, es), l) \<leftarrow> m65ftp_readdir (e_io env) (e_vol env) (e_mktime env) path fill_dir_cache [] (ftp f);
        let cs = store_listing (e_now env) path es (slots f);
        Some (cs ! i, f\<lparr>slots := cs, ftp := l\<rparr>)
      })"

text \<open>
  \<open>split_parent\<close>: the directory, and the string that the returned pointer then points to.  For a
  path directly under the root the pointer is to the byte that was just set to zero.
\<close>

definition split_parent :: "bytes \<Rightarrow> (bytes \<times> bytes) option" where
  "split_parent path =
     (let p = take (MAX_PATH - 1) path in
      case last_slash p of
        None \<Rightarrow> None
      | Some i \<Rightarrow> Some (if i = 0 then (take 1 p, []) else (take i p, drop (i + 1) p)))"

definition find_slot :: "bytes \<Rightarrow> dir_cache list \<Rightarrow> nat option" where
  "find_slot dir cs = find (\<lambda>i. c_valid (cs ! i) \<and> c_path (cs ! i) = dir) [0 ..< length cs]"

definition stat_from_cache :: "int \<Rightarrow> bytes \<Rightarrow> dir_cache list \<Rightarrow> directory_entry option" where
  "stat_from_cache now path cs =
     (case split_parent path of
        None \<Rightarrow> None
      | Some (dir_path, file_name) \<Rightarrow>
          (case find_slot dir_path cs of
             None \<Rightarrow> None
           | Some i \<Rightarrow> if fresh now (cs ! i) then find (\<lambda>e. e_name e = file_name) (c_entries (cs ! i)) else None))"

definition invalidate_cache_parent :: "bytes \<Rightarrow> dir_cache list \<Rightarrow> dir_cache list" where
  "invalidate_cache_parent path cs =
     (case split_parent path of
        None \<Rightarrow> cs
      | Some (parent, _) \<Rightarrow>
          (case find_slot parent cs of None \<Rightarrow> cs | Some i \<Rightarrow> cs[i := (cs ! i)\<lparr>c_valid := False\<rparr>]))"

section \<open>Callbacks\<close>

datatype errno = ENAMETOOLONG | ENOENT | EIO | ENOTEMPTY | EISDIR | EINVAL

record stat =
  st_is_dir :: bool
  st_nlink :: nat
  st_size :: nat
  st_blocks :: nat
  st_mtime :: int

definition dir_stat :: "int \<Rightarrow> stat" where
  "dir_stat t = \<lparr>st_is_dir = True, st_nlink = 2, st_size = 4096, st_blocks = 8, st_mtime = t\<rparr>"

definition file_stat :: "nat \<Rightarrow> int \<Rightarrow> stat" where
  "file_stat n t = \<lparr>st_is_dir = False, st_nlink = 1, st_size = n, st_blocks = (n + 511) div 512, st_mtime = t\<rparr>"

definition stat_of :: "nat \<Rightarrow> bool \<Rightarrow> int \<Rightarrow> stat" where
  "stat_of n is_dir t = (if is_dir then dir_stat t else file_stat n t)"

definition fs_getattr ::
  "('s, 'a) env_scheme \<Rightarrow> bytes \<Rightarrow> 's fs \<Rightarrow> ((errno + stat) \<times> 's fs) option" where
  "fs_getattr env path f =
     (if length path \<ge> MAX_PATH then Some (Inl ENAMETOOLONG, f)
      else if path = [0x2f] then Some (Inr (dir_stat (e_now env)), f)
      else case stat_from_cache (e_now env) path (slots f) of
        Some e \<Rightarrow> Some (Inr (stat_of (e_size e) (e_is_dir e) (e_mtime e)), f)
      | None \<Rightarrow> do {
          (r, l) \<leftarrow> m65ftp_stat (e_io env) (e_vol env) (e_mktime env) (e_now env) path (ftp f);
          Some (case r of None \<Rightarrow> Inl ENOENT | Some (n, d, t) \<Rightarrow> Inr (stat_of (unat n) d t), f\<lparr>ftp := l\<rparr>) })"

text \<open>What \<open>filler\<close> is given for an entry of a listing: a directory keeps its own size here.\<close>

definition listing_stat :: "directory_entry \<Rightarrow> stat" where
  "listing_stat e = \<lparr>st_is_dir = e_is_dir e, st_nlink = (if e_is_dir e then 2 else 1), st_size = e_size e,
     st_blocks = (e_size e + 511) div 512, st_mtime = e_mtime e\<rparr>"

fun emit_entries ::
  "(bytes \<Rightarrow> stat \<Rightarrow> nat \<Rightarrow> 'x \<Rightarrow> bool \<times> 'x) \<Rightarrow> nat \<Rightarrow> nat \<Rightarrow> directory_entry list \<Rightarrow> 'x \<Rightarrow> 'x" where
  "emit_entries filler offset pos [] x = x"
| "emit_entries filler offset pos (e # es) x =
     (if pos \<ge> offset then
        (case filler (e_name e) (listing_stat e) (pos + 1) x of (full, x1) \<Rightarrow>
           if full then x1 else emit_entries filler offset (pos + 1) es x1)
      else emit_entries filler offset (pos + 1) es x)"

definition dot_stat :: stat where
  "dot_stat = \<lparr>st_is_dir = True, st_nlink = 2, st_size = 0, st_blocks = 0, st_mtime = 0\<rparr>"

definition fs_readdir ::
  "('s, 'a) env_scheme \<Rightarrow> bytes \<Rightarrow> nat \<Rightarrow> (bytes \<Rightarrow> stat \<Rightarrow> nat \<Rightarrow> 'x \<Rightarrow> bool \<times> 'x) \<Rightarrow> 'x \<Rightarrow> 's fs
     \<Rightarrow> ((errno + 'x) \<times> 's fs) option" where
  "fs_readdir env path offset filler x f =
     (if length path \<ge> MAX_PATH then Some (Inl ENAMETOOLONG, f)
      else
        let x1 = (if 0 \<ge> offset then snd (filler [0x2e] dot_stat 1 x) else x);
            x2 = (if 1 \<ge> offset then snd (filler [0x2e, 0x2e] dot_stat 2 x1) else x1)
        in do {
          (c, f1) \<leftarrow> refresh_cache_if_expired env path f;
          Some (Inr (emit_entries filler offset 2 (c_entries c) x2), f1)
        })"

text \<open>A call into the file layer that gives a descriptor.\<close>

definition fd_result :: "errno \<Rightarrow> nat option \<times> 's lib \<Rightarrow> 's fs \<Rightarrow> (errno + nat) \<times> 's fs" where
  "fd_result err r f = (case r of (None, l) \<Rightarrow> (Inl err, f\<lparr>ftp := l\<rparr>) | (Some fd, l) \<Rightarrow> (Inr fd, f\<lparr>ftp := l\<rparr>))"

definition fs_open ::
  "('s, 'a) env_scheme \<Rightarrow> bool \<Rightarrow> bytes \<Rightarrow> 's fs \<Rightarrow> ((errno + nat) \<times> 's fs) option" where
  "fs_open env writable path f =
     (if length path \<ge> MAX_PATH then Some (Inl ENAMETOOLONG, f)
      else do {
        r \<leftarrow> (if writable then m65ftp_open_writable (e_io env) (e_vol env) path (ftp f)
             else m65ftp_open (e_io env) (e_vol env) path (ftp f));
        Some (fd_result ENOENT r f)
      })"

definition invalidate :: "bytes \<Rightarrow> 's fs \<Rightarrow> 's fs" where
  "invalidate path f = f\<lparr>slots := invalidate_cache_parent path (slots f)\<rparr>"

definition fs_create ::
  "('s, 'a) env_scheme \<Rightarrow> bytes \<Rightarrow> 's fs \<Rightarrow> ((errno + nat) \<times> 's fs) option" where
  "fs_create env path f =
     (if length path \<ge> MAX_PATH then Some (Inl ENAMETOOLONG, f)
      else do {
        r \<leftarrow> m65ftp_create (e_io env) (e_vol env) (e_now_tm env) (e_answer env) path (ftp f);
        Some (case fd_result EIO r f of
                (Inr fd, f1) \<Rightarrow> (Inr fd, invalidate path f1) | (Inl e, f1) \<Rightarrow> (Inl e, f1))
      })"

definition fs_write ::
  "('s, 'a) env_scheme \<Rightarrow> nat \<Rightarrow> bytes \<Rightarrow> nat \<Rightarrow> 's fs \<Rightarrow> ((errno + nat) \<times> 's fs) option" where
  "fs_write env fd data offset f =
     do { r \<leftarrow> m65ftp_pwrite (e_io env) (e_vol env) fd data offset (ftp f); Some (fd_result EIO r f) }"

definition fs_read ::
  "('s, 'a) env_scheme \<Rightarrow> nat \<Rightarrow> nat \<Rightarrow> nat \<Rightarrow> 's fs \<Rightarrow> (errno + bytes) \<times> 's fs" where
  "fs_read env fd n offset f =
     (case m65ftp_pread (e_io env) (e_vol env) fd n offset (ftp f) of
        (None, l) \<Rightarrow> (Inl EIO, f\<lparr>ftp := l\<rparr>) | (Some data, l) \<Rightarrow> (Inr data, f\<lparr>ftp := l\<rparr>))"

definition fs_release :: "('s, 'a) env_scheme \<Rightarrow> nat \<Rightarrow> 's fs \<Rightarrow> 's fs option" where
  "fs_release env fd f = do { l \<leftarrow> m65ftp_close (e_io env) (e_vol env) fd (ftp f); Some (f\<lparr>ftp := l\<rparr>) }"

text \<open>A call that only succeeds or fails, and what follows its success.\<close>

definition ok_result :: "errno \<Rightarrow> ('s fs \<Rightarrow> 's fs) \<Rightarrow> bool \<times> 's lib \<Rightarrow> 's fs \<Rightarrow> (errno + unit) \<times> 's fs" where
  "ok_result err g r f = (case r of (ok, l) \<Rightarrow> if ok then (Inr (), g (f\<lparr>ftp := l\<rparr>)) else (Inl err, f\<lparr>ftp := l\<rparr>))"

definition fs_flush :: "('s, 'a) env_scheme \<Rightarrow> nat \<Rightarrow> 's fs \<Rightarrow> ((errno + unit) \<times> 's fs) option" where
  "fs_flush env fd f =
     do { r \<leftarrow> m65ftp_fsync (e_io env) (e_vol env) fd (ftp f); Some (ok_result EIO id r f) }"

definition fs_fsync :: "('s, 'a) env_scheme \<Rightarrow> nat \<Rightarrow> 's fs \<Rightarrow> ((errno + unit) \<times> 's fs) option" where
  "fs_fsync env fd f =
     do { r \<leftarrow> m65ftp_fsync (e_io env) (e_vol env) fd (ftp f); Some (ok_result EIO id r f) }"

definition fs_fsyncdir :: "('s, 'a) env_scheme \<Rightarrow> 's fs \<Rightarrow> (errno + unit) \<times> 's fs" where
  "fs_fsyncdir env f = ok_result EIO id (m65ftp_sync (e_io env) (ftp f)) f"

definition fs_access :: "('s, 'a) env_scheme \<Rightarrow> bytes \<Rightarrow> 's fs \<Rightarrow> ((errno + unit) \<times> 's fs) option" where
  "fs_access env path f =
     (if length path \<ge> MAX_PATH then Some (Inl ENAMETOOLONG, f)
      else do {
        (r, l) \<leftarrow> m65ftp_stat (e_io env) (e_vol env) (e_mktime env) (e_now env) path (ftp f);
        Some (ok_result ENOENT id (r \<noteq> None, l) f)
      })"

definition fs_truncate :: "('s, 'a) env_scheme \<Rightarrow> nat \<Rightarrow> int \<Rightarrow> 's fs \<Rightarrow> ((errno + unit) \<times> 's fs) option" where
  "fs_truncate env fd len f =
     do { r \<leftarrow> m65ftp_ftruncate (e_io env) (e_vol env) fd len (ftp f); Some (ok_result EIO id r f) }"

definition fs_utimens ::
  "('s, 'a) env_scheme \<Rightarrow> bytes \<Rightarrow> (utime \<times> utime) option \<Rightarrow> 's fs \<Rightarrow> ((errno + unit) \<times> 's fs) option" where
  "fs_utimens env path tv f =
     (if length path \<ge> MAX_PATH then Some (Inl ENAMETOOLONG, f)
      else do {
        r \<leftarrow> m65ftp_utimens (e_io env) (e_vol env) (e_localtime env) (e_now env) path tv (ftp f);
        Some (ok_result ENOENT id r f)
      })"

definition fs_mkdir :: "('s, 'a) env_scheme \<Rightarrow> bytes \<Rightarrow> 's fs \<Rightarrow> ((errno + unit) \<times> 's fs) option" where
  "fs_mkdir env path f =
     (if length path \<ge> MAX_PATH then Some (Inl ENAMETOOLONG, f)
      else do {
        r \<leftarrow> m65ftp_mkdir (e_io env) (e_vol env) (e_now_tm env) path (ftp f);
        Some (ok_result EIO (invalidate path) r f)
      })"

definition fs_rmdir :: "('s, 'a) env_scheme \<Rightarrow> bytes \<Rightarrow> 's fs \<Rightarrow> ((errno + unit) \<times> 's fs) option" where
  "fs_rmdir env path f =
     (if length path \<ge> MAX_PATH then Some (Inl ENAMETOOLONG, f)
      else do {
        r \<leftarrow> m65ftp_rmdir (e_io env) (e_vol env) (e_answer env) path (ftp f);
        Some (ok_result ENOTEMPTY (invalidate path) r f)
      })"

definition fs_unlink :: "('s, 'a) env_scheme \<Rightarrow> bytes \<Rightarrow> 's fs \<Rightarrow> ((errno + unit) \<times> 's fs) option" where
  "fs_unlink env path f =
     (if length path \<ge> MAX_PATH then Some (Inl ENAMETOOLONG, f)
      else do {
        r \<leftarrow> m65ftp_unlink (e_io env) (e_vol env) (e_answer env) path (ftp f);
        Some (ok_result EISDIR (invalidate path) r f)
      })"

definition fs_rename ::
  "('s, 'a) env_scheme \<Rightarrow> bytes \<Rightarrow> bytes \<Rightarrow> nat \<Rightarrow> 's fs \<Rightarrow> ((errno + unit) \<times> 's fs) option" where
  "fs_rename env from_path to_path flags f =
     (if flags \<noteq> 0 then Some (Inl EINVAL, f)
      else if from_path = to_path then Some (Inr (), f)
      else if length from_path \<ge> MAX_PATH \<or> length to_path \<ge> MAX_PATH then Some (Inl ENAMETOOLONG, f)
      else do {
        r \<leftarrow> m65ftp_rename (e_io env) (e_vol env) (e_now_tm env) from_path to_path (ftp f);
        Some (ok_result EIO (\<lambda>f. invalidate to_path (invalidate from_path f)) r f)
      })"

record statvfs =
  f_blocks :: nat
  f_bfree :: nat
  f_bavail :: nat

definition used_bytes :: "dir_cache list \<Rightarrow> nat" where
  "used_bytes cs = sum_list (map e_size (concat (map c_entries (filter c_valid cs))))"

definition fs_statfs :: "('s, 'a) env_scheme \<Rightarrow> 's fs \<Rightarrow> statvfs \<times> 's fs" where
  "fs_statfs env f =
     (case m65ftp_mbrinfo (e_io env) (ftp f) of (r, l) \<Rightarrow>
      let total_bytes = (case r of
             Some (n, p # ps) \<Rightarrow> if n > 0 then unat (sector_count p) * 512 else 13782993408
           | _ \<Rightarrow> 13782993408);
          total_blocks = total_bytes div 4096;
          used_blocks = (used_bytes (slots f) + 4095) div 4096;
          free_blocks = (if total_blocks > used_blocks then total_blocks - used_blocks else 0)
      in (\<lparr>f_blocks = total_blocks, f_bfree = free_blocks, f_bavail = free_blocks\<rparr>, f\<lparr>ftp := l\<rparr>))"

end
