(* ===== verification/Descriptors.thy ===== *)
theory Descriptors
  imports Lib
begin

text \<open>
  The descriptor table of the file layer (\<open>s_files\<close>, \<open>s_file_count\<close>, \<open>s_free_fds\<close> of
  \<open>src/m65ftp_lib.c\<close>): the contract of a descriptor pool, the operations that meet it, and the
  invariant of the table over every operation of the file layer.
\<close>

section \<open>Descriptor pools\<close>

text \<open>
  What the operations on files rely on: a descriptor handed out was not in use, one given back is
  free, and nothing else changes.
\<close>

locale descriptor_pool =
  fixes ok :: "'l \<Rightarrow> bool"
    and live :: "'l \<Rightarrow> nat \<Rightarrow> bool"
    and obtain_fd :: "'l \<Rightarrow> nat option \<times> 'l"
    and release_fd :: "nat \<Rightarrow> 'l \<Rightarrow> 'l"
    and capacity :: nat
  assumes obtain_Some: "ok l \<Longrightarrow> obtain_fd l = (Some fd, l') \<Longrightarrow> ok l' \<and> \<not> live l fd \<and> live l' = (live l)(fd := True)"
    and obtain_None: "ok l \<Longrightarrow> obtain_fd l = (None, l') \<Longrightarrow> l' = l \<and> (\<forall>fd < capacity. live l fd)"
    and release_live: "ok l \<Longrightarrow> live l fd \<Longrightarrow> ok (release_fd fd l) \<and> live (release_fd fd l) = (live l)(fd := False)"
    and live_bound: "ok l \<Longrightarrow> live l fd \<Longrightarrow> fd < capacity"
begin

lemma live_finite: "ok l \<Longrightarrow> finite {fd. live l fd}"
  by (rule finite_subset [of _ "{..< capacity}"]) (auto dest: live_bound)

lemma obtain_fails_iff: "ok l \<Longrightarrow> fst (obtain_fd l) = None \<longleftrightarrow> (\<forall>fd < capacity. live l fd)"
proof
  assume ok: "ok l" and all: "\<forall>fd < capacity. live l fd"
  show "fst (obtain_fd l) = None"
  proof (cases "fst (obtain_fd l)")
    case (Some fd)
    then have "obtain_fd l = (Some fd, snd (obtain_fd l))" by (simp add: prod_eq_iff)
    from obtain_Some [OF ok this] have new: "\<not> live l fd" "live (snd (obtain_fd l)) fd" "ok (snd (obtain_fd l))"
      by auto
    from live_bound [OF new(3,2)] all new(1) show ?thesis by blast
  qed
next
  assume "ok l" "fst (obtain_fd l) = None"
  then show "\<forall>fd < capacity. live l fd"
    using obtain_None [of l "snd (obtain_fd l)"] by (simp add: prod_eq_iff)
qed

lemma obtain_after_release: "ok l \<Longrightarrow> live l fd \<Longrightarrow> \<exists>fd' l'. obtain_fd (release_fd fd l) = (Some fd', l')"
proof -
  assume "ok l" "live l fd"
  then have "\<not> (\<forall>i < capacity. live (release_fd fd l) i)" "ok (release_fd fd l)"
    using release_live live_bound by auto
  then have "fst (obtain_fd (release_fd fd l)) \<noteq> None" by (simp add: obtain_fails_iff)
  then show ?thesis by (metis not_None_eq prod.collapse)
qed

lemma release_obtain_live:
  assumes "ok l" "live l fd" "obtain_fd (release_fd fd l) = (Some fd', l')"
  shows "{i. live l' i} = insert fd' ({i. live l i} - {fd})"
  using assms release_live [of l fd] obtain_Some [of "release_fd fd l" fd' l'] by auto

end

section \<open>The table of the file layer\<close>

text \<open>The free stack holds the descriptors of the table that are not in use, each once.\<close>

definition pool_ok :: "'s lib \<Rightarrow> bool" where
  "pool_ok l \<longleftrightarrow> distinct (free_fds l) \<and> length (files l) \<le> M65FTP_MAX_FILES
     \<and> (\<forall>fd. fd \<in> set (free_fds l) \<longleftrightarrow> fd < length (files l) \<and> \<not> in_use (files l ! fd))"

text \<open>A change that keeps the table: the stack, the number of files and every \<open>in_use\<close>.\<close>

definition same_pool :: "'s lib \<Rightarrow> 's lib \<Rightarrow> bool" where
  "same_pool l l' \<longleftrightarrow> free_fds l' = free_fds l \<and> map in_use (files l') = map in_use (files l)"

lemma same_pool_refl [simp]: "same_pool l l"
  by (simp add: same_pool_def)

lemma same_pool_length: "same_pool l l' \<Longrightarrow> length (files l') = length (files l)"
  by (auto simp: same_pool_def dest: map_eq_imp_length_eq)

lemma same_pool_in_use: "same_pool l l' \<Longrightarrow> fd < length (files l) \<Longrightarrow> in_use (files l' ! fd) = in_use (files l ! fd)"
proof -
  assume same: "same_pool l l'" and fd: "fd < length (files l)"
  then have "map in_use (files l') ! fd = map in_use (files l) ! fd" by (simp add: same_pool_def)
  with fd same_pool_length [OF same] show ?thesis by simp
qed

lemma same_pool_ok: "same_pool l l' \<Longrightarrow> pool_ok l' \<longleftrightarrow> pool_ok l"
  using same_pool_length [of l l'] same_pool_in_use [of l l'] by (auto simp: pool_ok_def same_pool_def)

lemma same_pool_valid: "same_pool l l' \<Longrightarrow> valid_fd l' = valid_fd l"
  using same_pool_length [of l l'] same_pool_in_use [of l l'] by (auto simp: valid_fd_def fun_eq_iff)

lemma same_pool_dirs [simp]: "same_pool l (l'\<lparr>dirs := d\<rparr>) = same_pool l l'" "same_pool (l\<lparr>dirs := d\<rparr>) l' = same_pool l l'"
  by (simp_all add: same_pool_def)

lemma same_pool_set_store [simp]: "same_pool l (set_store s l') = same_pool l l'"
  by (simp add: set_store_def)

lemma set_store_simps [simp]:
  "free_fds (set_store s l) = free_fds l" "files (set_store s l) = files l"
  "initialized (set_store s l) = initialized l" "dirs (set_store s l) = (dirs l)\<lparr>store := s\<rparr>"
  by (simp_all add: set_store_def)

lemma set_file_simps [simp]:
  "free_fds (set_file fd fi l) = free_fds l" "files (set_file fd fi l) = (files l)[fd := fi]"
  "initialized (set_file fd fi l) = initialized l" "dirs (set_file fd fi l) = dirs l"
  by (simp_all add: set_file_def)

lemma same_pool_set_file: "in_use fi = in_use (files l ! fd) \<Longrightarrow> same_pool l (set_file fd fi l)"
  by (cases "fd < length (files l)")
    (simp_all add: same_pool_def set_file_def map_update list_update_same_conv list_update_beyond)

lemma pool_free_length: "pool_ok l \<Longrightarrow> valid_fd l fd \<Longrightarrow> length (free_fds l) < M65FTP_MAX_FILES"
proof -
  assume "pool_ok l" "valid_fd l fd"
  then have "distinct (fd # free_fds l)" "set (fd # free_fds l) \<subseteq> {..< length (files l)}" "length (files l) \<le> M65FTP_MAX_FILES"
    by (auto simp: pool_ok_def valid_fd_def)
  then have "length (fd # free_fds l) \<le> length (files l)"
    using card_mono [of "{..< length (files l)}" "set (fd # free_fds l)"] by (simp only: distinct_card) simp
  with \<open>length (files l) \<le> M65FTP_MAX_FILES\<close> show ?thesis by simp
qed

lemma release_file_ok:
  assumes "pool_ok l" "valid_fd l fd"
  shows "pool_ok (release_file fd fi l)" "valid_fd (release_file fd fi l) = (valid_fd l)(fd := False)"
    "free_fds (release_file fd fi l) = fd # free_fds l"
  using assms pool_free_length [OF assms]
  by (auto simp: pool_ok_def release_file_def valid_fd_def nth_list_update fun_eq_iff)

lemma install_file_Some:
  assumes "pool_ok l" "install_file f l = (Some fd, l')" "\<And>fi. in_use (f fi)"
  shows "pool_ok l'" "\<not> valid_fd l fd" "valid_fd l' = (valid_fd l)(fd := True)"
    "\<forall>i. valid_fd l i \<longrightarrow> files l' ! i = files l ! i" "\<exists>fi. files l' ! fd = f fi"
proof -
  have "pool_ok l' \<and> \<not> valid_fd l fd \<and> valid_fd l' = (valid_fd l)(fd := True)
      \<and> (\<forall>i. valid_fd l i \<longrightarrow> files l' ! i = files l ! i) \<and> (\<exists>fi. files l' ! fd = f fi)"
  proof (cases "free_fds l")
    case Nil
    with assms show ?thesis
      by (auto simp: install_file_def alloc_fd_def pool_ok_def valid_fd_def nth_list_update nth_append less_Suc_eq fun_eq_iff
          split: if_splits)
  next
    case (Cons i rest)
    with assms(1,2) have eq: "fd = i" "l' = set_file i (f (files l ! i)) (l\<lparr>free_fds := rest\<rparr>)"
      and i: "i < length (files l)" "\<not> in_use (files l ! i)"
      by (auto simp: install_file_def alloc_fd_def pool_ok_def)
    moreover have "fd' \<in> set rest \<longleftrightarrow> fd' \<noteq> i \<and> fd' < length (files l) \<and> \<not> in_use (files l ! fd')" for fd'
      using assms(1) Cons unfolding pool_ok_def by (metis distinct.simps(2) set_ConsD list.set_intros(1,2))
    then have "pool_ok l'"
      using assms(1) Cons assms(3) eq by (auto simp: pool_ok_def nth_list_update)
    ultimately show ?thesis using assms(3) by (auto simp: valid_fd_def nth_list_update fun_eq_iff)
  qed
  then show "pool_ok l'" "\<not> valid_fd l fd" "valid_fd l' = (valid_fd l)(fd := True)"
    "\<forall>i. valid_fd l i \<longrightarrow> files l' ! i = files l ! i" "\<exists>fi. files l' ! fd = f fi" by auto
qed

lemma install_file_None:
  assumes "pool_ok l" "install_file f l = (None, l')"
  shows "l' = l" "\<forall>fd < M65FTP_MAX_FILES. valid_fd l fd"
  using assms by (auto simp: install_file_def alloc_fd_def pool_ok_def valid_fd_def split: list.splits if_splits)

lemma install_file_ok: "pool_ok l \<Longrightarrow> (\<And>fi. in_use (f fi)) \<Longrightarrow> install_file f l = (r, l') \<Longrightarrow> pool_ok l'"
  using install_file_Some(1) [of l f _ l'] install_file_None(1) [of l f l'] by (cases r) auto

lemma valid_fd_less: "pool_ok l \<Longrightarrow> valid_fd l fd \<Longrightarrow> fd < M65FTP_MAX_FILES"
  by (simp add: pool_ok_def valid_fd_def)

lemma opened_in_use [simp]:
  "in_use (file_of_dirent de fi)" "in_use (writable_of_dirent de d fi)" "in_use (created_file d fi)"
  by (simp_all add: file_of_dirent_def writable_of_dirent_def created_file_def)

interpretation fds: descriptor_pool pool_ok valid_fd "install_file (file_of_dirent de)" "\<lambda>fd. release_file fd fi" M65FTP_MAX_FILES
  by unfold_locales
    (simp_all add: install_file_Some install_file_None release_file_ok valid_fd_less)

section \<open>Operations on an open file keep the table\<close>

lemma set_entry_frame [simp]:
  "in_use (set_entry_file_size sz fi) = in_use fi" "in_use (set_entry_first_cluster c fi) = in_use fi"
  "file_size (set_entry_file_size sz fi) = file_size fi" "file_size (set_entry_first_cluster c fi) = file_size fi"
  "buffered (set_entry_file_size sz fi) = buffered fi" "buffered (set_entry_first_cluster c fi) = buffered fi"
  "is_writable (set_entry_file_size sz fi) = is_writable fi" "is_writable (set_entry_first_cluster c fi) = is_writable fi"
  "fi_dir_sector (set_entry_file_size sz fi) = fi_dir_sector fi"
  "fi_dir_sector (set_entry_first_cluster c fi) = fi_dir_sector fi"
  "fi_dir_sector_offset (set_entry_file_size sz fi) = fi_dir_sector_offset fi"
  "fi_dir_sector_offset (set_entry_first_cluster c fi) = fi_dir_sector_offset fi"
  by (simp_all add: set_entry_file_size_def set_entry_first_cluster_def Let_def)

lemma flush_write_buffer_in_use: "flush_write_buffer io v fi s = Some (r, fi', s') \<Longrightarrow> in_use fi' = in_use fi"
  by (auto simp: flush_write_buffer_def Let_def bind_eq_Some_conv split: if_splits prod.splits bool.splits)

lemma direct_write_in_use: "direct_write io v data offset fi s = Some (r, fi', s') \<Longrightarrow> in_use fi' = in_use fi"
  by (auto simp: direct_write_def Let_def bind_eq_Some_conv split: if_splits prod.splits)

lemma write_entry_in_use:
  "write_entry io v f fi s = (fi', s') \<Longrightarrow> (\<And>x. in_use (f x) = in_use x) \<Longrightarrow> in_use fi' = in_use fi"
  by (auto simp: write_entry_def split: if_splits)

lemma truncate_buffered_in_use: "truncate_buffered io v len fi s = (fi', s') \<Longrightarrow> in_use fi' = in_use fi"
  by (auto simp: truncate_buffered_def empty_file_def write_entry_def split: if_splits)

lemma resize_chain_in_use: "resize_chain io v needed n len fi s = Some (r, fi', s') \<Longrightarrow> in_use fi' = in_use fi"
proof (cases "needed > n")
  case True
  moreover assume "resize_chain io v needed n len fi s = Some (r, fi', s')"
  ultimately obtain a s1 where "Some (case a of None \<Rightarrow> (None, fi, s1)
      | Some start \<Rightarrow> (Some start, if has_entry fi then set_entry_first_cluster start fi else fi, s1)) = Some (r, fi', s')"
    by (auto simp: resize_chain_def bind_eq_Some_conv)
  then show ?thesis by (cases a) (auto split: if_splits)
qed (auto simp: resize_chain_def bind_eq_Some_conv split: if_splits)

lemma write_entry_fst_in_use [simp]:
  "(\<And>x. in_use (f x) = in_use x) \<Longrightarrow> in_use (fst (write_entry io v f fi s)) = in_use fi"
  by (simp add: write_entry_def)

lemma truncate_direct_in_use: "truncate_direct io v len fi s = Some (r, fi', s') \<Longrightarrow> in_use fi' = in_use fi"
  by (auto simp: truncate_direct_def Let_def empty_file_def case_prod_beta bind_eq_Some_conv
      split: if_splits option.splits dest!: resize_chain_in_use)

lemma pread_same_pool: "m65ftp_pread io v fd n off l = (r, l') \<Longrightarrow> same_pool l l'"
  by (auto simp: m65ftp_pread_def Let_def split: if_splits prod.splits intro!: same_pool_set_file)

lemma pwrite_same_pool: "m65ftp_pwrite io v fd data off l = Some (r, l') \<Longrightarrow> same_pool l l'"
  by (auto simp: m65ftp_pwrite_def Let_def bind_eq_Some_conv buffered_write_def split: if_splits prod.splits
      intro!: same_pool_set_file dest!: direct_write_in_use flush_write_buffer_in_use)

lemma ftruncate_same_pool: "m65ftp_ftruncate io v fd len l = Some (r, l') \<Longrightarrow> same_pool l l'"
  by (auto simp: m65ftp_ftruncate_def Let_def bind_eq_Some_conv split: if_splits prod.splits
      intro!: same_pool_set_file dest!: truncate_direct_in_use truncate_buffered_in_use)

lemma fsync_same_pool: "m65ftp_fsync io v fd l = Some (r, l') \<Longrightarrow> same_pool l l'"
  by (auto simp: m65ftp_fsync_def Let_def bind_eq_Some_conv split: if_splits prod.splits
      intro!: same_pool_set_file dest!: flush_write_buffer_in_use)

text \<open>The operations on paths change only the directory state.\<close>

lemma path_same_pool:
  "m65ftp_mbrinfo io l = (r1, l') \<Longrightarrow> same_pool l l'"
  "m65ftp_sync io l = (r2, l') \<Longrightarrow> same_pool l l'"
  "m65ftp_stat io v mktime now path l = Some (r3, l') \<Longrightarrow> same_pool l l'"
  "m65ftp_readdir io v mktime path cb x l = Some (r4, l') \<Longrightarrow> same_pool l l'"
  "m65ftp_utimens io v localtime now path tv l = Some (r5, l') \<Longrightarrow> same_pool l l'"
  "m65ftp_mkdir io v nowtm path l = Some (r6, l') \<Longrightarrow> same_pool l l'"
  "m65ftp_rmdir io v answer path l = Some (r7, l') \<Longrightarrow> same_pool l l'"
  "m65ftp_unlink io v answer path l = Some (r8, l') \<Longrightarrow> same_pool l l'"
  "m65ftp_rename io v nowtm path newpath l = Some (r9, l') \<Longrightarrow> same_pool l l'"
  by (auto simp: m65ftp_mbrinfo_def m65ftp_sync_def m65ftp_stat_def m65ftp_readdir_def m65ftp_utimens_def
      m65ftp_mkdir_def m65ftp_rmdir_def m65ftp_unlink_def m65ftp_rename_def Let_def bind_eq_Some_conv
      split: if_splits prod.splits option.splits)

text \<open>Opening and creating: the one function that installs the descriptor decides.\<close>

lemma open_installs:
  "m65ftp_open io v path l = Some (r, l') \<Longrightarrow>
     (r = None \<and> same_pool l l') \<or> (\<exists>de d. install_file (file_of_dirent de) (l\<lparr>dirs := d\<rparr>) = (r, l'))"
  "m65ftp_open_writable io v path l = Some (r, l') \<Longrightarrow>
     (r = None \<and> same_pool l l') \<or> (\<exists>de d. install_file (writable_of_dirent de d) (l\<lparr>dirs := d\<rparr>) = (r, l'))"
  "m65ftp_create io v now answer path l = Some (r, l') \<Longrightarrow>
     (r = None \<and> same_pool l l') \<or> (\<exists>d. install_file (created_file d) (l\<lparr>dirs := d\<rparr>) = (r, l'))"
  by (auto simp: m65ftp_open_def m65ftp_open_writable_def m65ftp_create_def Let_def bind_eq_Some_conv
      split: if_splits prod.splits option.splits)

lemma pool_ok_dirs [simp]: "pool_ok (l\<lparr>dirs := d\<rparr>) = pool_ok l" "valid_fd (l\<lparr>dirs := d\<rparr>) = valid_fd l"
  by (simp_all add: pool_ok_def valid_fd_def fun_eq_iff)

lemma pool_ok_set_store [simp]: "pool_ok (set_store s l) = pool_ok l" "valid_fd (set_store s l) = valid_fd l"
  by (simp_all add: set_store_def)

lemma close_result:
  "m65ftp_close io v fd l = Some l' \<Longrightarrow> valid_fd l fd \<Longrightarrow> \<exists>fi s. l' = release_file fd fi (set_store s l)"
  by (auto simp: m65ftp_close_def Let_def bind_eq_Some_conv split: if_splits)

section \<open>Reachable states of the file layer\<close>

text \<open>
  One rule per function of \<open>m65ftp_lib.h\<close>; a call that does not return makes no
  step.  \<open>ctx\<close> names the type of what the callback of \<open>m65ftp_readdir\<close> accumulates.\<close>

inductive lib_step :: "'x itself \<Rightarrow> 's sector_io \<Rightarrow> vol \<Rightarrow> 's lib \<Rightarrow> 's lib \<Rightarrow> bool" for ctx io v where
  mbrinfo: "m65ftp_mbrinfo io l = (r, l') \<Longrightarrow> lib_step ctx io v l l'"
| openr: "m65ftp_open io v path l = Some (r, l') \<Longrightarrow> lib_step ctx io v l l'"
| openw: "m65ftp_open_writable io v path l = Some (r, l') \<Longrightarrow> lib_step ctx io v l l'"
| create: "m65ftp_create io v now answer path l = Some (r, l') \<Longrightarrow> lib_step ctx io v l l'"
| close: "m65ftp_close io v fd l = Some l' \<Longrightarrow> lib_step ctx io v l l'"
| pread: "m65ftp_pread io v fd n off l = (r, l') \<Longrightarrow> lib_step ctx io v l l'"
| pwrite: "m65ftp_pwrite io v fd data off l = Some (r, l') \<Longrightarrow> lib_step ctx io v l l'"
| ftruncate: "m65ftp_ftruncate io v fd len l = Some (r, l') \<Longrightarrow> lib_step ctx io v l l'"
| fsync: "m65ftp_fsync io v fd l = Some (r, l') \<Longrightarrow> lib_step ctx io v l l'"
| sync: "m65ftp_sync io l = (r, l') \<Longrightarrow> lib_step ctx io v l l'"
| stat: "m65ftp_stat io v mktime t path l = Some (r, l') \<Longrightarrow> lib_step ctx io v l l'"
| readdir: "m65ftp_readdir io v mktime path (cb :: bytes \<Rightarrow> u32 \<Rightarrow> bool \<Rightarrow> int \<Rightarrow> 'x \<Rightarrow> bool \<times> 'x) x l = Some (r, l') \<Longrightarrow> lib_step ctx io v l l'"
| utimens: "m65ftp_utimens io v localtime t path tv l = Some (r, l') \<Longrightarrow> lib_step ctx io v l l'"
| mkdir: "m65ftp_mkdir io v now path l = Some (r, l') \<Longrightarrow> lib_step ctx io v l l'"
| rmdir: "m65ftp_rmdir io v answer path l = Some (r, l') \<Longrightarrow> lib_step ctx io v l l'"
| unlink: "m65ftp_unlink io v answer path l = Some (r, l') \<Longrightarrow> lib_step ctx io v l l'"
| rename: "m65ftp_rename io v now path path' l = Some (r, l') \<Longrightarrow> lib_step ctx io v l l'"

lemmas lib_same_pool =
  pread_same_pool pwrite_same_pool ftruncate_same_pool fsync_same_pool path_same_pool

lemma install_opened_ok:
  "pool_ok l \<Longrightarrow> install_file (file_of_dirent de) (l\<lparr>dirs := d\<rparr>) = (r, l') \<Longrightarrow> pool_ok l'"
  "pool_ok l \<Longrightarrow> install_file (writable_of_dirent de d') (l\<lparr>dirs := d\<rparr>) = (r, l') \<Longrightarrow> pool_ok l'"
  "pool_ok l \<Longrightarrow> install_file (created_file d') (l\<lparr>dirs := d\<rparr>) = (r, l') \<Longrightarrow> pool_ok l'"
  by (erule install_file_ok [where l = "l\<lparr>dirs := d\<rparr>", rotated 2]; simp)+

lemma open_pool_ok:
  "m65ftp_open io v path l = Some (r, l') \<Longrightarrow> pool_ok l \<Longrightarrow> pool_ok l'"
  "m65ftp_open_writable io v path l = Some (r, l') \<Longrightarrow> pool_ok l \<Longrightarrow> pool_ok l'"
  "m65ftp_create io v now answer path l = Some (r, l') \<Longrightarrow> pool_ok l \<Longrightarrow> pool_ok l'"
  using install_opened_ok [of l] by (auto simp: same_pool_ok dest!: open_installs)

lemma close_pool_ok: "m65ftp_close io v fd l = Some l' \<Longrightarrow> pool_ok l \<Longrightarrow> pool_ok l'"
proof (cases "valid_fd l fd")
  case True
  moreover assume "m65ftp_close io v fd l = Some l'" "pool_ok l"
  ultimately show ?thesis
    using close_result [of io v fd l l'] release_file_ok(1) [of "set_store _ l" fd] by auto
qed (simp add: m65ftp_close_def)

lemma lib_step_pool_ok: "lib_step ctx io v l l' \<Longrightarrow> pool_ok l \<Longrightarrow> pool_ok l'"
  by (induction rule: lib_step.induct)
    (auto intro: open_pool_ok close_pool_ok dest: lib_same_pool simp: same_pool_ok)

text \<open>The state \<open>m65ftp_init\<close> leaves.\<close>

definition lib_start :: "'s dir_state \<Rightarrow> 's lib" where
  "lib_start d = \<lparr>dirs = d, initialized = True, files = [], free_fds = []\<rparr>"

lemma lib_start_pool_ok: "pool_ok (lib_start d)"
  by (simp add: pool_ok_def lib_start_def)

section \<open>A sample volume\<close>

text \<open>
  A root directory of one cluster, which is cluster 2 at sector 34 of the partition of
  \<open>small_vol\<close>, with a file \<open>A\<close> of 3 bytes in cluster 3.
\<close>

definition sample_root :: sector where
  "sample_root = [0x41] @ replicate 10 0x20 @ [0x20] @ replicate 14 0 @ [3, 0, 3, 0, 0, 0] @ replicate 480 0"

definition sample_fat :: sector where
  "sample_fat = concat [[0xf8, 0xff, 0xff, 0x0f], [0xff, 0xff, 0xff, 0x0f], [0xf8, 0xff, 0xff, 0x0f], [0xf8, 0xff, 0xff, 0x0f]]
     @ replicate 496 0"

definition sample_disk :: "u32 \<Rightarrow> sector" where
  "sample_disk = mem_of [(2048 + 32, sample_fat), (2048 + 33, sample_fat), (2048 + 34, sample_root),
     (2048 + 42, [0x31, 0x32, 0x33] @ replicate 509 0)]"

definition sample_dirs :: "(u32 \<Rightarrow> sector) dir_state" where
  "sample_dirs = \<lparr>store = sample_disk, current_dir = [0x2f], dir_cluster = 2, dir_sector = 34,
     dir_sector_in_cluster = 0, dir_sector_offset = - 32, dir_sector_buffer = replicate 512 0, vfatEntry = False,
     vfat_entry_count = 0, vfat_dir_cluster = 0, vfat_dir_sector = 0, vfat_dir_sector_in_cluster = 0,
     vfat_dir_sector_offset = 0\<rparr>"

definition sample_open :: "(nat option \<times> (u32 \<Rightarrow> sector) lib) option" where
  "sample_open = m65ftp_open_writable mem_io small_vol [0x2f, 0x41] (lib_start sample_dirs)"

lemma sample_open_fd: "map_option fst sample_open = Some (Some 0)"
  by code_simp

lemma sample_open_eq: "sample_open = Some (Some 0, snd (the sample_open))"
proof -
  obtain p where p: "sample_open = Some p" using sample_open_fd by (cases sample_open) auto
  from sample_open_fd have "fst p = Some 0" by (simp only: p option.map option.inject)
  then show ?thesis by (simp only: p option.sel) (simp add: prod_eq_iff)
qed

section \<open>Properties\<close>

text \<open>
  C19: the descriptor table is never corrupted.  In every state the file layer can reach from its
  start, through any sequence of calls, the free stack holds each unused descriptor exactly once
  and no descriptor in use, and the table never exceeds \<open>M65FTP_MAX_FILES\<close>.
\<close>
theorem descriptor_table_invariant:
  assumes "(lib_step ctx io v)\<^sup>*\<^sup>* (lib_start d) l"
  shows "distinct (free_fds l) \<and> length (files l) \<le> M65FTP_MAX_FILES
     \<and> (\<forall>fd. fd \<in> set (free_fds l) \<longleftrightarrow> fd < length (files l) \<and> \<not> in_use (files l ! fd))"
  using assms
proof (induction rule: rtranclp_induct)
  case base
  show ?case using lib_start_pool_ok by (simp add: pool_ok_def)
next
  case (step l l')
  then show ?case using lib_step_pool_ok [of ctx io v l l'] by (simp add: pool_ok_def)
qed

theorem descriptor_table_invariant_witness:
  "distinct (free_fds (snd (the sample_open))) \<and> length (files (snd (the sample_open))) \<le> M65FTP_MAX_FILES"
proof -
  have "lib_step TYPE(unit) mem_io small_vol (lib_start sample_dirs) (snd (the sample_open))"
    using sample_open_eq by (intro lib_step.openw) (simp add: sample_open_def)
  from descriptor_table_invariant [where ctx = "TYPE(unit)", OF r_into_rtranclp [where r = "lib_step TYPE(unit) mem_io small_vol", OF this]] show ?thesis by simp
qed

text \<open>
  C20: a descriptor that \<open>m65ftp_open\<close>, \<open>m65ftp_open_writable\<close> or \<open>m65ftp_create\<close> returns was not
  in use, is in use afterwards, lies within the table, and no other open file is touched.
\<close>
theorem open_gives_fresh_descriptor:
  assumes "pool_ok l"
    and "m65ftp_open io v path l = Some (Some fd, l') \<or> m65ftp_open_writable io v path l = Some (Some fd, l')
      \<or> m65ftp_create io v now answer path l = Some (Some fd, l')"
  shows "\<not> valid_fd l fd \<and> valid_fd l' fd \<and> fd < M65FTP_MAX_FILES \<and> pool_ok l'
     \<and> (\<forall>i. valid_fd l i \<longrightarrow> valid_fd l' i \<and> files l' ! i = files l ! i)"
proof -
  obtain f d where f: "install_file f (l\<lparr>dirs := d\<rparr>) = (Some fd, l')" "\<And>fi. in_use (f fi)"
    using assms(2) by (auto dest!: open_installs)
  have "pool_ok (l\<lparr>dirs := d\<rparr>)" using assms(1) by simp
  note new = install_file_Some [OF this f(1) f(2)]
  then show ?thesis using valid_fd_less [of l' fd] by auto
qed

theorem open_gives_fresh_descriptor_witness:
  "valid_fd (snd (the sample_open)) 0 \<and> \<not> valid_fd (lib_start sample_dirs) 0"
  using open_gives_fresh_descriptor [OF lib_start_pool_ok, of mem_io small_vol "[0x2f, 0x41]" sample_dirs 0
      "snd (the sample_open)"] sample_open_eq by (auto simp: sample_open_def)

text \<open>
  Closing frees exactly one descriptor.  After \<open>m65ftp_close\<close> the descriptor is free, the table
  is intact, every other open file is as before, and the next file opened gets the descriptor back.
\<close>
lemma close_frees_descriptor:
  assumes "pool_ok l" "valid_fd l fd" "m65ftp_close io v fd l = Some l'"
  shows "valid_fd l' = (valid_fd l)(fd := False) \<and> pool_ok l'
     \<and> (\<forall>i. i \<noteq> fd \<longrightarrow> i < length (files l) \<longrightarrow> files l' ! i = files l ! i) \<and> fst (alloc_fd l') = Some fd"
proof -
  obtain fi s where l': "l' = release_file fd fi (set_store s l)"
    using close_result [OF assms(3,2)] by blast
  have "pool_ok (set_store s l)" "valid_fd (set_store s l) fd" using assms by simp_all
  note freed = release_file_ok [OF this, of fi]
  moreover have "\<forall>i. i \<noteq> fd \<longrightarrow> i < length (files l) \<longrightarrow> files l' ! i = files l ! i"
    by (simp add: l' release_file_def Let_def)
  ultimately show ?thesis by (simp add: l' alloc_fd_def)
qed

definition sample_close :: "(u32 \<Rightarrow> sector) lib option" where
  "sample_close = m65ftp_close mem_io small_vol 0 (snd (the sample_open))"

lemma sample_close_returns: "sample_close \<noteq> None"
  by code_simp

end
