(* ===== verification/FuseState.thy ===== *)
theory FuseState
  imports FsCache Descriptors
begin

text \<open>
  The reachable states of the FUSE program (\<open>src/mega65fs.c\<close>): the directory cache stays
  well-formed, every callback is a sequence of calls of the file layer, and what a lookup in the
  cache says about the listing that was stored.
\<close>

section \<open>What a listing may contain\<close>

definition listed_ok :: "directory_entry \<Rightarrow> bool" where
  "listed_ok e \<longleftrightarrow> e_name e \<noteq> [] \<and> length (e_name e) < ENTRY_NAME_MAX \<and> e_name e \<noteq> [0x2e] \<and> e_name e \<noteq> [0x2e, 0x2e]
     \<and> e_size e < 2 ^ 32"

definition listing_ok :: "directory_entry list \<Rightarrow> bool" where
  "listing_ok es \<longleftrightarrow> length es \<le> MAX_ENTRIES \<and> (\<forall>e \<in> set es. listed_ok e)"

definition slot_ok :: "dir_cache \<Rightarrow> bool" where
  "slot_ok c \<longleftrightarrow> length (c_path c) < MAX_PATH \<and> listing_ok (c_entries c)"

definition cache_ok :: "dir_cache list \<Rightarrow> bool" where
  "cache_ok cs \<longleftrightarrow> length cs = MAX_CACHED_DIRS \<and> (\<forall>c \<in> set cs. slot_ok c)"

lemma cache_ok_update: "cache_ok cs \<Longrightarrow> slot_ok c \<Longrightarrow> cache_ok (cs[i := c])"
  by (auto simp: cache_ok_def dest!: set_update_subset_insert [THEN subsetD])

lemma listing_ok_Nil [simp]: "listing_ok []"
  by (simp add: listing_ok_def)

section \<open>The cache as an interface\<close>

text \<open>
  What the callbacks rely on: a listing just stored is found again until it is too old, whatever
  else the cache holds, and dropping or storing keeps the cache well-formed.
\<close>

locale listing_cache =
  fixes ok :: "'c \<Rightarrow> bool"
    and lookup :: "int \<Rightarrow> bytes \<Rightarrow> 'c \<Rightarrow> directory_entry list option"
    and put :: "int \<Rightarrow> bytes \<Rightarrow> directory_entry list \<Rightarrow> 'c \<Rightarrow> 'c"
    and drop_parent :: "bytes \<Rightarrow> 'c \<Rightarrow> 'c"
    and key :: "bytes \<Rightarrow> bool"
  assumes put_ok: "ok c \<Longrightarrow> listing_ok es \<Longrightarrow> ok (put now p es c)"
    and drop_ok: "ok c \<Longrightarrow> ok (drop_parent p c)"
    and lookup_ok: "ok c \<Longrightarrow> lookup t p c = Some es \<Longrightarrow> listing_ok es"
    and lookup_put: "ok c \<Longrightarrow> key p \<Longrightarrow> t - now < CACHE_TTL_SECONDS \<Longrightarrow> lookup t p (put now p es c) = Some es"
begin

text \<open>An entry found by name in a listing that was just stored is the first one of that name.\<close>

lemma found_after_put:
  "ok c \<Longrightarrow> key p \<Longrightarrow> t - now < CACHE_TTL_SECONDS \<Longrightarrow>
    Option.bind (lookup t p (put now p es c)) (find P) = find P es"
  by (simp add: lookup_put)

lemma found_ok: "ok c \<Longrightarrow> Option.bind (lookup t p c) (find P) = Some e \<Longrightarrow> listed_ok e \<and> P e"
  using lookup_ok [of c t p] by (auto simp: bind_eq_Some_conv find_Some_iff listing_ok_def)

lemma drops_ok: "ok c \<Longrightarrow> ok (fold drop_parent ps c)"
  by (induction ps arbitrary: c) (simp_all add: drop_ok)

end

definition cached_listing :: "int \<Rightarrow> bytes \<Rightarrow> dir_cache list \<Rightarrow> directory_entry list option" where
  "cached_listing now dir cs =
     (case find_slot dir cs of None \<Rightarrow> None | Some i \<Rightarrow> if fresh now (cs ! i) then Some (c_entries (cs ! i)) else None)"

text \<open>\<open>get_cache_slot\<close>: everything before the chosen slot is valid and of another path.\<close>

lemma slot_scan_cases:
  assumes "\<forall>j < i. c_valid (all ! j) \<and> c_path (all ! j) \<noteq> path" "cs = drop i all" "i \<le> length all"
    and "oldest < length all"
  shows "slot_scan path cs i oldest t < length all
    \<and> (\<forall>j < slot_scan path cs i oldest t. c_valid (all ! j) \<and> c_path (all ! j) \<noteq> path)"
  using assms
proof (induction cs arbitrary: i oldest t)
  case Nil
  then show ?case by simp
next
  case (Cons c cs)
  have i: "i < length all"
  proof (rule ccontr)
    assume "\<not> i < length all"
    then show False using Cons.prems(2,3) by simp
  qed
  have c: "all ! i = c" "cs = drop (Suc i) all"
    using Cons.prems(2) unfolding Cons_nth_drop_Suc [OF i, symmetric] by simp_all
  show ?case
  proof (cases "c_valid c \<and> c_path c \<noteq> path")
    case True
    then have "\<forall>j < Suc i. c_valid (all ! j) \<and> c_path (all ! j) \<noteq> path" using Cons.prems(1) c(1) by (simp add: less_Suc_eq)
    from Cons.IH [OF this c(2)] True i Cons.prems(4) show ?thesis by simp
  next
    case False
    then have "slot_scan path (c # cs) i oldest t = i" by auto
    then show ?thesis using Cons.prems(1) i by simp
  qed
qed

lemma get_cache_slot_first:
  assumes "cs \<noteq> []"
  shows "get_cache_slot now path cs < length cs"
    "j < get_cache_slot now path cs \<Longrightarrow> c_valid (cs ! j) \<and> c_path (cs ! j) \<noteq> path"
  using slot_scan_cases [of 0 cs path cs 0 "now + 1"] assms unfolding get_cache_slot_def by simp_all

lemma find_slot_store:
  assumes "cs \<noteq> []" "length path < MAX_PATH"
  shows "find_slot path (store_listing now path es cs) = Some (get_cache_slot now path cs)"
  using get_cache_slot_first [OF assms(1)] assms(2)
  by (simp add: find_slot_def find_upt_Some store_listing_def)

lemma slot_ok_find: "cache_ok cs \<Longrightarrow> find_slot p cs = Some i \<Longrightarrow> i < length cs \<and> slot_ok (cs ! i)"
  by (auto simp: find_slot_def find_upt_Some cache_ok_def)

interpretation dircache: listing_cache cache_ok cached_listing store_listing invalidate_cache_parent "\<lambda>p. length p < MAX_PATH"
proof (unfold_locales, goal_cases)
  case (1 c es now p)
  then show ?case unfolding store_listing_def
    by (intro cache_ok_update) (simp_all add: slot_ok_def MAX_PATH_def)
next
  case (2 c p)
  then show ?case
    by (auto simp: invalidate_cache_parent_def slot_ok_def dest: slot_ok_find split: option.splits intro!: cache_ok_update)
next
  case (3 c t p es)
  then show ?case by (auto simp: cached_listing_def slot_ok_def dest: slot_ok_find split: option.splits if_splits)
next
  case (4 c p t now es)
  then have c: "c \<noteq> []" by (auto simp: cache_ok_def MAX_CACHED_DIRS_def)
  then show ?case
    using get_cache_slot_first(1) [OF c] 4 by (simp add: cached_listing_def find_slot_store fresh_def) (simp add: store_listing_def)
qed

lemma stat_from_cache_eq:
  "stat_from_cache now path cs = (case split_parent path of None \<Rightarrow> None
     | Some (dir, name) \<Rightarrow> Option.bind (cached_listing now dir cs) (find (\<lambda>e. e_name e = name)))"
  by (auto simp: stat_from_cache_def cached_listing_def split: option.split)

section \<open>Listings gathered from the card\<close>

text \<open>\<open>fat_readdir\<close> always leaves buffers behind, so a name that does not start with a zero is not empty.\<close>

definition named :: "m65dirent \<Rightarrow> bool" where
  "named de \<longleftrightarrow> d_name de \<noteq> [] \<and> d_longname de \<noteq> []"

lemma blit_nonempty: "xs \<noteq> [] \<Longrightarrow> blit off xs b \<noteq> []"
  by (simp add: blit_def)

lemma named_zero: "named dirent_zero"
  by (simp add: named_def dirent_zero_def filename_max_def)

lemma vfat_chunk_nonempty: "vfat_chunk e \<noteq> []"
  by (simp add: vfat_chunk_def copy_to_dnamechunk_from_offset_def)

lemma named_copy: "named de \<Longrightarrow> named (copy_vfat_chars_into_dname n e de)"
  by (simp add: named_def copy_vfat_chars_into_dname_def blit_nonempty vfat_chunk_nonempty)

lemma vfat_loop_named:
  assumes "vfat_loop io v first de del d = Some y" "named de"
  shows "named (fst y)"
  using assms
proof (induction io v first de del d y rule: vfat_loop.raw_induct [rotated, consumes 1])
  case (1 loop io v first de del d y)
  let ?n = "unat (entry_byte d 0 AND 0x1F)"
  have "named (if first then de\<lparr>d_name := (d_name de)[?n * 13 := 0]\<rparr> else de)"
    using 1(3) by (simp add: named_def)
  then have c: "named (copy_vfat_chars_into_dname ?n (cur_entry d)
      (if first then de\<lparr>d_name := (d_name de)[?n * 13 := 0]\<rparr> else de))" by (rule named_copy)
  from 1(2) c 1(1) show ?case by (auto simp: Let_def split: if_splits)
qed

lemma decode_entry_named: "named de \<Longrightarrow> named (decode_entry is_vfat deleted e de)"
  by (auto simp: decode_entry_def named_def hide_def Let_def extract_out_dos8_3name_def blit_nonempty)

lemma fill_debug_named: "named de \<Longrightarrow> named (fill_debug v d de)"
  by (simp add: named_def fill_debug_def assemble_time_from_raw_def Let_def)

lemma fat_readdir_named: "fat_readdir io v ext d = Some (r, de, d') \<Longrightarrow> named de"
  by (auto simp: fat_readdir_def bind_eq_Some_conv named_zero intro!: decode_entry_named fill_debug_named
      dest!: vfat_loop_named split: prod.splits option.splits if_splits)

lemma best_name_nonempty: "named de \<Longrightarrow> d_name de ! 0 \<noteq> 0 \<Longrightarrow> best_name de \<noteq> []"
  by (cases "d_name de"; cases "d_longname de") (auto simp: best_name_def named_def cstr_def)

text \<open>What the callback keeps, the whole listing keeps.\<close>

lemmas list_entries_induct =
  list_entries.raw_induct [where xa = "(((((io, v), mk), cb), x), d)" for io v mk cb x d, unfolded prod.case,
    rotated, consumes 1]

lemma list_entries_keeps:
  assumes "list_entries io v mk cb x d = Some y" "P x"
    and "\<And>name sz is_dir t x. P x \<Longrightarrow> name \<noteq> [] \<Longrightarrow> P (snd (cb name sz is_dir t x))"
  shows "P (fst y)"
  using assms
proof (induction io v mk cb x d y rule: list_entries_induct)
  case (1 loop io v mk cb x d y)
  from 1(2) obtain r de d1 where r: "fat_readdir io v False d = Some (r, de, d1)"
    and y: "(if r \<noteq> 0 then Some (x, d1) else if d_name de ! 0 = 0 then loop io v mk cb x d1
      else case cb (best_name de) (word_of_int (d_filelen de)) (is_dir_entry de) (mk (d_mtime de)) x of (stop, x1) \<Rightarrow>
         if stop then Some (x1, d1) else loop io v mk cb x1 d1) = Some y"
    by (auto simp: bind_eq_Some_conv)
  let ?c = "cb (best_name de) (word_of_int (d_filelen de)) (is_dir_entry de) (mk (d_mtime de)) x"
  have IH: "P (fst y)" if "loop io v mk cb x1 d1 = Some y" "P x1" for x1
    using 1(1) [OF that 1(4)] .
  show ?case
  proof (cases "r \<noteq> 0 \<or> d_name de ! 0 = 0")
    case True
    then show ?thesis using y 1(3) IH by (auto split: if_splits)
  next
    case False
    then have "P (snd ?c)" using best_name_nonempty [OF fat_readdir_named [OF r]] 1(3,4) by simp
    then show ?thesis using y False IH by (auto split: if_splits prod.splits)
  qed
qed

lemma fill_dir_cache_ok: "listing_ok es \<Longrightarrow> name \<noteq> [] \<Longrightarrow> listing_ok (snd (fill_dir_cache name sz is_dir t es))"
proof -
  assume es: "listing_ok es" and name: "name \<noteq> []"
  have short: "take 255 name = xs \<longleftrightarrow> name = xs" if "length xs < 255" for xs
    using that by (metis length_take min_def nat_less_le take_all_iff)
  have "unat sz < 2 ^ 32" using unsigned_less [of sz] by simp
  with es name show ?thesis
    by (auto simp: fill_dir_cache_def listing_ok_def listed_ok_def ENTRY_NAME_MAX_def MAX_ENTRIES_def short)
qed

lemma readdir_listing_ok: "m65ftp_readdir io v mk path fill_dir_cache [] l = Some ((ok, es), l') \<Longrightarrow> listing_ok es"
  using list_entries_keeps [of io v mk fill_dir_cache "[]" _ _ listing_ok] fill_dir_cache_ok
  by (fastforce simp: m65ftp_readdir_def bind_eq_Some_conv split: if_splits prod.splits)

lemma refresh_cases:
  assumes "refresh_cache_if_expired env path f = Some (c, f')"
  shows "(f' = f \<and> c = slots f ! get_cache_slot (e_now env) path (slots f) \<and> c_valid c \<and> c_path c = path \<and> fresh (e_now env) c)
    \<or> (\<exists>ok es l. m65ftp_readdir (e_io env) (e_vol env) (e_mktime env) path fill_dir_cache [] (ftp f) = Some ((ok, es), l)
        \<and> listing_ok es \<and> f' = f\<lparr>slots := store_listing (e_now env) path es (slots f), ftp := l\<rparr>
        \<and> c = store_listing (e_now env) path es (slots f) ! get_cache_slot (e_now env) path (slots f))"
  using assms unfolding refresh_cache_if_expired_def Let_def
  by (auto simp: bind_eq_Some_conv dest: readdir_listing_ok split: if_splits)

section \<open>Steps\<close>

text \<open>One rule per entry of \<open>fs_oper\<close> after mounting; the connection and the volume stay, the clock moves.\<close>

abbreviation runs_on :: "'s sector_io \<Rightarrow> vol \<Rightarrow> 's env \<Rightarrow> bool" where
  "runs_on io v env \<equiv> e_io env = io \<and> e_vol env = v"

inductive fs_step :: "'x itself \<Rightarrow> 's sector_io \<Rightarrow> vol \<Rightarrow> 's fs \<Rightarrow> 's fs \<Rightarrow> bool" for buf io v where
  getattr: "runs_on io v env \<Longrightarrow> fs_getattr env path f = Some (r1, f') \<Longrightarrow> fs_step buf io v f f'"
| readdir: "runs_on io v env \<Longrightarrow> fs_readdir env path offset filler (x :: 'x) f = Some (r2, f') \<Longrightarrow> fs_step buf io v f f'"
| openf: "runs_on io v env \<Longrightarrow> fs_open env writable path f = Some (r3, f') \<Longrightarrow> fs_step buf io v f f'"
| create: "runs_on io v env \<Longrightarrow> fs_create env path f = Some (r3, f') \<Longrightarrow> fs_step buf io v f f'"
| writef: "runs_on io v env \<Longrightarrow> fs_write env fd data pos f = Some (r3, f') \<Longrightarrow> fs_step buf io v f f'"
| readf: "runs_on io v env \<Longrightarrow> fs_read env fd n pos f = (r4, f') \<Longrightarrow> fs_step buf io v f f'"
| release: "runs_on io v env \<Longrightarrow> fs_release env fd f = Some f' \<Longrightarrow> fs_step buf io v f f'"
| flushf: "runs_on io v env \<Longrightarrow> fs_flush env fd f = Some (r5, f') \<Longrightarrow> fs_step buf io v f f'"
| fsync: "runs_on io v env \<Longrightarrow> fs_fsync env fd f = Some (r5, f') \<Longrightarrow> fs_step buf io v f f'"
| fsyncdir: "runs_on io v env \<Longrightarrow> fs_fsyncdir env f = (r5, f') \<Longrightarrow> fs_step buf io v f f'"
| access: "runs_on io v env \<Longrightarrow> fs_access env path f = Some (r5, f') \<Longrightarrow> fs_step buf io v f f'"
| truncate: "runs_on io v env \<Longrightarrow> fs_truncate env fd len f = Some (r5, f') \<Longrightarrow> fs_step buf io v f f'"
| utimens: "runs_on io v env \<Longrightarrow> fs_utimens env path tv f = Some (r5, f') \<Longrightarrow> fs_step buf io v f f'"
| mkdir: "runs_on io v env \<Longrightarrow> fs_mkdir env path f = Some (r5, f') \<Longrightarrow> fs_step buf io v f f'"
| rmdir: "runs_on io v env \<Longrightarrow> fs_rmdir env path f = Some (r5, f') \<Longrightarrow> fs_step buf io v f f'"
| unlink: "runs_on io v env \<Longrightarrow> fs_unlink env path f = Some (r5, f') \<Longrightarrow> fs_step buf io v f f'"
| rename: "runs_on io v env \<Longrightarrow> fs_rename env path path' flags f = Some (r5, f') \<Longrightarrow> fs_step buf io v f f'"
| statfs: "runs_on io v env \<Longrightarrow> fs_statfs env f = (r6, f') \<Longrightarrow> fs_step buf io v f f'"

text \<open>
  Every callback makes at most one call of the file layer, and leaves the cache as it is, drops
  the listings of some parents, or stores a listing taken from the card.
\<close>

abbreviation lib_calls :: "'s sector_io \<Rightarrow> vol \<Rightarrow> 's lib \<Rightarrow> 's lib \<Rightarrow> bool" where
  "lib_calls io v \<equiv> (lib_step TYPE(directory_entry list) io v)\<^sup>=\<^sup>="

definition cache_change :: "dir_cache list \<Rightarrow> dir_cache list \<Rightarrow> bool" where
  "cache_change cs cs' \<longleftrightarrow> (\<exists>ps. cs' = fold invalidate_cache_parent ps cs)
     \<or> (\<exists>now p es. listing_ok es \<and> cs' = store_listing now p es cs)"

lemma cache_change_drops [simp]:
  "cache_change cs cs" "cache_change cs (invalidate_cache_parent p cs)"
  "cache_change cs (invalidate_cache_parent p (invalidate_cache_parent q cs))"
proof -
  show "cache_change cs cs" unfolding cache_change_def by (intro disjI1 exI [of _ "[]"]) simp
  show "cache_change cs (invalidate_cache_parent p cs)"
    unfolding cache_change_def by (intro disjI1 exI [of _ "[p]"]) simp
  show "cache_change cs (invalidate_cache_parent p (invalidate_cache_parent q cs))"
    unfolding cache_change_def by (intro disjI1 exI [of _ "[q, p]"]) simp
qed

definition fs_moves :: "'s sector_io \<Rightarrow> vol \<Rightarrow> 's fs \<Rightarrow> 's fs \<Rightarrow> bool" where
  "fs_moves io v f f' \<longleftrightarrow> lib_calls io v (ftp f) (ftp f') \<and> cache_change (slots f) (slots f')"

lemma fs_moves_refl [simp]: "fs_moves io v f f"
  by (simp add: fs_moves_def)

lemma fs_moves_lib [simp]: "fs_moves io v f (f\<lparr>ftp := l\<rparr>) = lib_calls io v (ftp f) l"
  by (simp add: fs_moves_def)

lemma fs_moves_invalidate [simp]:
  "fs_moves io v f (invalidate p f)" "fs_moves io v f (invalidate p (invalidate q f))"
  "fs_moves io v f (invalidate p (f\<lparr>ftp := l\<rparr>)) = lib_calls io v (ftp f) l"
  "fs_moves io v f (invalidate p (invalidate q (f\<lparr>ftp := l\<rparr>))) = lib_calls io v (ftp f) l"
  by (simp_all add: fs_moves_def invalidate_def)

lemma fs_moves_results:
  "fd_result err (r, l) f = (x, f') \<Longrightarrow> lib_calls io v (ftp f) l \<Longrightarrow> fs_moves io v f f'"
  "ok_result err id (b, l) f = (y, f') \<Longrightarrow> lib_calls io v (ftp f) l \<Longrightarrow> fs_moves io v f f'"
  "ok_result err (invalidate p) (b, l) f = (y, f') \<Longrightarrow> lib_calls io v (ftp f) l \<Longrightarrow> fs_moves io v f f'"
  "ok_result err (\<lambda>f. invalidate p (invalidate q f)) (b, l) f = (y, f') \<Longrightarrow> lib_calls io v (ftp f) l \<Longrightarrow> fs_moves io v f f'"
  by (auto simp: fd_result_def ok_result_def split: option.splits if_splits)

lemmas lib_call = lib_step.intros [where ctx = "TYPE(directory_entry list)"]

lemma refresh_moves: "refresh_cache_if_expired env path f = Some (c, f') \<Longrightarrow> fs_moves (e_io env) (e_vol env) f f'"
  using lib_step.readdir [of "e_io env" "e_vol env" "e_mktime env" path fill_dir_cache "[]" "ftp f"]
  by (fastforce simp: fs_moves_def cache_change_def dest!: refresh_cases)

text \<open>The one call a callback makes.\<close>

lemma readdir_moves: "runs_on io v env \<Longrightarrow> fs_readdir env path offset filler x f = Some (r, f') \<Longrightarrow> fs_moves io v f f'"
  by (auto simp: fs_readdir_def Let_def bind_eq_Some_conv dest!: refresh_moves split: if_splits)

lemma getattr_moves: "runs_on io v env \<Longrightarrow> fs_getattr env path f = Some (r, f') \<Longrightarrow> fs_moves io v f f'"
  by (auto simp: fs_getattr_def bind_eq_Some_conv split: if_splits option.splits) (blast intro: lib_call)+

lemma open_moves:
  "runs_on io v env \<Longrightarrow> fs_open env writable path f = Some (r, f') \<Longrightarrow> fs_moves io v f f'"
  "runs_on io v env \<Longrightarrow> fs_create env path f = Some (r, f') \<Longrightarrow> fs_moves io v f f'"
  by (auto simp: fs_open_def fs_create_def fd_result_def bind_eq_Some_conv
      split: if_splits option.splits prod.splits sum.splits) (blast intro: lib_call)+

lemma file_moves:
  "runs_on io v env \<Longrightarrow> fs_write env fd data pos f = Some (r, f') \<Longrightarrow> fs_moves io v f f'"
  "runs_on io v env \<Longrightarrow> fs_read env fd n pos f = (r', f') \<Longrightarrow> fs_moves io v f f'"
  "runs_on io v env \<Longrightarrow> fs_release env fd f = Some f' \<Longrightarrow> fs_moves io v f f'"
  by (auto simp: fs_write_def fs_read_def fs_release_def fd_result_def bind_eq_Some_conv
      split: option.splits prod.splits) (blast intro: lib_call)+

lemma sync_moves:
  "runs_on io v env \<Longrightarrow> fs_flush env fd f = Some (r, f') \<Longrightarrow> fs_moves io v f f'"
  "runs_on io v env \<Longrightarrow> fs_fsync env fd f = Some (r, f') \<Longrightarrow> fs_moves io v f f'"
  "runs_on io v env \<Longrightarrow> fs_fsyncdir env f = (r, f') \<Longrightarrow> fs_moves io v f f'"
  "runs_on io v env \<Longrightarrow> fs_access env path f = Some (r, f') \<Longrightarrow> fs_moves io v f f'"
  "runs_on io v env \<Longrightarrow> fs_truncate env fd len f = Some (r, f') \<Longrightarrow> fs_moves io v f f'"
  "runs_on io v env \<Longrightarrow> fs_utimens env path tv f = Some (r, f') \<Longrightarrow> fs_moves io v f f'"
  by (auto simp: fs_flush_def fs_fsync_def fs_fsyncdir_def fs_access_def fs_truncate_def fs_utimens_def ok_result_def
      bind_eq_Some_conv intro: lib_call split: if_splits prod.splits)

lemma tree_moves:
  "runs_on io v env \<Longrightarrow> fs_mkdir env path f = Some (r, f') \<Longrightarrow> fs_moves io v f f'"
  "runs_on io v env \<Longrightarrow> fs_rmdir env path f = Some (r, f') \<Longrightarrow> fs_moves io v f f'"
  "runs_on io v env \<Longrightarrow> fs_unlink env path f = Some (r, f') \<Longrightarrow> fs_moves io v f f'"
  "runs_on io v env \<Longrightarrow> fs_rename env path path' flags f = Some (r, f') \<Longrightarrow> fs_moves io v f f'"
  by (auto simp: fs_mkdir_def fs_rmdir_def fs_unlink_def fs_rename_def ok_result_def
      bind_eq_Some_conv intro: lib_call split: if_splits prod.splits)

lemma statfs_moves: "runs_on io v env \<Longrightarrow> fs_statfs env f = (r, f') \<Longrightarrow> fs_moves io v f f'"
  by (auto simp: fs_statfs_def Let_def intro: lib_call split: prod.splits)

lemma fs_step_moves: "fs_step buf io v f f' \<Longrightarrow> fs_moves io v f f'"
  by (induction rule: fs_step.induct)
    (blast intro: readdir_moves getattr_moves open_moves file_moves sync_moves tree_moves statfs_moves)+

text \<open>The state before the first callback.\<close>

definition fs_start :: "'s lib \<Rightarrow> 's fs" where
  "fs_start l = \<lparr>slots = replicate MAX_CACHED_DIRS empty_slot, ftp = l\<rparr>"

lemma cache_change_ok: "cache_change cs cs' \<Longrightarrow> cache_ok cs \<Longrightarrow> cache_ok cs'"
  by (auto simp: cache_change_def intro: dircache.drops_ok dircache.put_ok)

lemma fs_start_ok [simp]: "cache_ok (slots (fs_start l))" "ftp (fs_start l) = l"
  by (simp_all add: fs_start_def cache_ok_def slot_ok_def empty_slot_def MAX_PATH_def)

lemma reachable_cache_ok:
  assumes "(fs_step buf io v)\<^sup>*\<^sup>* (fs_start l) f"
  shows "cache_ok (slots f) \<and> (lib_step TYPE(directory_entry list) io v)\<^sup>*\<^sup>* l (ftp f)"
  using assms
proof (induction rule: rtranclp_induct)
  case (step f f')
  from fs_step_moves [OF step(2)] have m: "lib_calls io v (ftp f) (ftp f')" "cache_change (slots f) (slots f')"
    by (simp_all add: fs_moves_def)
  from m(1) step(3) have "(lib_step TYPE(directory_entry list) io v)\<^sup>*\<^sup>* l (ftp f')"
    by (auto intro: rtranclp.rtrancl_into_rtrancl)
  with cache_change_ok [OF m(2)] step(3) show ?case by blast
qed simp

section \<open>Lookups after listings and invalidations\<close>

lemma find_append: "find P (xs @ ys) = (case find P xs of None \<Rightarrow> find P ys | Some x \<Rightarrow> Some x)"
  by (induction xs) auto

lemma last_slash_child:
  assumes "0x2f \<notin> set name"
  shows "last_slash (dir @ 0x2f # name) = Some (length dir)"
proof -
  let ?p = "dir @ 0x2f # name" and ?d = "length dir"
  have "find (\<lambda>i. ?p ! i = 0x2f) (rev [?d ..< length ?p]) = Some ?d"
  proof -
    have "rev [?d ..< length ?p] = rev [Suc ?d ..< length ?p] @ [?d]" by (simp add: upt_rec [of ?d] Suc_le_eq)
    moreover have "find (\<lambda>i. ?p ! i = 0x2f) (rev [Suc ?d ..< length ?p]) = None"
      using assms by (auto simp: find_None_iff nth_append nth_Cons in_set_conv_nth split: nat.splits)
    ultimately show ?thesis by (simp add: find_append)
  qed
  moreover have "rev [0 ..< length ?p] = rev [?d ..< length ?p] @ rev [0 ..< ?d]"
    by (simp add: upt_add_eq_append [of 0 ?d "length name + 1", simplified] flip: rev_append)
  ultimately show ?thesis unfolding last_slash_def by (simp only: find_append option.case)
qed

lemma split_parent_child:
  assumes "0x2f \<notin> set name" "length dir + length name + 1 < MAX_PATH"
  shows "split_parent (dir @ 0x2f # name) = Some (if dir = [] then ([0x2f], []) else (dir, name))"
proof -
  have p: "take (MAX_PATH - 1) (dir @ 0x2f # name) = dir @ 0x2f # name" using assms(2) by simp
  show ?thesis unfolding split_parent_def Let_def p by (simp add: last_slash_child [OF assms(1)])
qed

text \<open>A refreshed listing is the one that is found, with what the callback was given.\<close>

lemma refresh_lookup:
  assumes "refresh_cache_if_expired env path f = Some (c, f')" "cache_ok (slots f)" "length path < MAX_PATH" "t \<le> e_now env"
  shows "cached_listing t path (slots f') = Some (c_entries c)"
proof -
  have ne: "slots f \<noteq> []" using assms(2) by (auto simp: cache_ok_def MAX_CACHED_DIRS_def)
  note first = get_cache_slot_first [OF ne]
  let ?i = "get_cache_slot (e_now env) path (slots f)"
  from refresh_cases [OF assms(1)] show ?thesis
  proof (elim disjE exE conjE)
    assume c: "f' = f" "c = slots f ! ?i" "c_valid c" "c_path c = path" "fresh (e_now env) c"
    then have "find_slot path (slots f) = Some ?i" using first by (auto simp: find_slot_def find_upt_Some)
    then show ?thesis using c assms(4) by (simp add: cached_listing_def fresh_def)
  next
    fix ok es l assume "f' = f\<lparr>slots := store_listing (e_now env) path es (slots f), ftp := l\<rparr>"
      and "c = store_listing (e_now env) path es (slots f) ! ?i"
    moreover have "store_listing (e_now env) path es (slots f) ! ?i
        = \<lparr>c_path = take (MAX_PATH - 1) path, c_entries = es, c_last_updated = e_now env, c_valid = True\<rparr>"
      using first(1) by (simp add: store_listing_def)
    ultimately show ?thesis
      using dircache.lookup_put [OF assms(2,3), of t "e_now env" es] assms(4) by (simp add: CACHE_TTL_SECONDS_def)
  qed
qed

text \<open>An invalidation finds the first slot of the parent; with no second one the lookup misses.\<close>

lemma invalidate_misses:
  assumes "split_parent path = Some (dir, name)" "\<forall>i j. i < length cs \<and> j < length cs \<and> c_valid (cs ! i) \<and> c_valid (cs ! j)
      \<and> c_path (cs ! i) = dir \<and> c_path (cs ! j) = dir \<longrightarrow> i = j"
  shows "find_slot dir (invalidate_cache_parent path cs) = None"
proof (cases "find_slot dir cs")
  case None
  then show ?thesis using assms(1) by (simp add: invalidate_cache_parent_def)
next
  case (Some i)
  then have "i < length cs" "c_valid (cs ! i)" "c_path (cs ! i) = dir" by (auto simp: find_slot_def find_upt_Some)
  with assms Some show ?thesis
    by (auto simp: invalidate_cache_parent_def find_slot_def find_upt_None nth_list_update)
qed

section \<open>A directory read in pieces\<close>

text \<open>The kernel's buffer: the names taken so far and the room left.\<close>

definition take_name :: "bytes \<Rightarrow> stat \<Rightarrow> nat \<Rightarrow> bytes list \<times> nat \<Rightarrow> bool \<times> bytes list \<times> nat" where
  "take_name name st off b = (case b of (names, room) \<Rightarrow>
     if room = 0 then (True, names, 0) else (False, names @ [name], room - 1))"

lemma emit_entries_take:
  "emit_entries take_name offset pos es (names, room)
    = (names @ take room (drop (offset - pos) (map e_name es)), room - (length es - (offset - pos)))"
proof (induction es arbitrary: pos names room)
  case (Cons e es)
  show ?case
  proof (cases "offset \<le> pos")
    case True
    then show ?thesis using Cons.IH [of "pos + 1"]
      by (cases room) (simp_all add: take_name_def)
  next
    case False
    then have "offset - pos = Suc (offset - (pos + 1))" by simp
    then show ?thesis using Cons.IH [of "pos + 1"] False by simp
  qed
qed simp

end
