(* ===== verification/Callbacks.thy ===== *)
theory Callbacks
  imports FuseState
begin

text \<open>
  What the FUSE callbacks of \<open>src/mega65fs.c\<close> promise, and where the directory cache breaks
  the promise.
\<close>

section \<open>A sample mount\<close>

text \<open>
  The volume \<open>small_vol\<close> with the file \<open>A\<close>: one mount that has a connection and a cached listing
  of \<open>/d\<close>, and one whose connection failed and that was asked for a listing of \<open>/d\<close>.
\<close>

definition sample_env :: "(u32 \<Rightarrow> sector) env" where
  "sample_env = \<lparr>e_io = mem_io, e_vol = small_vol, e_now = 100, e_now_tm = tm_zero, e_mktime = (\<lambda>_. 7),
     e_localtime = (\<lambda>_. None), e_answer = False\<rparr>"

lemma sample_env_simps [simp]: "e_io sample_env = mem_io" "e_vol sample_env = small_vol" "e_now sample_env = 100"
  by (simp_all add: sample_env_def)

definition sample_A :: directory_entry where
  "sample_A = \<lparr>e_name = [0x41], e_size = 3, e_is_dir = False, e_mtime = 7\<rparr>"

abbreviation listed_at :: "int \<Rightarrow> bytes \<Rightarrow> directory_entry list \<Rightarrow> dir_cache" where
  "listed_at t path es \<equiv> \<lparr>c_path = path, c_entries = es, c_last_updated = t, c_valid = True\<rparr>"

definition sample_mount :: "(u32 \<Rightarrow> sector) fs" where
  "sample_mount = \<lparr>slots = listed_at 99 [0x2f, 0x64] [sample_A] # replicate 15 empty_slot, ftp = lib_start sample_dirs\<rparr>"

abbreviation offline :: "(u32 \<Rightarrow> sector) lib" where
  "offline \<equiv> (lib_start sample_dirs)\<lparr>initialized := False\<rparr>"

definition offline_after :: "(u32 \<Rightarrow> sector) fs" where
  "offline_after = \<lparr>slots = listed_at 100 [0x2f, 0x64] [] # replicate 15 empty_slot, ftp = offline\<rparr>"

lemma sample_slots [simp]: "replicate MAX_CACHED_DIRS empty_slot = empty_slot # replicate 15 empty_slot"
  by (simp add: MAX_CACHED_DIRS_def numeral_eq_Suc)

lemma sample_mount_ok: "cache_ok (slots sample_mount)"
  by (simp add: sample_mount_def cache_ok_def MAX_CACHED_DIRS_def slot_ok_def listing_ok_def listed_ok_def sample_A_def
      empty_slot_def MAX_PATH_def MAX_ENTRIES_def ENTRY_NAME_MAX_def)

lemma offline_readdir:
  "fs_readdir sample_env [0x2f, 0x64] 0 take_name ([], 9) (fs_start offline)
    = Some (Inr ([[0x2e], [0x2e, 0x2e]], 7), offline_after)"
  by (simp add: fs_readdir_def refresh_cache_if_expired_def get_cache_slot_def fs_start_def m65ftp_readdir_def
      store_listing_def offline_after_def take_name_def MAX_PATH_def Let_def) (simp add: empty_slot_def)

lemma offline_reachable: "(fs_step TYPE(bytes list \<times> nat) mem_io small_vol)\<^sup>*\<^sup>* (fs_start offline) offline_after"
proof (rule r_into_rtranclp)
  have "runs_on mem_io small_vol sample_env" by (simp add: sample_env_def)
  from fs_step.readdir [OF this offline_readdir]
  show "fs_step TYPE(bytes list \<times> nat) mem_io small_vol (fs_start offline) offline_after" .
qed

lemma offline_pool_ok: "pool_ok offline"
  using lib_start_pool_ok [of sample_dirs] by (simp add: pool_ok_def)

section \<open>Properties\<close>

text \<open>
  C22: the directory cache stays well-formed.  After any sequence of callbacks there are 16 slots,
  each with at most 512 entries, and no entry has an empty name, the name \<open>.\<close> or \<open>..\<close>, or a name
  that does not fit its buffer.
\<close>
theorem directory_cache_invariant:
  assumes "(fs_step buf io v)\<^sup>*\<^sup>* (fs_start l) f"
  shows "length (slots f) = MAX_CACHED_DIRS \<and> (\<forall>c \<in> set (slots f). length (c_path c) < MAX_PATH
     \<and> length (c_entries c) \<le> MAX_ENTRIES \<and> (\<forall>e \<in> set (c_entries c). e_name e \<noteq> [] \<and> length (e_name e) < ENTRY_NAME_MAX
       \<and> e_name e \<noteq> [0x2e] \<and> e_name e \<noteq> [0x2e, 0x2e]))"
  using reachable_cache_ok [OF assms] by (simp add: cache_ok_def slot_ok_def listing_ok_def listed_ok_def)

theorem directory_cache_invariant_witness:
  "length (slots offline_after) = MAX_CACHED_DIRS \<and> length (c_entries (hd (slots offline_after))) \<le> MAX_ENTRIES"
proof -
  have "hd (slots offline_after) \<in> set (slots offline_after)" by (simp add: offline_after_def)
  with directory_cache_invariant [OF offline_reachable] show ?thesis by blast
qed



text \<open>
  A directory listing is remembered.  After \<open>fs_readdir\<close> of a directory other than the root, which
  listed the entries \<open>es\<close>, a \<open>fs_getattr\<close> in the same second of a name among them answers from \<open>es\<close>,
  without a call of the file layer and without any change of state.
\<close>
lemma listing_serves_getattr:
  fixes f :: "'s fs" and env :: "'s env"
  assumes "cache_ok (slots f)" "fs_readdir env dir offset filler x f = Some (Inr y, f')"
    and "dir \<noteq> []"
  shows "\<exists>es. cached_listing (e_now env) dir (slots f') = Some es
    \<and> y = emit_entries filler offset 2 es (let x1 = (if offset \<le> 0 then snd (filler [0x2e] dot_stat 1 x) else x)
        in if offset \<le> 1 then snd (filler [0x2e, 0x2e] dot_stat 2 x1) else x1)
    \<and> (\<forall>(env' :: 's env) e name. 0x2f \<notin> set name \<and> length dir + length name + 1 < MAX_PATH \<and> e_now env' = e_now env
          \<and> find (\<lambda>e. e_name e = name) es = Some e \<longrightarrow>
        fs_getattr env' (dir @ 0x2f # name) f' = Some (Inr (stat_of (e_size e) (e_is_dir e) (e_mtime e)), f'))"
proof -
  obtain c where c: "refresh_cache_if_expired env dir f = Some (c, f')" "length dir < MAX_PATH"
    and y: "y = emit_entries filler offset 2 (c_entries c) (let x1 = (if offset \<le> 0 then snd (filler [0x2e] dot_stat 1 x) else x)
        in if offset \<le> 1 then snd (filler [0x2e, 0x2e] dot_stat 2 x1) else x1)"
    using assms(2) by (auto simp: fs_readdir_def Let_def bind_eq_Some_conv split: if_splits)
  have "fs_getattr env' (dir @ 0x2f # name) f' = Some (Inr (stat_of (e_size e) (e_is_dir e) (e_mtime e)), f')"
    if "0x2f \<notin> set name" "length dir + length name + 1 < MAX_PATH" "e_now env' = e_now env"
      "find (\<lambda>e. e_name e = name) (c_entries c) = Some e" for env' :: "'s env" and e name
  proof -
    have "stat_from_cache (e_now env') (dir @ 0x2f # name) (slots f') = Some e"
      using refresh_lookup [OF c(1) assms(1) c(2), of "e_now env'"] that assms(3) split_parent_child [OF that(1,2)]
      by (simp add: stat_from_cache_eq)
    then show ?thesis using that(2) assms(3) by (simp add: fs_getattr_def append_eq_Cons_conv)
  qed
  then show ?thesis
    using refresh_lookup [OF c(1) assms(1) c(2) order_refl] by (intro exI [of _ "c_entries c"] conjI y allI impI) blast+
qed

text \<open>
  A listing may be read in pieces.  With room for \<open>n\<close> names, \<open>fs_readdir\<close> from an offset gives
  exactly the next \<open>n\<close> names of the directory, counting \<open>.\<close> and \<open>..\<close> first, so that going on at the
  offset reached misses no entry and repeats none.
\<close>
lemma readdir_gives_page:
  assumes "cache_ok (slots f)" "fs_readdir env dir offset take_name ([], n) f = Some (Inr (names, room), f')"
  shows "\<exists>es. cached_listing (e_now env) dir (slots f') = Some es
    \<and> names = take n (drop offset ([0x2e] # [0x2e, 0x2e] # map e_name es)) \<and> room = n - length names"
proof -
  obtain c where c: "refresh_cache_if_expired env dir f = Some (c, f')" "length dir < MAX_PATH"
    and y: "(names, room) = emit_entries take_name offset 2 (c_entries c)
        (let x1 = (if offset \<le> 0 then snd (take_name [0x2e] dot_stat 1 ([], n)) else ([], n))
         in if offset \<le> 1 then snd (take_name [0x2e, 0x2e] dot_stat 2 x1) else x1)"
    using assms(2) by (auto simp: fs_readdir_def Let_def bind_eq_Some_conv split: if_splits)
  have "names = take n (drop offset ([0x2e] # [0x2e, 0x2e] # map e_name (c_entries c))) \<and> room = n - length names"
  proof (cases "offset \<le> 1")
    case True
    then consider "offset = 0" | "offset = 1" by linarith
    then show ?thesis
      using y by cases (cases n; cases "n - 1"; auto simp: take_name_def emit_entries_take)+
  next
    case False
    then have "drop offset ([0x2e] # [0x2e, 0x2e] # map e_name (c_entries c)) = drop (offset - 2) (map e_name (c_entries c))"
      by (cases offset; cases "offset - 1") auto
    then show ?thesis using y False by (auto simp: emit_entries_take)
  qed
  then show ?thesis using refresh_lookup [OF c(1) assms(1) c(2) order_refl] by blast
qed

text \<open>
  C24: a change is not hidden by the cache.  When at most one slot holds the listing of the parent, then
  after a successful create, mkdir, rmdir or unlink no name in that directory is answered from the cache.
\<close>
theorem change_forgets_listing:
  assumes "(\<exists>fd. fs_create env (dir @ 0x2f # name) f = Some (Inr fd, f'))
      \<or> fs_mkdir env (dir @ 0x2f # name) f = Some (Inr (), f')
      \<or> fs_rmdir env (dir @ 0x2f # name) f = Some (Inr (), f')
      \<or> fs_unlink env (dir @ 0x2f # name) f = Some (Inr (), f')"
    and "dir \<noteq> []" "0x2f \<notin> set name" "0x2f \<notin> set other" "length dir + length other + 1 < MAX_PATH"
    and "\<forall>i j. i < length (slots f) \<and> j < length (slots f) \<and> c_valid (slots f ! i) \<and> c_valid (slots f ! j)
      \<and> c_path (slots f ! i) = dir \<and> c_path (slots f ! j) = dir \<longrightarrow> i = j"
  shows "stat_from_cache now (dir @ 0x2f # other) (slots f') = None"
proof -
  have "length (dir @ 0x2f # name) < MAX_PATH" "slots f' = invalidate_cache_parent (dir @ 0x2f # name) (slots f)"
    using assms(1) by (auto simp: fs_create_def fs_mkdir_def fs_rmdir_def fs_unlink_def fd_result_def ok_result_def
        invalidate_def bind_eq_Some_conv split: if_splits prod.splits option.splits)
  then have "find_slot dir (slots f') = None"
    using invalidate_misses [of "dir @ 0x2f # name" dir name "slots f", OF _ assms(6)] split_parent_child [OF assms(3), of dir] assms(2)
    by simp
  then show ?thesis
    using split_parent_child [OF assms(4,5)] assms(2) by (simp add: stat_from_cache_def)
qed

definition sample_root_mount :: "(u32 \<Rightarrow> sector) fs" where
  "sample_root_mount = \<lparr>slots = listed_at 99 [0x2f] [sample_A] # replicate 15 empty_slot, ftp = lib_start sample_dirs\<rparr>"

lemma sample_unlink:
  "map_option fst (m65ftp_unlink mem_io small_vol False [0x2f, 0x2f, 0x41] (lib_start sample_dirs)) = Some True"
  by code_simp

theorem change_forgets_listing_witness:
  "stat_from_cache 100 [0x2f, 0x2f, 0x41] (slots sample_root_mount) = Some sample_A
    \<and> (\<exists>f'. fs_unlink sample_env [0x2f, 0x2f, 0x41] sample_root_mount = Some (Inr (), f')
        \<and> stat_from_cache 100 [0x2f, 0x2f, 0x41] (slots f') = None)"
proof -
  let ?f = sample_root_mount
  have s: "slots ?f = listed_at 99 [0x2f] [sample_A] # replicate 15 empty_slot" "ftp ?f = lib_start sample_dirs"
    by (simp_all add: sample_root_mount_def)
  have p: "0x2f \<notin> set [0x41 :: u8]" "length [0x2f :: u8] + length [0x41 :: u8] + 1 < MAX_PATH" by (simp_all add: MAX_PATH_def)
  have "find_slot [0x2f] (slots ?f) = Some 0" by (simp add: find_slot_def s upt_rec)
  then have hit: "stat_from_cache 100 [0x2f, 0x2f, 0x41] (slots ?f) = Some sample_A"
    using split_parent_child [OF p] by (simp add: stat_from_cache_def s fresh_def CACHE_TTL_SECONDS_def sample_A_def)
  obtain l where "m65ftp_unlink mem_io small_vol False [0x2f, 0x2f, 0x41] (lib_start sample_dirs) = Some (True, l)"
    using sample_unlink by auto
  then have u: "fs_unlink sample_env ([0x2f] @ 0x2f # [0x41]) ?f = Some (Inr (), invalidate [0x2f, 0x2f, 0x41] (?f\<lparr>ftp := l\<rparr>))"
    by (simp add: fs_unlink_def ok_result_def s sample_env_def MAX_PATH_def)
  have one: "c_valid (slots ?f ! i) \<Longrightarrow> i < length (slots ?f) \<Longrightarrow> i = 0" for i
    by (cases i) (simp_all add: s empty_slot_def)
  have "stat_from_cache 100 ([0x2f] @ 0x2f # [0x41]) (slots (invalidate [0x2f, 0x2f, 0x41] (?f\<lparr>ftp := l\<rparr>))) = None"
    using one by (intro change_forgets_listing [OF _ _ p(1) p]) (use u in blast)+
  with hit u show ?thesis by auto
qed

text \<open>
  A stale listing can survive the change that should drop it.  Suppose the first two slots hold
  listings of \<open>a\<close> and of \<open>b\<close>.  When a change in \<open>a\<close> has freed the first slot, the next listing of \<open>b\<close>
  goes there although the second slot still holds one; a change in \<open>b\<close> then drops only the new
  listing, and a lookup of \<open>b/name\<close> is answered from the old one, for as long as that is fresh.
\<close>
lemma stale_listing_survives:
  assumes "slots f = listed_at t0 a es0 # listed_at t1 b es1 # rest" "a \<noteq> b" "a \<noteq> []" "b \<noteq> []"
    and "0x2f \<notin> set x" "length a + length x + 1 < MAX_PATH"
    and "0x2f \<notin> set name" "length b + length name + 1 < MAX_PATH"
    and "refresh_cache_if_expired env b (invalidate (a @ 0x2f # x) f) = Some (c, f1)"
    and "now - t1 < CACHE_TTL_SECONDS"
  shows "stat_from_cache now (b @ 0x2f # name) (slots (invalidate (b @ 0x2f # name) f1)) = find (\<lambda>e. e_name e = name) es1"
proof -
  note sa = split_parent_child [OF assms(5,6)] and sb = split_parent_child [OF assms(7,8)]
  have first: "find_slot p (d # ds) = Some 0" if "c_valid d" "c_path d = p" for p d ds
    using that by (simp add: find_slot_def upt_rec)
  have second: "find_slot p (d # e # ds) = Some 1" if "\<not> (c_valid d \<and> c_path d = p)" "c_valid e" "c_path e = p" for p d e ds
    using that by (auto simp: find_slot_def upt_rec)
  define gone where "gone = (listed_at t0 a es0)\<lparr>c_valid := False\<rparr>"
  have s: "slots (invalidate (a @ 0x2f # x) f) = gone # listed_at t1 b es1 # rest"
    using sa assms(1,3) by (simp add: invalidate_def invalidate_cache_parent_def first gone_def)
  have g: "get_cache_slot n b (gone # ds) = 0" "\<not> c_valid gone" for n ds by (simp_all add: get_cache_slot_def gone_def)
  obtain es where "slots f1 = listed_at (e_now env) b es # listed_at t1 b es1 # rest"
    using refresh_cases [OF assms(9)] g assms(8) unfolding s by (auto simp: store_listing_def)
  then have "slots (invalidate (b @ 0x2f # name) f1)
      = (listed_at (e_now env) b es)\<lparr>c_valid := False\<rparr> # listed_at t1 b es1 # rest"
    using sb assms(4) by (simp add: invalidate_def invalidate_cache_parent_def first)
  then show ?thesis
    using sb assms(4,10) by (simp add: stat_from_cache_def second fresh_def)
qed

text \<open>
  Names in the root directory are never answered from the cache.  \<open>split_parent\<close> of \<open>/name\<close> ends the
  string right after the slash, so the name that is looked up is empty, and no listing holds an empty
  name; a lookup misses in every reachable state, whatever has been listed.
\<close>
lemma root_entries_never_cached:
  assumes "(fs_step buf io v)\<^sup>*\<^sup>* (fs_start l) f" "0x2f \<notin> set name" "length name + 1 < MAX_PATH"
  shows "stat_from_cache now (0x2f # name) (slots f) = None"
proof (rule ccontr)
  have ok: "cache_ok (slots f)" using reachable_cache_ok [OF assms(1)] by blast
  assume "stat_from_cache now (0x2f # name) (slots f) \<noteq> None"
  then obtain e where "Option.bind (cached_listing now [0x2f] (slots f)) (find (\<lambda>e. e_name e = [])) = Some e"
    using split_parent_child [of name "[]"] assms(2,3) by (auto simp: stat_from_cache_eq)
  from dircache.found_ok [OF ok this] show False by (auto simp: listed_ok_def)
qed

text \<open>
  A listing that failed is cached as an empty directory.  When the listing of a directory is not cached and
  \<open>m65ftp_readdir\<close> fails, \<open>fs_readdir\<close> reports no error, gives \<open>.\<close> and \<open>..\<close> only, and the empty listing is
  served for the next seconds.
\<close>
lemma failed_listing_cached_empty:
  assumes "m65ftp_readdir (e_io env) (e_vol env) (e_mktime env) dir fill_dir_cache [] (ftp f) = Some ((False, es), l)"
    and "cache_ok (slots f)" "cached_listing (e_now env) dir (slots f) = None" "length dir < MAX_PATH"
    and "t - e_now env < CACHE_TTL_SECONDS" "2 \<le> room"
  shows "\<exists>f'. fs_readdir env dir 0 take_name ([], room) f = Some (Inr ([[0x2e], [0x2e, 0x2e]], room - 2), f')
    \<and> cached_listing t dir (slots f') = Some []"
proof -
  have es: "es = []" using assms(1) by (auto simp: m65ftp_readdir_def bind_eq_Some_conv split: if_splits)
  have ne: "slots f \<noteq> []" using assms(2) by (auto simp: cache_ok_def MAX_CACHED_DIRS_def)
  let ?i = "get_cache_slot (e_now env) dir (slots f)"
  let ?f = "f\<lparr>slots := store_listing (e_now env) dir [] (slots f), ftp := l\<rparr>"
  have "\<not> (c_valid (slots f ! ?i) \<and> c_path (slots f ! ?i) = dir \<and> fresh (e_now env) (slots f ! ?i))"
  proof
    assume c: "c_valid (slots f ! ?i) \<and> c_path (slots f ! ?i) = dir \<and> fresh (e_now env) (slots f ! ?i)"
    then have "find_slot dir (slots f) = Some ?i" using get_cache_slot_first [OF ne] by (auto simp: find_slot_def find_upt_Some)
    with c assms(3) show False by (simp add: cached_listing_def)
  qed
  note skip = if_not_P [OF this]
  have r: "refresh_cache_if_expired env dir f = Some (slots ?f ! ?i, ?f)"
    unfolding refresh_cache_if_expired_def Let_def skip using assms(1) es by simp
  have "c_entries (slots ?f ! ?i) = []" using get_cache_slot_first(1) [OF ne] by (simp add: store_listing_def)
  with r have "fs_readdir env dir 0 take_name ([], room) f = Some (Inr ([[0x2e], [0x2e, 0x2e]], room - 2), ?f)"
    using assms(4,6) by (simp add: fs_readdir_def take_name_def numeral_2_eq_2)
  moreover have "cached_listing t dir (slots ?f) = Some []" using dircache.lookup_put [OF assms(2,4,5)] by simp
  ultimately show ?thesis by blast
qed

text \<open>
  Refused requests change nothing.  A path of 512 bytes or more is refused with \<open>ENAMETOOLONG\<close> by every
  callback that takes one, \<open>fs_rename\<close> refuses flags with \<open>EINVAL\<close>, and a rename to the same path
  succeeds, all without a call of the file layer and without a change of state.
\<close>
lemma refused_requests_change_nothing:
  assumes "length path \<ge> MAX_PATH" "flags \<noteq> 0" "from \<noteq> path"
  shows "fs_getattr env path f = Some (Inl ENAMETOOLONG, f) \<and> fs_readdir env path offset filler x f = Some (Inl ENAMETOOLONG, f)
    \<and> fs_open env writable path f = Some (Inl ENAMETOOLONG, f) \<and> fs_create env path f = Some (Inl ENAMETOOLONG, f)
    \<and> fs_access env path f = Some (Inl ENAMETOOLONG, f) \<and> fs_utimens env path tv f = Some (Inl ENAMETOOLONG, f)
    \<and> fs_mkdir env path f = Some (Inl ENAMETOOLONG, f) \<and> fs_rmdir env path f = Some (Inl ENAMETOOLONG, f)
    \<and> fs_unlink env path f = Some (Inl ENAMETOOLONG, f) \<and> fs_rename env from path 0 f = Some (Inl ENAMETOOLONG, f)
    \<and> fs_rename env path from 0 f = Some (Inl ENAMETOOLONG, f)
    \<and> fs_rename env from to flags f = Some (Inl EINVAL, f) \<and> fs_rename env path path 0 f = Some (Inr (), f)"
  using assms
  by (simp add: fs_getattr_def fs_readdir_def fs_open_def fs_create_def fs_access_def fs_utimens_def fs_mkdir_def
      fs_rmdir_def fs_unlink_def fs_rename_def)

end
