(* ===== verification/FileData.thy ===== *)
theory FileData
  imports Descriptors
begin

text \<open>
  The contents of files (\<open>src/m65ftp_lib.c\<close>): the bytes of a cluster chain, and that
  \<open>m65ftp_pread\<close> returns them.
\<close>

section \<open>The bytes of a cluster chain\<close>

lemma subbuf_subbuf: "r + n \<le> w \<Longrightarrow> subbuf r n (subbuf off w b) = subbuf (off + r) n b"
  by (simp add: subbuf_def drop_take min_def add.commute)

lemma subbuf_join: "subbuf off n b @ subbuf (off + n) m b = subbuf off (n + m) b"
  using take_add [of n m "drop off b"] by (simp add: subbuf_def add.commute)

lemma subbuf_0 [simp]: "subbuf off 0 b = []"
  by (simp add: subbuf_def)

text \<open>Sector \<open>k\<close> of a file, all its sectors, and the conditions under which it can be read.\<close>

definition file_sector_at :: "vol \<Rightarrow> u32 list \<Rightarrow> nat \<Rightarrow> u32" where
  "file_sector_at v cs k = file_sector v (cs ! (k div spc v)) (k mod spc v)"

definition file_bytes :: "(u32 \<Rightarrow> sector) \<Rightarrow> vol \<Rightarrow> u32 list \<Rightarrow> bytes" where
  "file_bytes disk v cs = concat (map (\<lambda>k. disk (file_sector_at v cs k)) [0 ..< spc v * length cs])"

definition file_chain :: "(nat \<Rightarrow> u32) \<Rightarrow> nat \<Rightarrow> u32 list \<Rightarrow> bool" where
  "file_chain E m cs \<longleftrightarrow> cs \<noteq> [] \<and> (\<forall>c \<in> set cs. c \<noteq> 0 \<and> c < end_marker \<and> unat c < m)
     \<and> (\<forall>i. Suc i < length cs \<longrightarrow> E (unat (cs ! i)) AND 0x0fffffff = cs ! Suc i)"

definition file_view ::
  "('s \<Rightarrow> bool) \<Rightarrow> ('s \<Rightarrow> u32 \<Rightarrow> sector) \<Rightarrow> ('s \<Rightarrow> u32 \<Rightarrow> bool) \<Rightarrow> vol \<Rightarrow> u32 list \<Rightarrow> 's \<Rightarrow> bool" where
  "file_view I D S v cs s \<longleftrightarrow> I s \<and> vol_ok v \<and> 0 < spc v \<and> file_chain (fat_get (D s) v) (128 * fat_len v) cs
     \<and> fat_all S v s \<and> (\<forall>k < spc v * length cs. S s (file_sector_at v cs k)) \<and> (\<forall>n. length (D s n) = 512)"

lemma file_view_read_only: "read_only I D S s s' \<Longrightarrow> file_view I D S v cs s \<Longrightarrow> file_view I D S v cs s'"
  by (simp add: file_view_def read_only_def fat_all_def)

lemma file_chain_nth:
  "file_chain E m cs \<Longrightarrow> i < length cs \<Longrightarrow> cs ! i \<noteq> 0 \<and> cs ! i < end_marker \<and> unat (cs ! i) < m"
  by (simp add: file_chain_def)

lemma length_file_bytes: "\<forall>n. length (D n) = 512 \<Longrightarrow> length (file_bytes D v cs) = 512 * (spc v * length cs)"
  using length_concat_slots [of "map (\<lambda>k. D (file_sector_at v cs k)) [0 ..< spc v * length cs]" 512]
  by (simp add: file_bytes_def)

lemma subbuf_file_bytes:
  assumes "\<forall>n. length (D n) = 512" "off mod 512 + n \<le> 512" "off div 512 < spc v * length cs"
  shows "subbuf off n (file_bytes D v cs) = subbuf (off mod 512) n (D (file_sector_at v cs (off div 512)))"
proof -
  let ?xs = "map (\<lambda>k. D (file_sector_at v cs k)) [0 ..< spc v * length cs]"
  have "subbuf (512 * (off div 512)) 512 (concat ?xs) = D (file_sector_at v cs (off div 512))"
    using subbuf_concat_slots [of ?xs 512 "off div 512"] assms by simp
  then have "subbuf (off mod 512) n (D (file_sector_at v cs (off div 512)))
      = subbuf (512 * (off div 512) + off mod 512) n (concat ?xs)"
    using subbuf_subbuf [OF assms(2), of "512 * (off div 512)" "concat ?xs"] by simp
  then show ?thesis by (simp add: file_bytes_def)
qed

text \<open>The arithmetic of \<open>m65ftp_pread\<close>: cluster, sector in the cluster and byte of an offset.\<close>

lemma cluster_split:
  "off div cluster_size v = off div 512 div spc v" "off mod cluster_size v div 512 = off div 512 mod spc v"
  "off mod cluster_size v mod 512 = off mod 512"
  using mod_mult2_eq [of off 512 "spc v"]
  by (simp_all add: cluster_size_def div_mult2_eq [symmetric] mult.commute)

section \<open>Reading along a chain\<close>

context sector_read
begin

lemma walk_clusters_eq:
  assumes "file_view inv disk stable v cs s" "i + k < length cs"
  shows "\<exists>s'. walk_clusters io v k (cs ! i) (word_of_nat i) s = ((cs ! (i + k), word_of_nat (i + k)), s')
    \<and> read_only inv disk stable s s'"
  using assms
proof (induction k arbitrary: i s)
  case 0
  then show ?case by (auto simp: file_view_def intro: read_only_refl)
next
  case (Suc k)
  note f = Suc.prems(1) [unfolded file_view_def]
  have i: "Suc i < length cs" using Suc.prems(2) by simp
  have nxt: "cs ! Suc i \<noteq> 0" "cs ! Suc i < end_marker" "unat (cs ! i) < 128 * fat_len v"
    using file_chain_nth [of _ _ cs] f i by auto
  moreover have "unat (cs ! i) < 2 ^ 31" using nxt(3) f by (simp add: vol_ok_def)
  moreover have "fat_get (disk s) v (unat (cs ! i)) AND 0x0fffffff = cs ! Suc i"
    using f i by (simp add: file_chain_def)
  ultimately obtain s1 where s1: "get_next_cluster io v (cs ! i) s = (cs ! Suc i, s1)"
      "read_only inv disk stable s s1"
    using get_next_cluster_eq [of s v "cs ! i"] f by (metis prod.collapse)
  obtain s2 where "walk_clusters io v k (cs ! Suc i) (word_of_nat (Suc i)) s1
      = ((cs ! (Suc i + k), word_of_nat (Suc i + k)), s2)" "read_only inv disk stable s1 s2"
    using Suc.IH [OF file_view_read_only [OF s1(2) Suc.prems(1)], of "Suc i"] Suc.prems(2) by auto
  with s1 nxt(2) show ?case
    by (auto intro: read_only_trans simp: algebra_simps not_le [symmetric])
qed

lemma pread_loop_eq:
  assumes "file_view inv disk stable v cs s" "off + remaining \<le> 512 * (spc v * length cs)" "off + remaining \<le> 2 ^ 32"
    and "i < length cs" "i \<le> off div cluster_size v"
  shows "\<exists>j s'. pread_loop io v (cs ! i) (word_of_nat i) off remaining acc s
      = ((True, acc @ subbuf off remaining (file_bytes (disk s) v cs), cs ! j, word_of_nat j, off + remaining), s')
    \<and> j < length cs \<and> j \<le> (off + remaining) div cluster_size v \<and> read_only inv disk stable s s'"
  using assms
proof (induction remaining arbitrary: off i acc s rule: less_induct)
  case (less remaining)
  note f = less.prems(1) [unfolded file_view_def]
  show ?case
  proof (cases "remaining = 0")
    case True
    with less.prems f show ?thesis
      by (subst pread_loop.simps) (auto intro!: exI [of _ i] read_only_refl)
  next
    case False
    let ?t = "off div cluster_size v" and ?k = "off div 512"
    let ?n = "min (512 - off mod 512) remaining"
    have k: "?k < spc v * length cs" using less.prems(2) False by (simp add: less_mult_imp_div_less mult.commute)
    then have t: "?t < length cs" using f by (simp add: cluster_split less_mult_imp_div_less mult.commute)
    have "?t \<le> off" by simp
    then have "?t < 2 ^ 32" using less.prems(3) False by linarith
    then have w: "unat (word_of_nat ?t :: u32) - unat (word_of_nat i :: u32) = ?t - i"
      using less.prems(5) by (simp add: unat_of_nat)
    obtain s1 where s1: "walk_clusters io v (?t - i) (cs ! i) (word_of_nat i) s = ((cs ! ?t, word_of_nat ?t), s1)"
        "read_only inv disk stable s s1"
      using walk_clusters_eq [OF less.prems(1), of i "?t - i"] less.prems(5) t by auto
    have sec: "file_sector v (cs ! ?t) (off mod cluster_size v div 512) = file_sector_at v cs ?k"
      by (simp add: file_sector_at_def cluster_split)
    note v1 = file_view_read_only [OF s1(2) less.prems(1)]
    note d1 = read_onlyD [OF s1(2)]
    have st: "stable s1 (file_sector_at v cs ?k)" using v1 k by (simp add: file_view_def)
    let ?s2 = "after_rd io (file_sector_at v cs ?k) s1"
    have rd: "rd io (file_sector_at v cs ?k) s1 = (Some (disk s (file_sector_at v cs ?k)), ?s2)"
      using rd_eq [OF d1(1) st] d1(2) by simp
    have ro2: "read_only inv disk stable s ?s2"
      using rd_read_only [OF d1(1) st] by (rule read_only_trans [OF s1(2)])
    have n: "0 < ?n" "off mod 512 + ?n \<le> 512" using False mod_less_divisor [of 512 off] by auto
    have chunk: "subbuf (off mod 512) ?n (disk s (file_sector_at v cs ?k)) = subbuf off ?n (file_bytes (disk s) v cs)"
      using subbuf_file_bytes [of "disk s" off ?n v cs] f n(2) k by simp
    let ?acc = "acc @ subbuf off ?n (file_bytes (disk s) v cs)"
    have c: "\<not> cs ! i \<ge> end_marker" "\<not> cs ! ?t \<ge> end_marker"
      using file_chain_nth [of _ _ cs] f less.prems(4) t by (auto simp: not_le)
    have step: "pread_loop io v (cs ! i) (word_of_nat i) off remaining acc s =
        pread_loop io v (cs ! ?t) (word_of_nat ?t) (off + ?n) (remaining - ?n) ?acc ?s2"
      unfolding pread_loop.simps [of io v "cs ! i"] Let_def w s1(1) prod.case cluster_split(3)
      using False c by (simp only: sec rd if_False prod.case option.case chunk simp_thms)
    have "\<exists>j s'. pread_loop io v (cs ! ?t) (word_of_nat ?t) (off + ?n) (remaining - ?n) ?acc ?s2
        = ((True, ?acc @ subbuf (off + ?n) (remaining - ?n) (file_bytes (disk ?s2) v cs), cs ! j, word_of_nat j,
             (off + ?n) + (remaining - ?n)), s')
      \<and> j < length cs \<and> j \<le> ((off + ?n) + (remaining - ?n)) div cluster_size v \<and> read_only inv disk stable ?s2 s'"
      using n(1) less.prems(2,3) t
      by (intro less.IH file_view_read_only [OF ro2 less.prems(1)]) (auto simp: div_le_mono)
    then obtain j s' where "pread_loop io v (cs ! ?t) (word_of_nat ?t) (off + ?n) (remaining - ?n) ?acc ?s2
        = ((True, ?acc @ subbuf (off + ?n) (remaining - ?n) (file_bytes (disk ?s2) v cs), cs ! j, word_of_nat j,
             (off + ?n) + (remaining - ?n)), s')"
        "j < length cs" "j \<le> ((off + ?n) + (remaining - ?n)) div cluster_size v" "read_only inv disk stable ?s2 s'"
      by blast
    moreover have "(off + ?n) + (remaining - ?n) = off + remaining" by simp
    moreover have "disk ?s2 = disk s" using ro2 by (simp add: read_only_def)
    moreover have "?acc @ subbuf (off + ?n) (remaining - ?n) (file_bytes (disk s) v cs)
        = acc @ subbuf off remaining (file_bytes (disk s) v cs)"
      by (simp add: subbuf_join)
    ultimately show ?thesis
      using step read_only_trans [OF ro2] by auto
  qed
qed

end

section \<open>Files on the disk\<close>

text \<open>
  The contents of a file, and the position that \<open>m65ftp_pread\<close> keeps between calls: a cluster of
  the chain, not behind the cluster of \<open>last_offset\<close>, with its index.
\<close>

definition file_content :: "(u32 \<Rightarrow> sector) \<Rightarrow> vol \<Rightarrow> u32 list \<Rightarrow> fileinfo \<Rightarrow> bytes" where
  "file_content disk v cs fi = take (unat (file_size fi)) (file_bytes disk v cs)"

definition reader_ok :: "vol \<Rightarrow> u32 list \<Rightarrow> fileinfo \<Rightarrow> bool" where
  "reader_ok v cs fi \<longleftrightarrow> \<not> buffered fi \<and> fi_first_cluster fi = hd cs \<and> unat (file_size fi) \<le> 512 * (spc v * length cs)
     \<and> (\<exists>i < length cs. current_cluster fi = cs ! i \<and> current_cluster_idx fi = word_of_nat i
          \<and> i \<le> last_offset fi div cluster_size v)"

text \<open>What a read leaves alone in the descriptor: everything that a write goes by, except \<open>last_offset\<close>.\<close>

definition same_but_position :: "fileinfo \<Rightarrow> fileinfo \<Rightarrow> bool" where
  "same_but_position fi fi' \<longleftrightarrow> fi' = fi\<lparr>current_cluster := current_cluster fi', current_cluster_idx := current_cluster_idx fi',
     last_offset := last_offset fi'\<rparr>"

lemma same_but_position_update [simp]:
  "same_but_position fi fi" "same_but_position fi (fi\<lparr>current_cluster := c, current_cluster_idx := i, last_offset := n\<rparr>)"
  by (simp_all add: same_but_position_def)

lemma reader_ok_opened:
  assumes "cs \<noteq> []" "d_ino de = hd cs" "unat (word_of_int (d_filelen de) :: u32) \<le> 512 * (spc v * length cs)"
  shows "reader_ok v cs (file_of_dirent de fi)" "reader_ok v cs (writable_of_dirent de d fi)"
  using assms by (auto simp: reader_ok_def file_of_dirent_def writable_of_dirent_def hd_conv_nth intro!: exI [of _ 0])

lemma take_drop_clip:
  "off < sz \<Longrightarrow> sz \<le> length b \<Longrightarrow> take count (drop off (take sz b)) = subbuf off (clip_count sz count off) b"
  by (auto simp: subbuf_def clip_count_def drop_take min_def)

context sector_read
begin

lemma pread_eq:
  assumes "initialized l" "valid_fd l fd" "reader_ok v cs (files l ! fd)" "file_view inv disk stable v cs (lib_store l)"
  shows "\<exists>l'. m65ftp_pread io v fd count off l
      = (Some (take count (drop off (file_content (disk (lib_store l)) v cs (files l ! fd)))), l')
    \<and> reader_ok v cs (files l' ! fd) \<and> read_only inv disk stable (lib_store l) (lib_store l')
    \<and> same_but_position (files l ! fd) (files l' ! fd) \<and> same_pool l l'
    \<and> (0 < count \<and> off < unat (file_size (files l ! fd)) \<longrightarrow>
         last_offset (files l' ! fd) = off + clip_count (unat (file_size (files l ! fd))) count off)"
proof -
  let ?fi = "files l ! fd" and ?D = "disk (lib_store l)"
  let ?sz = "unat (file_size ?fi)"
  note f = assms(4) [unfolded file_view_def]
  note r = assms(3) [unfolded reader_ok_def]
  have fd: "fd < length (files l)" using assms(2) by (simp add: valid_fd_def)
  have ro: "read_only inv disk stable (lib_store l) (lib_store l)" using f by (simp add: read_only_refl)
  have "hd cs \<noteq> 0" using f by (auto simp: file_chain_def)
  then have first: "fi_first_cluster ?fi \<noteq> 0" using r by simp
  show ?thesis
  proof (cases "count = 0 \<or> off \<ge> ?sz")
    case True
    then show ?thesis
      using assms(1-3) r ro by (intro exI [of _ l]) (auto simp: m65ftp_pread_def file_content_def Let_def same_pool_refl)
  next
    case False
    define n where "n = clip_count ?sz count off"
    define i where "i = (if off = last_offset ?fi
      then (SOME i. i < length cs \<and> current_cluster ?fi = cs ! i \<and> current_cluster_idx ?fi = word_of_nat i
              \<and> i \<le> last_offset ?fi div cluster_size v) else 0)"
    have i: "i < length cs" "i \<le> off div cluster_size v"
      and start: "(if off = last_offset ?fi then (current_cluster ?fi, current_cluster_idx ?fi)
        else (fi_first_cluster ?fi, 0)) = (cs ! i, word_of_nat i)"
    proof -
      obtain k where k: "k < length cs \<and> current_cluster ?fi = cs ! k \<and> current_cluster_idx ?fi = word_of_nat k
          \<and> k \<le> last_offset ?fi div cluster_size v"
        using r by blast
      from someI [of "\<lambda>i. i < length cs \<and> current_cluster ?fi = cs ! i \<and> current_cluster_idx ?fi = word_of_nat i
          \<and> i \<le> last_offset ?fi div cluster_size v", OF k]
      show "i < length cs" "i \<le> off div cluster_size v"
        "(if off = last_offset ?fi then (current_cluster ?fi, current_cluster_idx ?fi)
        else (fi_first_cluster ?fi, 0)) = (cs ! i, word_of_nat i)"
        using f r by (auto simp: i_def file_chain_def hd_conv_nth)
    qed
    have n: "off + n \<le> ?sz" "n \<noteq> 0" using False by (auto simp: n_def clip_count_def)
    have "?sz < 2 ^ 32" using unsigned_less [of "file_size ?fi"] by simp
    then obtain j s' where loop: "pread_loop io v (cs ! i) (word_of_nat i) off n [] (lib_store l)
        = ((True, subbuf off n (file_bytes ?D v cs), cs ! j, word_of_nat j, off + n), s')"
      and j: "j < length cs" "j \<le> (off + n) div cluster_size v" and ro': "read_only inv disk stable (lib_store l) s'"
      using pread_loop_eq [OF assms(4), of off n i "[]"] i n r by auto
    let ?l' = "set_store s' (set_file fd (?fi\<lparr>current_cluster := cs ! j, current_cluster_idx := word_of_nat j,
        last_offset := off + n\<rparr>) l)"
    have "m65ftp_pread io v fd count off l = (Some (subbuf off n (file_bytes ?D v cs)), ?l')"
      using assms(1,2) False r first
      by (simp add: m65ftp_pread_def Let_def start loop flip: n_def)
    moreover have "subbuf off n (file_bytes ?D v cs) = take count (drop off (file_content ?D v cs ?fi))"
      using take_drop_clip [of off ?sz "file_bytes ?D v cs" count] False r f
      by (simp add: file_content_def n_def length_file_bytes)
    moreover have "reader_ok v cs (files ?l' ! fd)"
      using fd r j by (auto simp: reader_ok_def)
    moreover have "same_but_position ?fi (files ?l' ! fd)" "last_offset (files ?l' ! fd) = off + n"
      using fd by simp_all
    moreover have "same_pool l ?l'" using fd by (auto intro!: same_pool_set_file)
    ultimately show ?thesis using ro' unfolding n_def by auto
  qed
qed

end

section \<open>Properties\<close>

text \<open>
  C16: reading a file on the card.  For a file whose clusters form a chain and whose size fits in
  it, \<open>m65ftp_pread\<close> returns exactly the bytes of the file in the requested range, cut off at the
  end of the file, whatever the block size and wherever the last read ended; it changes nothing on
  the card, and the position it keeps for the next call is again one on the chain.
\<close>
theorem pread_returns_file_bytes:
  assumes "initialized l" "valid_fd l fd" "reader_ok v cs (files l ! fd)"
    and "file_view (blk_inv ops) (blk_disk ops) blk_stable v cs (lib_store l)"
  shows "\<exists>l'. m65ftp_pread (blk_io ops) v fd count off l
      = (Some (take count (drop off (file_content (blk_disk ops (lib_store l)) v cs (files l ! fd)))), l')
    \<and> reader_ok v cs (files l' ! fd) \<and> blk_disk ops (lib_store l') = blk_disk ops (lib_store l)"
  using blk.pread_eq [OF assms, of count off] unfolding read_only_def by blast

text \<open>A file of 5000 bytes in the clusters 3 and 4 of a volume whose FAT chains each cluster to the next.\<close>

definition sample_file :: fileinfo where
  "sample_file = file_of_dirent (dirent_zero\<lparr>d_ino := 3, d_filelen := 5000\<rparr>) no_file"

definition sample_reader :: "(nat \<Rightarrow> u8) blk lib" where
  "sample_reader = (lib_start (cursor_start (blk_io device_ops) (table_state (\<lambda>n. if n = 3 then 4 else 0x0ffffff8)) (blk_disk device_ops)))\<lparr>files := [sample_file]\<rparr>"

theorem pread_returns_file_bytes_witness:
  "\<exists>d l'. m65ftp_pread (blk_io device_ops) small_vol 0 100 4950 sample_reader = (Some d, l') \<and> length d = 50"
proof -
  let ?s = "table_state (\<lambda>n. if n = 3 then 4 else 0x0ffffff8)"
  let ?D = "blk_disk device_ops ?s"
  have spc: "spc small_vol = 8" by (simp add: small_vol_def)
  have "(3 :: u32) < end_marker \<and> (4 :: u32) < end_marker" by (simp add: end_marker_def)
  then have "file_chain (fat_get ?D small_vol) (128 * fat_len small_vol) [3, 4]"
    by (simp add: file_chain_def less_Suc_eq)
  moreover have len: "\<forall>n. length (?D n) = 512" using blk.disk_length [of device_ops ?s] by simp
  ultimately have v: "file_view (blk_inv device_ops) (blk_disk device_ops) blk_stable small_vol [3, 4] ?s"
    using spc by (simp add: file_view_def)
  have f: "files sample_reader ! 0 = sample_file" "lib_store sample_reader = ?s" "initialized sample_reader"
      "valid_fd sample_reader 0" "file_size sample_file = 5000"
    by (simp_all add: sample_reader_def lib_start_def cursor_start_def valid_fd_def sample_file_def file_of_dirent_def)
  have "reader_ok small_vol [3, 4] sample_file"
    unfolding sample_file_def using spc by (intro reader_ok_opened) simp_all
  with v f obtain l' where "m65ftp_pread (blk_io device_ops) small_vol 0 100 4950 sample_reader
      = (Some (take 100 (drop 4950 (file_content ?D small_vol [3, 4] sample_file))), l')"
    using pread_returns_file_bytes [of sample_reader 0 small_vol "[3, 4]" device_ops 100 4950] by auto
  moreover have "length (file_bytes ?D small_vol [3, 4]) = 8192"
    unfolding length_file_bytes [OF len] spc by simp
  then have "length (file_content ?D small_vol [3, 4] sample_file) = 5000"
    unfolding file_content_def f(5) length_take by simp
  ultimately show ?thesis by simp
qed

end
