(* ===== verification/Buffered.thy ===== *)
theory Buffered
  imports FileData
begin

text \<open>
  Files that were just created live in host memory until they are flushed
  (\<open>src/m65ftp_lib.c\<close>).  This theory states what such a buffer stands for and that writing,
  reading and truncating it do what they do to a plain sequence of bytes, and where they do not.
\<close>

section \<open>The specification\<close>

text \<open>POSIX \<open>pwrite\<close> and \<open>ftruncate\<close> on the bytes of a file: gaps read as zeros.\<close>

definition spec_write :: "bytes \<Rightarrow> nat \<Rightarrow> bytes \<Rightarrow> bytes" where
  "spec_write data off c =
     (let p = c @ replicate (off - length c) 0 in take off p @ data @ drop (off + length data) p)"

definition spec_truncate :: "nat \<Rightarrow> bytes \<Rightarrow> bytes" where
  "spec_truncate n c = take n c @ replicate (n - length c) 0"

definition spec_read :: "nat \<Rightarrow> nat \<Rightarrow> bytes \<Rightarrow> bytes" where
  "spec_read n off c = take n (drop off c)"

lemma length_spec_write [simp]: "length (spec_write data off c) = max (length c) (off + length data)"
  by (auto simp: spec_write_def Let_def max_def min_def)

lemma nth_spec_write:
  "i < max (length c) (off + length data) \<Longrightarrow> spec_write data off c ! i =
     (if off \<le> i \<and> i < off + length data then data ! (i - off) else if i < length c then c ! i else 0)"
  by (auto simp: spec_write_def Let_def nth_append min_def)

lemma length_spec_truncate [simp]: "length (spec_truncate n c) = n"
  by (simp add: spec_truncate_def)

lemma nth_spec_truncate: "i < n \<Longrightarrow> spec_truncate n c ! i = (if i < length c then c ! i else 0)"
  by (auto simp: spec_truncate_def nth_append)

text \<open>Reading what was just written.\<close>

lemma spec_read_write: "spec_read (length data) off (spec_write data off c) = data"
  by (simp add: spec_read_def spec_write_def Let_def)

section \<open>What a buffer stands for\<close>

definition buffer_content :: "fileinfo \<Rightarrow> bytes" where
  "buffer_content fi = spec_truncate (unat (file_size fi)) (write_buf fi)"

text \<open>The buffer never exceeds its limit, and holds zeros behind the end of the file.\<close>

definition buf_ok :: "fileinfo \<Rightarrow> bool" where
  "buf_ok fi \<longleftrightarrow> buffered fi \<and> length (write_buf fi) \<le> M65FTP_BUFFER_LIMIT
     \<and> (\<forall>i. unat (file_size fi) \<le> i \<and> i < length (write_buf fi) \<longrightarrow> write_buf fi ! i = 0)"

lemma buf_ok_created: "buf_ok (created_file d fi)"
  by (simp add: buf_ok_def created_file_def)

lemma write_buf_set_entry [simp]:
  "write_buf (set_entry_file_size sz fi) = write_buf fi" "write_buf (set_entry_first_cluster c fi) = write_buf fi"
  by (simp_all add: set_entry_file_size_def set_entry_first_cluster_def Let_def)

lemma grown_cap_ge: "0 < cap \<Longrightarrow> n \<le> grown_cap cap n \<and> cap \<le> grown_cap cap n"
proof (induction cap n rule: grown_cap.induct)
  case (1 cap n)
  then show ?case by (cases "cap < n") (auto simp: grown_cap.simps [of cap n])
qed

lemma grow_buffer_append:
  assumes "length b \<le> M65FTP_BUFFER_LIMIT"
  obtains k where "grow_buffer n b = b @ replicate k 0" "n \<le> M65FTP_BUFFER_LIMIT \<Longrightarrow> n \<le> length b + k"
    "length b + k \<le> M65FTP_BUFFER_LIMIT"
proof (cases "n > length b")
  case True
  let ?cap = "grown_cap (if b = [] then 4096 else length b) n"
  let ?new = "if ?cap > M65FTP_BUFFER_LIMIT then M65FTP_BUFFER_LIMIT else ?cap"
  have cap: "n \<le> ?cap" "length b \<le> ?cap" using grown_cap_ge [of "if b = [] then 4096 else length b" n] by auto
  have "grow_buffer n b = b @ replicate (?new - length b) 0"
    using True by (simp add: grow_buffer_def Let_def)
  then show ?thesis using cap assms by (intro that [of "?new - length b"]) auto
next
  case False
  then show ?thesis using that [of 0] assms by (simp add: grow_buffer_def)
qed

lemma nth_grow_buffer:
  assumes "length b \<le> M65FTP_BUFFER_LIMIT" "i < length (grow_buffer n b)"
  shows "grow_buffer n b ! i = (if i < length b then b ! i else 0)"
  using grow_buffer_append [OF assms(1), of n] assms(2) by (metis length_append length_replicate nth_append
      nth_replicate add_diff_inverse_nat nat_add_left_cancel_less)

lemma length_grow_buffer:
  assumes "length b \<le> M65FTP_BUFFER_LIMIT"
  shows "n \<le> M65FTP_BUFFER_LIMIT \<Longrightarrow> n \<le> length (grow_buffer n b)"
    "length b \<le> length (grow_buffer n b)" "length (grow_buffer n b) \<le> M65FTP_BUFFER_LIMIT"
  using grow_buffer_append [OF assms, of n] by (metis length_append length_replicate le_add1)+

section \<open>Operations on a buffered file\<close>

lemma limit_fits: "n \<le> M65FTP_BUFFER_LIMIT \<Longrightarrow> unat (word_of_nat n :: u32) = n"
  by (simp add: M65FTP_BUFFER_LIMIT_def unat_of_nat)

lemma buffered_write_size:
  "off + length data \<le> M65FTP_BUFFER_LIMIT \<Longrightarrow>
   unat (file_size (buffered_write data off fi)) = max (unat (file_size fi)) (off + length data)"
  by (simp add: buffered_write_def Let_def limit_fits max_def del: of_nat_add)

lemma nth_buffered_write:
  assumes "buf_ok fi" "off + length data \<le> M65FTP_BUFFER_LIMIT" "i < length (write_buf (buffered_write data off fi))"
  shows "write_buf (buffered_write data off fi) ! i =
     (if off \<le> i \<and> i < off + length data then data ! (i - off) else if i < length (write_buf fi) then write_buf fi ! i else 0)"
proof -
  let ?g = "grow_buffer (off + length data) (write_buf fi)"
  have l: "length (write_buf fi) \<le> M65FTP_BUFFER_LIMIT" using assms(1) by (simp add: buf_ok_def)
  have "off + length data \<le> length ?g" using length_grow_buffer(1) [OF l assms(2)] .
  moreover from this assms(3) have "i < length ?g" by (simp add: buffered_write_def Let_def)
  ultimately show ?thesis
    using nth_grow_buffer [OF l] by (simp add: buffered_write_def Let_def nth_blit)
qed

lemma length_buffered_write:
  assumes "buf_ok fi" "off + length data \<le> M65FTP_BUFFER_LIMIT"
  shows "length (write_buf (buffered_write data off fi)) = length (grow_buffer (off + length data) (write_buf fi))"
proof -
  have l: "length (write_buf fi) \<le> M65FTP_BUFFER_LIMIT" using assms(1) by (simp add: buf_ok_def)
  show ?thesis using length_grow_buffer(1) [OF l assms(2)] by (simp add: buffered_write_def Let_def)
qed

lemma buffered_write_refines:
  assumes "buf_ok fi" "off + length data \<le> M65FTP_BUFFER_LIMIT" "data \<noteq> []"
  shows "buf_ok (buffered_write data off fi)"
    "buffer_content (buffered_write data off fi) = spec_write data off (buffer_content fi)"
proof -
  let ?fi = "buffered_write data off fi"
  have l: "length (write_buf fi) \<le> M65FTP_BUFFER_LIMIT" using assms(1) by (simp add: buf_ok_def)
  note len = length_buffered_write [OF assms(1,2)] length_grow_buffer [OF l, of "off + length data"]
  note nth = nth_buffered_write [OF assms(1,2)]
  note sz = buffered_write_size [OF assms(2), of fi]
  have z: "write_buf fi ! i = 0" if "unat (file_size fi) \<le> i" "i < length (write_buf fi)" for i
    using assms(1) that by (simp add: buf_ok_def)
  have "buffered ?fi" using assms(1) by (simp add: buf_ok_def buffered_write_def Let_def)
  then show "buf_ok ?fi"
    using len(1,4) by (auto simp: buf_ok_def nth sz z)
  show "buffer_content ?fi = spec_write data off (buffer_content fi)"
  proof (rule nth_equalityI)
    fix i assume "i < length (buffer_content ?fi)"
    then have "i < max (unat (file_size fi)) (off + length data)" by (simp add: buffer_content_def sz)
    then show "buffer_content ?fi ! i = spec_write data off (buffer_content fi) ! i"
      using len assms(2) z [of i] nth [of i]
      by (auto simp: buffer_content_def sz nth_spec_truncate nth_spec_write)
  qed (simp add: buffer_content_def sz)
qed

lemma buffered_read_refines: "off < unat (file_size fi) \<Longrightarrow> buffered_read fi n off = spec_read n off (buffer_content fi)"
  by (rule nth_equalityI) (auto simp: buffered_read_def spec_read_def buffer_content_def clip_count_def Let_def
      nth_append nth_spec_truncate min_def)

lemma truncate_buffered_content:
  assumes "buf_ok fi" "len < 2 ^ 32" "truncate_buffered io v len fi s = (fi', s')"
  shows "buffered fi'" "len \<ge> unat (file_size fi) \<Longrightarrow> buf_ok fi'"
    "len \<noteq> 0 \<Longrightarrow> write_buf fi' = grow_buffer len (write_buf fi) \<and> unat (file_size fi') = len \<and> s' = s"
    "len = 0 \<Longrightarrow> buffer_content fi' = []"
    "buffer_content fi' = spec_truncate len (buffer_content fi)"
proof -
  have l: "length (write_buf fi) \<le> M65FTP_BUFFER_LIMIT" using assms(1) by (simp add: buf_ok_def)
  have z: "write_buf fi ! i = 0" if "unat (file_size fi) \<le> i" "i < length (write_buf fi)" for i
    using assms(1) that by (simp add: buf_ok_def)
  have w: "unat (word_of_nat len :: u32) = len" using assms(2) by (simp add: unat_of_nat)
  show "len \<noteq> 0 \<Longrightarrow> write_buf fi' = grow_buffer len (write_buf fi) \<and> unat (file_size fi') = len \<and> s' = s"
    and zero: "len = 0 \<Longrightarrow> buffer_content fi' = []"
    and "buffered fi'"
    using assms by (auto simp: truncate_buffered_def write_entry_def empty_file_def buffer_content_def spec_truncate_def
        buf_ok_def w split: if_splits)
  show "buf_ok fi'" if "len \<ge> unat (file_size fi)"
    using assms that length_grow_buffer [OF l, of len] nth_grow_buffer [OF l, of _ len] z
    by (auto simp: truncate_buffered_def write_entry_def empty_file_def buf_ok_def w split: if_splits)
  show "buffer_content fi' = spec_truncate len (buffer_content fi)"
  proof (cases "len = 0")
    case False
    then have fi': "write_buf fi' = grow_buffer len (write_buf fi)" "unat (file_size fi') = len"
      using assms w by (auto simp: truncate_buffered_def)
    have "i < length (write_buf fi)" if "i < len" "i < length (grow_buffer len (write_buf fi))"
      "grow_buffer len (write_buf fi) ! i \<noteq> 0" for i
      using nth_grow_buffer [OF l that(2)] that(3) by (auto split: if_splits)
    then show ?thesis
      using length_grow_buffer [OF l, of len] nth_grow_buffer [OF l, of _ len] z
      by (intro nth_equalityI) (auto simp: buffer_content_def fi' nth_spec_truncate)
  qed (use zero in \<open>simp add: spec_truncate_def\<close>)
qed

section \<open>Properties\<close>

text \<open>A file that was just created, with no entry on the disk yet, and one with three bytes in it.\<close>

definition sample_new :: "(u32 \<Rightarrow> sector) lib" where
  "sample_new = (lib_start sample_dirs)\<lparr>files := [created_file sample_dirs no_file]\<rparr>"

definition sample_buf :: "(u32 \<Rightarrow> sector) lib" where
  "sample_buf = set_file 0 (buffered_write [1, 2, 3] 0 (created_file sample_dirs no_file)) sample_new"

lemma sample_new_simps [simp]:
  "initialized sample_new" "valid_fd sample_new 0" "files sample_new ! 0 = created_file sample_dirs no_file"
  "is_writable (created_file d fi)" "buffer_content (created_file d fi) = []"
  by (simp_all add: sample_new_def lib_start_def valid_fd_def created_file_def buffer_content_def spec_truncate_def)

lemma sample_buf_simps [simp]:
  "initialized sample_buf" "valid_fd sample_buf 0" "is_writable (files sample_buf ! 0)" "buf_ok (files sample_buf ! 0)"
  "buffer_content (files sample_buf ! 0) = [1, 2, 3]"
proof -
  have w: "(0 :: nat) + length [1, 2, 3 :: u8] \<le> M65FTP_BUFFER_LIMIT" by (simp add: M65FTP_BUFFER_LIMIT_def)
  have f: "files sample_buf ! 0 = buffered_write [1, 2, 3] 0 (created_file sample_dirs no_file)"
    by (simp add: sample_buf_def sample_new_def)
  note r = buffered_write_refines [OF buf_ok_created w]
  show "buf_ok (files sample_buf ! 0)" using r(1) by (simp add: f)
  show "buffer_content (files sample_buf ! 0) = [1, 2, 3]" using r(2) by (simp add: f spec_write_def)
  have "in_use (created_file sample_dirs no_file)" by simp
  then show "initialized sample_buf" "valid_fd sample_buf 0" "is_writable (files sample_buf ! 0)"
    by (simp_all add: sample_buf_def sample_new_def lib_start_def valid_fd_def buffered_write_def Let_def created_file_def)
qed

text \<open>
  C21: writing a buffered file refines a write to a sequence of bytes.  Up to the buffer limit
  \<open>m65ftp_pwrite\<close> takes every byte, the contents are those of \<open>pwrite\<close> on the old contents (a gap
  becomes zeros), nothing is sent to the card and no other file changes.
\<close>
theorem buffered_pwrite_refines:
  assumes "initialized l" "valid_fd l fd" "is_writable (files l ! fd)" "buf_ok (files l ! fd)"
    and "data \<noteq> []" "off + length data \<le> M65FTP_BUFFER_LIMIT"
  shows "\<exists>l'. m65ftp_pwrite io v fd data off l = Some (Some (length data), l')
    \<and> buf_ok (files l' ! fd)
    \<and> buffer_content (files l' ! fd) = spec_write data off (buffer_content (files l ! fd))
    \<and> dirs l' = dirs l \<and> (\<forall>i. i \<noteq> fd \<longrightarrow> files l' ! i = files l ! i)"
proof -
  have "buffered (files l ! fd)" "fd < length (files l)" using assms(2,4) by (simp_all add: buf_ok_def valid_fd_def)
  then show ?thesis
    using assms buffered_write_refines [OF assms(4,6,5)] by (simp add: m65ftp_pwrite_def)
qed

theorem buffered_pwrite_refines_witness:
  "\<exists>l'. m65ftp_pwrite mem_io small_vol 0 [7, 8] 2 sample_new = Some (Some 2, l')
    \<and> buffer_content (files l' ! 0) = [0, 0, 7, 8]"
proof -
  have "(2 :: nat) + length [7, 8 :: u8] \<le> M65FTP_BUFFER_LIMIT" by (simp add: M65FTP_BUFFER_LIMIT_def)
  from buffered_pwrite_refines [of sample_new 0, OF _ _ _ _ _ this, of mem_io small_vol] show ?thesis
    by (fastforce simp: buf_ok_created spec_write_def Let_def numeral_2_eq_2)
qed

text \<open>
  Reading a buffered file.  \<open>m65ftp_pread\<close> gives exactly the bytes of the contents in the range,
  fewer at the end of the file, and changes nothing; so bytes just written are read back.
\<close>
lemma buffered_pread_refines:
  assumes "initialized l" "valid_fd l fd" "buffered (files l ! fd)"
  shows "m65ftp_pread io v fd n off l = (Some (spec_read n off (buffer_content (files l ! fd))), l)"
proof (cases "n = 0 \<or> off \<ge> unat (file_size (files l ! fd))")
  case True
  then show ?thesis
    using assms by (auto simp: m65ftp_pread_def spec_read_def buffer_content_def Let_def)
next
  case False
  then show ?thesis
    using assms buffered_read_refines [of off "files l ! fd" n] by (simp add: m65ftp_pread_def)
qed

text \<open>
  Truncating a buffered file: \<open>m65ftp_ftruncate\<close> succeeds and the contents are cut to the
  length, or extended to it by zeros, whenever the buffer held zeros behind the end of the file.
\<close>
lemma buffered_ftruncate_refines:
  assumes "initialized l" "valid_fd l fd" "is_writable (files l ! fd)" "buf_ok (files l ! fd)" "len < 2 ^ 32"
  shows "\<exists>l'. m65ftp_ftruncate io v fd (int len) l = Some (True, l')
    \<and> buffer_content (files l' ! fd) = spec_truncate len (buffer_content (files l ! fd))
    \<and> (len \<ge> unat (file_size (files l ! fd)) \<longrightarrow> buf_ok (files l' ! fd))"
proof -
  obtain fi s where t: "truncate_buffered io v len (files l ! fd) (lib_store l) = (fi, s)" by fastforce
  have "buffered (files l ! fd)" "fd < length (files l)" using assms(2,4) by (simp_all add: buf_ok_def valid_fd_def)
  then show ?thesis
    using assms(1-3) t truncate_buffered_content(2,5) [OF assms(4,5) t] by (simp add: m65ftp_ftruncate_def)
qed

text \<open>
  Old bytes come back after shrinking.  Truncating a buffered file to \<open>m > 0\<close> bytes leaves the
  buffer behind the end as it is, so truncating it up again to \<open>n\<close> bytes shows the bytes from
  before the first truncation, where zeros are required.
\<close>
lemma buffered_shrink_extend_exposes:
  assumes "initialized l" "valid_fd l fd" "is_writable (files l ! fd)" "buf_ok (files l ! fd)"
    and "0 < m" "m \<le> n" "n \<le> unat (file_size (files l ! fd))"
  shows "\<exists>l1 l2. m65ftp_ftruncate io v fd (int m) l = Some (True, l1) \<and> m65ftp_ftruncate io v fd (int n) l1 = Some (True, l2)
    \<and> buffer_content (files l2 ! fd) = take n (buffer_content (files l ! fd))"
proof -
  let ?fi = "files l ! fd" and ?s = "lib_store l"
  have fd: "buffered ?fi" "fd < length (files l)" "in_use ?fi"
    and l: "length (write_buf ?fi) \<le> M65FTP_BUFFER_LIMIT"
    using assms(2,4) by (simp_all add: buf_ok_def valid_fd_def)
  have "unat (file_size ?fi) < 2 ^ 32" using unsigned_less [of "file_size ?fi"] by simp
  with assms(6,7) have mn: "unat (word_of_nat m :: u32) = m" "unat (word_of_nat n :: u32) = n" "n \<noteq> 0"
    using assms(5) by (simp_all add: unat_of_nat)
  let ?f1 = "?fi\<lparr>file_size := word_of_nat m, write_buf := grow_buffer m (write_buf ?fi)\<rparr>"
  let ?f2 = "?f1\<lparr>file_size := word_of_nat n, write_buf := grow_buffer n (write_buf ?f1)\<rparr>"
  let ?l1 = "set_store ?s (set_file fd ?f1 l)" and ?l2 = "set_store ?s (set_file fd ?f2 (set_file fd ?f1 l))"
  have "m65ftp_ftruncate io v fd (int m) l = Some (True, ?l1)"
    using assms(1-3,5) fd by (simp add: m65ftp_ftruncate_def truncate_buffered_def Let_def Let_def)
  moreover have "m65ftp_ftruncate io v fd (int n) ?l1 = Some (True, ?l2)"
    using assms(1-3) fd mn(3) by (simp add: m65ftp_ftruncate_def truncate_buffered_def Let_def Let_def valid_fd_def set_store_def set_file_def)
  moreover have "buffer_content ?f2 = take n (buffer_content ?fi)"
  proof (rule nth_equalityI)
    fix i assume "i < length (buffer_content ?f2)"
    then have "i < n" by (simp add: buffer_content_def mn)
    then show "buffer_content ?f2 ! i = take n (buffer_content ?fi) ! i"
      using assms(7) nth_grow_buffer [OF l] length_grow_buffer [OF l, of m] nth_grow_buffer [of "grow_buffer m (write_buf ?fi)"]
        length_grow_buffer [of "grow_buffer m (write_buf ?fi)" n]
      by (auto simp: buffer_content_def mn nth_spec_truncate)
  qed (use assms(7) in \<open>simp add: buffer_content_def mn\<close>)
  ultimately show ?thesis
    using fd(2) by (intro exI [of _ ?l1] exI [of _ ?l2]) simp
qed

end
