(* ===== verification/FatState.thy ===== *)
theory FatState
  imports Fat
begin

text \<open>
  The FAT apart from the rest of the disk: which sectors it takes, that writes elsewhere leave it
  alone, and stores described by the contents of the FAT and of all other sectors.
\<close>

section \<open>The sectors of the FAT\<close>

definition fat_sectors :: "vol \<Rightarrow> u32 set" where
  "fat_sectors v = {a. \<exists>i < fat_len v. a = fat1_at v i \<or> a = fat2_at v i}"

lemma fat_get_cong:
  assumes "\<And>a. a \<in> fat_sectors v \<Longrightarrow> D' a = D a" "m < 128 * fat_len v"
  shows "fat_get D' v m = fat_get D v m"
proof -
  have "m div 128 < fat_len v" using assms(2) by (simp add: less_mult_imp_div_less mult.commute)
  then have "fat1_at v (m div 128) \<in> fat_sectors v" unfolding fat_sectors_def by blast
  from assms(1) [OF this] show ?thesis unfolding fat_get_def by (simp only:)
qed

lemma fat_get_not_fat:
  assumes "a \<notin> fat_sectors v" "m < 128 * fat_len v"
  shows "fat_get (D(a := b)) v m = fat_get D v m"
  using assms by (intro fat_get_cong) auto

section \<open>Stores by their FAT\<close>

text \<open>A store in which the FAT reads as \<open>E\<close>, and what is not FAT is as in \<open>D\<close>.\<close>

definition fat_state ::
  "('s \<Rightarrow> bool) \<Rightarrow> ('s \<Rightarrow> u32 \<Rightarrow> sector) \<Rightarrow> ('s \<Rightarrow> u32 \<Rightarrow> bool) \<Rightarrow> vol \<Rightarrow> (u32 \<Rightarrow> sector) \<Rightarrow> (nat \<Rightarrow> u32) \<Rightarrow> 's \<Rightarrow> bool" where
  "fat_state I D R v d0 E s \<longleftrightarrow> I s \<and> fat_both R v s
     \<and> (\<forall>m < 128 * fat_len v. fat_get (D s) v m = E m) \<and> (\<forall>a. a \<notin> fat_sectors v \<longrightarrow> D s a = d0 a)"

lemma fat_state_cong: "fat_state I D R v d0 E s \<Longrightarrow> (\<And>m. m < 128 * fat_len v \<Longrightarrow> E m = E' m) \<Longrightarrow> fat_state I D R v d0 E' s"
  by (simp add: fat_state_def)

lemma fat_chain_cong: "fat_chain E cs \<Longrightarrow> (\<And>c. c \<in> set cs \<Longrightarrow> E' (unat c) = E (unat c)) \<Longrightarrow> fat_chain E' cs"
  by (induction E cs rule: fat_chain.induct) auto

context sector_store
begin

lemma write_fat_entry_state:
  assumes "fat_state inv disk resident v d0 E s" "vol_ok v" "unat c < 128 * fat_len v"
  shows "\<exists>s'. write_fat_entry io v c x s = (True, s') \<and> fat_state inv disk resident v d0 (E(unat c := x)) s'"
proof -
  let ?k = "unat c div 128" and ?s' = "snd (write_fat_entry io v c x s)"
  have k: "?k < fat_len v" using assms(3) by (simp add: less_mult_imp_div_less mult.commute)
  have I: "inv s" and R: "fat_both resident v s" using assms(1) by (simp_all add: fat_state_def)
  then have r: "resident s (fat1_at v ?k)" "resident s (fat2_at v ?k)"
    using k by (simp_all add: fat_both_def del: div128)
  note w = write_fat_entry_eq [OF I assms(2) resident_stable [OF I r(1)] assms(3), of x]
  have "store_kept inv resident s ?s'" using w r by simp
  note kept = store_keptD(1,3) [OF this]
  have set: "fat_set v (disk s) (unat c) x (disk ?s')" using w by simp
  have "fat1_at v ?k \<in> fat_sectors v" "fat2_at v ?k \<in> fat_sectors v"
    using k unfolding fat_sectors_def by blast+
  then have "disk ?s' a = d0 a" if "a \<notin> fat_sectors v" for a
    using set that assms(1) unfolding fat_set_def fat_state_def by metis
  moreover have "fat_get (disk ?s') v m = (E(unat c := x)) m" if "m < 128 * fat_len v" for m
    using set that assms(1) unfolding fat_set_def fat_state_def by simp
  ultimately have "fat_state inv disk resident v d0 (E(unat c := x)) ?s'"
    using kept R by (simp add: fat_state_def)
  then show ?thesis using w by (intro exI [of _ ?s']) (simp add: prod_eq_iff)
qed

end

end
