(* ===== verification/Flush.thy ===== *)
theory Flush
  imports Buffered FatState
begin

text \<open>
  Flushing a new file from host memory to the card (\<open>flush_write_buffer\<close> of
  \<open>src/m65ftp_lib.c\<close>): the block of clusters it allocates, the sectors it writes, and that the
  file on the disk afterwards has the contents the buffer stood for.
\<close>

section \<open>Allocating a block of clusters\<close>

text \<open>The FAT after clusters \<open>n\<close> to \<open>n + k\<close> were chained one after the other.\<close>

definition chained_block :: "nat \<Rightarrow> nat \<Rightarrow> (nat \<Rightarrow> u32) \<Rightarrow> nat \<Rightarrow> u32" where
  "chained_block n k E m = (if n \<le> m \<and> m < n + k then word_of_nat (m + 1) else if m = n + k then 0x0ffffff8 else E m)"

lemma mask_small: "unat (x :: u32) < 2 ^ 28 \<Longrightarrow> x AND 0x0fffffff = x"
proof -
  assume x: "unat x < 2 ^ 28"
  have "(0x0fffffff :: u32) = mask 28" by (simp add: mask_eq_exp_minus_1)
  then have "unat (x AND 0x0fffffff) = unat x mod 2 ^ 28" by (simp only: unat_and_mask)
  then have "unat (x AND 0x0fffffff) = unat x" using x by simp
  then show ?thesis by (simp add: word_unat_eq_iff)
qed

lemma vol_ok_small: "vol_ok v \<Longrightarrow> n \<le> 128 * fat_len v \<Longrightarrow> n \<le> 2 ^ 28"
  by (simp add: vol_ok_def)

context sector_store
begin

text \<open>One turn of the loop: cluster \<open>start + i\<close> becomes the end of the chain.\<close>

lemma chain_step_state:
  assumes "fat_state inv disk resident v d0 (chained_block n k E) s" "vol_ok v" "n + Suc k < 128 * fat_len v"
  shows "fat_state inv disk resident v d0 (chained_block n (Suc k) E)
    (snd (chain_cluster io v (word_of_nat n + word_of_nat (Suc k) - 1) (word_of_nat n + word_of_nat (Suc k))
       (snd (allocate_cluster io v (word_of_nat n + word_of_nat (Suc k)) s))))"
proof -
  have N: "n + Suc k < 2 ^ 28" using vol_ok_small [OF assms(2), of "n + Suc k"] assms(3) vol_ok_small [OF assms(2) le_refl] by linarith
  have w: "word_of_nat n + word_of_nat (Suc k) = (word_of_nat (n + Suc k) :: u32)"
    "word_of_nat n + word_of_nat (Suc k) - 1 = (word_of_nat (n + k) :: u32)" by simp_all
  have u: "unat (word_of_nat (n + Suc k) :: u32) = n + Suc k" "unat (word_of_nat (n + k) :: u32) = n + k"
    using N by (simp_all add: unat_of_nat del: of_nat_add of_nat_Suc)
  have m: "word_of_nat (n + Suc k) AND 0x0fffffff = (word_of_nat (n + Suc k) :: u32)"
    using N u(1) by (intro mask_small) simp
  obtain s1 where s1: "allocate_cluster io v (word_of_nat (n + Suc k)) s = (True, s1)"
      "fat_state inv disk resident v d0 ((chained_block n k E)(n + Suc k := 0x0ffffff8)) s1"
    using write_fat_entry_state [OF assms(1,2), of "word_of_nat (n + Suc k)" "0x0ffffff8"] assms(3) u(1)
    unfolding allocate_cluster_def set_fat_cluster_ptr_def by auto
  obtain s2 where "chain_cluster io v (word_of_nat (n + k)) (word_of_nat (n + Suc k)) s1 = (True, s2)"
      "fat_state inv disk resident v d0
        ((chained_block n k E)(n + Suc k := 0x0ffffff8, n + k := word_of_nat (n + Suc k))) s2"
    using write_fat_entry_state [OF s1(2) assms(2), of "word_of_nat (n + k)" "word_of_nat (n + Suc k)"] assms(3) u(2)
    unfolding chain_cluster_def m by auto
  moreover have "(chained_block n k E)(n + Suc k := 0x0ffffff8, n + k := word_of_nat (n + Suc k)) = chained_block n (Suc k) E"
    by (auto simp: chained_block_def fun_eq_iff)
  ultimately show ?thesis unfolding w s1(1) by simp
qed

lemma chain_block_state:
  assumes "fat_state inv disk resident v d0 (chained_block n 0 E) s" "vol_ok v" "n + k < 128 * fat_len v"
  shows "fat_state inv disk resident v d0 (chained_block n k E) (chain_block io v (word_of_nat n) [1 ..< Suc k] s)"
  using assms(3)
proof (induction k)
  case 0
  then show ?case using assms(1) by (simp add: chain_block_def)
next
  case (Suc k)
  then have "fat_state inv disk resident v d0 (chained_block n k E) (chain_block io v (word_of_nat n) [1 ..< Suc k] s)"
    by simp
  from chain_step_state [OF this assms(2) Suc.prems] show ?case
    by (simp only: chain_block_def upt_Suc_append fold_append) simp
qed

text \<open>Allocating the first cluster and then the rest.\<close>

lemma allocate_block_state:
  assumes "inv s" "fat_both resident v s" "vol_ok v" "n + k < 128 * fat_len v"
  shows "fat_state inv disk resident v (disk s) (chained_block n k (fat_get (disk s) v))
    (chain_block io v (word_of_nat n) [1 ..< Suc k] (snd (allocate_cluster io v (word_of_nat n) s)))"
proof -
  have "n < 2 ^ 32" using vol_ok_small [OF assms(3), of n] assms(4) by simp
  then have u: "unat (word_of_nat n :: u32) = n" by (simp add: unat_of_nat)
  have "fat_state inv disk resident v (disk s) (fat_get (disk s) v) s" using assms by (simp add: fat_state_def)
  from write_fat_entry_state [OF this assms(3), of "word_of_nat n" "0x0ffffff8"]
  have "fat_state inv disk resident v (disk s) ((fat_get (disk s) v)(n := 0x0ffffff8)) (snd (allocate_cluster io v (word_of_nat n) s))"
    using assms(4) unfolding u allocate_cluster_def set_fat_cluster_ptr_def by auto
  moreover have "(fat_get (disk s) v)(n := 0x0ffffff8) = chained_block n 0 (fat_get (disk s) v)"
    by (auto simp: chained_block_def fun_eq_iff)
  ultimately show ?thesis using chain_block_state [OF _ assms(3,4)] by simp
qed

end

section \<open>Writing the data\<close>

text \<open>Consecutive sectors of consecutive clusters are consecutive sectors of the disk.\<close>

lemma spc_word: "(word_of_nat (spc v) :: u32) = ucast (sectors_per_cluster v)"
  by (simp add: unsigned_ucast_eq)

lemma file_sector_next: "file_sector v c sec + 1 = file_sector v c (Suc sec)"
  "Suc sec = spc v \<Longrightarrow> file_sector v c sec + 1 = file_sector v (c + 1) 0"
proof -
  show "file_sector v c sec + 1 = file_sector v c (Suc sec)" by (simp add: file_sector_def)
  assume "Suc sec = spc v"
  then have "(word_of_nat (Suc sec) :: u32) = ucast (sectors_per_cluster v)" by (simp only: spc_word)
  then have "1 + word_of_nat sec = (ucast (sectors_per_cluster v) :: u32)" by simp
  then show "file_sector v c sec + 1 = file_sector v (c + 1) 0"
    by (simp add: file_sector_def algebra_simps)
qed

lemma file_sector_run:
  assumes "i < k" "j < spc v"
  shows "file_sector_at v (map (\<lambda>i. word_of_nat (n + i)) [0 ..< k]) (i * spc v + j) = file_sector v (word_of_nat n) 0 + word_of_nat (i * spc v + j)"
proof -
  have distrib: "(x + y - 2) * w + z = (x - 2) * w + (y * w + z)" for x y z w :: u32
    by (simp add: algebra_simps)
  have "(i * spc v + j) div spc v = i" "(i * spc v + j) mod spc v = j" using assms(2) by simp_all
  then have "file_sector_at v (map (\<lambda>i. word_of_nat (n + i)) [0 ..< k]) (i * spc v + j) = file_sector v (word_of_nat (n + i)) j"
    using assms(1) by (simp add: file_sector_at_def)
  also have "\<dots> = first_data_sector v + (word_of_nat n + word_of_nat i - 2) * word_of_nat (spc v) + word_of_nat j"
    by (simp only: file_sector_def spc_word of_nat_add)
  also have "\<dots> = first_data_sector v + (word_of_nat n - 2) * word_of_nat (spc v) + word_of_nat (i * spc v + j)"
    unfolding of_nat_add of_nat_mult add.assoc by (simp only: distrib)
  finally show ?thesis by (simp only: file_sector_def spc_word) simp
qed

lemma length_buffer_sector [simp]: "length (buffer_sector buf n k) = 512"
  by (simp add: buffer_sector_def Let_def min_def)

context sector_store
begin

lemma write_buffer_sectors_eq:
  assumes "inv s" "sec < spc v" "count < 2 ^ 32"
  shows "\<exists>s'. write_buffer_sectors io v buf n count k c sec s = (True, s') \<and> inv s'
    \<and> (\<forall>a. disk s' a = (if unat (a - file_sector v c sec) < count
          then buffer_sector buf n (k + unat (a - file_sector v c sec)) else disk s a))"
  using assms
proof (induction count arbitrary: k c sec s)
  case 0
  then show ?case by simp
next
  case (Suc count)
  let ?a0 = "file_sector v c sec" and ?b = "buffer_sector buf n k"
  let ?s1 = "after_wr io ?a0 ?b s"
  have len: "length ?b = 512" by simp
  have s1: "wr io ?a0 ?b s = (True, ?s1)" "inv ?s1" "disk ?s1 = (disk s)(?a0 := ?b)"
    using Suc.prems(1) len by simp_all
  define c' sec' where "c' = (if sec + 1 < spc v then c else c + 1)" and "sec' = (if sec + 1 < spc v then sec + 1 else 0)"
  have nx: "file_sector v c' sec' = ?a0 + 1" "sec' < spc v"
  proof -
    have "Suc sec = spc v" if "\<not> Suc sec < spc v" using that Suc.prems(2) by simp
    then show "file_sector v c' sec' = ?a0 + 1" "sec' < spc v"
      using Suc.prems(2) file_sector_next(1) [of v c sec] file_sector_next(2) [of sec v c]
      by (auto simp only: c'_def sec'_def if_True if_False Suc_eq_plus1 [symmetric] split: if_splits)
  qed
  obtain s' where s': "write_buffer_sectors io v buf n count (k + 1) c' sec' ?s1 = (True, s')" "inv s'"
      "\<forall>a. disk s' a = (if unat (a - (?a0 + 1)) < count then buffer_sector buf n (k + 1 + unat (a - (?a0 + 1))) else disk ?s1 a)"
    using Suc.IH [OF s1(2) nx(2), of "k + 1" c'] Suc.prems(3) unfolding nx(1) by auto
  have shift: "unat (a - (?a0 + 1)) = unat (a - ?a0) - 1" if "a \<noteq> ?a0" for a
  proof -
    have "a - ?a0 \<noteq> 0" using that by simp
    then show ?thesis by (simp add: diff_diff_eq [symmetric] unat_minus_one)
  qed
  have "disk s' a = (if unat (a - ?a0) < Suc count then buffer_sector buf n (k + unat (a - ?a0)) else disk s a)" for a
  proof (cases "a = ?a0")
    case True
    have "unat (- 1 :: u32) = 2 ^ 32 - 1" by (simp add: unsigned_minus_1_eq_mask mask_eq_exp_minus_1)
    with Suc.prems(3) s' s1(3) True show ?thesis by simp
  next
    case False
    then have "0 < unat (a - ?a0)" by (simp add: unat_gt_0)
    with False s' s1(3) shift [OF False] show ?thesis by auto
  qed
  moreover have "write_buffer_sectors io v buf n (Suc count) k c sec s = (True, s')"
    using s1(1) s'(1) by (simp add: c'_def sec'_def split: if_splits)
  ultimately show ?case using s'(2) by blast
qed

end

section \<open>The file on the disk\<close>

text \<open>The layout \<open>open_file_system\<close> computes: reserved sectors, two FATs, the data clusters.\<close>

definition geometry_ok :: "vol \<Rightarrow> bool" where
  "geometry_ok v \<longleftrightarrow> vol_ok v \<and> 0 < spc v \<and> fat1_sector v = reserved_sectors v
     \<and> 128 * fat_len v < unat end_marker \<and> unat (partition_start v) + unat (reserved_sectors v) + 2 * fat_len v + 128 * fat_len v * spc v < 2 ^ 32"

lemma unat_file_sector:
  assumes "geometry_ok v" "2 \<le> n" "n < 128 * fat_len v" "j < spc v"
  shows "unat (file_sector v (word_of_nat n) j)
    = unat (partition_start v) + unat (reserved_sectors v) + 2 * fat_len v + ((n - 2) * spc v + j)"
proof -
  let ?b = "unat (partition_start v) + unat (reserved_sectors v) + 2 * fat_len v"
  have "(n - 2) * spc v + j < (n - 2) * spc v + spc v" using assms(4) by simp
  also have "\<dots> = (n - 1) * spc v" using assms(2) by (simp add: diff_mult_distrib flip: add_mult_distrib)
  also have "\<dots> \<le> 128 * fat_len v * spc v" using assms(3) by (intro mult_le_mono1) simp
  finally have small: "?b + ((n - 2) * spc v + j) < 2 ^ 32" using assms(1) by (simp add: geometry_ok_def)
  have "file_sector v (word_of_nat n) j = word_of_nat (?b + ((n - 2) * spc v + j))"
    using assms(2) by (simp add: file_sector_def first_data_sector_def spc_word of_nat_diff)
  then have "unat (file_sector v (word_of_nat n) j) = (?b + ((n - 2) * spc v + j)) mod 2 ^ 32"
    by (simp only: unat_of_nat) simp
  with small show ?thesis by simp
qed

lemma data_not_fat:
  assumes "geometry_ok v" "2 \<le> n" "n < 128 * fat_len v" "j < spc v"
  shows "file_sector v (word_of_nat n) j \<notin> fat_sectors v"
proof
  have v: "vol_ok v" "fat1_sector v = reserved_sectors v" using assms(1) by (simp_all add: geometry_ok_def)
  assume "file_sector v (word_of_nat n) j \<in> fat_sectors v"
  then obtain i where i: "i < fat_len v"
    and "file_sector v (word_of_nat n) j = fat1_at v i \<or> file_sector v (word_of_nat n) j = fat2_at v i"
    unfolding fat_sectors_def by blast
  then have "unat (file_sector v (word_of_nat n) j) < unat (partition_start v) + unat (reserved_sectors v) + 2 * fat_len v"
    using fat_at_unat [OF v(1) i] v(2) by auto
  then show False unfolding unat_file_sector [OF assms] by simp
qed

lemma nth_concat_slots:
  "\<forall>x \<in> set xs. length x = w \<Longrightarrow> i < w * length xs \<Longrightarrow> concat xs ! i = xs ! (i div w) ! (i mod w)"
proof -
  assume a: "\<forall>x \<in> set xs. length x = w" "i < w * length xs"
  then have w: "0 < w" by (cases w) auto
  have q: "i div w < length xs" using a(2) by (simp add: less_mult_imp_div_less mult.commute)
  have "xs ! (i div w) ! (i mod w) = subbuf (w * (i div w)) w (concat xs) ! (i mod w)"
    using subbuf_concat_slots [OF a(1) q] by simp
  also have "\<dots> = concat xs ! (w * (i div w) + i mod w)"
    using a w length_concat_slots [OF a(1)] by (intro nth_subbuf) simp_all
  finally show ?thesis by simp
qed

text \<open>The block of clusters as a list, its sectors, its bytes and its chain.\<close>

abbreviation block_of :: "nat \<Rightarrow> nat \<Rightarrow> u32 list" where
  "block_of n k \<equiv> map (\<lambda>i. word_of_nat (n + i)) [0 ..< k]"

lemma block_sector:
  assumes "0 < spc v" "i < spc v * k"
  shows "file_sector_at v (block_of n k) i = file_sector v (word_of_nat n) 0 + word_of_nat i"
  using file_sector_run [of "i div spc v" k "i mod spc v" v n] assms
  by (simp add: less_mult_imp_div_less mult.commute)

lemma nth_buffer_sector:
  "r < 512 \<Longrightarrow> 512 * k + r < n \<Longrightarrow>
   buffer_sector buf n k ! r = (if 512 * k + r < length buf then buf ! (512 * k + r) else 0)"
  by (auto simp: buffer_sector_def Let_def nth_append min_def)

lemma block_content:
  assumes "0 < spc v" "unat (file_size fi) \<le> 512 * (spc v * k)" "\<forall>n. length (D n) = 512"
    and "\<forall>i < (unat (file_size fi) + 511) div 512. D (file_sector v (word_of_nat n) 0 + word_of_nat i)
       = buffer_sector (write_buf fi) (unat (file_size fi)) i"
    and "file_size fi' = file_size fi"
  shows "file_content D v (block_of n k) fi' = buffer_content fi"
proof (rule nth_equalityI)
  let ?sz = "unat (file_size fi)" and ?xs = "map (\<lambda>i. D (file_sector_at v (block_of n k) i)) [0 ..< spc v * k]"
  show "length (file_content D v (block_of n k) fi') = length (buffer_content fi)"
    using assms(2,5) length_file_bytes [OF assms(3), of v "block_of n k"] by (simp add: file_content_def buffer_content_def)
  fix i assume "i < length (file_content D v (block_of n k) fi')"
  then have i: "i < ?sz" using assms(5) by (simp add: file_content_def)
  have q: "i div 512 < (?sz + 511) div 512" "i div 512 < spc v * k" using i assms(2)
    by (simp_all add: less_mult_imp_div_less mult.commute)
  have "file_content D v (block_of n k) fi' ! i = concat ?xs ! i"
    using i assms(5) by (simp add: file_content_def file_bytes_def)
  also have "\<dots> = ?xs ! (i div 512) ! (i mod 512)"
    using i assms(2,3) by (intro nth_concat_slots) auto
  also have "\<dots> = buffer_sector (write_buf fi) ?sz (i div 512) ! (i mod 512)"
    using q assms(1,4) by (simp add: block_sector del: of_nat_add)
  also have "\<dots> = buffer_content fi ! i"
    using i nth_buffer_sector [of "i mod 512" "i div 512" ?sz "write_buf fi"]
    by (simp add: buffer_content_def nth_spec_truncate)
  finally show "file_content D v (block_of n k) fi' ! i = buffer_content fi ! i" .
qed

lemma block_chain:
  assumes "geometry_ok v" "2 \<le> n" "n + k \<le> 128 * fat_len v" "0 < k"
    and "\<forall>m < 128 * fat_len v. E m = chained_block n (k - 1) E0 m"
  shows "file_chain E (128 * fat_len v) (block_of n k)"
proof -
  have N: "n + k < unat end_marker" "n + k < 2 ^ 28"
    using assms(1,3) by (simp_all add: geometry_ok_def end_marker_def)
  have u: "unat (word_of_nat (n + i) :: u32) = n + i" if "i < k" for i
    using that N by (simp add: unat_of_nat del: of_nat_add)
  have "word_of_nat (n + i) \<noteq> (0 :: u32) \<and> word_of_nat (n + i) < (end_marker :: u32)" if "i < k" for i
  proof -
    have "unat (word_of_nat (n + i) :: u32) \<noteq> unat (0 :: u32)" "unat (word_of_nat (n + i) :: u32) < unat end_marker"
      using u [OF that] that N assms(2) by (simp_all del: of_nat_add)
    then show ?thesis by (metis word_less_nat_alt)
  qed
  moreover have "E (unat (word_of_nat (n + i) :: u32)) AND 0x0fffffff = word_of_nat (n + Suc i)" if "Suc i < k" for i
  proof -
    have lt: "n + i < 128 * fat_len v" "n + i < n + (k - 1)" using that assms(3) by simp_all
    have "chained_block n (k - 1) E0 (n + i) = word_of_nat (n + i + 1)"
      unfolding chained_block_def using lt(2) by (simp only: le_add1 if_True simp_thms)
    then have "E (n + i) = word_of_nat (n + Suc i)" using assms(5) lt(1) by simp
    moreover have "word_of_nat (n + Suc i) AND 0x0fffffff = (word_of_nat (n + Suc i) :: u32)"
      using u [of "Suc i"] that N by (intro mask_small) simp
    ultimately show ?thesis using u [of i] that by simp
  qed
  ultimately show ?thesis
    using assms(3,4) u by (auto simp: file_chain_def simp del: of_nat_add)
qed

lemma block_of_hd: "0 < k \<Longrightarrow> hd (block_of n k) = word_of_nat n"
  by (simp add: hd_map)

lemma block_of_set:
  assumes "geometry_ok v" "n + k \<le> 128 * fat_len v"
  shows "unat ` set (block_of n k) = {n ..< n + k}"
proof -
  have "n + k < 2 ^ 32" using assms by (simp add: geometry_ok_def end_marker_def)
  then have "unat (word_of_nat i :: u32) = i" if "i < n + k" for i using that by (simp add: unat_of_nat)
  then show ?thesis by (force simp: image_image image_iff intro!: bexI [of _ "x - n" for x] simp del: of_nat_add)
qed

section \<open>Flushing\<close>

definition clusters_needed :: "vol \<Rightarrow> nat \<Rightarrow> nat" where
  "clusters_needed v sz = (sz + cluster_size v - 1) div cluster_size v"

text \<open>The file's directory entry lies in its sector buffer, outside the FATs and the free clusters.\<close>

abbreviation entry_sector :: "vol \<Rightarrow> fileinfo \<Rightarrow> u32" where
  "entry_sector v fi \<equiv> partition_start v + fi_dir_sector fi"

definition entry_ok :: "vol \<Rightarrow> (nat \<Rightarrow> u32) \<Rightarrow> fileinfo \<Rightarrow> bool" where
  "entry_ok v E fi \<longleftrightarrow> (has_entry fi \<longrightarrow> length (dir_sector_buf fi) = 512 \<and> nat (fi_dir_sector_offset fi) + 32 \<le> 512
     \<and> entry_sector v fi \<notin> fat_sectors v
     \<and> (\<forall>n j. 2 \<le> n \<and> n < 128 * fat_len v \<and> E n = 0 \<and> j < spc v \<longrightarrow> entry_sector v fi \<noteq> file_sector v (word_of_nat n) j))"

lemma clusters_needed_word:
  assumes "0 < spc v" "unat sz + cluster_size v < 2 ^ 32"
  shows "unat ((sz + (word_of_nat (cluster_size v) :: u32) - 1) div word_of_nat (cluster_size v)) = clusters_needed v (unat sz)"
proof -
  have cs: "0 < cluster_size v" "cluster_size v < 2 ^ 32" using assms by (simp_all add: cluster_size_def)
  then have w: "unat (word_of_nat (cluster_size v) :: u32) = cluster_size v" by (simp add: unat_of_nat)
  have "unat (sz + (word_of_nat (cluster_size v) :: u32)) = unat sz + cluster_size v"
    using assms(2) w by (simp add: unat_word_ariths)
  moreover from this have "sz + (word_of_nat (cluster_size v) :: u32) \<noteq> 0" using cs(1) by auto
  ultimately have "unat (sz + (word_of_nat (cluster_size v) :: u32) - 1) = unat sz + cluster_size v - 1"
    by (simp add: unat_minus_one)
  then show ?thesis by (simp add: w clusters_needed_def)
qed

lemma clusters_needed_enough:
  assumes "0 < spc v" "0 < sz"
  shows "0 < clusters_needed v sz" "sz \<le> 512 * (spc v * clusters_needed v sz)"
    "(sz + 511) div 512 \<le> spc v * clusters_needed v sz"
proof -
  let ?cs = "cluster_size v"
  have cs: "0 < ?cs" "?cs = 512 * spc v" using assms(1) by (simp_all add: cluster_size_def)
  then show "0 < clusters_needed v sz" using assms(2) by (simp add: clusters_needed_def div_greater_zero_iff)
  have "sz + ?cs - 1 < ?cs * clusters_needed v sz + ?cs"
    using cs(1) mult_div_mod_eq [of ?cs "sz + ?cs - 1"] mod_less_divisor [of ?cs "sz + ?cs - 1"]
    unfolding clusters_needed_def by linarith
  then show "sz \<le> 512 * (spc v * clusters_needed v sz)" using cs by (simp add: mult.assoc)
  then show "(sz + 511) div 512 \<le> spc v * clusters_needed v sz" by simp
qed

lemma write_buf_entry_simps [simp]:
  "fi_first_cluster (set_entry_file_size sz fi) = fi_first_cluster fi"
  "dir_sector_buf (set_entry_file_size sz fi) = pack_dir_entry_le32 (dir_sector_buf fi) (nat (fi_dir_sector_offset fi) + 0x1C) sz"
  "length (dir_sector_buf fi) = 512 \<Longrightarrow> nat (fi_dir_sector_offset fi) + 32 \<le> 512 \<Longrightarrow>
    length (dir_sector_buf (set_entry_first_cluster c fi)) = 512"
  by (simp_all add: set_entry_file_size_def set_entry_first_cluster_def Let_def pack_dir_entry_le16_def)

definition flushed_fields :: "u32 \<Rightarrow> fileinfo \<Rightarrow> fileinfo \<Rightarrow> bool" where
  "flushed_fields start fi fi' \<longleftrightarrow> \<not> buffered fi' \<and> write_buf fi' = [] \<and> file_size fi' = file_size fi
     \<and> fi_first_cluster fi' = start \<and> write_cluster fi' = start \<and> sector_in_cluster fi' = 0
     \<and> last_offset fi' = 0 \<and> current_cluster fi' = start \<and> current_cluster_idx fi' = 0"

context sector_store
begin

lemma write_block_state:
  assumes "fat_state inv disk resident v d0 E s" "geometry_ok v" "2 \<le> n" "n + k \<le> 128 * fat_len v"
    and "count \<le> spc v * k"
  shows "\<exists>s'. write_buffer_sectors io v buf sz count 0 (word_of_nat n) 0 s = (True, s') \<and> inv s'
    \<and> (\<forall>i < count. disk s' (file_sector v (word_of_nat n) 0 + word_of_nat i) = buffer_sector buf sz i)
    \<and> (\<forall>a. (\<forall>i < count. a \<noteq> file_sector v (word_of_nat n) 0 + word_of_nat i) \<longrightarrow> disk s' a = disk s a)"
proof -
  let ?b = "file_sector v (word_of_nat n) 0"
  have "spc v * k \<le> spc v * (128 * fat_len v)" using assms(4) by (intro mult_le_mono2) simp
  from order.trans [OF assms(5) this] have "count \<le> 128 * fat_len v * spc v" by (simp only: mult.commute)
  then have c: "count < 2 ^ 32" using assms(2) unfolding geometry_ok_def by linarith
  then have w: "unat (word_of_nat i :: u32) = i" if "i < count" for i using that by (simp add: unat_of_nat)
  have "inv s" "0 < spc v" using assms(1,2) by (simp_all add: fat_state_def geometry_ok_def)
  then obtain s' where s': "write_buffer_sectors io v buf sz count 0 (word_of_nat n) 0 s = (True, s')" "inv s'"
      "\<forall>a. disk s' a = (if unat (a - ?b) < count then buffer_sector buf sz (0 + unat (a - ?b)) else disk s a)"
    using write_buffer_sectors_eq [of s 0 v count buf sz 0 "word_of_nat n"] c by auto
  moreover have "a = ?b + word_of_nat (unat (a - ?b))" for a by simp
  ultimately show ?thesis using w by (metis add_0 add_diff_cancel_left')
qed

text \<open>The sectors of the block are those of its clusters, so they are not FAT sectors.\<close>

lemma block_sector_cases:
  assumes "geometry_ok v" "2 \<le> n" "n + k \<le> 128 * fat_len v" "i < spc v * k"
  shows "\<exists>m j. n \<le> m \<and> m < n + k \<and> j < spc v
    \<and> file_sector v (word_of_nat n) 0 + word_of_nat i = file_sector v (word_of_nat m) j"
proof -
  have s: "0 < spc v" using assms(1) by (simp add: geometry_ok_def)
  have q: "i div spc v < k" using assms(4) by (simp add: less_mult_imp_div_less mult.commute)
  have "file_sector v (word_of_nat n) 0 + word_of_nat i = file_sector v (word_of_nat (n + i div spc v)) (i mod spc v)"
    using block_sector [OF s assms(4), of n] q by (simp add: file_sector_at_def del: of_nat_add)
  then show ?thesis using q s by (intro exI [of _ "n + i div spc v"] exI [of _ "i mod spc v"]) simp
qed

text \<open>The entry is written last; it overwrites neither the FAT nor the data.\<close>

lemma write_entry_sector_disk:
  assumes "inv s" "length (dir_sector_buf fi) = 512"
  shows "disk (write_entry_sector io v fi s) = (disk s)(entry_sector v fi := dir_sector_buf fi)"
    "inv (write_entry_sector io v fi s)"
  using assms by (simp_all add: write_entry_sector_def)

lemma flush_eq:
  assumes "inv s" "fat_both resident v s" "geometry_ok v" "entry_ok v (fat_get (disk s) v) fi"
    and sz: "file_size fi \<noteq> 0" "unat (file_size fi) + cluster_size v < 2 ^ 32"
    and k: "k = clusters_needed v (unat (file_size fi))"
    and run: "2 \<le> c" "c + k \<le> 128 * fat_len v" "\<forall>j < k. fat_get (disk s) v (c + j) = 0"
  shows "\<exists>n fi' s'. flush_write_buffer io v fi s = Some (True, fi', s') \<and> inv s' \<and> flushed_fields (word_of_nat n) fi fi'
    \<and> 2 \<le> n \<and> n + k \<le> 128 * fat_len v \<and> (\<forall>j < k. fat_get (disk s) v (n + j) = 0)
    \<and> (\<forall>m < 128 * fat_len v. fat_get (disk s') v m = chained_block n (k - 1) (fat_get (disk s) v) m)
    \<and> file_content (disk s') v (block_of n k) fi' = buffer_content fi
    \<and> (has_entry fi \<longrightarrow> disk s' (entry_sector v fi) =
        dir_sector_buf (set_entry_file_size (file_size fi) (set_entry_first_cluster (word_of_nat n) fi)))"
proof -
  let ?sz = "unat (file_size fi)" and ?N = "128 * fat_len v"
  have g: "vol_ok v" "0 < spc v" using assms(3) by (simp_all add: geometry_ok_def)
  have "0 < ?sz" using sz(1) by (simp add: unat_gt_0)
  note need = clusters_needed_enough [OF g(2) this, folded k]
  define w where "w = (file_size fi + (word_of_nat (cluster_size v) :: u32) - 1) div word_of_nat (cluster_size v)"
  have w: "unat w = k" using clusters_needed_word [OF g(2) sz(2)] by (simp add: w_def k)
  have "0 < w" using need(1) w by (simp add: word_less_nat_alt)
  have both: "fat_both stable v s" using assms(1,2) resident_stable by (simp add: fat_both_def)
  obtain b s1 where b: "find_contiguous_clusters io v w s = Some (Some b, s1)" "2 \<le> unat b" "unat b \<le> c"
      "\<forall>j < k. fat_get (disk s) v (unat b + j) = 0"
    and s1: "read_only inv disk resident s s1"
    using res.find_contiguous_from_returns [OF assms(1,2) g(1), of 0 c w] run \<open>0 < w\<close> w
    by (auto simp: find_contiguous_clusters_def)
  define n where "n = unat b"
  have n: "2 \<le> n" "n + k \<le> ?N" "b = word_of_nat n" using b(2,3) run(2) by (simp_all add: n_def)
  have "unat b < unat end_marker" using n(2) assms(3) need(1) unfolding n_def geometry_ok_def by linarith
  then have b_end: "\<not> is_end b" using b(2) by (auto simp: is_end_def word_le_nat_alt)
  note d1 = read_onlyD [OF s1]
  let ?s2 = "chain_block io v b [1 ..< k] (snd (allocate_cluster io v b s1))"
  have "n + (k - 1) < ?N" "Suc (k - 1) = k" using n(2) need(1) by simp_all
  with allocate_block_state [OF d1(1) d1(4) [OF assms(2)] g(1), of n "k - 1"]
  have s2: "fat_state inv disk resident v (disk s) (chained_block n (k - 1) (fat_get (disk s) v)) ?s2"
    by (simp only: n(3) d1(2))
  let ?base = "file_sector v b 0" and ?cnt = "(?sz + 511) div 512"
  obtain s3 where s3: "write_buffer_sectors io v (write_buf fi) ?sz ?cnt 0 b 0 ?s2 = (True, s3)" "inv s3"
      "\<forall>i < ?cnt. disk s3 (?base + word_of_nat i) = buffer_sector (write_buf fi) ?sz i"
      "\<forall>a. (\<forall>i < ?cnt. a \<noteq> ?base + word_of_nat i) \<longrightarrow> disk s3 a = disk ?s2 a"
    using write_block_state [OF s2 assms(3) n(1,2) need(3), of "write_buf fi" ?sz] unfolding n(3) by blast
  have data: "\<exists>m j. n \<le> m \<and> m < n + k \<and> j < spc v \<and> ?base + word_of_nat i = file_sector v (word_of_nat m) j" if "i < ?cnt" for i
    using block_sector_cases [OF assms(3) n(1,2), of i] that need(3) n(3) by simp
  have not_fat: "?base + word_of_nat i \<notin> fat_sectors v" if "i < ?cnt" for i
    using data [OF that] data_not_fat [OF assms(3)] n(1,2) by fastforce
  have fat3: "disk s3 a = disk ?s2 a" if "a \<in> fat_sectors v" for a
  proof (rule s3(4) [rule_format])
    fix i assume "i < ?cnt"
    from not_fat [OF this] that show "a \<noteq> ?base + word_of_nat i" by blast
  qed
  let ?fi1 = "if has_entry fi then set_entry_file_size (file_size fi) (set_entry_first_cluster b fi) else fi"
  let ?s4 = "if has_entry fi then write_entry_sector io v ?fi1 s3 else s3"
  let ?fi' = "?fi1\<lparr>fi_first_cluster := b, write_cluster := b, sector_in_cluster := 0, last_offset := 0, current_cluster := b,
      current_cluster_idx := 0, write_buf := [], buffered := False\<rparr>"
  have e: "entry_sector v fi \<notin> fat_sectors v" "\<forall>i < ?cnt. ?base + word_of_nat i \<noteq> entry_sector v fi"
      "length (dir_sector_buf ?fi1) = 512" if "has_entry fi"
  proof -
    note eo = assms(4) [unfolded entry_ok_def, rule_format, OF that]
    then show "entry_sector v fi \<notin> fat_sectors v" "length (dir_sector_buf ?fi1) = 512"
      using that by (simp_all add: pack_dir_entry_le32_def)
    show "\<forall>i < ?cnt. ?base + word_of_nat i \<noteq> entry_sector v fi"
    proof (intro allI impI)
      fix i assume "i < ?cnt"
      from data [OF this] obtain m j where mj: "n \<le> m" "m < n + k" "j < spc v"
        "?base + word_of_nat i = file_sector v (word_of_nat m) j" by blast
      have "fat_get (disk s) v m = 0" using b(4) mj(1,2) le_Suc_ex [OF mj(1)] unfolding n_def by auto
      moreover have "2 \<le> m" "m < 128 * fat_len v" using mj(1,2) n(1,2) by simp_all
      ultimately have "entry_sector v fi \<noteq> file_sector v (word_of_nat m) j" using eo mj(3) by blast
      then show "?base + word_of_nat i \<noteq> entry_sector v fi" unfolding mj(4) by (rule not_sym)
    qed
  qed
  have s4: "inv ?s4" "disk ?s4 = (if has_entry fi then (disk s3)(entry_sector v fi := dir_sector_buf ?fi1) else disk s3)"
    using s3(2) write_entry_sector_disk [OF s3(2), of ?fi1 v] e(3) by auto
  have wn: "word_of_nat n = b" using n(3) by simp
  have f1: "flush_write_buffer io v fi s = Some (True, ?fi', ?s4)"
    using sz(1) b(1) b_end s3(1)
    by (simp add: flush_write_buffer_def Let_def flip: w_def) (simp add: w Let_def)
  have f2: "flushed_fields b fi ?fi'"
    by (simp add: flushed_fields_def)
  have f3: "fat_get (disk ?s4) v m = chained_block n (k - 1) (fat_get (disk s) v) m" if "m < ?N" for m
  proof -
    have "m div 128 < fat_len v" using that by (simp add: less_mult_imp_div_less mult.commute)
    then have f: "fat1_at v (m div 128) \<in> fat_sectors v" unfolding fat_sectors_def by blast
    have "((disk s3)(entry_sector v fi := x)) (fat1_at v (m div 128)) = disk s3 (fat1_at v (m div 128))" if "has_entry fi" for x
    proof (rule fun_upd_other)
      show "fat1_at v (m div 128) \<noteq> entry_sector v fi" using e(1) [OF that] f by metis
    qed
    then have "disk ?s4 (fat1_at v (m div 128)) = disk s3 (fat1_at v (m div 128))"
      unfolding s4(2) by (cases "has_entry fi") (simp_all only: if_True if_False)
    then have "disk ?s4 (fat1_at v (m div 128)) = disk ?s2 (fat1_at v (m div 128))" using fat3 [OF f] by (rule trans)
    then show ?thesis using s2 that by (simp add: fat_state_def fat_get_def)
  qed
  have f4: "file_content (disk ?s4) v (block_of n k) ?fi' = buffer_content fi"
  proof (rule block_content [OF g(2) need(2)])
    show "\<forall>n. length (disk ?s4 n) = 512" using disk_length [OF s4(1)] by blast
    show "\<forall>i < ?cnt. disk ?s4 (file_sector v (word_of_nat n) 0 + word_of_nat i) = buffer_sector (write_buf fi) ?sz i"
      using s3(3) e(2) unfolding s4(2) n(3) [symmetric] by auto
  qed simp
  have f5: "has_entry fi \<longrightarrow> disk ?s4 (entry_sector v fi) =
      dir_sector_buf (set_entry_file_size (file_size fi) (set_entry_first_cluster b fi))"
    unfolding s4(2) by simp
  have f6: "\<forall>j < k. fat_get (disk s) v (n + j) = 0" using b(4) by (simp only: n_def)
  show ?thesis
  proof (intro exI [of _ n] exI [of _ ?fi'] exI [of _ ?s4] conjI)
    show "flushed_fields (word_of_nat n) fi ?fi'" unfolding wn by (rule f2)
    show "has_entry fi \<longrightarrow> disk ?s4 (entry_sector v fi) =
        dir_sector_buf (set_entry_file_size (file_size fi) (set_entry_first_cluster (word_of_nat n) fi))"
      unfolding wn by (rule f5)
    show "\<forall>m < ?N. fat_get (disk ?s4) v m = chained_block n (k - 1) (fat_get (disk s) v) m" using f3 by blast
  qed (rule f1 f4 f6 s4(1) n(1,2))+
qed

end

lemma geometry_small_vol: "geometry_ok small_vol"
  by (simp add: geometry_ok_def end_marker_def) (simp add: small_vol_def)

text \<open>A file of three bytes, still in memory, whose directory entry is in the first sector of cluster 2.\<close>

definition sample_pending :: fileinfo where
  "sample_pending = (created_file sample_dirs no_file)\<lparr>file_size := 3, write_buf := [1, 2, 3], buffered := True,
     fi_dir_sector := 34, fi_dir_sector_offset := 64, dir_sector_buf := replicate 512 0\<rparr>"

lemma sample_pending_entry: "entry_ok small_vol (\<lambda>n. if n mod 128 < 3 then 7 else 0) sample_pending"
proof -
  have f: "sample_pending = sample_pending\<lparr>fi_dir_sector := 34, fi_dir_sector_offset := 64, dir_sector_buf := replicate 512 0\<rparr>"
    by (simp add: sample_pending_def)
  have e: "entry_sector small_vol sample_pending = file_sector small_vol (word_of_nat 2) 0"
    by (subst f) (simp add: small_vol_def file_sector_def first_data_sector_def)
  have s: "spc small_vol = 8" by (simp add: small_vol_def)
  have "entry_sector small_vol sample_pending \<notin> fat_sectors small_vol"
    unfolding e using data_not_fat [OF geometry_small_vol, of 2 0] s by simp
  moreover have "entry_sector small_vol sample_pending \<noteq> file_sector small_vol (word_of_nat n) j"
    if n: "2 \<le> n" "n < 128" and E: "(if n mod 128 < 3 then 7 else 0 :: u32) = 0" and j: "j < spc small_vol" for n j
  proof -
    have "3 \<le> n" using n E by (simp split: if_splits)
    moreover have "unat (file_sector small_vol (word_of_nat n) j) = 2048 + 32 + 2 + ((n - 2) * 8 + j)"
      using unat_file_sector [OF geometry_small_vol, of n j] n j s by (simp add: small_vol_def)
    moreover have "unat (file_sector small_vol (word_of_nat 2) 0) = 2048 + 32 + 2"
      using unat_file_sector [OF geometry_small_vol, of 2 0] s by (simp add: small_vol_def)
    ultimately have "unat (file_sector small_vol (word_of_nat 2) 0) < unat (file_sector small_vol (word_of_nat n) j)"
      by simp
    then show ?thesis unfolding e by (metis less_irrefl)
  qed
  moreover have "length (dir_sector_buf sample_pending) = 512 \<and> nat (fi_dir_sector_offset sample_pending) + 32 \<le> 512"
    by (subst f, subst (2) f) simp
  ultimately show ?thesis unfolding entry_ok_def by simp
qed

text \<open>
  C15: a new file survives the flush from host memory to the card.  When the FAT has a run of free
  clusters for it, \<open>flush_write_buffer\<close> succeeds; the file then has a chain of clusters that all
  were free, no other FAT entry changed, the bytes on that chain up to the file size are the
  contents the buffer stood for, and the directory entry holds the size and first cluster.
\<close>
theorem flush_write_buffer_roundtrip:
  assumes "blk_inv ops s" "fat_both blk_resident v s" "geometry_ok v"
    and "entry_ok v (fat_get (blk_disk ops s) v) fi"
    and "file_size fi \<noteq> 0" "unat (file_size fi) + cluster_size v < 2 ^ 32"
    and "2 \<le> c" "c + clusters_needed v (unat (file_size fi)) \<le> 128 * fat_len v"
    and "\<forall>j < clusters_needed v (unat (file_size fi)). fat_get (blk_disk ops s) v (c + j) = 0"
  shows "\<exists>cs fi' s'. flush_write_buffer (blk_io ops) v fi s = Some (True, fi', s')
    \<and> flushed_fields (hd cs) fi fi'
    \<and> file_chain (fat_get (blk_disk ops s') v) (128 * fat_len v) cs
    \<and> (\<forall>x \<in> set cs. fat_get (blk_disk ops s) v (unat x) = 0)
    \<and> (\<forall>m < 128 * fat_len v. m \<notin> unat ` set cs \<longrightarrow> fat_get (blk_disk ops s') v m = fat_get (blk_disk ops s) v m)
    \<and> file_content (blk_disk ops s') v cs fi' = buffer_content fi
    \<and> (has_entry fi \<longrightarrow> blk_disk ops s' (entry_sector v fi)
        = dir_sector_buf (set_entry_file_size (file_size fi) (set_entry_first_cluster (hd cs) fi)))"
proof -
  let ?k = "clusters_needed v (unat (file_size fi))" and ?E = "fat_get (blk_disk ops s) v"
  obtain n fi' s' where n: "flush_write_buffer (blk_io ops) v fi s = Some (True, fi', s')" "blk_inv ops s'"
      "flushed_fields (word_of_nat n) fi fi'" "2 \<le> n" "n + ?k \<le> 128 * fat_len v" "\<forall>j < ?k. ?E (n + j) = 0"
      "\<forall>m < 128 * fat_len v. fat_get (blk_disk ops s') v m = chained_block n (?k - 1) ?E m"
      "file_content (blk_disk ops s') v (block_of n ?k) fi' = buffer_content fi"
      "has_entry fi \<longrightarrow> blk_disk ops s' (entry_sector v fi)
        = dir_sector_buf (set_entry_file_size (file_size fi) (set_entry_first_cluster (word_of_nat n) fi))"
    using blk.flush_eq [OF assms(1-6) refl assms(7-9)] by blast
  have "0 < unat (file_size fi)" "0 < spc v" using assms(3,5) by (simp_all add: unat_gt_0 geometry_ok_def)
  then have k: "0 < ?k" using clusters_needed_enough(1) by blast
  then have hd: "hd (block_of n ?k) = word_of_nat n" by (rule block_of_hd)
  have set: "unat ` set (block_of n ?k) = {n ..< n + ?k}" by (rule block_of_set [OF assms(3) n(5)])
  have free: "\<forall>x \<in> set (block_of n ?k). ?E (unat x) = 0"
  proof
    fix x :: u32 assume "x \<in> set (block_of n ?k)"
    then have x: "unat x \<in> {n ..< n + ?k}" unfolding set [symmetric] by blast
    then obtain j where "unat x = n + j" by (auto simp: le_iff_add)
    with x n(6) show "?E (unat x) = 0" by simp
  qed
  have frame: "fat_get (blk_disk ops s') v m = ?E m" if "m < 128 * fat_len v" "m \<notin> unat ` set (block_of n ?k)" for m
    using that k n(7) unfolding set chained_block_def by auto
  show ?thesis
  proof (intro exI [of _ "block_of n ?k"] exI [of _ fi'] exI [of _ s'] conjI)
    show "flushed_fields (hd (block_of n ?k)) fi fi'" unfolding hd by (rule n(3))
    show "has_entry fi \<longrightarrow> blk_disk ops s' (entry_sector v fi)
        = dir_sector_buf (set_entry_file_size (file_size fi) (set_entry_first_cluster (hd (block_of n ?k)) fi))"
      unfolding hd by (rule n(9))
    show "\<forall>m < 128 * fat_len v. m \<notin> unat ` set (block_of n ?k) \<longrightarrow> fat_get (blk_disk ops s') v m = ?E m"
      using frame by blast
  qed (rule n(1,8) free block_chain [OF assms(3) n(4,5) k n(7)])+
qed

theorem flush_write_buffer_roundtrip_witness:
  "\<exists>cs fi' s'. flush_write_buffer (blk_io device_ops) small_vol sample_pending (table_state (\<lambda>n. if n < 3 then 7 else 0))
      = Some (True, fi', s')
    \<and> file_chain (fat_get (blk_disk device_ops s') small_vol) 128 cs
    \<and> file_content (blk_disk device_ops s') small_vol cs fi' = [1, 2, 3]"
proof -
  have c: "file_size sample_pending = 3" "buffer_content sample_pending = [1, 2, 3]" "cluster_size small_vol = 4096"
    by (simp_all add: sample_pending_def buffer_content_def spec_truncate_def cluster_size_def small_vol_def)
  then have "clusters_needed small_vol (unat (file_size sample_pending)) = 1" by (simp add: clusters_needed_def)
  then show ?thesis
    using flush_write_buffer_roundtrip [of device_ops "table_state (\<lambda>n. if n < 3 then 7 else 0)" small_vol sample_pending 3]
      sample_pending_entry geometry_small_vol c by simp blast
qed

end
