(* ===== verification/DirectWrite.thy ===== *)
theory DirectWrite
  imports Flush
begin

text \<open>
  Writing a file that is on the card (\<open>m65ftp_pwrite\<close> past the write buffer,
  \<open>src/m65ftp_lib.c\<close>): within the clusters the file has, a write at a position found from the
  start of the chain changes exactly the bytes it was given; a write that goes on from where the
  last one stopped may not.
\<close>

section \<open>Chains that can be written along\<close>

text \<open>\<open>m65ftp_pwrite\<close> follows a chain without masking the top bits of the links.\<close>

definition data_chain :: "vol \<Rightarrow> (nat \<Rightarrow> u32) \<Rightarrow> u32 list \<Rightarrow> bool" where
  "data_chain v E cs \<longleftrightarrow> cs \<noteq> [] \<and> distinct cs \<and> (\<forall>c \<in> set cs. 2 \<le> unat c \<and> unat c < 128 * fat_len v)
     \<and> (\<forall>i. Suc i < length cs \<longrightarrow> E (unat (cs ! i)) = cs ! Suc i)"

lemma data_chain_nth:
  "data_chain v E cs \<Longrightarrow> i < length cs \<Longrightarrow> 2 \<le> unat (cs ! i) \<and> unat (cs ! i) < 128 * fat_len v"
  by (simp add: data_chain_def)

lemma data_chain_not_end:
  assumes "geometry_ok v" "data_chain v E cs" "i < length cs"
  shows "\<not> is_end (cs ! i)"
proof -
  have "unat (cs ! i) < unat end_marker" "2 \<le> unat (cs ! i)"
    using data_chain_nth [OF assms(2,3)] assms(1) by (simp_all add: geometry_ok_def)
  then show ?thesis by (auto simp: is_end_def word_le_nat_alt)
qed

lemma data_chain_cong:
  "data_chain v E cs \<Longrightarrow> (\<And>m. m < 128 * fat_len v \<Longrightarrow> E' m = E m) \<Longrightarrow> data_chain v E' cs"
  unfolding data_chain_def by (metis Suc_lessD nth_mem)

lemma data_file_chain:
  assumes "geometry_ok v" "data_chain v E cs"
  shows "file_chain E (128 * fat_len v) cs"
proof -
  have N: "128 * fat_len v \<le> 2 ^ 28" using assms(1) vol_ok_small [of v "128 * fat_len v"] by (simp add: geometry_ok_def)
  have "E (unat (cs ! i)) AND 0x0fffffff = cs ! Suc i" if "Suc i < length cs" for i
  proof -
    have "unat (cs ! Suc i) < 2 ^ 28" using N data_chain_nth [OF assms(2) that] by linarith
    from mask_small [OF this] show ?thesis using assms(2) that by (simp add: data_chain_def)
  qed
  moreover have "c \<noteq> 0 \<and> c < end_marker" if "c \<in> set cs" for c
    using that data_chain_not_end [OF assms] by (auto simp: in_set_conv_nth is_end_def not_le)
  ultimately show ?thesis using assms(2) by (simp add: file_chain_def data_chain_def)
qed

text \<open>Different sectors of a file are different sectors of the disk, and none of the FAT.\<close>

lemma file_sector_at_unat:
  assumes "geometry_ok v" "data_chain v E cs" "k < spc v * length cs"
  shows "unat (file_sector_at v cs k) = unat (partition_start v) + unat (reserved_sectors v) + 2 * fat_len v
      + ((unat (cs ! (k div spc v)) - 2) * spc v + k mod spc v)"
    "k div spc v < length cs"
proof -
  have s: "0 < spc v" using assms(1) by (simp add: geometry_ok_def)
  show i: "k div spc v < length cs" using assms(3) s by (simp add: less_mult_imp_div_less mult.commute)
  have "word_of_nat (unat (cs ! (k div spc v))) = cs ! (k div spc v)" by simp
  then show "unat (file_sector_at v cs k) = unat (partition_start v) + unat (reserved_sectors v) + 2 * fat_len v
      + ((unat (cs ! (k div spc v)) - 2) * spc v + k mod spc v)"
    using unat_file_sector [OF assms(1), of "unat (cs ! (k div spc v))" "k mod spc v"] data_chain_nth [OF assms(2) i] s
    by (simp add: file_sector_at_def)
qed

lemma file_sector_at_inj:
  assumes "geometry_ok v" "data_chain v E cs" "k < spc v * length cs" "k' < spc v * length cs"
    and "file_sector_at v cs k = file_sector_at v cs k'"
  shows "k = k'"
proof -
  let ?s = "spc v"
  have s: "0 < ?s" using assms(1) by (simp add: geometry_ok_def)
  note u = file_sector_at_unat [OF assms(1,2,3)] and u' = file_sector_at_unat [OF assms(1,2,4)]
  have "(unat (cs ! (k div ?s)) - 2) * ?s + k mod ?s = (unat (cs ! (k' div ?s)) - 2) * ?s + k' mod ?s"
    using u(1) u'(1) assms(5) by simp
  then have "((unat (cs ! (k div ?s)) - 2) * ?s + k mod ?s) div ?s = ((unat (cs ! (k' div ?s)) - 2) * ?s + k' mod ?s) div ?s"
    and m: "((unat (cs ! (k div ?s)) - 2) * ?s + k mod ?s) mod ?s = ((unat (cs ! (k' div ?s)) - 2) * ?s + k' mod ?s) mod ?s"
    by simp_all
  then have "unat (cs ! (k div ?s)) - 2 = unat (cs ! (k' div ?s)) - 2" using s by simp
  then have "unat (cs ! (k div ?s)) = unat (cs ! (k' div ?s))"
    using data_chain_nth [OF assms(2) u(2)] data_chain_nth [OF assms(2) u'(2)] by linarith
  then have "cs ! (k div ?s) = cs ! (k' div ?s)" by (simp only: word_unat_eq_iff)
  then have "k div ?s = k' div ?s" using assms(2) u(2) u'(2) by (simp add: data_chain_def nth_eq_iff_index_eq)
  moreover have "k mod ?s = k' mod ?s" using m by simp
  ultimately show ?thesis by (metis div_mult_mod_eq)
qed

lemma file_sector_not_fat:
  assumes "geometry_ok v" "data_chain v E cs" "k < spc v * length cs"
  shows "file_sector_at v cs k \<notin> fat_sectors v"
proof -
  have s: "0 < spc v" using assms(1) by (simp add: geometry_ok_def)
  have i: "k div spc v < length cs" by (rule file_sector_at_unat(2) [OF assms])
  from data_not_fat [OF assms(1), of "unat (cs ! (k div spc v))" "k mod spc v"] data_chain_nth [OF assms(2) i] s
  show ?thesis by (simp add: file_sector_at_def)
qed

section \<open>The bytes of a file under a write\<close>

lemma blit_blit: "length xs = n \<Longrightarrow> off + n \<le> length b \<Longrightarrow> off + n + length ys \<le> length b \<Longrightarrow>
    blit (off + n) ys (blit off xs b) = blit off (xs @ ys) b"
  by (rule nth_equalityI) (auto simp: nth_blit nth_append)

lemma blit_slot:
  assumes "o' + length xs \<le> w" "w * k + w \<le> length b"
  shows "blit (w * k) (blit o' xs (subbuf (w * k) w b)) b = blit (w * k + o') xs b"
  using assms by (intro nth_equalityI) (auto simp: nth_blit nth_subbuf)

lemma file_bytes_sector:
  assumes "\<forall>n. length (D n) = 512" "k < spc v * length cs"
  shows "subbuf (512 * k) 512 (file_bytes D v cs) = D (file_sector_at v cs k)"
  using subbuf_concat_slots [of "map (\<lambda>k. D (file_sector_at v cs k)) [0 ..< spc v * length cs]" 512 k] assms
  by (simp add: file_bytes_def)

lemma file_bytes_upd:
  assumes "\<forall>n. length (D n) = 512" "length b = 512" "geometry_ok v" "data_chain v E cs" "k < spc v * length cs"
  shows "file_bytes (D(file_sector_at v cs k := b)) v cs = blit (512 * k) b (file_bytes D v cs)"
proof -
  define D2 where "D2 = D(file_sector_at v cs k := b)"
  have len: "\<forall>n. length (D2 n) = 512" using assms(1,2) by (simp add: D2_def)
  note l = length_file_bytes [OF assms(1), of v cs] length_file_bytes [OF len, of v cs]
  have fit: "512 * k + 512 \<le> 512 * (spc v * length cs)" using assms(5) by simp
  have "file_bytes D2 v cs = blit (512 * k) b (file_bytes D v cs)"
  proof (rule nth_equalityI)
    show "length (file_bytes D2 v cs) = length (blit (512 * k) b (file_bytes D v cs))" using l assms(2) fit by simp
    fix i assume "i < length (file_bytes D2 v cs)"
    then have i: "i < 512 * (spc v * length cs)" using l by simp
    then have j: "i div 512 < spc v * length cs" by (simp add: less_mult_imp_div_less mult.commute)
    have at: "file_bytes D' v cs ! i = D' (file_sector_at v cs (i div 512)) ! (i mod 512)" if "\<forall>n. length (D' n) = 512" for D'
    proof -
      have "subbuf (512 * (i div 512)) 512 (file_bytes D' v cs) ! (i mod 512) = file_bytes D' v cs ! i"
        using i by (subst nth_subbuf) (simp_all add: length_file_bytes [OF that])
      then show ?thesis using file_bytes_sector [OF that j] by simp
    qed
    have "D2 (file_sector_at v cs (i div 512)) = (if i div 512 = k then b else D (file_sector_at v cs (i div 512)))"
      using file_sector_at_inj [OF assms(3,4) j assms(5)] by (auto simp: D2_def)
    moreover have "i div 512 = k \<longleftrightarrow> 512 * k \<le> i \<and> i < 512 * k + 512" by auto
    moreover have "i div 512 = k \<Longrightarrow> i mod 512 = i - 512 * k" by (simp add: minus_mult_div_eq_mod [symmetric])
    ultimately show "file_bytes D2 v cs ! i = blit (512 * k) b (file_bytes D v cs) ! i"
      using at [OF len] at [OF assms(1)] i fit l assms(2) by (simp add: nth_blit)
  qed
  then show ?thesis by (simp only: D2_def)
qed

section \<open>The write loop\<close>

text \<open>A store in which the chain can be followed and every sector of the file is resident.\<close>

definition write_view ::
  "('s \<Rightarrow> bool) \<Rightarrow> ('s \<Rightarrow> u32 \<Rightarrow> sector) \<Rightarrow> ('s \<Rightarrow> u32 \<Rightarrow> bool) \<Rightarrow> vol \<Rightarrow> u32 list \<Rightarrow> 's \<Rightarrow> bool" where
  "write_view I D R v cs s \<longleftrightarrow> I s \<and> geometry_ok v \<and> data_chain v (fat_get (D s) v) cs \<and> fat_all R v s
     \<and> (\<forall>k < spc v * length cs. R s (file_sector_at v cs k)) \<and> (\<forall>n. length (D s n) = 512)"

lemma write_view_read_only: "read_only I D R s s' \<Longrightarrow> write_view I D R v cs s \<Longrightarrow> write_view I D R v cs s'"
  by (simp add: write_view_def read_only_def fat_all_def)

context sector_store
begin

lemma write_view_write:
  assumes "write_view inv disk resident v cs s" "resident s a" "a \<notin> fat_sectors v" "length b = 512"
  shows "write_view inv disk resident v cs (after_wr io a b s)" "disk (after_wr io a b s) = (disk s)(a := b)"
proof -
  note w = assms(1) [unfolded write_view_def]
  show d: "disk (after_wr io a b s) = (disk s)(a := b)" using w assms(4) by simp
  have "data_chain v (fat_get (disk (after_wr io a b s)) v) cs"
    unfolding d using w by (intro data_chain_cong [OF _ fat_get_not_fat [OF assms(3)]]) simp_all
  then show "write_view inv disk resident v cs (after_wr io a b s)"
    using w assms(2,4) d by (simp add: write_view_def fat_all_def)
qed

lemma chained_in_chain:
  assumes "write_view inv disk resident v cs s" "Suc i < length cs"
  shows "\<exists>s'. chained_cluster io v (cs ! i) s = (cs ! Suc i, s') \<and> read_only inv disk resident s s'"
proof -
  note w = assms(1) [unfolded write_view_def]
  have c: "data_chain v (fat_get (disk s) v) cs" using w by simp
  have "unat (cs ! i) < 128 * fat_len v" using data_chain_nth [OF c, of i] assms(2) by simp
  from res.chained_cluster_eq [OF _ _ this, of s] w c assms(2) show ?thesis
    by (cases "chained_cluster io v (cs ! i) s") (simp add: data_chain_def)
qed

lemma next_write_cluster_in_chain:
  assumes "write_view inv disk resident v cs s" "Suc i < length cs"
  shows "\<exists>s'. next_write_cluster io v (cs ! i) r s = Some (Some (cs ! Suc i), s') \<and> read_only inv disk resident s s'"
  using chained_in_chain [OF assms] data_chain_not_end [of v _ cs "Suc i"] assms
  by (auto simp: next_write_cluster_def write_view_def)

lemma slot_coordinates:
  assumes "(s :: nat) < w" "i * w + s = k"
  shows "k div w = i" "k mod w = s"
proof -
  have "w \<noteq> 0" using assms(1) by simp
  then show "k div w = i" "k mod w = s" using assms(1) by (simp_all flip: assms(2))
qed

lemma last_slot:
  assumes "0 < (n :: nat)" "off mod w + n \<le> w"
  shows "(off + n - 1) div w = off div w"
proof -
  have "off + n - 1 = (off mod w + (n - 1)) + off div w * w" using assms(1) mod_div_mult_eq [of off w] by linarith
  moreover have "off mod w + (n - 1) < w" using assms by linarith
  moreover from this have "w \<noteq> 0" by simp
  ultimately show ?thesis by (simp only: div_mult_self1 [OF \<open>w \<noteq> 0\<close>] div_less add_0_right)
qed

lemma whole_slots:
  assumes "0 < (x :: nat)" "x mod 512 = 0"
  shows "(x - 1) div 512 + 1 = x div 512"
proof -
  obtain q where "x = 512 * q" using assms(2) by (auto simp: mod_eq_0_iff_dvd)
  with assms(1) show ?thesis by (cases q) simp_all
qed

lemma pwrite_loop_in_place:
  assumes "write_view inv disk resident v cs s" "i < length cs" "sec \<le> spc v" "data \<noteq> [] \<Longrightarrow> i * spc v + sec = off div 512"
    and "off + length data \<le> 512 * (spc v * length cs)"
  shows "\<exists>i' sec' s'. pwrite_loop io v data (cs ! i) sec off tot s
      = Some ((True, cs ! i', sec', off + length data, tot + length data), s')
    \<and> write_view inv disk resident v cs s' \<and> file_bytes (disk s') v cs = blit off data (file_bytes (disk s) v cs)
    \<and> (\<forall>a. (\<forall>k < spc v * length cs. a \<noteq> file_sector_at v cs k) \<longrightarrow> disk s' a = disk s a)
    \<and> (\<forall>a. resident s a \<longrightarrow> resident s' a) \<and> i' < length cs \<and> sec' \<le> spc v
    \<and> (if data = [] then i' = i \<and> sec' = sec else i' * spc v + sec' = (off + length data - 1) div 512 + 1)"
  using assms
proof (induction "length data" arbitrary: i sec off tot data s rule: less_induct)
  case less
  note w = less.prems(1) [unfolded write_view_def]
  have spc: "0 < spc v" using w by (simp add: geometry_ok_def)
  show ?case
  proof (cases "data = []")
    case True
    then show ?thesis using less.prems
      by (intro exI [of _ i] exI [of _ sec] exI [of _ s]) (simp add: pwrite_loop.simps blit_def)
  next
    case False
    let ?K = "off div 512" and ?o = "off mod 512"
    define n where "n = min (512 - ?o) (length data)"
    have "0 < length data" using False by simp
    then have "off < spc v * length cs * 512" using less.prems(5) by linarith
    then have K: "?K < spc v * length cs" by (rule less_mult_imp_div_less)
    have pos: "\<exists>s1. (if sec \<ge> spc v then do { (c, s') \<leftarrow> next_write_cluster io v (cs ! i) (length data) s; Some (map_option (\<lambda>c. (c, 0)) c, s') }
        else Some (Some (cs ! i, sec), s)) = Some (Some (cs ! (?K div spc v), ?K mod spc v), s1) \<and> read_only inv disk resident s s1"
    proof (cases "sec < spc v")
      case True
      from slot_coordinates [OF this less.prems(4) [OF False]] show ?thesis using True w by (auto intro: read_only_refl)
    next
      case end_of_cluster: False
      then have "?K = Suc i * spc v" using less.prems(3,4) False by simp
      then have k: "?K div spc v = Suc i" "?K mod spc v = 0" using spc by (simp_all del: mult_Suc)
      then have "Suc i < length cs" using K spc by (simp add: less_mult_imp_div_less mult.commute flip: k(1))
      from next_write_cluster_in_chain [OF less.prems(1) this, of "length data"] end_of_cluster k show ?thesis by auto
    qed
    then obtain s1 where pos: "(if sec \<ge> spc v then do { (c, s') \<leftarrow> next_write_cluster io v (cs ! i) (length data) s; Some (map_option (\<lambda>c. (c, 0)) c, s') }
        else Some (Some (cs ! i, sec), s)) = Some (Some (cs ! (?K div spc v), ?K mod spc v), s1)"
      and ro: "read_only inv disk resident s s1" by blast
    have w1: "write_view inv disk resident v cs s1" by (rule write_view_read_only [OF ro less.prems(1)])
    note w1' = w1 [unfolded write_view_def]
    have d1: "disk s1 = disk s" using ro by (simp add: read_only_def)
    let ?a = "file_sector_at v cs ?K"
    have a: "file_sector v (cs ! (?K div spc v)) (?K mod spc v) = ?a" by (simp add: file_sector_at_def)
    have n: "0 < n" "?o + n \<le> 512" "n \<le> length data" using False by (auto simp: n_def min_def)
    let ?nb = "blit ?o (take n data) (disk s ?a)"
    have nb: "length ?nb = 512" using n w by simp
    have full: "blit ?o (take n data) (replicate 512 0) = ?nb" if "\<not> (n < 512 \<or> ?o \<noteq> 0)"
      using that n w by simp
    have ra: "resident s1 ?a" using w1' K by simp
    have "\<exists>b. (if n < 512 \<or> ?o \<noteq> 0 then rd io ?a s1 else (Some (replicate 512 0), s1)) = (Some b, s1) \<and> blit ?o (take n data) b = ?nb"
      using full rd_res [OF _ ra] w1' d1 by auto
    then obtain b where b: "(if n < 512 \<or> ?o \<noteq> 0 then rd io ?a s1 else (Some (replicate 512 0), s1)) = (Some b, s1)"
        "blit ?o (take n data) b = ?nb" by blast
    let ?s2 = "after_wr io ?a ?nb s1"
    have wr: "wr io ?a ?nb s1 = (True, ?s2)" using w1' nb by simp
    note w2 = write_view_write [OF w1 ra _ nb]
    have notfat: "?a \<notin> fat_sectors v" using file_sector_not_fat [of v _ cs, OF _ _ K] w by blast
    have step: "pwrite_loop io v data (cs ! i) sec off tot s
        = pwrite_loop io v (drop n data) (cs ! (?K div spc v)) (?K mod spc v + 1) (off + n) (tot + n) ?s2"
      by (subst pwrite_loop.simps) (simp only: False if_False pos Option.bind.simps prod.case option.case bool.case Let_def a b wr flip: n_def)
    have d2: "disk ?s2 = (disk s)(?a := ?nb)" using w2(2) [OF notfat] d1 by simp
    have len: "\<forall>n. length (disk s n) = 512" and geo: "geometry_ok v" "data_chain v (fat_get (disk s) v) cs"
      using w by simp_all
    have bytes: "file_bytes (disk ?s2) v cs = blit off (take n data) (file_bytes (disk s) v cs)"
    proof -
      have "file_bytes (disk ?s2) v cs = blit (512 * ?K) ?nb (file_bytes (disk s) v cs)"
        unfolding d2 by (rule file_bytes_upd [OF len nb geo K])
      moreover have "disk s ?a = subbuf (512 * ?K) 512 (file_bytes (disk s) v cs)"
        by (rule file_bytes_sector [OF len K, symmetric])
      moreover have "512 * ?K + 512 \<le> length (file_bytes (disk s) v cs)"
        using K by (simp add: length_file_bytes [OF len])
      ultimately show ?thesis
        using blit_slot [of ?o "take n data" 512 ?K "file_bytes (disk s) v cs"] n by simp
    qed
    have next_pos: "?K div spc v * spc v + (?K mod spc v + 1) = (off + n) div 512" if "drop n data \<noteq> []"
    proof -
      have "n = 512 - ?o" using that n(3) by (simp add: n_def min_def split: if_splits)
      then have "?o + n = 512" using n(2) by (simp add: less_imp_le)
      then have "off + n = 512 * ?K + 512" using mult_div_mod_eq [of 512 off] by (metis add.assoc)
      then show ?thesis by simp
    qed
    have "\<exists>i' sec' s'. pwrite_loop io v (drop n data) (cs ! (?K div spc v)) (?K mod spc v + 1) (off + n) (tot + n) ?s2
      = Some ((True, cs ! i', sec', (off + n) + length (drop n data), (tot + n) + length (drop n data)), s')
    \<and> write_view inv disk resident v cs s' \<and> file_bytes (disk s') v cs = blit (off + n) (drop n data) (file_bytes (disk ?s2) v cs)
    \<and> (\<forall>a. (\<forall>k < spc v * length cs. a \<noteq> file_sector_at v cs k) \<longrightarrow> disk s' a = disk ?s2 a)
    \<and> (\<forall>a. resident ?s2 a \<longrightarrow> resident s' a) \<and> i' < length cs \<and> sec' \<le> spc v
    \<and> (if drop n data = [] then i' = ?K div spc v \<and> sec' = ?K mod spc v + 1
       else i' * spc v + sec' = ((off + n) + length (drop n data) - 1) div 512 + 1)"
    proof (rule less.hyps [OF _ w2(1) [OF notfat] _ _ next_pos])
      show "length (drop n data) < length data" using n by simp
      show "?K div spc v < length cs" by (rule file_sector_at_unat(2) [OF geo K])
      show "?K mod spc v + 1 \<le> spc v" using spc by (simp add: Suc_leI)
      show "off + n + length (drop n data) \<le> 512 * (spc v * length cs)" using less.prems(5) n by simp
    qed
    then obtain i' sec' s' where r: "pwrite_loop io v (drop n data) (cs ! (?K div spc v)) (?K mod spc v + 1) (off + n) (tot + n) ?s2
        = Some ((True, cs ! i', sec', (off + n) + length (drop n data), (tot + n) + length (drop n data)), s')"
      "write_view inv disk resident v cs s'" "file_bytes (disk s') v cs = blit (off + n) (drop n data) (file_bytes (disk ?s2) v cs)"
      "\<forall>a. (\<forall>k < spc v * length cs. a \<noteq> file_sector_at v cs k) \<longrightarrow> disk s' a = disk ?s2 a"
      "\<forall>a. resident ?s2 a \<longrightarrow> resident s' a" "i' < length cs" "sec' \<le> spc v" and p: "if drop n data = [] then i' = ?K div spc v \<and> sec' = ?K mod spc v + 1
         else i' * spc v + sec' = ((off + n) + length (drop n data) - 1) div 512 + 1"
      by blast
    have e: "off + n + length (drop n data) = off + length data" "tot + n + length (drop n data) = tot + length data"
      using n by simp_all
    have fit: "off + length data \<le> length (file_bytes (disk s) v cs)"
      using less.prems(5) by (simp add: length_file_bytes [OF len])
    show ?thesis
    proof (intro exI conjI)
      show "pwrite_loop io v data (cs ! i) sec off tot s
          = Some ((True, cs ! i', sec', off + length data, tot + length data), s')" using step r(1) e by simp
      show "file_bytes (disk s') v cs = blit off data (file_bytes (disk s) v cs)"
        using blit_blit [of "take n data" n off "file_bytes (disk s) v cs" "drop n data"] n fit
        by (simp only: r(3) bytes) (simp add: min_def)
      show "\<forall>a. (\<forall>k < spc v * length cs. a \<noteq> file_sector_at v cs k) \<longrightarrow> disk s' a = disk s a"
        using r(4) d2 K by simp
      show "\<forall>a. resident s a \<longrightarrow> resident s' a"
        using r(5) ro w1' ra nb by (simp add: read_only_def)
      show "if data = [] then i' = i \<and> sec' = sec else i' * spc v + sec' = (off + length data - 1) div 512 + 1"
      proof (cases "drop n data = []")
        case True
        then have l: "length data = n" using n(3) by simp
        have "(off + n - 1) div 512 = ?K" by (rule last_slot [OF n(1,2)])
        then show ?thesis using True p False l by simp
      next
        case go: False
        then show ?thesis using p False e(1) by simp
      qed
    qed (rule r)+
  qed
qed

text \<open>Finding the cluster of an offset from the start of the chain.\<close>

lemma walk_chain_eq:
  assumes "write_view inv disk resident v cs s" "i + k < length cs"
  shows "\<exists>s'. walk_chain io v k (cs ! i) s = ((cs ! (i + k), k), s') \<and> read_only inv disk resident s s'"
  using assms
proof (induction k arbitrary: i s)
  case 0
  then show ?case by (auto simp: write_view_def intro: read_only_refl)
next
  case (Suc k)
  have i: "Suc i < length cs" using Suc.prems(2) by simp
  obtain s1 where n: "chained_cluster io v (cs ! i) s = (cs ! Suc i, s1)" "read_only inv disk resident s s1"
    using chained_in_chain [OF Suc.prems(1) i] by blast
  obtain s' where "walk_chain io v k (cs ! Suc i) s1 = ((cs ! (Suc i + k), k), s')" "read_only inv disk resident s1 s'"
    using Suc.IH [OF write_view_read_only [OF n(2) Suc.prems(1)], of "Suc i"] Suc.prems(2) by auto
  moreover have "\<not> is_end (cs ! Suc i)" using data_chain_not_end [OF _ _ i] Suc.prems(1) by (auto simp: write_view_def)
  ultimately show ?case using n read_only_trans [OF n(2)] by auto
qed

end

section \<open>A write to a file\<close>

text \<open>
  What \<open>m65ftp_pwrite\<close> keeps between calls: if it will go on from the cluster and sector where the
  last write stopped, they are those of the offset.
\<close>

definition writer_at :: "vol \<Rightarrow> u32 list \<Rightarrow> fileinfo \<Rightarrow> nat \<Rightarrow> bool" where
  "writer_at v cs fi off \<longleftrightarrow> (off = last_offset fi \<and> last_offset fi > 0 \<and> write_cluster fi \<noteq> 0 \<longrightarrow>
     (\<exists>i < length cs. write_cluster fi = cs ! i \<and> sector_in_cluster fi \<le> spc v
        \<and> i * spc v + sector_in_cluster fi = off div 512))"

text \<open>The directory entry's sector is none of the FAT and none of the file.\<close>

definition entry_apart :: "vol \<Rightarrow> u32 list \<Rightarrow> fileinfo \<Rightarrow> bool" where
  "entry_apart v cs fi \<longleftrightarrow> (has_entry fi \<longrightarrow> length (dir_sector_buf fi) = 512 \<and> nat (fi_dir_sector_offset fi) + 32 \<le> 512
     \<and> entry_sector v fi \<notin> fat_sectors v \<and> (\<forall>k < spc v * length cs. entry_sector v fi \<noteq> file_sector_at v cs k))"

lemma file_bytes_apart:
  assumes "geometry_ok v" "\<And>k. k < spc v * length cs \<Longrightarrow> a \<noteq> file_sector_at v cs k"
  shows "file_bytes (D(a := b)) v cs = file_bytes D v cs"
proof -
  have "map (\<lambda>k. (D(a := b)) (file_sector_at v cs k)) [0 ..< spc v * length cs]
      = map (\<lambda>k. D (file_sector_at v cs k)) [0 ..< spc v * length cs]"
    using assms(2) by (intro map_cong refl) (simp, metis)
  then show ?thesis by (simp only: file_bytes_def)
qed

lemma take_blit_spec_write:
  assumes "off \<le> sz" "sz \<le> length b" "off + length data \<le> length b"
  shows "take (max sz (off + length data)) (blit off data b) = spec_write data off (take sz b)"
  using assms by (intro nth_equalityI) (auto simp: nth_spec_write nth_blit max_def split: if_splits)

text \<open>What is left of a write once the bytes are out: the position, the size and the directory entry.\<close>

lemma written_entry:
  assumes "entry_apart v cs fi"
  shows "has_entry fi \<Longrightarrow> length (dir_sector_buf (set_entry_file_size sz fi)) = 512"
    "entry_apart v cs (set_entry_file_size sz fi)"
  using assms by (auto simp: entry_apart_def set_entry_file_size_def has_entry_def pack_dir_entry_le32_def)

text \<open>Where \<open>m65ftp_pwrite\<close> starts to write.\<close>

definition write_start :: "'s sector_io \<Rightarrow> vol \<Rightarrow> nat \<Rightarrow> fileinfo \<Rightarrow> 's \<Rightarrow> (u32 \<times> nat) \<times> 's" where
  "write_start io v off fi s =
     (if off = last_offset fi \<and> last_offset fi > 0 \<and> write_cluster fi \<noteq> 0
      then ((write_cluster fi, sector_in_cluster fi), s)
      else let idx = off div cluster_size v in
        case walk_chain io v idx (fi_first_cluster fi) s of ((c, n), s') \<Rightarrow>
          ((c, if n < idx then unat (sectors_per_cluster v) else off mod cluster_size v div 512), s'))"

lemmas direct_write_start = direct_write_def [folded write_start_def]

context sector_store
begin

lemma write_start_eq:
  assumes "write_view inv disk resident v cs s" "fi_first_cluster fi = hd cs" "writer_at v cs fi off"
    and "off div 512 < spc v * length cs"
  shows "\<exists>i sec s1. write_start io v off fi s = ((cs ! i, sec), s1) \<and> i < length cs \<and> sec \<le> spc v
    \<and> i * spc v + sec = off div 512 \<and> read_only inv disk resident s s1"
proof (cases "off = last_offset fi \<and> last_offset fi > 0 \<and> write_cluster fi \<noteq> 0")
  case True
  with assms(3) obtain i where "i < length cs \<and> write_cluster fi = cs ! i \<and> sector_in_cluster fi \<le> spc v
      \<and> i * spc v + sector_in_cluster fi = off div 512" unfolding writer_at_def by blast
  with True assms(1) show ?thesis
    by (intro exI [of _ i] exI [of _ "sector_in_cluster fi"] exI [of _ s])
      (simp add: write_start_def write_view_def read_only_refl)
next
  case False
  let ?k = "off div cluster_size v"
  have spc: "0 < spc v" "cs \<noteq> []" using assms(1) by (auto simp: write_view_def geometry_ok_def data_chain_def)
  then have c: "?k < length cs" using assms(4) by (simp add: cluster_split less_mult_imp_div_less mult.commute)
  from walk_chain_eq [OF assms(1), of 0 ?k] c spc obtain s1
    where "walk_chain io v ?k (hd cs) s = ((cs ! ?k, ?k), s1)" and ro: "read_only inv disk resident s s1"
    by (auto simp: hd_conv_nth)
  then have "write_start io v off fi s = ((cs ! ?k, off mod cluster_size v div 512), s1)"
    unfolding write_start_def if_not_P [OF False] using assms(2) by (simp add: Let_def)
  moreover have "off mod cluster_size v div 512 \<le> spc v" using spc by (simp add: cluster_split less_imp_le)
  moreover have "?k * spc v + off mod cluster_size v div 512 = off div 512" by (simp add: cluster_split)
  ultimately show ?thesis using c ro by blast
qed

lemma direct_write_eq:
  assumes "write_view inv disk resident v cs s" "fi_first_cluster fi = hd cs" "entry_apart v cs fi" "writer_at v cs fi off"
    and "data \<noteq> []" "off + length data \<le> 512 * (spc v * length cs)" "off + length data < 2 ^ 32"
    and "has_entry fi \<longrightarrow> resident s (entry_sector v fi)"
    and "off \<le> unat (file_size fi)" "unat (file_size fi) \<le> 512 * (spc v * length cs)"
  shows "\<exists>fi' s'. direct_write io v data off fi s = Some (Some (length data), fi', s')
    \<and> write_view inv disk resident v cs s'
    \<and> file_content (disk s') v cs fi' = spec_write data off (file_content (disk s) v cs fi)
    \<and> fi_first_cluster fi' = hd cs \<and> last_offset fi' = off + length data \<and> entry_apart v cs fi'
    \<and> ((off + length data) mod 512 = 0 \<longrightarrow> writer_at v cs fi' (off + length data))
    \<and> (\<forall>a. (\<forall>k < spc v * length cs. a \<noteq> file_sector_at v cs k) \<and> (has_entry fi \<longrightarrow> a \<noteq> entry_sector v fi)
         \<longrightarrow> disk s' a = disk s a)
    \<and> (has_entry fi \<longrightarrow> disk s' (entry_sector v fi) = dir_sector_buf fi')"
proof -
  note w = assms(1) [unfolded write_view_def]
  have spc: "0 < spc v" and cs: "cs \<noteq> []" using w by (auto simp: geometry_ok_def data_chain_def)
  have len: "\<forall>n. length (disk s n) = 512" using w by simp
  let ?sz = "if off + length data > unat (file_size fi) then word_of_nat (off + length data) else file_size fi :: u32"
  have l: "0 < length data" using assms(5) by simp
  then have "off < spc v * length cs * 512" using assms(6) by linarith
  then have k: "off div 512 < spc v * length cs" by (rule less_mult_imp_div_less)
  obtain i sec s1 where start: "write_start io v off fi s = ((cs ! i, sec), s1)"
      and i: "i < length cs" "sec \<le> spc v" "i * spc v + sec = off div 512" and ro: "read_only inv disk resident s s1"
    using write_start_eq [OF assms(1,2,4) k] by blast
  have d1: "disk s1 = disk s" using ro by (simp add: read_only_def)
  from pwrite_loop_in_place [OF write_view_read_only [OF ro assms(1)] i(1,2) i(3) assms(6), where tot = 0]
  obtain j sec' s2 where loop: "pwrite_loop io v data (cs ! i) sec off 0 s1
        = Some ((True, cs ! j, sec', off + length data, length data), s2)"
      and w2: "write_view inv disk resident v cs s2" and b2: "file_bytes (disk s2) v cs = blit off data (file_bytes (disk s) v cs)"
      and f2: "\<forall>a. (\<forall>k < spc v * length cs. a \<noteq> file_sector_at v cs k) \<longrightarrow> disk s2 a = disk s a"
      and r2: "\<forall>a. resident s1 a \<longrightarrow> resident s2 a" and j: "j < length cs" "sec' \<le> spc v" "j * spc v + sec' = (off + length data - 1) div 512 + 1"
    using assms(5) d1 by auto
  let ?fi1 = "fi\<lparr>write_cluster := cs ! j, sector_in_cluster := sec', last_offset := off + length data, file_size := ?sz\<rparr>"
  have fields: "has_entry ?fi1 = has_entry fi" "entry_sector v ?fi1 = entry_sector v fi" "entry_apart v cs ?fi1 = entry_apart v cs fi"
    by (simp_all add: has_entry_def entry_apart_def)
  let ?fi2 = "if has_entry fi then set_entry_file_size ?sz ?fi1 else ?fi1"
  let ?s3 = "if has_entry fi then write_entry_sector io v ?fi2 s2 else s2"
  have dw: "direct_write io v data off fi s = Some (Some (length data), ?fi2, ?s3)"
    using assms(5) fields(1) by (simp add: direct_write_start start loop Let_def split del: if_split) (simp add: Let_def split: if_split)
  have sz: "unat ?sz = max (unat (file_size fi)) (off + length data)"
    using assms(7) by (simp add: unat_of_nat max_def del: of_nat_add)
  have sz2: "file_size ?fi2 = ?sz" by (simp add: set_entry_file_size_def)
  have content: "file_content (disk s2) v cs ?fi2 = spec_write data off (file_content (disk s) v cs fi)"
    using take_blit_spec_write [of off "unat (file_size fi)" "file_bytes (disk s) v cs" data] assms(6,9,10)
    by (simp add: file_content_def sz2 sz b2 length_file_bytes [OF len] del: max.absorb1 max.absorb2 max.absorb3 max.absorb4)
  have s3: "write_view inv disk resident v cs ?s3 \<and> file_bytes (disk ?s3) v cs = file_bytes (disk s2) v cs
      \<and> disk ?s3 = (if has_entry fi then (disk s2)(entry_sector v fi := dir_sector_buf ?fi2) else disk s2)"
  proof (cases "has_entry fi")
    case True
    note e = assms(3) [unfolded entry_apart_def, rule_format, OF True]
    have b: "length (dir_sector_buf ?fi2) = 512" using written_entry(1) [of v cs ?fi1] fields True assms(3) by simp
    have at: "write_entry_sector io v ?fi2 s2 = after_wr io (entry_sector v fi) (dir_sector_buf ?fi2) s2"
      using True by (simp add: write_entry_sector_def set_entry_file_size_def)
    have "resident s2 (entry_sector v fi)" using assms(8) True r2 ro by (simp add: read_only_def)
    from write_view_write [OF w2 this _ b] file_bytes_apart [of v cs "entry_sector v fi" "disk s2"] e w True at
    show ?thesis by (simp add: write_view_def)
  qed (use w2 in simp)
  show ?thesis
  proof (intro exI conjI)
    show "direct_write io v data off fi s = Some (Some (length data), ?fi2, ?s3)" by (rule dw)
    show "file_content (disk ?s3) v cs ?fi2 = spec_write data off (file_content (disk s) v cs fi)"
      unfolding file_content_def conjunct1 [OF conjunct2 [OF s3]] by (rule content [unfolded file_content_def])
    show "(off + length data) mod 512 = 0 \<longrightarrow> writer_at v cs ?fi2 (off + length data)"
    proof
      assume "(off + length data) mod 512 = 0"
      then have "(off + length data - 1) div 512 + 1 = (off + length data) div 512"
        using l by (intro whole_slots) simp_all
      then show "writer_at v cs ?fi2 (off + length data)"
        unfolding writer_at_def using j by (intro impI exI [of _ j]) (simp add: set_entry_file_size_def)
    qed
    show "entry_apart v cs ?fi2" using fields(3) assms(3) written_entry(2) [of v cs ?fi1] by simp
    show "\<forall>a. (\<forall>k < spc v * length cs. a \<noteq> file_sector_at v cs k) \<and> (has_entry fi \<longrightarrow> a \<noteq> entry_sector v fi)
         \<longrightarrow> disk ?s3 a = disk s a" using s3 f2 by simp
    show "has_entry fi \<longrightarrow> disk ?s3 (entry_sector v fi) = dir_sector_buf ?fi2"
    proof
      assume h: "has_entry fi"
      show "disk ?s3 (entry_sector v fi) = dir_sector_buf ?fi2"
        unfolding conjunct2 [OF conjunct2 [OF s3]] by (simp only: h if_True fun_upd_same)
    qed
    show "write_view inv disk resident v cs ?s3" by (rule conjunct1 [OF s3])
    show "fi_first_cluster ?fi2 = hd cs" "last_offset ?fi2 = off + length data"
      using assms(2) by (simp_all add: set_entry_file_size_def)
  qed
qed

text \<open>A whole sector, wherever it goes.\<close>

lemma pwrite_loop_one_sector:
  assumes "inv s" "sec < spc v" "length data = 512" "off mod 512 = 0"
  shows "pwrite_loop io v data c sec off tot s
    = Some ((True, c, sec + 1, off + 512, tot + 512), after_wr io (file_sector v c sec) data s)"
proof -
  have "data \<noteq> []" "blit 0 data (replicate 512 0) = data" using assms(3) by auto
  with assms show ?thesis by (subst pwrite_loop.simps) (simp add: Let_def pwrite_loop.simps)
qed

end

lemma data_file_view:
  assumes "write_view (blk_inv ops) (blk_disk ops) blk_resident v cs s"
  shows "file_view (blk_inv ops) (blk_disk ops) blk_resident v cs s"
  using assms data_file_chain [of v _ cs] by (auto simp: write_view_def file_view_def geometry_ok_def)

section \<open>Properties\<close>

text \<open>
  C17: writing within a file on the card.  When the position \<open>m65ftp_pwrite\<close> has kept belongs to the
  offset, and the file's chain is long enough, the call writes everything; the file then holds what
  POSIX \<open>pwrite\<close> would have made of its contents, its directory entry is on the disk, no other
  sector has changed, and after a write that ends on a sector boundary the position kept is that
  of the next byte.
\<close>
theorem pwrite_in_place_refines:
  assumes "initialized l" "valid_fd l fd" "is_writable (files l ! fd)" "\<not> buffered (files l ! fd)"
    and "fi_first_cluster (files l ! fd) = hd cs" "unat (file_size (files l ! fd)) \<le> 512 * (spc v * length cs)"
    and "write_view (blk_inv ops) (blk_disk ops) blk_resident v cs (lib_store l)"
    and "entry_apart v cs (files l ! fd)" "has_entry (files l ! fd) \<longrightarrow> blk_resident (lib_store l) (entry_sector v (files l ! fd))"
    and "writer_at v cs (files l ! fd) off" "data \<noteq> []" "off \<le> unat (file_size (files l ! fd))"
    and "off + length data \<le> 512 * (spc v * length cs)" "off + length data < 2 ^ 32"
  shows "\<exists>l'. m65ftp_pwrite (blk_io ops) v fd data off l = Some (Some (length data), l')
    \<and> file_content (blk_disk ops (lib_store l')) v cs (files l' ! fd)
        = spec_write data off (file_content (blk_disk ops (lib_store l)) v cs (files l ! fd))
    \<and> (has_entry (files l ! fd) \<longrightarrow> blk_disk ops (lib_store l') (entry_sector v (files l ! fd)) = dir_sector_buf (files l' ! fd))
    \<and> (\<forall>a. (\<forall>k < spc v * length cs. a \<noteq> file_sector_at v cs k) \<and> (has_entry (files l ! fd) \<longrightarrow> a \<noteq> entry_sector v (files l ! fd))
         \<longrightarrow> blk_disk ops (lib_store l') a = blk_disk ops (lib_store l) a)
    \<and> ((off + length data) mod 512 = 0 \<longrightarrow> writer_at v cs (files l' ! fd) (off + length data))"
proof -
  have fd: "fd < length (files l)" using assms(2) by (simp add: valid_fd_def)
  from blk.direct_write_eq [OF assms(7,5,8,10,11,13,14,9,12,6)] obtain fi' s' where r:
    "direct_write (blk_io ops) v data off (files l ! fd) (lib_store l) = Some (Some (length data), fi', s')"
    "file_content (blk_disk ops s') v cs fi' = spec_write data off (file_content (blk_disk ops (lib_store l)) v cs (files l ! fd))"
    "(off + length data) mod 512 = 0 \<longrightarrow> writer_at v cs fi' (off + length data)"
    "\<forall>a. (\<forall>k < spc v * length cs. a \<noteq> file_sector_at v cs k) \<and> (has_entry (files l ! fd) \<longrightarrow> a \<noteq> entry_sector v (files l ! fd))
         \<longrightarrow> blk_disk ops s' a = blk_disk ops (lib_store l) a"
    "has_entry (files l ! fd) \<longrightarrow> blk_disk ops s' (entry_sector v (files l ! fd)) = dir_sector_buf fi'"
    by (elim exE conjE) (rule that)
  have "m65ftp_pwrite (blk_io ops) v fd data off l = Some (Some (length data), set_store s' (set_file fd fi' l))"
    using assms(1-4) r(1) by (simp add: m65ftp_pwrite_def Let_def)
  then show ?thesis using r(2-) fd by auto
qed

text \<open>A writable file of 5000 bytes in the clusters 3 and 4, its entry in cluster 2.\<close>

definition sample_writer :: "(nat \<Rightarrow> u8) blk lib" where
  "sample_writer = sample_reader\<lparr>files := [sample_file\<lparr>is_writable := True, fi_dir_sector := 34, fi_dir_sector_offset := 64,
     dir_sector_buf := replicate 512 0, write_cluster := 3\<rparr>]\<rparr>"

lemma sample_writer_simps [simp]:
  "initialized sample_writer" "valid_fd sample_writer 0" "is_writable (files sample_writer ! 0)" "\<not> buffered (files sample_writer ! 0)"
  "fi_first_cluster (files sample_writer ! 0) = 3" "file_size (files sample_writer ! 0) = 5000"
  "write_cluster (files sample_writer ! 0) = 3" "sector_in_cluster (files sample_writer ! 0) = 0"
  "last_offset (files sample_writer ! 0) = 0" "entry_sector small_vol (files sample_writer ! 0) = file_sector small_vol 2 0"
  "dir_sector_buf (files sample_writer ! 0) = replicate 512 0" "fi_dir_sector_offset (files sample_writer ! 0) = 64"
  "lib_store sample_writer = table_state (\<lambda>n. if n = 3 then 4 else 0x0ffffff8)"
  "reader_ok small_vol [3, 4] (files sample_writer ! 0)"
  by (auto simp: sample_writer_def sample_reader_def lib_start_def cursor_start_def valid_fd_def sample_file_def
      file_of_dirent_def small_vol_def file_sector_def first_data_sector_def reader_ok_def intro!: exI [of _ 0])

lemma small_vol_spc: "spc small_vol = 8"
  by (simp add: small_vol_def)

lemma sample_writer_view:
  "write_view (blk_inv device_ops) (blk_disk device_ops) blk_resident small_vol [3, 4] (table_state (\<lambda>n. if n = 3 then 4 else 0x0ffffff8))"
  "entry_apart small_vol [3, 4] (files sample_writer ! 0)"
proof -
  let ?D = "blk_disk device_ops (table_state (\<lambda>n. if n = 3 then 4 else 0x0ffffff8))"
  note s = small_vol_spc
  have c: "data_chain small_vol (fat_get ?D small_vol) [3, 4]" by (simp add: data_chain_def less_Suc_eq)
  moreover have "\<forall>n. length (?D n) = 512"
    using blk.disk_length [of device_ops "table_state (\<lambda>n. if n = 3 then 4 else 0x0ffffff8)"] by simp
  ultimately show "write_view (blk_inv device_ops) (blk_disk device_ops) blk_resident small_vol [3, 4]
      (table_state (\<lambda>n. if n = 3 then 4 else 0x0ffffff8))"
    using geometry_small_vol by (simp add: write_view_def fat_all_def)
  have "file_sector small_vol 2 0 \<notin> fat_sectors small_vol"
    using data_not_fat [OF geometry_small_vol, of 2 0] s by simp
  moreover have "file_sector small_vol 2 0 \<noteq> file_sector_at small_vol [3, 4] k" if "k < 16" for k
  proof -
    have "unat (file_sector small_vol 2 0) < unat (file_sector_at small_vol [3, 4] k)"
      using unat_file_sector [OF geometry_small_vol, of 2 0] file_sector_at_unat(1) [OF geometry_small_vol c, of k] that s
        nth_mem [of "k div 8" "[3, 4 :: u32]"]
      by (auto simp: less_mult_imp_div_less)
    then show ?thesis by (metis less_irrefl)
  qed
  ultimately show "entry_apart small_vol [3, 4] (files sample_writer ! 0)" by (simp add: entry_apart_def s)
qed

theorem pwrite_in_place_refines_witness:
  "\<exists>l'. m65ftp_pwrite (blk_io device_ops) small_vol 0 (replicate 600 7) 4000 sample_writer = Some (Some 600, l')
    \<and> file_content (blk_disk device_ops (lib_store l')) small_vol [3, 4] (files l' ! 0)
        = spec_write (replicate 600 7) 4000 (file_content (blk_disk device_ops (lib_store sample_writer)) small_vol [3, 4] (files sample_writer ! 0))"
  using pwrite_in_place_refines [of sample_writer 0 "[3, 4]" small_vol device_ops 4000 "replicate 600 7"] sample_writer_view small_vol_spc
  by (simp add: writer_at_def) blast

text \<open>A write that follows a read of the first sector takes the place of that sector.\<close>

context sector_store
begin

lemma write_after_read_eq:
  assumes "write_view inv disk resident v cs s" "entry_apart v cs fi" "has_entry fi \<longrightarrow> resident s (entry_sector v fi)"
    and "last_offset fi = 512" "write_cluster fi = hd cs" "sector_in_cluster fi = 0" "hd cs \<noteq> 0"
    and "1024 \<le> unat (file_size fi)" "unat (file_size fi) \<le> 512 * (spc v * length cs)" "length data = 512"
  shows "\<exists>fi' s'. direct_write io v data 512 fi s = Some (Some 512, fi', s')
    \<and> file_content (disk s') v cs fi' = spec_write data 0 (file_content (disk s) v cs fi)"
proof -
  note w = assms(1) [unfolded write_view_def]
  have len: "\<forall>n. length (disk s n) = 512" and geo: "geometry_ok v" "data_chain v (fat_get (disk s) v) cs" using w by simp_all
  have spc: "0 < spc v" "cs \<noteq> []" using geo by (auto simp: geometry_ok_def data_chain_def)
  then have k: "0 < spc v * length cs" by simp
  let ?a = "file_sector_at v cs 0"
  have a: "file_sector v (hd cs) 0 = ?a" using spc by (simp add: file_sector_at_def hd_conv_nth)
  have start: "write_start io v 512 fi s = ((hd cs, 0), s)" using assms(4-7) by (simp add: write_start_def)
  have loop: "pwrite_loop io v data (hd cs) 0 512 0 s = Some ((True, hd cs, 1, 1024, 512), after_wr io ?a data s)"
    using pwrite_loop_one_sector [of s 0 v data 512 "hd cs" 0] w spc assms(10) a by simp
  let ?s2 = "after_wr io ?a data s"
  have d2: "disk ?s2 = (disk s)(?a := data)" "inv ?s2" using w assms(10) by simp_all
  have b2: "file_bytes (disk ?s2) v cs = blit 0 data (file_bytes (disk s) v cs)"
    unfolding d2(1) using file_bytes_upd [OF len assms(10) geo k] by simp
  have sz: "\<not> 512 + 512 > unat (file_size fi)" using assms(8) by simp
  let ?fi1 = "fi\<lparr>write_cluster := hd cs, sector_in_cluster := 1, last_offset := 1024\<rparr>"
  let ?fi2 = "set_entry_file_size (file_size fi) ?fi1"
  have e: "has_entry ?fi1 = has_entry fi" "entry_apart v cs ?fi1 = entry_apart v cs fi" by (simp_all add: has_entry_def entry_apart_def)
  have dw: "direct_write io v data 512 fi s = Some (Some 512,
      if has_entry fi then (?fi2, write_entry_sector io v ?fi2 ?s2) else (?fi1, ?s2))"
    using assms(10) sz e(1) by (auto simp: direct_write_start start loop Let_def)
  have content: "file_content D v cs f = spec_write data 0 (file_content (disk s) v cs fi)"
    if "file_bytes D v cs = file_bytes (disk ?s2) v cs" "file_size f = file_size fi" for D f
    using take_blit_spec_write [of 0 "unat (file_size fi)" "file_bytes (disk s) v cs" data] that b2 assms(8-10) spc
    by (simp add: file_content_def length_file_bytes [OF len] max_def Suc_le_eq)
  show ?thesis
  proof (cases "has_entry fi")
    case True
    note x = assms(2) [unfolded entry_apart_def, rule_format, OF True]
    have b: "length (dir_sector_buf ?fi2) = 512" using written_entry(1) [of v cs ?fi1] e True assms(2) by simp
    have "write_entry_sector io v ?fi2 ?s2 = after_wr io (entry_sector v fi) (dir_sector_buf ?fi2) ?s2"
      by (simp add: write_entry_sector_def set_entry_file_size_def)
    then have "disk (write_entry_sector io v ?fi2 ?s2) = (disk ?s2)(entry_sector v fi := dir_sector_buf ?fi2)"
      using b d2(2) wr_disk by simp
    then have "file_bytes (disk (write_entry_sector io v ?fi2 ?s2)) v cs = file_bytes (disk ?s2) v cs"
      using x geo by (simp only:) (intro file_bytes_apart; simp)
    then show ?thesis using dw True content [of _ ?fi2] by (auto simp: set_entry_file_size_def)
  next
    case False
    then show ?thesis using dw content [of "disk ?s2" ?fi1] by auto
  qed
qed

end

lemma pread_initialized: "m65ftp_pread io v fd n off l = (r, l') \<Longrightarrow> initialized l' = initialized l"
  by (auto simp: m65ftp_pread_def Let_def split: if_splits prod.splits)

text \<open>
  C18: a read moves the position that writing goes on from.  After opening a file for writing and
  reading its first 512 bytes, 512 bytes written at offset 512 are put over the first sector of the
  file instead, and the call reports success: \<open>last_offset\<close> is shared by reading and writing, while
  the cluster and sector to write to are only kept by writing.
\<close>
theorem write_after_read_lands_at_start:
  assumes "initialized l" "valid_fd l fd" "is_writable (files l ! fd)" "reader_ok v cs (files l ! fd)"
    and "write_view (blk_inv ops) (blk_disk ops) blk_resident v cs (lib_store l)"
    and "entry_apart v cs (files l ! fd)" "has_entry (files l ! fd) \<longrightarrow> blk_resident (lib_store l) (entry_sector v (files l ! fd))"
    and "write_cluster (files l ! fd) = hd cs" "sector_in_cluster (files l ! fd) = 0"
    and "1024 \<le> unat (file_size (files l ! fd))" "length data = 512"
  shows "\<exists>l1 l2. m65ftp_pread (blk_io ops) v fd 512 0 l
        = (Some (take 512 (file_content (blk_disk ops (lib_store l)) v cs (files l ! fd))), l1)
    \<and> m65ftp_pwrite (blk_io ops) v fd data 512 l1 = Some (Some 512, l2)
    \<and> file_content (blk_disk ops (lib_store l2)) v cs (files l2 ! fd)
        = spec_write data 0 (file_content (blk_disk ops (lib_store l)) v cs (files l ! fd))"
proof -
  let ?fi = "files l ! fd" and ?D = "blk_disk ops (lib_store l)"
  obtain l1 where r: "m65ftp_pread (blk_io ops) v fd 512 0 l = (Some (take 512 (file_content ?D v cs ?fi)), l1)"
      "read_only (blk_inv ops) (blk_disk ops) blk_resident (lib_store l) (lib_store l1)"
      "same_but_position ?fi (files l1 ! fd)" "same_pool l l1" "last_offset (files l1 ! fd) = 512"
    using blk.res.pread_eq [OF assms(1,2,4) data_file_view [OF assms(5)], of 512 0] assms(10) by (auto simp: clip_count_def)
  let ?g = "files l1 ! fd"
  have d1: "blk_disk ops (lib_store l1) = ?D" using r(2) by (simp add: read_only_def)
  have g: "write_cluster ?g = hd cs" "sector_in_cluster ?g = 0" "file_size ?g = file_size ?fi" "has_entry ?g = has_entry ?fi"
      "is_writable ?g" "\<not> buffered ?g" "entry_apart v cs ?g" "fi_dir_sector ?g = fi_dir_sector ?fi"
    using assms(3,4,6,8,9) by (subst r(3) [unfolded same_but_position_def], simp add: has_entry_def entry_apart_def reader_ok_def)+
  have "hd cs \<noteq> 0" using data_file_view [OF assms(5)] by (auto simp: file_view_def file_chain_def)
  moreover have "has_entry ?g \<longrightarrow> blk_resident (lib_store l1) (entry_sector v ?g)"
    using assms(7) g(4,8) r(2) by (simp add: read_only_def)
  moreover have "1024 \<le> unat (file_size ?g)" "unat (file_size ?g) \<le> 512 * (spc v * length cs)"
    using assms(4,10) g(3) by (simp_all add: reader_ok_def)
  ultimately obtain fi' s' where w: "direct_write (blk_io ops) v data 512 ?g (lib_store l1) = Some (Some 512, fi', s')"
      "file_content (blk_disk ops s') v cs fi' = spec_write data 0 (file_content (blk_disk ops (lib_store l1)) v cs ?g)"
    using blk.write_after_read_eq [OF write_view_read_only [OF r(2) assms(5)] g(7) _ r(5) g(1,2) _ _ _ assms(11)] by blast
  have fc: "file_content (blk_disk ops (lib_store l1)) v cs ?g = file_content ?D v cs ?fi"
    using d1 g(3) by (simp add: file_content_def)
  have fd: "initialized l1" "valid_fd l1 fd" "fd < length (files l1)"
    using pread_initialized [OF r(1)] same_pool_valid [OF r(4)] same_pool_length [OF r(4)] assms(1,2)
    by (simp_all add: valid_fd_def)
  have "m65ftp_pwrite (blk_io ops) v fd data 512 l1 = Some (Some 512, set_store s' (set_file fd fi' l1))"
    using fd g(5,6) w(1) by (simp add: m65ftp_pwrite_def Let_def)
  then show ?thesis using r(1) w(2) [unfolded fc] fd(3) by auto
qed

theorem write_after_read_lands_at_start_witness:
  "\<exists>d l1 l2. m65ftp_pread (blk_io device_ops) small_vol 0 512 0 sample_writer = (Some d, l1)
    \<and> m65ftp_pwrite (blk_io device_ops) small_vol 0 (replicate 512 7) 512 l1 = Some (Some 512, l2)
    \<and> file_content (blk_disk device_ops (lib_store l2)) small_vol [3, 4] (files l2 ! 0)
        = spec_write (replicate 512 7) 0 (file_content (blk_disk device_ops (lib_store sample_writer)) small_vol [3, 4] (files sample_writer ! 0))"
  using write_after_read_lands_at_start [of sample_writer 0 small_vol "[3, 4]" device_ops "replicate 512 7"] sample_writer_view
  by simp blast

end
