(* ===== verification/FileTransfer.thy ===== *)
theory FileTransfer
  imports DirectWrite
begin

text \<open>
  Copying files between the host and the card in the command line client
  (\<open>src/lib/libm65ftp/mega65_ftp.c\<close>): \<open>upload_single_file\<close>, \<open>upload_file\<close>,
  \<open>download_single_file\<close>, \<open>download_file\<close> and what they ask about the files on the card.  The
  host's files are the argument \<open>host\<close>: \<open>None\<close> where \<open>stat\<close> fails, otherwise the bytes that \<open>fread\<close>
  gives, their number being \<open>st_size\<close>, below \<open>2 ^ 31\<close>; a download yields the bytes written to the
  local file.  Progress output is left out.  As elsewhere, \<open>None\<close> is a call that does not return.
\<close>

section \<open>Reading ahead\<close>

text \<open>The sector interface as a download uses it: \<open>read_sector(..., CACHE_YES, 128)\<close>.\<close>

definition blk_ahead :: "'c card_ops \<Rightarrow> nat \<Rightarrow> 'c blk sector_io" where
  "blk_ahead ops n = (blk_io ops)\<lparr>rd := read_sector ops True n\<rparr>"

interpretation ahead: sector_read "blk_ahead ops n" "blk_inv ops" "blk_disk ops" blk_resident for ops n
  by unfold_locales
    (simp_all add: blk_ahead_def after_rd_def blk_inv_def blk_disk_length read_sector_resident)

section \<open>Questions about a file\<close>

text \<open>
  Comparisons of clusters with \<open>FAT32_MIN_END_OF_CLUSTER_MARKER\<close> in this part are between
  \<open>int\<close>s, so a link with the top bit set, a failed read among them, counts as negative.
\<close>

definition client_end :: "u32 \<Rightarrow> bool" where
  "client_end c \<longleftrightarrow> c = 0 \<or> sint c \<ge> 0xffffff8"

text \<open>The sector of a cluster, with the client's own formula.\<close>

definition client_sector :: "vol \<Rightarrow> u32 \<Rightarrow> nat \<Rightarrow> u32" where
  "client_sector v cluster sec = partition_start v + first_cluster_sector v
     + ucast (sectors_per_cluster v) * (cluster - first_cluster v) + word_of_nat sec"

text \<open>\<open>safe_open_dir\<close>; the volume is mounted.\<close>

definition safe_open_dir :: "'s sector_io \<Rightarrow> vol \<Rightarrow> 's dir_state \<Rightarrow> (bool \<times> 's dir_state) option" where
  "safe_open_dir io v d = do { (r, d1) \<leftarrow> fat_opendir io v (current_dir d) d; Some (r = 0, d1) }"

definition find_long_name_in_curdir ::
  "'s sector_io \<Rightarrow> vol \<Rightarrow> bytes \<Rightarrow> 's dir_state \<Rightarrow> (bytes option \<times> 's dir_state) option" where
  "find_long_name_in_curdir io v filename d =
     do { (ok, d1) \<leftarrow> safe_open_dir io v d;
          if \<not> ok then Some (None, d1)
          else do { (found, d2) \<leftarrow> search_dir io v filename d1;
                    Some (map_option (\<lambda>de. cstr (d_longname de)) found, d2) } }"

partial_function (option) fragmented_from ::
  "'s sector_io \<Rightarrow> vol \<Rightarrow> u32 \<Rightarrow> 's \<Rightarrow> (bool \<times> 's) option" where
  "fragmented_from io v cluster s =
     (case chained_cluster io v cluster s of (next_cluster, s1) \<Rightarrow>
        if next_cluster < end_marker then
          if next_cluster \<noteq> cluster + 1 then Some (True, s1)
          else fragmented_from io v next_cluster s1
        else Some (False, s1))"

declare fragmented_from.simps [code]

definition is_fragmented ::
  "'s sector_io \<Rightarrow> vol \<Rightarrow> bytes \<Rightarrow> 's dir_state \<Rightarrow> (bool \<times> 's dir_state) option" where
  "is_fragmented io v filename d =
     do { (ok, d1) \<leftarrow> safe_open_dir io v d;
          if \<not> ok then None
          else do {
            (found, d2) \<leftarrow> find_file_in_curdir io v filename d1;
            if found = None then None
            else do { (r, s) \<leftarrow> fragmented_from io v (start_cluster (cur_entry d2)) (store d2);
                      Some (r, d2\<lparr>store := s\<rparr>) } } }"

partial_function (option) cluster_count_from ::
  "'s sector_io \<Rightarrow> vol \<Rightarrow> u32 \<Rightarrow> int \<Rightarrow> 's \<Rightarrow> (int \<times> 's) option" where
  "cluster_count_from io v file_cluster count s =
     (case chained_cluster io v file_cluster s of (c, s1) \<Rightarrow>
        if sint c > 0 \<and> sint c < 0xffffff8 then cluster_count_from io v c (count + 1) s1
        else Some (if sint c < 0 then - 1 else count + 1, s1))"

declare cluster_count_from.simps [code]

definition get_cluster_count ::
  "'s sector_io \<Rightarrow> vol \<Rightarrow> bytes \<Rightarrow> 's dir_state \<Rightarrow> (int \<times> 's dir_state) option" where
  "get_cluster_count io v filename d =
     do { (ok, d1) \<leftarrow> safe_open_dir io v d;
          if \<not> ok then Some (0, d1)
          else do {
            (found, d2) \<leftarrow> find_file_in_curdir io v filename d1;
            case found of
              None \<Rightarrow> Some (0, d2)
            | Some de \<Rightarrow> do { (n, s) \<leftarrow> cluster_count_from io v (d_ino de) 0 (store d2);
                             Some (n, d2\<lparr>store := s\<rparr>) } } }"

definition get_first_sector_of_file ::
  "'s sector_io \<Rightarrow> vol \<Rightarrow> bytes \<Rightarrow> 's dir_state \<Rightarrow> (u32 \<times> 's dir_state) option" where
  "get_first_sector_of_file io v name d =
     do { (ok, d1) \<leftarrow> safe_open_dir io v d;
          if \<not> ok then Some (- 1, d1)
          else do {
            (found, d2) \<leftarrow> find_file_in_curdir io v name d1;
            if found = None then Some (- 1, d2)
            else Some (partition_start v + first_cluster_sector v
                   + (start_cluster (cur_entry d2) - 2) * ucast (sectors_per_cluster v), d2) } }"

section \<open>Uploading\<close>

text \<open>
  Advancing to the next cluster of the file, allocating one at the end of the chain.  \<open>None\<close> is
  an error; the free cluster is marked and chained before it is checked.
\<close>

definition next_upload_cluster :: "'s sector_io \<Rightarrow> vol \<Rightarrow> u32 \<Rightarrow> 's \<Rightarrow> u32 option \<times> 's" where
  "next_upload_cluster io v file_cluster s =
     (case chained_cluster io v file_cluster s of (next_cluster, s1) \<Rightarrow>
        if client_end next_cluster then
          (case find_free_cluster io v file_cluster s1 of (c, s2) \<Rightarrow>
             case allocate_cluster io v c s2 of
               (False, s3) \<Rightarrow> (None, s3)
             | (True, s3) \<Rightarrow>
                 (case chain_cluster io v file_cluster c s3 of
                    (False, s4) \<Rightarrow> (None, s4)
                  | (True, s4) \<Rightarrow> (if sint c \<le> 0 then None else Some c, s4)))
        else (if sint next_cluster \<le> 0 then None else Some next_cluster, s1))"

definition pad_sector :: "bytes \<Rightarrow> sector" where
  "pad_sector data = data @ replicate (512 - length data) 0"

function upload_loop :: "'s sector_io \<Rightarrow> vol \<Rightarrow> bytes \<Rightarrow> u32 \<Rightarrow> nat \<Rightarrow> 's \<Rightarrow> bool \<times> 's" where
  "upload_loop io v data file_cluster sec s =
     (if data = [] then (True, s)
      else case (if sec \<ge> unat (sectors_per_cluster v)
                 then (case next_upload_cluster io v file_cluster s of (c, s') \<Rightarrow> (map_option (\<lambda>c. (c, 0)) c, s'))
                 else (Some (file_cluster, sec), s)) of
        (None, s1) \<Rightarrow> (False, s1)
      | (Some (c, k), s1) \<Rightarrow>
          (case wr io (client_sector v c k) (pad_sector (take 512 data)) s1 of
             (False, s2) \<Rightarrow> (False, s2)
           | (True, s2) \<Rightarrow> upload_loop io v (drop 512 data) c (k + 1) s2))"
  by pat_completeness auto
termination
  by (relation "measure (\<lambda>(_, _, data, _). length data)") auto

declare upload_loop.simps [simp del]

text \<open>\<open>(st.st_size - 1) / (512 * sectors_per_cluster) + 1\<close>: one cluster for an empty file.\<close>

definition upload_clusters :: "vol \<Rightarrow> nat \<Rightarrow> nat" where
  "upload_clusters v len = (len - 1) div cluster_size v + 1"

text \<open>Giving the entry under the cursor a first cluster; \<open>None\<close> is \<open>retVal = -1\<close>.\<close>

definition first_upload_cluster ::
  "'s sector_io \<Rightarrow> vol \<Rightarrow> nat \<Rightarrow> 's dir_state \<Rightarrow> (u32 option \<times> 's dir_state) option" where
  "first_upload_cluster io v len d =
     (let c = start_cluster (cur_entry d) in
      if c \<noteq> 0 then Some (Some c, d)
      else do {
        (r, s) \<leftarrow> find_contiguous_clusters io v (word_of_nat (upload_clusters v len)) (store d);
        case r of
          None \<Rightarrow> None
        | Some a_cluster \<Rightarrow>
            if a_cluster = 0 then Some (None, d\<lparr>store := s\<rparr>)
            else case allocate_cluster io v a_cluster s of
              (False, s1) \<Rightarrow> Some (None, d\<lparr>store := s1\<rparr>)
            | (True, s1) \<Rightarrow>
                (case dir_write io v (write_cluster_number_into_direntry a_cluster (d\<lparr>store := s1\<rparr>)) of
                   (ok, d1) \<Rightarrow> Some (if ok then Some a_cluster else None, d1))
      })"

definition client_delete ::
  "'s sector_io \<Rightarrow> vol \<Rightarrow> bool \<Rightarrow> bool \<Rightarrow> bytes \<Rightarrow> 's dir_state \<Rightarrow> (int \<times> 's dir_state) option" where
  "client_delete io v ignore_q answer name d =
     delete_file_or_dir_consent io v ignore_q answer (delete_single_file max_depth io v ignore_q answer) name False d"

text \<open>Making room: an existing file is kept only if its clusters fit the new size in one run.\<close>

definition upload_entry ::
  "'s sector_io \<Rightarrow> vol \<Rightarrow> bool \<Rightarrow> bool \<Rightarrow> tm \<Rightarrow> nat \<Rightarrow> bytes \<Rightarrow> 's dir_state \<Rightarrow> (bool \<times> 's dir_state) option" where
  "upload_entry io v ignore_q answer now len dest_name d =
     do {
       (found, d1) \<leftarrow> find_file_in_curdir io v dest_name d;
       (file_exists, d2) \<leftarrow>
         (if found = None then Some (False, d1)
          else do {
            (is_frag, d2) \<leftarrow> is_fragmented io v dest_name d1;
            (num_clusters, d3) \<leftarrow> get_cluster_count io v dest_name d2;
            if num_clusters \<noteq> int (upload_clusters v len) \<or> is_frag then do {
              (_, d4) \<leftarrow> client_delete io v ignore_q answer dest_name d3;
              Some (False, d4)
            }
            else Some (True, d3)
          });
       if file_exists then Some (True, d2)
       else create_direntry_with_attrib io v now dest_name DE_ATTRIB_FILE d2
     }"

definition upload_single_file ::
  "'s sector_io \<Rightarrow> vol \<Rightarrow> bool \<Rightarrow> bool \<Rightarrow> tm \<Rightarrow> (bytes \<Rightarrow> bytes option) \<Rightarrow> bytes \<Rightarrow> bytes \<Rightarrow> 's dir_state
     \<Rightarrow> (int \<times> 's dir_state) option" where
  "upload_single_file io v ignore_q answer now host name dest_name d =
     (case host name of
        None \<Rightarrow> Some (- 1, d)
      | Some contents \<Rightarrow> do {
          (ok, d1) \<leftarrow> safe_open_dir io v d;
          if \<not> ok then Some (- 1, d1)
          else do {
            (ok, d2) \<leftarrow> upload_entry io v ignore_q answer now (length contents) dest_name d1;
            if \<not> ok \<or> dir_sector d2 = no_dir then Some (- 1, d2)
            else do {
              (c, d3) \<leftarrow> first_upload_cluster io v (length contents) d2;
              case c of
                None \<Rightarrow> Some (- 1, d3)
              | Some first_cluster_of_file \<Rightarrow>
                  (case upload_loop io v contents first_cluster_of_file 0 (store d3) of (written, s) \<Rightarrow>
                   case dir_write io v (write_file_size_into_direntry (word_of_nat (length contents)) (d3\<lparr>store := s\<rparr>)) of
                     (False, d4) \<Rightarrow> Some (- 1, d4)
                   | (True, d4) \<Rightarrow> Some (if written then 0 else - 1, dir_flush io d4))
            }
          }
        })"

text \<open>
  \<open>upload_file\<close> with a wildcard goes through the local directory: its names, each with whether it is
  a directory, or \<open>None\<close> where \<open>stat\<close> fails.
\<close>

fun upload_matching ::
  "(bytes \<Rightarrow> 's dir_state \<Rightarrow> (int \<times> 's dir_state) option) \<Rightarrow> bytes \<Rightarrow> (bytes \<times> bool option) list
     \<Rightarrow> 's dir_state \<Rightarrow> 's dir_state option" where
  "upload_matching up name [] d = Some d"
| "upload_matching up name ((n, kind) # rest) d =
     do {
       m \<leftarrow> is_match n name True;
       if m \<and> kind = Some False then do { (_, d1) \<leftarrow> up n d; upload_matching up name rest d1 }
       else upload_matching up name rest d
     }"

definition upload_file ::
  "'s sector_io \<Rightarrow> vol \<Rightarrow> bool \<Rightarrow> bool \<Rightarrow> tm \<Rightarrow> (bytes \<Rightarrow> bytes option) \<Rightarrow> (bytes \<times> bool option) list
     \<Rightarrow> bytes \<Rightarrow> bytes \<Rightarrow> 's dir_state \<Rightarrow> (int \<times> 's dir_state) option" where
  "upload_file io v ignore_q answer now host local_dir name dest_name d =
     (if 0x2a \<notin> set name then upload_single_file io v ignore_q answer now host name dest_name d
      else do {
        d1 \<leftarrow> upload_matching (\<lambda>n. upload_single_file io v ignore_q answer now host n n) name local_dir d;
        Some (0, d1)
      })"

section \<open>Downloading\<close>

text \<open>
  \<open>remaining_bytes\<close> is an \<open>int\<close> and a negative one is cut off to 0 after the first sector.  The
  sectors are read with \<open>ioa\<close>, the interface that reads ahead.  The result is whether the loop ended
  by itself, the cluster it stopped at, and the bytes written.  With \<open>showClusters\<close> nothing is read
  or written.
\<close>

function download_loop ::
  "'s sector_io \<Rightarrow> 's sector_io \<Rightarrow> vol \<Rightarrow> bool \<Rightarrow> int \<Rightarrow> u32 \<Rightarrow> nat \<Rightarrow> bytes \<Rightarrow> 's \<Rightarrow> (bool \<times> u32 \<times> bytes) \<times> 's" where
  "download_loop io ioa v showClusters remaining file_cluster sec out s =
     (if remaining = 0 then ((True, file_cluster, out), s)
      else case (if sec \<ge> unat (sectors_per_cluster v)
                 then (case chained_cluster io v file_cluster s of (c, s') \<Rightarrow>
                         (if client_end c then None else Some (c, 0), s'))
                 else (Some (file_cluster, sec), s)) of
        (None, s1) \<Rightarrow> ((False, file_cluster, out), s1)
      | (Some (c, k), s1) \<Rightarrow>
          (case (if showClusters then (Some [], s1) else rd ioa (client_sector v c k) s1) of
             (None, s2) \<Rightarrow> ((False, c, out), s2)
           | (Some b, s2) \<Rightarrow>
               download_loop io ioa v showClusters (if remaining - 512 < 0 then 0 else remaining - 512) c (k + 1)
                 (out @ (if remaining \<ge> 512 then b else take (nat remaining) b)) s2))"
  by pat_completeness auto
termination
  by (relation "measure (\<lambda>(_, _, _, _, remaining, _). nat (if remaining < 0 then 1 else remaining))") auto

declare download_loop.simps [simp del]

text \<open>The walk to the end of the chain that follows the copying; a cycle never ends.\<close>

partial_function (option) chain_tail :: "'s sector_io \<Rightarrow> vol \<Rightarrow> u32 \<Rightarrow> 's \<Rightarrow> 's option" where
  "chain_tail io v next_cluster s =
     (if sint next_cluster < 0xffffff0
      then (case chained_cluster io v next_cluster s of (c, s1) \<Rightarrow> chain_tail io v c s1)
      else Some s)"

declare chain_tail.simps [code]

text \<open>
  \<open>fwrite(download_buffer, remaining_bytes, 1, f)\<close> with a negative count, for a file of
  2 GB or more, is outside the model.  After an error the file is closed twice.
\<close>

definition download_single_file ::
  "'s sector_io \<Rightarrow> 's sector_io \<Rightarrow> vol \<Rightarrow> bytes \<Rightarrow> bool \<Rightarrow> 's dir_state \<Rightarrow> ((int \<times> bytes) \<times> 's dir_state) option" where
  "download_single_file io ioa v dest_name showClusters d =
     do {
       (ok, d1) \<leftarrow> safe_open_dir io v d;
       if \<not> ok then Some ((- 1, []), d1)
       else do {
         (found, d2) \<leftarrow> find_file_in_curdir io v dest_name d1;
         case found of
           None \<Rightarrow> Some ((- 1, []), d2)
         | Some de \<Rightarrow>
             (case download_loop io ioa v showClusters (d_filelen de) (start_cluster (cur_entry d2)) 0 [] (store d2) of
                ((ok, file_cluster, out), s) \<Rightarrow>
              case chained_cluster io v file_cluster s of (next_cluster, s1) \<Rightarrow>
                do { s2 \<leftarrow> chain_tail io v next_cluster s1;
                     Some ((if ok then 0 else - 1, out), d2\<lparr>store := s2\<rparr>) })
       }
     }"

text \<open>
  \<open>download_file\<close>: a wildcard goes through the listing of the current directory.  The downloads
  are returned with the local names they are stored under.
\<close>

fun download_matching ::
  "(bytes \<Rightarrow> 's dir_state \<Rightarrow> ((int \<times> bytes) \<times> 's dir_state) option) \<Rightarrow> bytes \<Rightarrow> m65dirent list
     \<Rightarrow> 's dir_state \<Rightarrow> ((bytes \<times> bytes) list \<times> 's dir_state) option" where
  "download_matching down name [] d = Some ([], d)"
| "download_matching down name (itm # lst) d =
     do {
       m \<leftarrow> is_match (cstr (d_name itm)) name True;
       m' \<leftarrow> (if m then Some True else is_match (cstr (d_longname itm)) name True);
       if m' \<and> \<not> is_dir_entry itm \<and> d_name itm ! 0 \<noteq> 0 \<and> d_filelen itm \<ge> 0 then do {
         let n = (if d_longname itm ! 0 \<noteq> 0 then cstr (d_longname itm) else cstr (d_name itm));
         ((_, out), d1) \<leftarrow> down n d;
         (saved, d2) \<leftarrow> download_matching down name lst d1;
         Some ((n, out) # saved, d2)
       }
       else download_matching down name lst d
     }"

definition download_file ::
  "'s sector_io \<Rightarrow> 's sector_io \<Rightarrow> vol \<Rightarrow> bytes \<Rightarrow> bytes \<Rightarrow> bool \<Rightarrow> 's dir_state
     \<Rightarrow> ((int \<times> (bytes \<times> bytes) list) \<times> 's dir_state) option" where
  "download_file io ioa v name local_name showClusters d =
     (if name \<noteq> local_name \<or> 0x2a \<notin> set name
      then do { ((r, out), d1) \<leftarrow> download_single_file io ioa v name showClusters d; Some ((r, [(local_name, out)]), d1) }
      else do {
        (res, d1) \<leftarrow> read_remote_dirents io v (current_dir d) d;
        case res of
          None \<Rightarrow> Some ((0, []), d1)
        | Some (lst, _) \<Rightarrow> do {
            (saved, d2) \<leftarrow> download_matching (\<lambda>n. download_single_file io ioa v n showClusters) name lst d1;
            Some ((0, saved), d2) }
      })"

section \<open>Copying along a chain\<close>

text \<open>
  The client finds a cluster's sectors by the first cluster and sector it took from the boot sector,
  the file layer by its own formula; on a volume whose root directory is cluster 2 they agree.
\<close>

definition vol_linked :: "vol \<Rightarrow> bool" where
  "vol_linked v \<longleftrightarrow> first_cluster v = 2 \<and> first_cluster_sector v = reserved_sectors v + 2 * sectors_per_fat v"

lemma client_sector_eq: "vol_linked v \<Longrightarrow> client_sector v c k = file_sector v c k"
  by (simp add: vol_linked_def client_sector_def file_sector_def first_data_sector_def)

lemma client_end_chain:
  assumes "geometry_ok v" "data_chain v E cs" "i < length cs"
  shows "\<not> client_end (cs ! i)" "0 < sint (cs ! i)" "cs ! i < end_marker"
proof -
  have "unat (cs ! i) < 2 ^ 28 - 8" "2 \<le> unat (cs ! i)"
    using data_chain_nth [OF assms(2,3)] assms(1) by (simp_all add: geometry_ok_def end_marker_def)
  moreover from this have "sint (cs ! i) = int (unat (cs ! i))" by (intro sint_small) simp
  moreover from calculation(1,2) have "uint (cs ! i) < 2 ^ 28 - 8 \<and> 0 < uint (cs ! i)"
    by (simp only: uint_nat) (simp del: of_nat_unat)
  ultimately show "\<not> client_end (cs ! i)" "0 < sint (cs ! i)" "cs ! i < end_marker"
    by (auto simp: client_end_def end_marker_def word_less_nat_alt)
qed

lemma length_pad_sector [simp]: "length data \<le> 512 \<Longrightarrow> length (pad_sector data) = 512"
  by (simp add: pad_sector_def)

lemma take_pad_sector: "length data \<le> 512 \<Longrightarrow> n \<le> length data \<Longrightarrow> take n (pad_sector data) = take n data"
  by (simp add: pad_sector_def)

context sector_store
begin

lemma next_upload_in_chain:
  assumes "write_view inv disk resident v cs s" "Suc i < length cs"
  shows "\<exists>s'. next_upload_cluster io v (cs ! i) s = (Some (cs ! Suc i), s') \<and> read_only inv disk resident s s'"
  using chained_in_chain [OF assms] client_end_chain(1,2) [of v _ cs "Suc i"] assms
  by (auto simp: next_upload_cluster_def write_view_def not_le)

text \<open>Where sector \<open>k\<close> of the file is found from the position \<open>(i, sec)\<close>.\<close>

lemma sector_position:
  assumes "write_view inv disk resident v cs s" "i < length cs" "sec \<le> spc v" "i * spc v + sec = k" "k < spc v * length cs"
    and "\<And>i s. write_view inv disk resident v cs s \<Longrightarrow> Suc i < length cs \<Longrightarrow>
      \<exists>s'. nxt (cs ! i) s = (Some (cs ! Suc i), s') \<and> read_only inv disk resident s s'"
  shows "\<exists>s1. (if sec \<ge> spc v then (case nxt (cs ! i) s of (c, s') \<Rightarrow> (map_option (\<lambda>c. (c, 0)) c, s'))
      else (Some (cs ! i, sec), s)) = (Some (cs ! (k div spc v), k mod spc v), s1) \<and> read_only inv disk resident s s1"
proof (cases "sec < spc v")
  case True
  from slot_coordinates [OF this assms(4)] show ?thesis using True assms(1) by (auto simp: write_view_def intro: read_only_refl)
next
  case False
  have spc: "0 < spc v" using assms(1) by (simp add: write_view_def geometry_ok_def)
  have "k = Suc i * spc v" using False assms(3,4) by simp
  then have k: "k div spc v = Suc i" "k mod spc v = 0" using spc by (simp_all del: mult_Suc)
  then have "Suc i < length cs" using assms(5) spc by (simp add: less_mult_imp_div_less mult.commute flip: k(1))
  from assms(6) [OF assms(1) this] False k show ?thesis by auto
qed

lemma upload_loop_in_chain:
  assumes "write_view inv disk resident v cs s" "vol_linked v" "i < length cs" "sec \<le> spc v"
    and "data \<noteq> [] \<Longrightarrow> i * spc v + sec = k" "512 * k + length data \<le> 512 * (spc v * length cs)"
  shows "\<exists>s'. upload_loop io v data (cs ! i) sec s = (True, s') \<and> write_view inv disk resident v cs s'
    \<and> subbuf (512 * k) (length data) (file_bytes (disk s') v cs) = data
    \<and> take (512 * k) (file_bytes (disk s') v cs) = take (512 * k) (file_bytes (disk s) v cs)
    \<and> (\<forall>a. (\<forall>k < spc v * length cs. a \<noteq> file_sector_at v cs k) \<longrightarrow> disk s' a = disk s a)"
  using assms
proof (induction "length data" arbitrary: i sec k data s rule: less_induct)
  case less
  note w = less.prems(1) [unfolded write_view_def]
  show ?case
  proof (cases "data = []")
    case True
    then show ?thesis using less.prems(1) by (auto simp: upload_loop.simps)
  next
    case False
    then have "0 < length data" by simp
    then have k: "k < spc v * length cs" using less.prems(6) by linarith
    let ?a = "file_sector_at v cs k" and ?b = "pad_sector (take 512 data)"
    obtain s1 where pos: "(if sec \<ge> spc v then (case next_upload_cluster io v (cs ! i) s of (c, s') \<Rightarrow> (map_option (\<lambda>c. (c, 0)) c, s'))
          else (Some (cs ! i, sec), s)) = (Some (cs ! (k div spc v), k mod spc v), s1)" and ro: "read_only inv disk resident s s1"
      using sector_position [where nxt = "next_upload_cluster io v", OF less.prems(1,3,4) less.prems(5) [OF False] k next_upload_in_chain]
      by blast
    have w1: "write_view inv disk resident v cs s1" by (rule write_view_read_only [OF ro less.prems(1)])
    note w1' = w1 [unfolded write_view_def]
    have len: "\<forall>n. length (disk s1 n) = 512" and geo: "geometry_ok v" "data_chain v (fat_get (disk s1) v) cs" using w1' by simp_all
    have a: "client_sector v (cs ! (k div spc v)) (k mod spc v) = ?a"
      using client_sector_eq [OF less.prems(2)] by (simp add: file_sector_at_def)
    have b: "length ?b = 512" by simp
    let ?s2 = "after_wr io ?a ?b s1"
    have notfat: "?a \<notin> fat_sectors v" by (rule file_sector_not_fat [OF geo k])
    note w2 = write_view_write [OF w1 _ notfat b]
    have ra: "resident s1 ?a" using w1' k by simp
    have bytes: "file_bytes (disk ?s2) v cs = blit (512 * k) ?b (file_bytes (disk s) v cs)"
      using file_bytes_upd [OF len b geo k] w2(2) [OF ra] ro by (simp add: read_only_def)
    have step: "upload_loop io v data (cs ! i) sec s = upload_loop io v (drop 512 data) (cs ! (k div spc v)) (k mod spc v + 1) ?s2"
      using w1' b by (subst upload_loop.simps) (simp only: False if_False pos a prod.case option.case wr_eq bool.case)
    let ?n = "min 512 (length data)" and ?F = "\<lambda>s. file_bytes (disk s) v cs"
    have n: "length (take 512 data) = ?n" "length data - 512 = length (drop 512 data)" by simp_all
    have next_pos: "k div spc v * spc v + (k mod spc v + 1) = k + 1" by simp
    have fit: "512 * (k + 1) + length (drop 512 data) \<le> 512 * (spc v * length cs)"
      using less.prems(6) k by simp
    have spc: "0 < spc v" using geo by (simp add: geometry_ok_def)
    obtain s' where r: "upload_loop io v (drop 512 data) (cs ! (k div spc v)) (k mod spc v + 1) ?s2 = (True, s')"
        "write_view inv disk resident v cs s'" "subbuf (512 * (k + 1)) (length (drop 512 data)) (?F s') = drop 512 data"
        "take (512 * (k + 1)) (?F s') = take (512 * (k + 1)) (?F ?s2)"
        "\<forall>a. (\<forall>k < spc v * length cs. a \<noteq> file_sector_at v cs k) \<longrightarrow> disk s' a = disk ?s2 a"
      using less.hyps [OF _ w2(1) [OF ra] less.prems(2) file_sector_at_unat(2) [OF geo k] _ next_pos fit] spc False
      by (auto simp: Suc_leI)
    have lenF: "length (?F s) = 512 * (spc v * length cs)" using w by (simp add: length_file_bytes)
    have first: "take (512 * k + 512) (?F s') = take (512 * k) (?F s) @ ?b"
      using r(4) bytes k lenF by (simp add: blit_def add.commute)
    show ?thesis
    proof (intro exI conjI)
      show "upload_loop io v data (cs ! i) sec s = (True, s')" using step r(1) by simp
      show "take (512 * k) (?F s') = take (512 * k) (?F s)"
        using arg_cong [OF first, of "take (512 * k)"] lenF k by (simp add: min_def)
      have "subbuf (512 * k) (length data) (?F s') = subbuf (512 * k) ?n (?F s') @ subbuf (512 * k + ?n) (length data - ?n) (?F s')"
        using subbuf_join [of "512 * k" ?n "?F s'" "length data - ?n"] by simp
      moreover have "subbuf (512 * k) ?n (?F s') = take 512 data"
      proof -
        have "subbuf (512 * k) 512 (?F s') = ?b"
          using arg_cong [OF first, of "drop (512 * k)"] lenF k by (simp add: subbuf_def drop_take min_def)
        then have "take ?n (subbuf (512 * k) 512 (?F s')) = take 512 data" by (simp add: take_pad_sector min_def)
        then show ?thesis by (simp add: subbuf_def)
      qed
      moreover have "subbuf (512 * k + ?n) (length data - ?n) (?F s') = drop 512 data"
      proof (cases "length data \<le> 512")
        case False
        then show ?thesis using r(3) by (simp add: add.commute)
      qed simp
      ultimately show "subbuf (512 * k) (length data) (?F s') = data" by simp
      show "\<forall>a. (\<forall>k < spc v * length cs. a \<noteq> file_sector_at v cs k) \<longrightarrow> disk s' a = disk s a"
        using r(5) w2(2) [OF ra] ro k by (simp add: read_only_def)
    qed (rule r(2))
  qed
qed

lemma download_loop_in_chain:
  assumes "sector_read ioa inv disk resident" "write_view inv disk resident v cs s" "vol_linked v" "i < length cs" "sec \<le> spc v"
    and "n > 0 \<Longrightarrow> i * spc v + sec = k" "512 * k + n \<le> 512 * (spc v * length cs)"
  shows "\<exists>j s'. download_loop io ioa v False (int n) (cs ! i) sec out s
      = ((True, cs ! j, out @ subbuf (512 * k) n (file_bytes (disk s) v cs)), s')
    \<and> j < length cs \<and> read_only inv disk resident s s'"
  using assms(2-)
proof (induction n arbitrary: i sec k out s rule: less_induct)
  case (less n)
  note w = less.prems(1) [unfolded write_view_def]
  show ?case
  proof (cases "n = 0")
    case True
    then show ?thesis using less.prems(1,3) by (auto simp: download_loop.simps write_view_def intro: read_only_refl)
  next
    case False
    then have k: "k < spc v * length cs" using less.prems(6) by linarith
    let ?a = "file_sector_at v cs k" and ?F = "file_bytes (disk s) v cs" and ?n = "min 512 n"
    have nxt: "\<exists>s'. (\<lambda>c s. case chained_cluster io v c s of (c, s') \<Rightarrow> (if client_end c then None else Some c, s')) (cs ! i) s
        = (Some (cs ! Suc i), s') \<and> read_only inv disk resident s s'"
      if "write_view inv disk resident v cs s" "Suc i < length cs" for i s
      using chained_in_chain [OF that] client_end_chain(1) [of v _ cs "Suc i"] that by (auto simp: write_view_def)
    obtain s1 where pos: "(if sec \<ge> spc v then (case chained_cluster io v (cs ! i) s of (c, s') \<Rightarrow> (if client_end c then None else Some (c, 0), s'))
          else (Some (cs ! i, sec), s)) = (Some (cs ! (k div spc v), k mod spc v), s1)" and ro: "read_only inv disk resident s s1"
      using sector_position [where nxt = "\<lambda>c s. case chained_cluster io v c s of (c, s') \<Rightarrow> (if client_end c then None else Some c, s')",
          OF less.prems(1,3,4) less.prems(5) [OF _] k nxt] False
      by (auto simp: case_prod_beta split: if_splits)
    have w1: "write_view inv disk resident v cs s1" by (rule write_view_read_only [OF ro less.prems(1)])
    note w1' = w1 [unfolded write_view_def]
    have d1: "disk s1 = disk s" using ro by (simp add: read_only_def)
    have len: "\<forall>n. length (disk s n) = 512" and geo: "geometry_ok v" "data_chain v (fat_get (disk s) v) cs" using w by simp_all
    have a: "client_sector v (cs ! (k div spc v)) (k mod spc v) = ?a"
      using client_sector_eq [OF less.prems(2)] by (simp add: file_sector_at_def)
    have ra: "resident s1 ?a" "inv s1" using w1' k by simp_all
    let ?s2 = "after_rd ioa ?a s1"
    have rd: "rd ioa ?a s1 = (Some (disk s ?a), ?s2)" using sector_read.rd_eq [OF assms(1) ra(2,1)] d1 by simp
    have ro2: "read_only inv disk resident s ?s2"
      using read_only_trans [OF ro] sector_read.rd_read_only [OF assms(1) ra(2,1)] by blast
    have sub: "subbuf (512 * k) ?n ?F = take ?n (disk s ?a)"
      using file_bytes_sector [OF len k] by (simp add: subbuf_def flip: file_bytes_sector [OF len k])
    have chunk: "(if int n \<ge> 512 then disk s ?a else take (nat (int n)) (disk s ?a)) = subbuf (512 * k) ?n ?F"
      using len sub by (simp add: min_def)
    have rest: "(if int n - 512 < 0 then 0 else int n - 512) = int (n - 512)" by simp
    have n: "int n \<noteq> 0" using False by simp
    have step: "download_loop io ioa v False (int n) (cs ! i) sec out s = download_loop io ioa v False (int (n - 512))
        (cs ! (k div spc v)) (k mod spc v + 1) (out @ subbuf (512 * k) ?n ?F) ?s2"
      by (subst download_loop.simps) (simp only: n if_False pos prod.case option.case a rd chunk rest)
    have spc: "0 < spc v" using geo by (simp add: geometry_ok_def)
    obtain j s' where r: "download_loop io ioa v False (int (n - 512)) (cs ! (k div spc v)) (k mod spc v + 1) (out @ subbuf (512 * k) ?n ?F) ?s2
        = ((True, cs ! j, (out @ subbuf (512 * k) ?n ?F) @ subbuf (512 * (k + 1)) (n - 512) (file_bytes (disk ?s2) v cs)), s')"
        "j < length cs" "read_only inv disk resident ?s2 s'"
    proof -
      have "k div spc v * spc v + (k mod spc v + 1) = k + 1" by simp
      moreover have "512 * (k + 1) + (n - 512) \<le> 512 * (spc v * length cs)" using less.prems(6) k by simp
      ultimately show ?thesis
        using less.IH [of "n - 512" ?s2 "k div spc v" "k mod spc v + 1" "k + 1" "out @ subbuf (512 * k) ?n ?F"] write_view_read_only [OF ro2 less.prems(1)]
          less.prems(2) file_sector_at_unat(2) [OF geo k] spc False that by (auto simp: Suc_leI)
    qed
    have "subbuf (512 * k) ?n ?F @ subbuf (512 * (k + 1)) (n - 512) ?F = subbuf (512 * k) n ?F"
    proof (cases "n \<le> 512")
      case False
      then show ?thesis using subbuf_join [of "512 * k" 512 ?F "n - 512"] by (simp add: add.commute)
    qed simp
    moreover have "disk ?s2 = disk s" using ro2 by (simp add: read_only_def)
    ultimately show ?thesis using r step read_only_trans [OF ro2 r(3)] by auto
  qed
qed

end

section \<open>Chains and their length\<close>

text \<open>A chain as the client follows it: all of it readable, the last link an end marker.\<close>

definition client_chain :: "(nat \<Rightarrow> u32) \<Rightarrow> nat \<Rightarrow> u32 list \<Rightarrow> bool" where
  "client_chain E m cs \<longleftrightarrow> fat_chain E cs \<and> (\<forall>c \<in> set cs. unat c < m) \<and> client_end (E (unat (last cs)))
     \<and> E (unat (last cs)) \<ge> end_marker"

lemma client_chain_Cons:
  "client_chain E m (c # d # cs) \<longleftrightarrow> E (unat c) = d \<and> d \<noteq> 0 \<and> d < end_marker \<and> unat c < m \<and> client_chain E m (d # cs)"
  by (auto simp: client_chain_def)

lemma below_end_marker: "(c :: u32) < end_marker \<Longrightarrow> c \<noteq> 0 \<Longrightarrow> 0 < sint c \<and> sint c < 0xffffff8"
proof -
  assume "c < end_marker" "c \<noteq> 0"
  then have u: "unat c < 2 ^ 28 - 8" "0 < unat c" by (simp_all add: end_marker_def word_less_nat_alt unat_gt_0)
  then have "sint c = int (unat c)" by (intro sint_small) simp
  then show ?thesis using u by (simp only:) (simp del: of_nat_unat)
qed

context sector_read
begin

lemma cluster_count_eq:
  assumes "inv s" "fat_all stable v s" "client_chain (fat_get (disk s) v) (128 * fat_len v) (c # cs)"
  shows "\<exists>s'. cluster_count_from io v c n s = Some (n + 1 + int (length cs), s') \<and> read_only inv disk stable s s'"
  using assms
proof (induction cs arbitrary: c n s)
  case Nil
  then have c: "unat c < 128 * fat_len v" "client_end (fat_get (disk s) v (unat c))" "fat_get (disk s) v (unat c) \<noteq> 0"
    by (auto simp: client_chain_def end_marker_def)
  then show ?case
    using chained_cluster_eq [OF Nil.prems(1,2) c(1)]
    by (cases "chained_cluster io v c s") (simp add: cluster_count_from.simps client_end_def)
next
  case (Cons d cs)
  note c = Cons.prems(3) [unfolded client_chain_Cons]
  obtain s1 where s1: "chained_cluster io v c s = (d, s1)" "read_only inv disk stable s s1"
    using chained_cluster_eq [OF Cons.prems(1,2), of c] c by (cases "chained_cluster io v c s") simp
  note k = read_onlyD [OF s1(2)]
  obtain s2 where "cluster_count_from io v d (n + 1) s1 = Some (n + 1 + 1 + int (length cs), s2)" "read_only inv disk stable s1 s2"
    using Cons.IH [OF k(1), of d "n + 1"] Cons.prems c k(2,3) by auto
  with s1 c below_end_marker [of d] show ?case
    by (subst cluster_count_from.simps) (auto intro: read_only_trans)
qed

lemma fragmented_eq:
  assumes "inv s" "fat_all stable v s" "client_chain (fat_get (disk s) v) (128 * fat_len v) (c # cs)"
  shows "\<exists>s'. fragmented_from io v c s = Some (\<not> successively (\<lambda>a b. b = a + 1) (c # cs), s')
    \<and> read_only inv disk stable s s'"
  using assms
proof (induction cs arbitrary: c s)
  case Nil
  then have c: "unat c < 128 * fat_len v" "fat_get (disk s) v (unat c) \<ge> end_marker" by (auto simp: client_chain_def)
  then show ?case
    using chained_cluster_eq [OF Nil.prems(1,2) c(1)] leD [OF c(2)]
    by (cases "chained_cluster io v c s") (subst fragmented_from.simps, simp)
next
  case (Cons d cs)
  note c = Cons.prems(3) [unfolded client_chain_Cons]
  obtain s1 where s1: "chained_cluster io v c s = (d, s1)" "read_only inv disk stable s s1"
    using chained_cluster_eq [OF Cons.prems(1,2), of c] c by (cases "chained_cluster io v c s") simp
  note k = read_onlyD [OF s1(2)]
  obtain s2 where "fragmented_from io v d s1 = Some (\<not> successively (\<lambda>a b. b = a + 1) (d # cs), s2)" "read_only inv disk stable s1 s2"
    using Cons.IH [OF k(1), of d] Cons.prems c k(2,3) by auto
  with s1 c show ?case
    by (subst fragmented_from.simps) (auto intro: read_only_trans)
qed

end

section \<open>Properties\<close>



text \<open>
  What an upload learns about the file it replaces.  For a file on a proper chain
  \<open>cluster_count_from\<close> counts its clusters and \<open>fragmented_from\<close> says whether they fail to be
  consecutive.
\<close>
lemma upload_measures_chain:
  assumes "blk_inv ops s" "fat_all blk_stable v s" "client_chain (fat_get (blk_disk ops s) v) (128 * fat_len v) cs"
  shows "\<exists>s1 s2. cluster_count_from (blk_io ops) v (hd cs) 0 s = Some (int (length cs), s1)
    \<and> fragmented_from (blk_io ops) v (hd cs) s = Some (\<not> successively (\<lambda>a b. b = a + 1) cs, s2)
    \<and> blk_disk ops s1 = blk_disk ops s \<and> blk_disk ops s2 = blk_disk ops s"
proof -
  obtain c cs' where cs: "cs = c # cs'" using assms(3) by (cases cs) (simp_all add: client_chain_def)
  show ?thesis
    using blk.cluster_count_eq [OF assms(1,2), of c cs' 0] blk.fragmented_eq [OF assms(1,2), of c cs'] assms(3)
    unfolding cs read_only_def by fastforce
qed

text \<open>
  An upload that runs out of clusters damages the FAT.  When no cluster is free,
  extending the file reports an error, but only after entry 0 of the FAT was overwritten and
  the last cluster of the file was linked to cluster 0: it now counts as free.
\<close>
lemma upload_on_full_card_frees_cluster:
  assumes "blk_inv ops s" "vol_ok v" "fat_both blk_resident v s" "2 \<le> unat c" "unat c < 128 * fat_len v"
    and "client_end (fat_get (blk_disk ops s) v (unat c))" "\<forall>n. 2 \<le> n \<and> n < 128 * fat_len v \<longrightarrow> fat_get (blk_disk ops s) v n \<noteq> 0"
  shows "\<exists>s'. next_upload_cluster (blk_io ops) v c s = (None, s')
    \<and> fat_get (blk_disk ops s') v 0 = 0x0ffffff8 \<and> fat_get (blk_disk ops s') v (unat c) = 0
    \<and> (\<forall>m < 128 * fat_len v. m \<noteq> 0 \<and> m \<noteq> unat c \<longrightarrow> fat_get (blk_disk ops s') v m = fat_get (blk_disk ops s) v m)"
proof -
  let ?N = "128 * fat_len v" and ?E = "fat_get (blk_disk ops s) v"
  note all = fat_both_all [OF resident_fat_stable [OF assms(1,3)]]
  obtain s1 where s1: "chained_cluster (blk_io ops) v c s = (?E (unat c), s1)" "read_only (blk_inv ops) (blk_disk ops) blk_resident s s1"
    using blk.res.chained_cluster_eq [OF assms(1) fat_both_all [OF assms(3)] assms(5)]
    by (cases "chained_cluster (blk_io ops) v c s") simp
  note k1 = read_onlyD [OF s1(2)]
  have le: "unat c \<le> ?N" using assms(5) by simp
  have "next_free ?E (max 2 (unat c)) ?N = 0"
    using assms(4,5,7) by (subst next_free_0_iff) auto
  then obtain s2 where s2: "find_free_cluster (blk_io ops) v c s1 = (0, s2)" "read_only (blk_inv ops) (blk_disk ops) blk_resident s1 s2"
    using blk.res.find_free_cluster_eq [OF k1(1) fat_both_all [OF k1(4) [OF assms(3)]] assms(2) le refl] k1(2)
    by (cases "find_free_cluster (blk_io ops) v c s1") simp
  note k2 = read_onlyD [OF s2(2)]
  have N: "unat (0 :: u32) < ?N" using assms(5) by simp
  define s3 where "s3 = snd (write_fat_entry (blk_io ops) v 0 0x0ffffff8 s2)"
  note w3 = chain_cluster_kept [OF k2(1) assms(2) k2(4) [OF k1(4) [OF assms(3)]] N, where x = "0x0ffffff8", folded s3_def]
  define s4 where "s4 = snd (write_fat_entry (blk_io ops) v c 0 s3)"
  note w4 = chain_cluster_kept [OF w3(2) assms(2) w3(3) assms(5), where x = 0, folded s4_def]
  have "next_upload_cluster (blk_io ops) v c s = (None, s4)"
    using s1(1) s2(1) w3(4) w4(4) assms(6)
    by (simp add: next_upload_cluster_def allocate_cluster_def set_fat_cluster_ptr_def chain_cluster_def s3_def s4_def
        case_prod_beta split: bool.splits prod.splits)
  moreover have E4: "fat_get (blk_disk ops s4) v m = (if m = unat c then 0 else if m = 0 then 0x0ffffff8 else ?E m)" if "m < ?N" for m
    using w3(1) w4(1) that k1(2) k2(2) by (simp add: fat_set_def)
  ultimately show ?thesis using assms(4,5) N by (intro exI [of _ s4]) auto
qed

end
