(* ===== verification/Scan.thy ===== *)
theory Scan
  imports Prelude
begin

text \<open>
  The conversions of text that the C library does for the client: \<open>atoi\<close>, \<open>sscanf\<close> with the
  conversions \<open>%d\<close>, \<open>%s\<close> and \<open>%x\<close>, and \<open>fprintf\<close> with \<open>%02X\<close> and \<open>%04X\<close>.  Integers are read without
  overflow.
\<close>

section \<open>Characters\<close>

definition ascii :: "string \<Rightarrow> bytes" where
  "ascii s = map of_char s"

lemma ascii_simps [simp]: "ascii [] = []" "ascii (c # s) = of_char c # ascii s"
  by (simp_all add: ascii_def)

definition is_space :: "u8 \<Rightarrow> bool" where
  "is_space c \<longleftrightarrow> c = 0x20 \<or> 0x09 \<le> c \<and> c \<le> 0x0d"

definition is_digit :: "u8 \<Rightarrow> bool" where
  "is_digit c \<longleftrightarrow> 0x30 \<le> c \<and> c \<le> 0x39"

definition hex_value :: "u8 \<Rightarrow> nat option" where
  "hex_value c =
     (if 0x30 \<le> c \<and> c \<le> 0x39 then Some (unat c - 0x30)
      else if 0x41 \<le> c \<and> c \<le> 0x46 then Some (unat c - 0x37)
      else if 0x61 \<le> c \<and> c \<le> 0x66 then Some (unat c - 0x57) else None)"

section \<open>Numbers\<close>

fun digits_value :: "nat \<Rightarrow> bytes \<Rightarrow> nat" where
  "digits_value n [] = n"
| "digits_value n (c # s) = (if is_digit c then digits_value (10 * n + unat (c - 0x30)) s else n)"

definition atoi :: "bytes \<Rightarrow> int" where
  "atoi s =
     (case dropWhile is_space s of
        [] \<Rightarrow> 0
      | c # r \<Rightarrow> if c = 0x2d then - int (digits_value 0 r)
                 else if c = 0x2b then int (digits_value 0 r) else int (digits_value 0 (c # r)))"

fun hex_digits_value :: "nat \<Rightarrow> bytes \<Rightarrow> nat" where
  "hex_digits_value n [] = n"
| "hex_digits_value n (c # s) = (case hex_value c of None \<Rightarrow> n | Some d \<Rightarrow> hex_digits_value (16 * n + d) s)"

text \<open>A sign, if there is one, and what follows it.\<close>

fun take_sign :: "bytes \<Rightarrow> int \<times> bytes" where
  "take_sign [] = (1, [])"
| "take_sign (c # s) = (if c = 0x2d then (- 1, s) else if c = 0x2b then (1, s) else (1, c # s))"

text \<open>The prefix \<open>0x\<close>, which \<open>%x\<close> accepts.\<close>

fun drop_0x :: "bytes \<Rightarrow> bytes" where
  "drop_0x (a # b # s) = (if a = 0x30 \<and> (b = 0x78 \<or> b = 0x58) then s else a # b # s)"
| "drop_0x s = s"

section \<open>The scanner\<close>

datatype arg = IntArg int | StrArg bytes

datatype scan_item = ScanSpace | ScanChar u8 | ScanInt | ScanHex | ScanStr

text \<open>The values of the conversions that succeeded; their number is what \<open>sscanf\<close> returns.\<close>

fun sscanf :: "scan_item list \<Rightarrow> bytes \<Rightarrow> arg list" where
  "sscanf [] s = []"
| "sscanf (ScanSpace # fmt) s = sscanf fmt (dropWhile is_space s)"
| "sscanf (ScanChar x # fmt) s = (case s of [] \<Rightarrow> [] | c # s' \<Rightarrow> if c = x then sscanf fmt s' else [])"
| "sscanf (ScanInt # fmt) s =
     (case take_sign (dropWhile is_space s) of (sg, t) \<Rightarrow>
        if takeWhile is_digit t = [] then []
        else IntArg (sg * int (digits_value 0 t)) # sscanf fmt (dropWhile is_digit t))"
| "sscanf (ScanHex # fmt) s =
     (case take_sign (dropWhile is_space s) of (sg, t0) \<Rightarrow>
        let t = drop_0x t0 in
        if takeWhile (\<lambda>c. hex_value c \<noteq> None) t = [] then []
        else IntArg (sg * int (hex_digits_value 0 t)) # sscanf fmt (dropWhile (\<lambda>c. hex_value c \<noteq> None) t))"
| "sscanf (ScanStr # fmt) s =
     (let t = dropWhile is_space s in
      if t = [] then []
      else StrArg (takeWhile (\<lambda>c. \<not> is_space c) t) # sscanf fmt (dropWhile (\<lambda>c. \<not> is_space c) t))"

text \<open>The format with a word in front: \<open>"cluster %d"\<close> is \<open>fmt_word ''cluster'' [ScanSpace, ScanInt]\<close>.\<close>

definition fmt_word :: "string \<Rightarrow> scan_item list \<Rightarrow> scan_item list" where
  "fmt_word w items = map ScanChar (ascii w) @ items"

section \<open>Hexadecimal output\<close>

definition hex_char :: "nat \<Rightarrow> u8" where
  "hex_char n = (if n < 10 then word_of_nat (0x30 + n) else word_of_nat (0x37 + n))"

text \<open>\<open>%02X\<close> of a value below 256 and \<open>%04X\<close> of one below 65536.\<close>

definition hex2 :: "nat \<Rightarrow> bytes" where
  "hex2 n = [hex_char (n div 16 mod 16), hex_char (n mod 16)]"

definition hex4 :: "nat \<Rightarrow> bytes" where
  "hex4 n = hex2 (n div 256) @ hex2 n"

lemma nibble_range: "n < 16 \<Longrightarrow> n \<in> {0, 1, 2, 3, 4, 5, 6, 7, 8, 9, 10, 11, 12, 13, 14, 15 :: nat}"
  by (simp only: insert_iff empty_iff) presburger

lemma hex_char_props: "n < 16 \<Longrightarrow> hex_value (hex_char n) = Some n \<and> hex_char n \<noteq> 0x0a"
  by (drule nibble_range, elim insertE emptyE) (simp_all add: hex_char_def hex_value_def)
lemmas hex_value_char [simp] = hex_char_props [THEN conjunct1]
lemmas hex_char_newline [simp] = hex_char_props [THEN conjunct2]

end
