(* ===== verification/SectorTools.thy ===== *)
theory SectorTools
  imports FileTransfer Scan
begin

text \<open>
  The client's commands that work on sectors (\<open>src/lib/libm65ftp/mega65_ftp.c\<close>): freeze slots,
  sector dumps and their restoring, pokes, and what the FAT and the partition table are shown as.
  What a command prints is a value.  Files on the host can be created, and those to be read are the bytes
  \<open>fread\<close> gives; \<open>None\<close> is an access outside an array.
\<close>

section \<open>Freeze slots\<close>

text \<open>
  \<open>sector_num\<close>; the factors and terms are unsigned but for the slot's number, which was found
  to lie in the range of the slots.
\<close>

definition slot_sector :: "vol \<Rightarrow> int \<Rightarrow> nat \<Rightarrow> u32" where
  "slot_sector v slot_number i = syspart_start v + syspart_freeze_area v + syspart_slotdir_sectors v
     + word_of_int slot_number * syspart_slot_size v + word_of_nat i"

definition slot_valid :: "vol \<Rightarrow> int \<Rightarrow> bool" where
  "slot_valid v slot_number \<longleftrightarrow> syspart_start v \<noteq> 0 \<and> 0 \<le> slot_number \<and> slot_number < uint (syspart_slot_count v)"

text \<open>
  The loop of \<open>upload_slot\<close> over sectors \<open>i\<close> to \<open>i + n\<close>.  The array that \<open>fread\<close> fills is not
  initialised: what it holds before sector \<open>i\<close> is read is \<open>junk i\<close>.
\<close>

fun upload_slot_from :: "'s sector_io \<Rightarrow> vol \<Rightarrow> int \<Rightarrow> (nat \<Rightarrow> sector) \<Rightarrow> nat \<Rightarrow> nat \<Rightarrow> bytes \<Rightarrow> 's \<Rightarrow> bool \<times> 's" where
  "upload_slot_from io v slot junk i 0 f s = (True, s)"
| "upload_slot_from io v slot junk i (Suc n) f s =
     (case wr io (slot_sector v slot i) (blit 0 (take 512 f) (junk i)) s of
        (False, s1) \<Rightarrow> (False, s1)
      | (True, s1) \<Rightarrow> upload_slot_from io v slot junk (Suc i) n (drop 512 f) s1)"

definition upload_slot ::
  "'s sector_io \<Rightarrow> vol \<Rightarrow> (bytes \<Rightarrow> bytes option) \<Rightarrow> (nat \<Rightarrow> sector) \<Rightarrow> int \<Rightarrow> bytes \<Rightarrow> 's \<Rightarrow> int \<times> 's" where
  "upload_slot io v host junk slot_number src_name s =
     (if \<not> slot_valid v slot_number then (- 1, s)
      else case host src_name of
        None \<Rightarrow> (- 1, s)
      | Some f \<Rightarrow>
          (case upload_slot_from io v slot_number junk 0 (unat (syspart_slot_size v)) f s of
             (ok, s1) \<Rightarrow> (if ok then 0 else - 1, s1)))"

text \<open>\<open>download_slot\<close> reads with \<open>read_sector(..., CACHE_YES, 64)\<close>; \<open>None\<close> where no file is made.\<close>

fun download_slot_from :: "'s sector_io \<Rightarrow> vol \<Rightarrow> int \<Rightarrow> nat \<Rightarrow> nat \<Rightarrow> bytes \<Rightarrow> 's \<Rightarrow> (bool \<times> bytes) \<times> 's" where
  "download_slot_from io v slot i 0 out s = ((True, out), s)"
| "download_slot_from io v slot i (Suc n) out s =
     (case rd io (slot_sector v slot i) s of
        (None, s1) \<Rightarrow> ((False, out), s1)
      | (Some b, s1) \<Rightarrow> download_slot_from io v slot (Suc i) n (out @ b) s1)"

definition download_slot :: "'s sector_io \<Rightarrow> vol \<Rightarrow> int \<Rightarrow> 's \<Rightarrow> (int \<times> bytes option) \<times> 's" where
  "download_slot io v slot_number s =
     (if \<not> slot_valid v slot_number then ((- 1, None), s)
      else case download_slot_from io v slot_number 0 (unat (syspart_slot_size v)) [] s of
        ((ok, out), s1) \<Rightarrow> ((if ok then 0 else - 1, Some out), s1))"

section \<open>Dumps\<close>

text \<open>A read whose failure is ignored: the buffer keeps what it held.\<close>

definition read_into_buffer :: "'s sector_io \<Rightarrow> u32 \<Rightarrow> 's dir_state \<Rightarrow> 's dir_state" where
  "read_into_buffer io n d =
     (case rd io n (store d) of
        (Some b, s1) \<Rightarrow> d\<lparr>dir_sector_buffer := b, store := s1\<rparr>
      | (None, s1) \<Rightarrow> d\<lparr>store := s1\<rparr>)"

fun dump_sectors :: "'s sector_io \<Rightarrow> int \<Rightarrow> nat \<Rightarrow> 's dir_state \<Rightarrow> bytes \<times> 's dir_state" where
  "dump_sectors io start 0 d = ([], d)"
| "dump_sectors io start (Suc n) d =
     (let d1 = read_into_buffer io (word_of_int start) d in
      case dump_sectors io (start + 1) n d1 of (out, d2) \<Rightarrow> (dir_sector_buffer d1 @ out, d2))"

text \<open>The sectors of the file, one after the other; results of \<open>write_sector\<close> are ignored.\<close>

fun restore_loop :: "'s sector_io \<Rightarrow> int \<Rightarrow> nat \<Rightarrow> bytes \<Rightarrow> 's dir_state \<Rightarrow> 's dir_state" where
  "restore_loop io start 0 f d = d"
| "restore_loop io start (Suc n) f d =
     (let d1 = d\<lparr>dir_sector_buffer := take 512 f\<rparr> in
      restore_loop io (start + 1) n (drop 512 f) (d1\<lparr>store := snd (wr io (word_of_int start) (dir_sector_buffer d1) (store d1))\<rparr>))"

text \<open>\<open>secrestore_count\<close> is the number of whole sectors; a file that cannot be read crashes.\<close>

definition restore_sectors :: "'s sector_io \<Rightarrow> bytes \<Rightarrow> int \<Rightarrow> 's dir_state \<Rightarrow> 's dir_state" where
  "restore_sectors io f start d = dir_flush io (restore_loop io start (length f div 512) f d)"

section \<open>Pokes\<close>

definition parse_value :: "bytes \<Rightarrow> int" where
  "parse_value strval =
     (case (case strval of [] \<Rightarrow> [] | c # s \<Rightarrow> if c = 0x24 then sscanf [ScanHex] s else sscanf [ScanInt] strval) of
        [IntArg n] \<Rightarrow> n
      | _ \<Rightarrow> 0)"

text \<open>\<open>strtok\<close> with blanks: the words of a line.\<close>

function blank_words :: "bytes \<Rightarrow> bytes list" where
  "blank_words s =
     (let t = dropWhile (\<lambda>c. c = 0x20) s in
      if t = [] then [] else takeWhile (\<lambda>c. c \<noteq> 0x20) t # blank_words (dropWhile (\<lambda>c. c \<noteq> 0x20) t))"
  by pat_completeness auto
termination
proof (relation "measure length", simp)
  fix s t :: bytes
  assume t: "t = dropWhile (\<lambda>c. c = 0x20) s" "t \<noteq> []"
  then have "hd t \<noteq> 0x20" using hd_dropWhile [of "\<lambda>c. c = 0x20" s] by auto
  with t(2) have "length (dropWhile (\<lambda>c. c \<noteq> 0x20) t) < length t"
    using length_dropWhile_le [of "\<lambda>c. c \<noteq> 0x20" "tl t"] by (cases t) auto
  moreover have "length t \<le> length s" using t(1) length_dropWhile_le by auto
  ultimately show "(dropWhile (\<lambda>c. c \<noteq> 0x20) t, s) \<in> measure length" by simp
qed

declare blank_words.simps [simp del]

text \<open>\<open>poke_sector\<close>, with its variables as arguments.\<close>

definition poke_sector :: "'s sector_io \<Rightarrow> int \<Rightarrow> int \<Rightarrow> int \<Rightarrow> 's dir_state \<Rightarrow> 's dir_state option" where
  "poke_sector io poke_secnum poke_offset poke_value d =
     (let d1 = read_into_buffer io (word_of_int poke_secnum) d in
      if poke_offset < 0 \<or> 512 \<le> poke_offset then None
      else let d2 = d1\<lparr>dir_sector_buffer := (dir_sector_buffer d1)[nat poke_offset := word_of_int poke_value]\<rparr> in
        Some (d2\<lparr>store := snd (wr io (word_of_int poke_secnum) (dir_sector_buffer d2) (store d2))\<rparr>))"

fun poke_values :: "'s sector_io \<Rightarrow> int \<Rightarrow> int \<Rightarrow> int list \<Rightarrow> 's dir_state \<Rightarrow> 's dir_state option" where
  "poke_values io secnum offset [] d = Some d"
| "poke_values io secnum offset (x # xs) d =
     do {
       d1 \<leftarrow> poke_sector io secnum offset x d;
       if offset + 1 \<ge> 512 then poke_values io (secnum + 1) 0 xs d1 else poke_values io secnum (offset + 1) xs d1
     }"

definition parse_pokes :: "'s sector_io \<Rightarrow> bytes \<Rightarrow> 's dir_state \<Rightarrow> 's dir_state option" where
  "parse_pokes io cmd d =
     (case blank_words cmd of
        secnum # offset # toks \<Rightarrow>
          do { d1 \<leftarrow> poke_values io (parse_value secnum) (parse_value offset) (map parse_value toks) d; Some (dir_flush io d1) }
      | _ \<Rightarrow> Some d)"

section \<open>What is shown\<close>

text \<open>
  The entries of the FAT with the sectors they point to, up to the first sector that cannot be read.
  Division and remainder of C differ from those here for a negative index only, and then by an
  access before the buffer unless the remainder is 0.
\<close>

definition read_int32_from_offset_in_buffer :: "nat \<Rightarrow> 's dir_state \<Rightarrow> u32" where
  "read_int32_from_offset_in_buffer offset d = le32_at (dir_sector_buffer d) offset"

definition next_clustermap_sector :: "vol \<Rightarrow> u32 \<Rightarrow> u32" where
  "next_clustermap_sector v clustermap_val = partition_start v + first_cluster_sector v
     + (clustermap_val - first_cluster v) * ucast (sectors_per_cluster v)"

fun show_clustermap_from ::
  "'s sector_io \<Rightarrow> vol \<Rightarrow> u32 \<Rightarrow> int \<Rightarrow> nat \<Rightarrow> 's dir_state \<Rightarrow> ((int \<times> u32 \<times> u32) list \<times> 's dir_state) option" where
  "show_clustermap_from io v previous idx 0 d = Some ([], d)"
| "show_clustermap_from io v previous idx (Suc n) d =
     (let sector = partition_start v + fat1_sector v + word_of_int (idx * 4 div 512);
          (ok, d1) = (if sector = previous then (True, d)
                      else case rd io sector (store d) of
                        (None, s1) \<Rightarrow> (False, d\<lparr>store := s1\<rparr>)
                      | (Some b, s1) \<Rightarrow> (True, d\<lparr>dir_sector_buffer := b, store := s1\<rparr>)) in
      if idx < 0 \<and> idx * 4 mod 512 \<noteq> 0 then None
      else if \<not> ok then Some ([], d1)
      else let clustermap_val = read_int32_from_offset_in_buffer (nat (idx * 4 mod 512)) d1 AND 0x0fffffff in
        do { (out, d2) \<leftarrow> show_clustermap_from io v sector (idx + 1) n d1;
             Some ((idx, clustermap_val, next_clustermap_sector v clustermap_val) # out, d2) })"

definition show_clustermap ::
  "'s sector_io \<Rightarrow> vol \<Rightarrow> int \<Rightarrow> int \<Rightarrow> 's dir_state \<Rightarrow> ((int \<times> u32 \<times> u32) list \<times> 's dir_state) option" where
  "show_clustermap io v clustermap_start clustermap_count d = show_clustermap_from io v 0 clustermap_start (nat clustermap_count) d"

text \<open>The sectors of a cluster.\<close>

fun show_cluster_from :: "'s sector_io \<Rightarrow> u32 \<Rightarrow> nat \<Rightarrow> 's dir_state \<Rightarrow> (u32 \<times> sector) list \<times> 's dir_state" where
  "show_cluster_from io n 0 d = ([], d)"
| "show_cluster_from io n (Suc k) d =
     (let d1 = read_into_buffer io n d in
      case show_cluster_from io (n + 1) k d1 of (out, d2) \<Rightarrow> ((n, dir_sector_buffer d1) # out, d2))"

definition show_cluster :: "'s sector_io \<Rightarrow> vol \<Rightarrow> int \<Rightarrow> 's dir_state \<Rightarrow> (u32 \<times> sector) list \<times> 's dir_state" where
  "show_cluster io v cluster_num d =
     show_cluster_from io
       (partition_start v + first_cluster_sector v + (word_of_int cluster_num - 2) * ucast (sectors_per_cluster v))
       (unat (sectors_per_cluster v)) d"

text \<open>A partition: its type, whether it is active, the two positions, and its first sector and size.\<close>

record shown_partition =
  part_id :: nat
  active :: bool
  part_type :: u8
  first_chs :: "nat \<times> nat \<times> nat"
  last_chs :: "nat \<times> nat \<times> nat"
  first_lba :: u32
  sector_count :: u32

definition chs_at :: "sector \<Rightarrow> nat \<Rightarrow> nat \<times> nat \<times> nat" where
  "chs_at b ofs = (unat (b ! (ofs + 2)) + 4 * unat (b ! (ofs + 1) AND 0xC0), unat (b ! (ofs + 1) AND 0x3F), unat (b ! ofs))"

definition partition_at :: "sector \<Rightarrow> nat \<Rightarrow> nat \<Rightarrow> shown_partition" where
  "partition_at b ofs part =
     \<lparr>part_id = part, active = (b ! ofs = 0x80), part_type = b ! (ofs + 4), first_chs = chs_at b (ofs + 1),
      last_chs = chs_at b (ofs + 5), first_lba = le32_at b (ofs + 8), sector_count = le32_at b (ofs + 0x0C)\<rparr>"

text \<open>An unused entry is skipped with \<open>continue\<close>, before \<open>pt_ofs\<close> is moved on.\<close>

fun partitions_from :: "sector \<Rightarrow> nat \<Rightarrow> nat list \<Rightarrow> shown_partition list" where
  "partitions_from b pt_ofs [] = []"
| "partitions_from b pt_ofs (part # parts) =
     (if b ! (pt_ofs + 4) = 0 then partitions_from b pt_ofs parts
      else partition_at b pt_ofs part # partitions_from b (pt_ofs + 16) parts)"

definition show_mbrinfo :: "'s sector_io \<Rightarrow> 's \<Rightarrow> shown_partition list option \<times> 's" where
  "show_mbrinfo io s =
     (case rd io 0 s of
        (None, s1) \<Rightarrow> (None, s1)
      | (Some b, s1) \<Rightarrow> (Some (partitions_from b 0x1be [0, 1, 2, 3]), s1))"

text \<open>The sectors that \<open>show_secinfo\<close> names, and the sizes that \<open>disk_free\<close> gives.\<close>

definition show_secinfo :: "vol \<Rightarrow> u32 list" where
  "show_secinfo v = [0, partition_start v, partition_start v + fat1_sector v, partition_start v + fat2_sector v,
     partition_start v + first_cluster_sector v]"

definition disk_free :: "'s sector_io \<Rightarrow> vol \<Rightarrow> 's \<Rightarrow> (u32 \<times> u32 \<times> nat \<times> nat) \<times> 's" where
  "disk_free io v s =
     (case count_total_clusters io v 0 s of (total_mb, s1) \<Rightarrow>
      case count_free_clusters io v 0 s1 of (free_mb, s2) \<Rightarrow>
      case count_total_clusters io v 0 s2 of (total_count, s3) \<Rightarrow>
      case count_free_clusters io v 0 s3 of (free_count, s4) \<Rightarrow>
        ((word_of_nat free_mb * 4 div 1024, word_of_nat total_mb * 4 div 1024, free_count, total_count), s4))"

section \<open>Reading when nothing is queued\<close>

text \<open>
  With an empty write queue every sector reads as the disk has it, however far \<open>read_sector\<close>
  reads ahead.
\<close>

definition blk_settled :: "'c card_ops \<Rightarrow> 'c blk \<Rightarrow> bool" where
  "blk_settled ops s \<longleftrightarrow> blk_inv ops s \<and> write_sector_numbers s = []"

lemma cache_store_settled: "write_sector_numbers s = [] \<Longrightarrow> write_sector_numbers (cache_store ops n b s) = []"
  by (simp add: cache_store_def execute_write_queue_def Let_def)

lemma fold_cache_store_settled:
  "write_sector_numbers s = [] \<Longrightarrow>
   write_sector_numbers (fold (\<lambda>k t. cache_store ops (a k) (b k t) t) ks s) = []"
  by (induction ks arbitrary: s) (simp_all add: cache_store_settled)

lemma read_sector_settled:
  assumes "blk_settled ops s" "ra \<le> 255"
  shows "fst (read_sector ops True ra n s) = Some (blk_disk ops s n)"
    and "blk_settled ops (snd (read_sector ops True ra n s))"
    and "blk_disk ops (snd (read_sector ops True ra n s)) = blk_disk ops s"
proof -
  have "write_sector_numbers (snd (read_sector ops True ra n s)) = []"
    using assms(1) by (auto simp: read_sector_def blk_settled_def Let_def fold_cache_store_settled frame_simps split: option.split)
  then show "fst (read_sector ops True ra n s) = Some (blk_disk ops s n)"
    and "blk_settled ops (snd (read_sector ops True ra n s))"
    and "blk_disk ops (snd (read_sector ops True ra n s)) = blk_disk ops s"
    using assms read_sector_resident [of ops s n ra] read_sector_miss [of ops s ra n, OF _ _ _ _ refl]
    by (cases "blk_resident s n"; simp add: blk_settled_def)+
qed

lemma flush_settled: "blk_inv ops s \<Longrightarrow> blk_settled ops (flush (blk_io ops) s)"
  by (simp add: blk_settled_def) (simp add: blk_io_def execute_write_queue_def Let_def)

interpretation settled: sector_read "blk_ahead ops n" "\<lambda>s. blk_settled ops s \<and> n \<le> 255" "blk_disk ops" "\<lambda>_ _. True" for ops n
  by unfold_locales
    (simp_all add: blk_ahead_def after_rd_def read_sector_settled, simp add: blk_settled_def blk_inv_def blk_disk_length)

section \<open>Runs of sectors\<close>

lemma slot_sector_inj: "i < 2 ^ 32 \<Longrightarrow> k < 2 ^ 32 \<Longrightarrow> slot_sector v slot i = slot_sector v slot k \<longleftrightarrow> i = k"
  by (simp add: slot_sector_def) (auto simp: word_unat_eq_iff unat_of_nat)

lemma sector_of_int_inj:
  "0 \<le> x \<Longrightarrow> x < 2 ^ 32 \<Longrightarrow> 0 \<le> y \<Longrightarrow> y < 2 ^ 32 \<Longrightarrow> (word_of_int x :: u32) = word_of_int y \<longleftrightarrow> x = y"
  by (simp add: word_of_int_eq_iff take_bit_int_eq_self)

lemma chunks_concat_take: "concat (map (\<lambda>k. take 512 (drop (512 * k) f)) [0 ..< n]) = take (512 * n) f"
proof (induction n)
  case (Suc n)
  have "512 * Suc n = 512 * n + 512" by simp
  with Suc show ?case by (simp only: take_add) simp
qed simp

lemma chunks_concat: "length f = 512 * n \<Longrightarrow> concat (map (\<lambda>k. take 512 (drop (512 * k) f)) [0 ..< n]) = f"
  by (simp add: chunks_concat_take)

context sector_store
begin

lemma upload_slot_from_eq:
  assumes "inv s" "\<forall>k. length (junk k) = 512" "i + n \<le> 2 ^ 32"
  shows "\<exists>s'. upload_slot_from io v slot junk i n f s = (True, s') \<and> inv s'
    \<and> (\<forall>k. i \<le> k \<and> k < i + n \<longrightarrow> disk s' (slot_sector v slot k) = blit 0 (take 512 (drop (512 * (k - i)) f)) (junk k))
    \<and> (\<forall>a. (\<forall>k. i \<le> k \<and> k < i + n \<longrightarrow> a \<noteq> slot_sector v slot k) \<longrightarrow> disk s' a = disk s a)"
  using assms
proof (induction n arbitrary: i f s)
  case (Suc n)
  let ?b = "blit 0 (take 512 f) (junk i)" and ?a = "slot_sector v slot i"
  let ?s = "after_wr io ?a ?b s"
  have b: "length ?b = 512" using Suc.prems(2) by (subst length_blit) simp_all
  obtain s' where s': "upload_slot_from io v slot junk (Suc i) n (drop 512 f) ?s = (True, s')" "inv s'"
      "\<And>k. Suc i \<le> k \<and> k < Suc i + n \<Longrightarrow> disk s' (slot_sector v slot k) = blit 0 (take 512 (drop (512 * (k - Suc i)) (drop 512 f))) (junk k)"
      "\<And>a. \<forall>k. Suc i \<le> k \<and> k < Suc i + n \<longrightarrow> a \<noteq> slot_sector v slot k \<Longrightarrow> disk s' a = disk ?s a"
    using Suc.IH [of ?s "Suc i" "drop 512 f"] Suc.prems b by auto
  have apart: "?a \<noteq> slot_sector v slot k" if "Suc i \<le> k \<and> k < Suc i + n" for k
    using that Suc.prems(3) by (subst slot_sector_inj) auto
  have "disk s' (slot_sector v slot k) = blit 0 (take 512 (drop (512 * (k - i)) f)) (junk k)" if "i \<le> k \<and> k < i + Suc n" for k
  proof (cases "k = i")
    case True
    then show ?thesis using s'(4) [of ?a] apart Suc.prems(1) b by simp
  next
    case False
    then have "512 + 512 * (k - Suc i) = 512 * (k - i)" using that by (simp add: algebra_simps diff_mult_distrib2)
    then show ?thesis using s'(3) [of k] False that by (simp add: add.commute)
  qed
  moreover have "disk s' a = disk s a" if "\<forall>k. i \<le> k \<and> k < i + Suc n \<longrightarrow> a \<noteq> slot_sector v slot k" for a
    using s'(4) [of a] that Suc.prems(1) b by auto
  moreover have "upload_slot_from io v slot junk i (Suc n) f s = (True, s')"
    using s'(1) Suc.prems(1) b by simp
  ultimately show ?case using s'(2) by blast
qed auto

lemma restore_loop_eq:
  assumes "inv (store d)" "length f = 512 * n" "0 \<le> a" "a + int n \<le> 2 ^ 32"
  shows "inv (store (restore_loop io a n f d))
    \<and> (\<forall>k < n. disk (store (restore_loop io a n f d)) (word_of_int (a + int k)) = take 512 (drop (512 * k) f))
    \<and> (\<forall>x. (\<forall>k < n. x \<noteq> word_of_int (a + int k)) \<longrightarrow> disk (store (restore_loop io a n f d)) x = disk (store d) x)"
  using assms
proof (induction n arbitrary: a f d)
  case (Suc n)
  let ?b = "take 512 f" and ?w = "word_of_int a :: u32"
  let ?d = "d\<lparr>dir_sector_buffer := ?b, store := after_wr io ?w ?b (store d)\<rparr>"
  define e where "e = restore_loop io (a + 1) n (drop 512 f) ?d"
  have b: "length ?b = 512" using Suc.prems(2) by simp
  have e: "inv (store e)" "\<And>k. k < n \<Longrightarrow> disk (store e) (word_of_int (a + 1 + int k)) = take 512 (drop (512 * k) (drop 512 f))"
      "\<And>x. \<forall>k < n. x \<noteq> word_of_int (a + 1 + int k) \<Longrightarrow> disk (store e) x = disk (store ?d) x"
    using Suc.IH [of ?d "drop 512 f" "a + 1"] Suc.prems b unfolding e_def by auto
  have E: "restore_loop io a (Suc n) f d = e"
    using b Suc.prems(1) by (simp add: e_def)
  have apart: "?w \<noteq> word_of_int (a + 1 + int k)" if "k < n" for k
    using that Suc.prems(3,4) by (subst sector_of_int_inj) auto
  have "disk (store e) (word_of_int (a + int k)) = take 512 (drop (512 * k) f)" if "k < Suc n" for k
  proof (cases k)
    case 0
    then show ?thesis using e(3) [of ?w] apart Suc.prems(1) b by simp
  next
    case (Suc m)
    then show ?thesis using e(2) [of m] that by (simp add: algebra_simps)
  qed
  moreover have "disk (store e) x = disk (store d) x" if "\<forall>k < Suc n. x \<noteq> word_of_int (a + int k)" for x
  proof -
    have "x \<noteq> word_of_int (a + 1 + int k)" if "k < n" for k
      using \<open>\<forall>k < Suc n. _\<close> [rule_format, of "Suc k"] that by (simp add: algebra_simps)
    then have "disk (store e) x = disk (store ?d) x" using e(3) by blast
    also have "\<dots> = disk (store d) x" using that [rule_format, of 0] Suc.prems(1) b by simp
    finally show ?thesis .
  qed
  ultimately show ?case unfolding E using e(1) by blast
qed auto

end

context sector_read
begin

lemma download_slot_from_eq:
  assumes "inv s" "\<forall>k. i \<le> k \<and> k < i + n \<longrightarrow> stable s (slot_sector v slot k)"
  shows "\<exists>s'. download_slot_from io v slot i n out s
      = ((True, out @ concat (map (\<lambda>k. disk s (slot_sector v slot k)) [i ..< i + n])), s')
    \<and> read_only inv disk stable s s'"
  using assms
proof (induction n arbitrary: i out s)
  case 0
  then show ?case by (simp add: read_only_refl)
next
  case (Suc n)
  let ?a = "slot_sector v slot i"
  let ?s = "after_rd io ?a s"
  have st: "stable s ?a" using Suc.prems(2) by simp
  have ro: "read_only inv disk stable s ?s" using rd_read_only [OF Suc.prems(1) st] .
  obtain s' where s': "download_slot_from io v slot (Suc i) n (out @ disk s ?a) ?s
      = ((True, (out @ disk s ?a) @ concat (map (\<lambda>k. disk ?s (slot_sector v slot k)) [Suc i ..< Suc i + n])), s')"
      "read_only inv disk stable ?s s'"
    using Suc.IH [of ?s "Suc i" "out @ disk s ?a"] Suc.prems(2) ro by (auto simp: read_only_def)
  have "[i ..< i + Suc n] = i # [Suc i ..< Suc i + n]" by (simp add: upt_rec)
  then show ?case
    using s' ro read_only_trans [OF ro s'(2)] rd_eq [OF Suc.prems(1) st] by (simp add: read_only_def)
qed

lemma dump_sectors_eq:
  assumes "inv (store d)" "\<forall>k < n. stable (store d) (word_of_int (a + int k))"
  shows "\<exists>d'. dump_sectors io a n d = (concat (map (\<lambda>k. disk (store d) (word_of_int (a + int k))) [0 ..< n]), d')
    \<and> read_only inv disk stable (store d) (store d')"
  using assms
proof (induction n arbitrary: a d)
  case 0
  then show ?case by (simp add: read_only_refl)
next
  case (Suc n)
  let ?w = "word_of_int a :: u32"
  let ?d = "d\<lparr>dir_sector_buffer := disk (store d) ?w, store := after_rd io ?w (store d)\<rparr>"
  have st: "stable (store d) ?w" using Suc.prems(2) [rule_format, of 0] by simp
  have ro: "read_only inv disk stable (store d) (store ?d)" using rd_read_only [OF Suc.prems(1) st] by simp
  have "stable (store d) (word_of_int (a + 1 + int k))" if "k < n" for k
    using Suc.prems(2) [rule_format, of "Suc k"] that by (simp add: algebra_simps)
  then obtain d' where d': "dump_sectors io (a + 1) n ?d
      = (concat (map (\<lambda>k. disk (store ?d) (word_of_int (a + 1 + int k))) [0 ..< n]), d')"
      "read_only inv disk stable (store ?d) (store d')"
    using Suc.IH [of ?d "a + 1"] ro by (auto simp: read_only_def)
  have "read_into_buffer io ?w d = ?d" using rd_eq [OF Suc.prems(1) st] by (simp add: read_into_buffer_def)
  moreover have "[0 ..< Suc n] = 0 # map Suc [0 ..< n]" by (simp add: upt_conv_Cons map_Suc_upt)
  moreover have "disk (store ?d) = disk (store d)" using ro by (simp add: read_only_def)
  ultimately show ?case
    using d' read_only_trans [OF ro d'(2)] by (simp add: comp_def algebra_simps)
qed

end

section \<open>Bytes of the card\<close>

text \<open>The byte at a position counted from the start of the card.\<close>

definition disk_byte :: "(u32 \<Rightarrow> sector) \<Rightarrow> int \<Rightarrow> u8" where
  "disk_byte D q = D (word_of_int (q div 512)) ! nat (q mod 512)"

definition on_card :: "int \<Rightarrow> bool" where
  "on_card q \<longleftrightarrow> 0 \<le> q \<and> q < 512 * 2 ^ 32"

lemma disk_byte_upd:
  assumes "on_card q" "0 \<le> n" "n < 2 ^ 32" "0 \<le> ofs" "ofs < 512" "length (D (word_of_int n)) = 512"
  shows "disk_byte (D(word_of_int n := (D (word_of_int n))[nat ofs := x])) q = (if q = 512 * n + ofs then x else disk_byte D q)"
proof -
  have "word_of_int (q div 512) = (word_of_int n :: u32) \<longleftrightarrow> q div 512 = n"
    using assms(1-3) by (subst sector_of_int_inj) (auto simp: on_card_def)
  moreover have "q = 512 * n + ofs \<longleftrightarrow> q div 512 = n \<and> q mod 512 = ofs"
    using assms(4,5) by auto
  moreover have "nat (q mod 512) < 512" by simp
  ultimately show ?thesis using assms(4-6) by (auto simp: disk_byte_def nth_list_update nat_eq_iff)
qed

text \<open>The next position, as \<open>parse_pokes\<close> counts it.\<close>

lemma next_position:
  "0 \<le> ofs \<Longrightarrow> ofs < 512 \<Longrightarrow>
   512 * (if ofs + 1 \<ge> 512 then n + 1 else n) + (if ofs + 1 \<ge> 512 then 0 else ofs + 1) = 512 * n + ofs + (1 :: int)"
  by auto

context sector_store
begin

lemma poke_sector_eq:
  assumes "inv (store d)" "resident (store d) (word_of_int n)" "0 \<le> ofs" "ofs < 512"
  shows "\<exists>d'. poke_sector io n ofs x d = Some d' \<and> inv (store d')
    \<and> disk (store d') = (disk (store d))(word_of_int n := (disk (store d) (word_of_int n))[nat ofs := word_of_int x])
    \<and> (\<forall>m. resident (store d) m \<longrightarrow> resident (store d') m)"
  using assms disk_length [OF assms(1), of "word_of_int n"]
  by (simp add: poke_sector_def read_into_buffer_def Let_def)

lemma poke_values_eq:
  assumes "inv (store d)" "\<forall>m. on_card m \<and> 512 * n + ofs \<le> m \<and> m < 512 * n + ofs + int (length xs) \<longrightarrow> resident (store d) (word_of_int (m div 512))"
    and "0 \<le> n" "0 \<le> ofs" "ofs < 512" "512 * n + ofs + int (length xs) \<le> 512 * 2 ^ 32"
  shows "\<exists>d'. poke_values io n ofs xs d = Some d' \<and> inv (store d')
    \<and> (\<forall>q. on_card q \<longrightarrow> disk_byte (disk (store d')) q =
        (if 512 * n + ofs \<le> q \<and> q < 512 * n + ofs + int (length xs) then word_of_int (xs ! nat (q - (512 * n + ofs)))
         else disk_byte (disk (store d)) q))"
  using assms
proof (induction xs arbitrary: n ofs d)
  case (Cons x xs)
  let ?p = "512 * n + ofs"
  let ?n = "if ofs + 1 \<ge> 512 then n + 1 else n" and ?o = "if ofs + 1 \<ge> 512 then 0 else ofs + 1"
  have nn: "n < 2 ^ 32" using Cons.prems(4,6) by simp
  have p: "?p div 512 = n" "on_card ?p" using Cons.prems(3-6) by (simp_all add: on_card_def)
  have "resident (store d) (word_of_int (?p div 512))" using Cons.prems(2) [rule_format, of ?p] p(2) by simp
  then obtain d1 where d1: "poke_sector io n ofs x d = Some d1" "inv (store d1)"
      "disk (store d1) = (disk (store d))(word_of_int n := (disk (store d) (word_of_int n))[nat ofs := word_of_int x])"
      "\<And>m. resident (store d) m \<Longrightarrow> resident (store d1) m"
    using poke_sector_eq [OF Cons.prems(1) _ Cons.prems(4,5), of n x] p(1) by auto
  have pos: "512 * ?n + ?o = ?p + 1" using next_position Cons.prems(4,5) .
  have one: "disk_byte (disk (store d1)) q = (if q = ?p then word_of_int x else disk_byte (disk (store d)) q)" if "on_card q" for q
    unfolding d1(3) using disk_byte_upd [OF that Cons.prems(3) nn Cons.prems(4,5)] disk_length [OF Cons.prems(1)] by simp
  have res: "\<forall>m. on_card m \<and> 512 * ?n + ?o \<le> m \<and> m < 512 * ?n + ?o + int (length xs) \<longrightarrow> resident (store d1) (word_of_int (m div 512))"
    unfolding pos using d1(4) Cons.prems(2) by auto
  have bounds: "0 \<le> ?n" "0 \<le> ?o" "?o < 512" "512 * ?n + ?o + int (length xs) \<le> 512 * 2 ^ 32"
    unfolding pos using Cons.prems(3-6) by auto
  obtain d2 where d2: "poke_values io ?n ?o xs d1 = Some d2" "inv (store d2)"
      "\<And>q. on_card q \<Longrightarrow> disk_byte (disk (store d2)) q =
        (if ?p + 1 \<le> q \<and> q < ?p + 1 + int (length xs) then word_of_int (xs ! nat (q - (?p + 1))) else disk_byte (disk (store d1)) q)"
    using Cons.IH [OF d1(2) res bounds] unfolding pos by auto
  have "poke_values io n ofs (x # xs) d = Some d2" using d1(1) d2(1) by auto
  moreover have "disk_byte (disk (store d2)) q =
      (if ?p \<le> q \<and> q < ?p + int (length (x # xs)) then word_of_int ((x # xs) ! nat (q - ?p)) else disk_byte (disk (store d)) q)"
    if "on_card q" for q
  proof (cases "?p + 1 \<le> q")
    case True
    then have "nat (q - ?p) = Suc (nat (q - (?p + 1)))" by (simp add: nat_eq_iff)
    then show ?thesis using d2(3) [OF that] one [OF that] True by auto
  next
    case False
    then show ?thesis using d2(3) [OF that] one [OF that] by auto
  qed
  ultimately show ?case using d2(2) by blast
qed auto

end

section \<open>Properties\<close>

text \<open>
  C31: a freeze slot comes back.  For a file as long as a slot, \<open>upload_slot\<close> succeeds and
  changes only the sectors of this slot; once the write queue has been executed, \<open>download_slot\<close>
  gives the file.
\<close>
theorem slot_comes_back:
  assumes "blk_inv ops s" "slot_valid v slot" "host src = Some data"
    and "length data = 512 * unat (syspart_slot_size v)" "\<forall>k. length (junk k) = 512"
  shows "\<exists>s1 s2. upload_slot (blk_io ops) v host junk slot src s = (0, s1)
    \<and> (\<forall>a. (\<forall>k < unat (syspart_slot_size v). a \<noteq> slot_sector v slot k) \<longrightarrow> blk_disk ops s1 a = blk_disk ops s a)
    \<and> download_slot (blk_ahead ops 64) v slot (flush (blk_io ops) s1) = ((0, Some data), s2)
    \<and> blk_disk ops s2 = blk_disk ops s1"
proof -
  let ?n = "unat (syspart_slot_size v)"
  have n: "0 + ?n \<le> 2 ^ 32" using unsigned_less [of "syspart_slot_size v", where 'a = nat] by simp
  obtain s1 where s1: "upload_slot_from (blk_io ops) v slot junk 0 ?n data s = (True, s1)" "blk_inv ops s1"
      "\<And>k. k < ?n \<Longrightarrow> blk_disk ops s1 (slot_sector v slot k) = blit 0 (take 512 (drop (512 * k) data)) (junk k)"
      "\<And>a. \<forall>k < ?n. a \<noteq> slot_sector v slot k \<Longrightarrow> blk_disk ops s1 a = blk_disk ops s a"
    using blk.upload_slot_from_eq [OF assms(1,5) n, of v slot data] by auto
  have chunk: "blk_disk ops s1 (slot_sector v slot k) = take 512 (drop (512 * k) data)" if "k < ?n" for k
  proof -
    have "length (take 512 (drop (512 * k) data)) = 512" using that assms(4) by simp
    then show ?thesis using s1(3) [OF that] assms(5) by simp
  qed
  let ?f = "flush (blk_io ops) s1"
  have f: "blk_settled ops ?f" "blk_disk ops ?f = blk_disk ops s1"
    using flush_settled [OF s1(2)] s1(2) by simp_all
  obtain s2 where s2: "download_slot_from (blk_ahead ops 64) v slot 0 ?n [] ?f
      = ((True, [] @ concat (map (\<lambda>k. blk_disk ops ?f (slot_sector v slot k)) [0 ..< 0 + ?n])), s2)"
      "blk_disk ops s2 = blk_disk ops ?f"
    using settled.download_slot_from_eq [of ops ?f 64 0 ?n v slot "[]"] f(1) unfolding read_only_def by auto
  have "concat (map (\<lambda>k. blk_disk ops ?f (slot_sector v slot k)) [0 ..< ?n]) = data"
    using chunks_concat [OF assms(4)] chunk f(2) by (metis (no_types, lifting) atLeastLessThan_iff map_cong set_upt)
  then show ?thesis
    using s1 s2 f(2) assms(2,3) by (simp add: upload_slot_def download_slot_def)
qed

definition slot_vol :: vol where
  "slot_vol = small_vol\<lparr>syspart_start := 100, syspart_slot_size := 2, syspart_slot_count := 4\<rparr>"

theorem slot_comes_back_witness:
  "\<exists>s1 s2. upload_slot (blk_io device_ops) slot_vol (\<lambda>_. Some (replicate 1024 7)) (\<lambda>_. replicate 512 0) 3 [0x61] (blk_init (\<lambda>_. 0)) = (0, s1)
    \<and> download_slot (blk_ahead device_ops 64) slot_vol 3 (flush (blk_io device_ops) s1) = ((0, Some (replicate 1024 7)), s2)"
  using slot_comes_back [of device_ops "blk_init (\<lambda>_. 0)" slot_vol 3 "\<lambda>_. Some (replicate 1024 7)" "[0x61]" "replicate 1024 7" "\<lambda>_. replicate 512 0"]
  by (auto simp: blk_init_inv device.sector_card_axioms slot_vol_def slot_valid_def)

text \<open>
  C32: what was dumped can be restored elsewhere.  \<open>dump_sectors\<close> of a run of sectors gives
  their contents one after the other, and \<open>restore_sectors\<close> of this file copies the run to
  another place, however the two overlap, and changes nothing else.
\<close>
theorem restore_copies_dump:
  assumes "blk_settled ops (store d)" "0 \<le> a" "0 \<le> b" "b + int n \<le> 2 ^ 32"
  shows "\<exists>f d1. dump_sectors (blk_ahead ops 0) a n d = (f, d1) \<and> length f = 512 * n
    \<and> (\<forall>k < n. blk_disk ops (store (restore_sectors (blk_io ops) f b d1)) (word_of_int (b + int k)) = blk_disk ops (store d) (word_of_int (a + int k)))
    \<and> (\<forall>x. (\<forall>k < n. x \<noteq> word_of_int (b + int k)) \<longrightarrow>
        blk_disk ops (store (restore_sectors (blk_io ops) f b d1)) x = blk_disk ops (store d) x)"
proof -
  let ?D = "blk_disk ops (store d)"
  let ?f = "concat (map (\<lambda>k. ?D (word_of_int (a + int k))) [0 ..< n])"
  obtain d1 where d1: "dump_sectors (blk_ahead ops 0) a n d = (?f, d1)" "blk_settled ops (store d1)" "blk_disk ops (store d1) = ?D"
    using settled.dump_sectors_eq [of ops d 0 n a] assms(1) unfolding read_only_def by auto
  have slots: "\<forall>x \<in> set (map (\<lambda>k. ?D (word_of_int (a + int k))) [0 ..< n]). length x = 512"
    using assms(1) by (auto simp: blk_settled_def blk_inv_def blk_disk_length)
  have len: "length ?f = 512 * n" using length_concat_slots [OF slots] by simp
  have chunk: "take 512 (drop (512 * k) ?f) = ?D (word_of_int (a + int k))" if "k < n" for k
    using subbuf_concat_slots [OF slots, of k] that by (simp add: subbuf_def)
  have inv: "blk_inv ops (store d1)" using d1(2) by (simp add: blk_settled_def)
  note r = blk.restore_loop_eq [OF inv len assms(3,4)]
  have "blk_disk ops (store (restore_sectors (blk_io ops) ?f b d1)) = blk_disk ops (store (restore_loop (blk_io ops) b n ?f d1))"
    using r len by (simp add: restore_sectors_def dir_flush_def)
  then show ?thesis using d1(1,3) len r chunk by (intro exI [of _ ?f] exI [of _ d1]) simp
qed

theorem restore_copies_dump_witness:
  "\<exists>f d1. dump_sectors (blk_ahead device_ops 0) 5 3 (small_dir\<lparr>store := blk_init (\<lambda>_. 0)\<rparr>) = (f, d1)
    \<and> blk_disk device_ops (store (restore_sectors (blk_io device_ops) f 6 d1)) 8 = blk_disk device_ops (blk_init (\<lambda>_. 0)) 7"
proof -
  let ?d = "small_dir\<lparr>store := blk_init (\<lambda>_. 0)\<rparr>"
  have "blk_settled device_ops (store ?d)"
    using blk_init_inv [OF device.sector_card_axioms, of "\<lambda>_. 0"] by (simp add: blk_settled_def) (simp add: blk_init_def)
  from restore_copies_dump [OF this, of 5 6 3] obtain f d1 where f: "dump_sectors (blk_ahead device_ops 0) 5 3 ?d = (f, d1)"
      "\<And>k. k < 3 \<Longrightarrow> blk_disk device_ops (store (restore_sectors (blk_io device_ops) f 6 d1)) (word_of_int (6 + int k))
        = blk_disk device_ops (store ?d) (word_of_int (5 + int k))"
    by auto
  from f(2) [of 2] f(1) show ?thesis by auto
qed

text \<open>
  C33: pokes write a run of bytes.  The values of a \<open>poke\<close> line go to consecutive bytes of the card
  from the given offset of the given sector on, across the ends of sectors, and no other byte
  changes.
\<close>
theorem pokes_write_run:
  assumes "blk_inv ops (store d)" "blank_words cmd = a # b # toks" "0 \<le> parse_value a" "0 \<le> parse_value b" "parse_value b < 512"
    and "512 * parse_value a + parse_value b + int (length toks) \<le> 512 * 2 ^ 32"
    and "\<forall>q. on_card q \<and> 512 * parse_value a + parse_value b \<le> q \<and> q < 512 * parse_value a + parse_value b + int (length toks)
      \<longrightarrow> blk_resident (store d) (word_of_int (q div 512))"
  shows "\<exists>d'. parse_pokes (blk_io ops) cmd d = Some d'
    \<and> (\<forall>q. on_card q \<longrightarrow> disk_byte (blk_disk ops (store d')) q =
        (if 512 * parse_value a + parse_value b \<le> q \<and> q < 512 * parse_value a + parse_value b + int (length toks)
         then word_of_int (parse_value (toks ! nat (q - (512 * parse_value a + parse_value b))))
         else disk_byte (blk_disk ops (store d)) q))"
proof -
  let ?p = "512 * parse_value a + parse_value b" and ?xs = "map parse_value toks"
  have bounds: "?p + int (length ?xs) \<le> 512 * 2 ^ 32"
    and res: "\<forall>q. on_card q \<and> ?p \<le> q \<and> q < ?p + int (length ?xs) \<longrightarrow> blk_resident (store d) (word_of_int (q div 512))"
    using assms(6,7) by simp_all
  obtain d1 where d1: "poke_values (blk_io ops) (parse_value a) (parse_value b) ?xs d = Some d1" "blk_inv ops (store d1)"
      "\<And>q. on_card q \<Longrightarrow> disk_byte (blk_disk ops (store d1)) q =
        (if ?p \<le> q \<and> q < ?p + int (length ?xs) then word_of_int (?xs ! nat (q - ?p)) else disk_byte (blk_disk ops (store d)) q)"
    using blk.poke_values_eq [OF assms(1) res assms(3-5) bounds] by blast
  have "?xs ! nat (q - ?p) = parse_value (toks ! nat (q - ?p))" if "?p \<le> q \<and> q < ?p + int (length toks)" for q
    using that by (intro nth_map) (simp add: nat_less_iff)
  then show ?thesis
    using d1 by (intro exI [of _ "dir_flush (blk_io ops) d1"]) (simp add: parse_pokes_def assms(2) dir_flush_def)
qed

theorem pokes_write_run_witness:
  "\<exists>d'. parse_pokes (blk_io device_ops) (ascii ''3 511 $ff 7'') (small_dir\<lparr>store := dev_state (\<lambda>_. 0)\<rparr>) = Some d'
    \<and> disk_byte (blk_disk device_ops (store d')) 2048 = 7"
proof -
  let ?d = "small_dir\<lparr>store := dev_state (\<lambda>_. 0)\<rparr>" and ?cmd = "ascii ''3 511 $ff 7''"
  have w: "blank_words ?cmd = [[0x33], [0x35, 0x31, 0x31], [0x24, 0x66, 0x66], [0x37]]" by (simp add: blank_words.simps)
  have v: "parse_value [0x33] = 3" "parse_value [0x35, 0x31, 0x31] = 511" "parse_value [0x37] = 7"
    by (simp_all add: parse_value_def is_space_def is_digit_def)
  obtain d' where d': "parse_pokes (blk_io device_ops) ?cmd ?d = Some d'"
      "\<And>q. on_card q \<Longrightarrow> disk_byte (blk_disk device_ops (store d')) q =
        (if 2047 \<le> q \<and> q < 2049 then word_of_int (parse_value ([[0x24, 0x66, 0x66], [0x37]] ! nat (q - 2047)))
         else disk_byte (blk_disk device_ops (store ?d)) q)"
    using pokes_write_run [of device_ops ?d ?cmd "[0x33]" "[0x35, 0x31, 0x31]" "[[0x24, 0x66, 0x66], [0x37]]"] w v by auto
  show ?thesis using d'(1) d'(2) [of 2048] v(3) by (auto simp: on_card_def)
qed

section \<open>Where the tools go wrong\<close>

text \<open>
  \<open>upload_slot\<close> does not execute the write queue: a slot that fits it is not on the card yet when
  the command is done, nor when the client is left with \<open>exit\<close>.
\<close>

lemma write_sector_queues:
  assumes "blk_inv ops s" "\<not> direct_sdcard_device s" "length (write_sector_numbers s) < 64" "length (sector_cache s) < sector_cache_size"
  shows "blk_card (snd (write_sector ops n b s)) = blk_card s
    \<and> length (write_sector_numbers (snd (write_sector ops n b s))) \<le> length (write_sector_numbers s) + 1
    \<and> length (sector_cache (snd (write_sector ops n b s))) \<le> length (sector_cache s) + 1
    \<and> \<not> direct_sdcard_device (snd (write_sector ops n b s))"
proof -
  have "write_buffer_offset s < 32768" using assms(1,3) by (simp add: blk_inv_def blk_wf_def)
  then show ?thesis
    using assms(2,4) first_index_le [of "\<lambda>e. fst e = n" "sector_cache s"]
    by (auto simp: write_sector_def queue_write_sector_def cache_store_def Let_def)
qed

lemma upload_slot_only_queues:
  assumes "blk_inv ops s" "\<not> direct_sdcard_device s" "length (write_sector_numbers s) + n \<le> 64"
    and "length (sector_cache s) + n \<le> sector_cache_size" "\<forall>k. length (junk k) = 512"
  shows "blk_card (snd (upload_slot_from (blk_io ops) v slot junk i n f s)) = blk_card s"
  using assms(1-4)
proof (induction n arbitrary: i f s)
  case (Suc n)
  let ?b = "blit 0 (take 512 f) (junk i)" and ?a = "slot_sector v slot i"
  have b: "length ?b = 512" using assms(5) by (subst length_blit) simp_all
  have q: "blk_card (snd (write_sector ops ?a ?b s)) = blk_card s
      \<and> length (write_sector_numbers (snd (write_sector ops ?a ?b s))) \<le> length (write_sector_numbers s) + 1
      \<and> length (sector_cache (snd (write_sector ops ?a ?b s))) \<le> length (sector_cache s) + 1
      \<and> \<not> direct_sdcard_device (snd (write_sector ops ?a ?b s))"
    using Suc.prems by (intro write_sector_queues) auto
  have w: "after_wr (blk_io ops) ?a ?b s = snd (write_sector ops ?a ?b s)" by (simp add: after_wr_def blk_io_def)
  have "blk_inv ops (after_wr (blk_io ops) ?a ?b s)" using blk.wr_inv [OF Suc.prems(1) b] .
  then have "blk_card (snd (upload_slot_from (blk_io ops) v slot junk (Suc i) n (drop 512 f) (after_wr (blk_io ops) ?a ?b s))) = blk_card s"
    using Suc.IH [of "after_wr (blk_io ops) ?a ?b s"] q Suc.prems unfolding w by simp
  then show ?case using Suc.prems(1) b by simp
qed simp

text \<open>
  Behind an unused entry of the partition table no partition is shown, because \<open>show_mbrinfo\<close> looks
  at the same entry again.
\<close>

lemma unused_entry_hides_rest: "b ! (pt_ofs + 4) = 0 \<Longrightarrow> partitions_from b pt_ofs parts = []"
  by (induction parts) simp_all

end
