(* ===== verification/CommandLine.thy ===== *)
theory CommandLine
  imports Scan Dir
begin

text \<open>
  The command lines of the client (\<open>src/lib/libm65ftp/mega65_ftp.c\<close>): \<open>parse_command\<close>, the client's own
  kind of \<open>sscanf\<close>, and \<open>execute_command\<close>, which finds the command that a line asks for.  A line is the
  memory from its first character on, its final 0 included: \<open>None\<close> is a read behind that memory, or a
  parameter that does not fit its array.
\<close>

section \<open>Parameters\<close>

text \<open>What \<open>*src\<close> points to is the head of the list.  The characters up to one or the other end.\<close>

fun up_to :: "u8 \<Rightarrow> bytes \<Rightarrow> (bytes \<times> bytes) option" where
  "up_to endchar [] = None"
| "up_to endchar (c # s) =
     (if c = endchar \<or> c = 0 then Some ([], c # s) else map_option (\<lambda>(w, r). (c # w, r)) (up_to endchar s))"

definition is_quote :: "u8 \<Rightarrow> bool" where
  "is_quote c \<longleftrightarrow> c = 0x22 \<or> c = 0x27"

text \<open>The parameter and the new position, \<open>Some None\<close> for \<open>RET_NOT_FOUND\<close>.  All destinations have 1024 bytes.\<close>

definition parse_string_param :: "bytes \<Rightarrow> (bytes \<times> bytes) option option" where
  "parse_string_param src =
     (case src of
        [] \<Rightarrow> None
      | nextchar # rest \<Rightarrow>
          do {
            (param, srcptr) \<leftarrow> (if is_quote nextchar then up_to nextchar rest else up_to 0x20 src);
            if param = [] then Some None
            else if \<not> length param < 1024 then None
            else Some (Some (param, if is_quote nextchar then tl srcptr else srcptr))
          })"

text \<open>The test for digits, \<open>*srcptr < '0' && *srcptr > '9'\<close>, is never true.\<close>

definition parse_int_param :: "bytes \<Rightarrow> (int \<times> bytes) option option" where
  "parse_int_param src =
     do {
       (str, srcptr) \<leftarrow> up_to 0x20 src;
       if str = [] then Some None
       else if \<not> length str < 128 then None
       else Some (Some (atoi str, srcptr))
     }"

fun skip_whitespace :: "bytes \<Rightarrow> bytes option" where
  "skip_whitespace [] = None"
| "skip_whitespace (c # s) = (if c = 0x20 \<or> c = 0x09 then skip_whitespace s else Some (c # s))"

section \<open>Formats\<close>

datatype spec_result = SpecFail | SpecNotFound | SpecFound arg bytes

text \<open>\<open>parse_format_specifier\<close>; after \<open>SpecFound\<close> the format stands at the letter behind the \<open>%\<close>.\<close>

definition parse_format_specifier :: "bytes \<Rightarrow> bytes \<Rightarrow> spec_result option" where
  "parse_format_specifier fmt str =
     (case fmt of
        [] \<Rightarrow> Some SpecNotFound
      | f # rest \<Rightarrow>
          if f = 0x25 then
            (case rest of
               [] \<Rightarrow> Some SpecFail
             | k # _ \<Rightarrow>
                 if k = 0x73 then
                   do { s \<leftarrow> skip_whitespace str; found \<leftarrow> parse_string_param s;
                        Some (case found of None \<Rightarrow> SpecFail | Some (w, s') \<Rightarrow> SpecFound (StrArg w) s') }
                 else if k = 0x64 then
                   do { s \<leftarrow> skip_whitespace str; found \<leftarrow> parse_int_param s;
                        Some (case found of None \<Rightarrow> SpecFail | Some (n, s') \<Rightarrow> SpecFound (IntArg n) s') }
                 else Some SpecFail)
          else Some SpecNotFound)"

text \<open>\<open>parse_non_whitespace\<close> with the character of the format: where to go on, \<open>Some None\<close> for a mismatch.\<close>

definition parse_non_whitespace :: "u8 \<Rightarrow> bytes \<Rightarrow> bytes option option" where
  "parse_non_whitespace f str =
     (if f \<noteq> 0x20 then
        do { s \<leftarrow> skip_whitespace str;
             case s of [] \<Rightarrow> None | c # s' \<Rightarrow> Some (if f = c then Some s' else None) }
      else Some (Some str))"

text \<open>The values assigned; their number is the result of \<open>parse_command\<close>.\<close>

function parse_command :: "bytes \<Rightarrow> bytes \<Rightarrow> arg list option" where
  "parse_command fmt str =
     (case fmt of
        [] \<Rightarrow> Some []
      | f # rest \<Rightarrow>
          do {
            ret \<leftarrow> parse_format_specifier fmt str;
            case ret of
              SpecFail \<Rightarrow> Some []
            | SpecFound a str' \<Rightarrow> do { args \<leftarrow> parse_command (drop 1 rest) str'; Some (a # args) }
            | SpecNotFound \<Rightarrow>
                do { m \<leftarrow> parse_non_whitespace f str;
                     case m of None \<Rightarrow> Some [] | Some str' \<Rightarrow> parse_command rest str' }
          })"
  by pat_completeness auto
termination
  by (relation "measure (\<lambda>(fmt, _). length fmt)") auto

declare parse_command.simps [simp del]

section \<open>Commands\<close>

text \<open>The calls that \<open>execute_command\<close> makes, with their arguments.\<close>

datatype command =
    Quit
  | TooLong
  | UploadSlot int bytes
  | DownloadSlot int bytes
  | DownloadFlashslot int bytes
  | DownloadFile bytes bytes bool
  | UploadFile bytes bytes
  | WrapUpload bytes
  | DeleteFileOrDir bytes
  | RenameFileOrDir bytes bytes
  | ShowSector bool int
  | DirentRaw int
  | DiskFree
  | ShowDirectory "bytes option"
  | ShowLocalDirectory "bytes option"
  | CreateDir bytes
  | ChangeLocalDir bytes
  | ShowLocalPwd
  | ChangeDir bytes
  | MountFile bytes
  | ShowClustermap int int
  | ShowCluster int
  | DumpSectors bytes int int
  | RestoreSectors bytes int
  | ShowSecinfo
  | ShowMbrinfo
  | ShowVbrinfo
  | ParsePokes bytes
  | FilehostGet int "bytes option"
  | FilehostFlash int int
  | FilehostRead "bytes option"
  | PerformFlash bytes int
  | ListAllRoms
  | Help
  | Unknown

text \<open>A command from the values of its conversions.\<close>

fun on_s :: "(bytes \<Rightarrow> command) \<Rightarrow> arg list \<Rightarrow> command" where
  "on_s f [StrArg s] = f s"
| "on_s f _ = Unknown"

fun on_ss :: "(bytes \<Rightarrow> bytes \<Rightarrow> command) \<Rightarrow> arg list \<Rightarrow> command" where
  "on_ss f [StrArg s, StrArg t] = f s t"
| "on_ss f _ = Unknown"

fun on_i :: "(int \<Rightarrow> command) \<Rightarrow> arg list \<Rightarrow> command" where
  "on_i f [IntArg n] = f n"
| "on_i f _ = Unknown"

fun on_ii :: "(int \<Rightarrow> int \<Rightarrow> command) \<Rightarrow> arg list \<Rightarrow> command" where
  "on_ii f [IntArg n, IntArg k] = f n k"
| "on_ii f _ = Unknown"

fun on_is :: "(int \<Rightarrow> bytes \<Rightarrow> command) \<Rightarrow> arg list \<Rightarrow> command" where
  "on_is f [IntArg n, StrArg s] = f n s"
| "on_is f _ = Unknown"

fun on_si :: "(bytes \<Rightarrow> int \<Rightarrow> command) \<Rightarrow> arg list \<Rightarrow> command" where
  "on_si f [StrArg s, IntArg n] = f s n"
| "on_si f _ = Unknown"

fun on_sii :: "(bytes \<Rightarrow> int \<Rightarrow> int \<Rightarrow> command) \<Rightarrow> arg list \<Rightarrow> command" where
  "on_sii f [StrArg s, IntArg n, IntArg k] = f s n k"
| "on_sii f _ = Unknown"

text \<open>The part of a path behind its last slash.\<close>

definition last_element :: "bytes \<Rightarrow> bytes" where
  "last_element src = rev (takeWhile (\<lambda>c. c \<noteq> 0x2f) (rev src))"

text \<open>
  The tests of \<open>execute_command\<close>, each with the call that follows.  Those that use \<open>sscanf\<close> name the
  size of the array that receives a string.
\<close>

datatype branch =
    Equals string command
  | EqualsCaseless string command
  | Parses string nat "arg list \<Rightarrow> command"
  | Scans string "scan_item list" nat nat "arg list \<Rightarrow> command"
  | Prefixed string "bytes \<Rightarrow> command"

fun arg_fits :: "nat \<Rightarrow> arg \<Rightarrow> bool" where
  "arg_fits room (IntArg n) = True"
| "arg_fits room (StrArg s) = (length s < room)"

text \<open>The chain of \<open>if\<close>s: the first test that succeeds decides.\<close>

fun first_branch :: "branch list \<Rightarrow> bytes \<Rightarrow> command option" where
  "first_branch [] cmd = Some Unknown"
| "first_branch (Equals w c # bs) cmd = (if cstr cmd = ascii w then Some c else first_branch bs cmd)"
| "first_branch (EqualsCaseless w c # bs) cmd = (if map to_lower (cstr cmd) = ascii w then Some c else first_branch bs cmd)"
| "first_branch (Parses fmt n f # bs) cmd =
     do { args \<leftarrow> parse_command (ascii fmt) cmd; if length args = n then Some (f args) else first_branch bs cmd }"
| "first_branch (Scans w items room n f # bs) cmd =
     (let args = sscanf (fmt_word w items) (cstr cmd) in
      if \<not> list_all (arg_fits room) args then None else if length args = n then Some (f args) else first_branch bs cmd)"
| "first_branch (Prefixed w f # bs) cmd =
     (if take (length w) (cstr cmd) = ascii w then Some (f (drop (length w) (cstr cmd))) else first_branch bs cmd)"

definition scan_i :: "scan_item list" where "scan_i = [ScanSpace, ScanInt]"
definition scan_s :: "scan_item list" where "scan_s = [ScanSpace, ScanStr]"

definition command_branches :: "branch list" where
  "command_branches =
     [Equals ''exit'' Quit, Equals ''quit'' Quit,
      Parses ''putslot %d %s'' 2 (on_is UploadSlot),
      Parses ''getslot %d %s'' 2 (on_is DownloadSlot),
      Parses ''getflash %d %s'' 2 (on_is DownloadFlashslot),
      Parses ''get %s %s'' 2 (on_ss (\<lambda>src dst. DownloadFile src dst False)),
      Parses ''put %s %s'' 2 (on_ss UploadFile),
      Parses ''dput %s'' 1 (on_s WrapUpload),
      Parses ''del %s'' 1 (on_s DeleteFileOrDir),
      Parses ''rename %s %s'' 2 (on_ss RenameFileOrDir),
      Parses ''sector %d'' 1 (on_i (ShowSector True)),
      Parses ''sector $%x'' 1 (on_i (ShowSector False)),
      Scans ''dirent_raw'' scan_i 1024 1 (on_i DirentRaw),
      Equals ''df'' DiskFree,
      Parses ''dir %s'' 1 (on_s (\<lambda>s. ShowDirectory (Some s))),
      Equals ''dir'' (ShowDirectory None),
      Parses ''ldir %s'' 1 (on_s (\<lambda>s. ShowLocalDirectory (Some s))),
      Equals ''ldir'' (ShowLocalDirectory None),
      Parses ''put %s'' 1 (on_s (\<lambda>src. UploadFile src (last_element src))),
      Parses ''mkdir %s'' 1 (on_s CreateDir),
      Parses ''lcd %s'' 1 (on_s ChangeLocalDir),
      Equals ''lpwd'' ShowLocalPwd,
      Parses ''chdir %s'' 1 (on_s ChangeDir),
      Parses ''cd %s'' 1 (on_s ChangeDir),
      Parses ''get %s'' 1 (on_s (\<lambda>src. DownloadFile src src False)),
      Parses ''clusters %s'' 1 (on_s (\<lambda>src. DownloadFile src src True)),
      Parses ''mount %s'' 1 (on_s MountFile),
      Scans ''clustermap'' (scan_i @ scan_i) 1024 2 (on_ii ShowClustermap),
      Scans ''clustermap'' scan_i 1024 1 (on_i (\<lambda>n. ShowClustermap n 1)),
      Scans ''cluster'' scan_i 1024 1 (on_i ShowCluster),
      Scans ''secdump'' (scan_s @ scan_i @ scan_i) 256 3 (on_sii DumpSectors),
      Scans ''secrestore'' (scan_s @ scan_i) 256 2 (on_si RestoreSectors),
      Equals ''secinfo'' ShowSecinfo,
      Equals ''mbrinfo'' ShowMbrinfo,
      Equals ''vbrinfo'' ShowVbrinfo,
      Prefixed ''poke '' ParsePokes,
      Scans ''fhget'' (scan_i @ scan_s) 1024 2 (on_is (\<lambda>n s. FilehostGet n (Some s))),
      Scans ''fhget'' scan_i 1024 1 (on_i (\<lambda>n. FilehostGet n None)),
      Scans ''fhflash'' (scan_i @ scan_i) 1024 2 (on_ii FilehostFlash),
      Scans ''fh'' scan_s 1024 1 (on_s (\<lambda>s. FilehostRead (Some s))),
      Equals ''fh'' (FilehostRead None),
      Scans ''flash'' (scan_s @ scan_i) 1024 2 (on_si PerformFlash),
      Equals ''roms'' ListAllRoms,
      EqualsCaseless ''help'' Help]"

definition command_of :: "bytes \<Rightarrow> command option" where
  "command_of cmd = (if length (cstr cmd) > 1000 then Some TooLong else first_branch command_branches cmd)"

section \<open>Reading stays inside a line\<close>

lemma up_to_line: "0 \<notin> set l \<Longrightarrow> \<exists>w l'. up_to e (l @ 0 # rest) = Some (w, l' @ 0 # rest) \<and> l = w @ l'"
proof (induction l)
  case (Cons c l)
  then obtain w l' where "up_to e (l @ 0 # rest) = Some (w, l' @ 0 # rest)" "l = w @ l'" by auto
  then show ?case
    by (cases "c = e") (auto intro: exI [of _ "c # l"] exI [of _ "c # w"])
qed simp

lemma skip_line: "0 \<notin> set l \<Longrightarrow> skip_whitespace (l @ 0 # rest) = Some (dropWhile (\<lambda>c. c = 0x20 \<or> c = 0x09) l @ 0 # rest)"
  by (induction l) auto

definition bare :: "bytes \<Rightarrow> bool" where
  "bare l \<longleftrightarrow> 0 \<notin> set l \<and> (\<forall>c \<in> set l. \<not> is_quote c) \<and> length l < 128"

lemma bare_suffix: "bare (w @ l) \<Longrightarrow> bare l" "bare (c # l) \<Longrightarrow> bare l" "bare l \<Longrightarrow> bare (dropWhile P l)"
  by (auto simp: bare_def dest: set_dropWhileD intro: le_less_trans [OF length_dropWhile_le])

lemma parse_string_param_bare:
  assumes "bare l"
  shows "parse_string_param (l @ 0 # rest) = Some None
    \<or> (\<exists>w l'. parse_string_param (l @ 0 # rest) = Some (Some (w, l' @ 0 # rest)) \<and> bare l')"
proof -
  obtain w l' where u: "up_to 0x20 (l @ 0 # rest) = Some (w, l' @ 0 # rest)" "l = w @ l'"
    using up_to_line [of l "0x20" rest] assms unfolding bare_def by blast
  have "length w < 1024" using assms u(2) by (simp add: bare_def)
  obtain c r where c: "l @ 0 # rest = c # r" "\<not> is_quote c"
    using assms by (cases l) (auto simp: bare_def is_quote_def)
  then have "parse_string_param (l @ 0 # rest) = (if w = [] then Some None else Some (Some (w, l' @ 0 # rest)))"
    using u(1) \<open>length w < 1024\<close> unfolding c(1) by (simp add: parse_string_param_def del: up_to.simps)
  then show ?thesis using u bare_suffix(1) assms by auto
qed

lemma parse_int_param_bare:
  assumes "bare l"
  shows "parse_int_param (l @ 0 # rest) = Some None
    \<or> (\<exists>n l'. parse_int_param (l @ 0 # rest) = Some (Some (n, l' @ 0 # rest)) \<and> bare l')"
proof -
  obtain w l' where u: "up_to 0x20 (l @ 0 # rest) = Some (w, l' @ 0 # rest)" "l = w @ l'"
    using up_to_line [of l "0x20" rest] assms unfolding bare_def by blast
  moreover have "length w < 128" using assms u(2) by (simp add: bare_def)
  ultimately show ?thesis using bare_suffix(1) assms by (auto simp: parse_int_param_def)
qed

lemma parse_format_specifier_bare:
  assumes "bare l"
  shows "parse_format_specifier fmt (l @ 0 # rest) = Some SpecFail
    \<or> parse_format_specifier fmt (l @ 0 # rest) = Some SpecNotFound
    \<or> (\<exists>a l'. parse_format_specifier fmt (l @ 0 # rest) = Some (SpecFound a (l' @ 0 # rest)) \<and> bare l')"
proof -
  let ?l = "dropWhile (\<lambda>c. c = 0x20 \<or> c = 0x09) l"
  have skip: "skip_whitespace (l @ 0 # rest) = Some (?l @ 0 # rest)" using skip_line assms by (simp add: bare_def)
  have "bare ?l" using bare_suffix(3) [OF assms] .
  note str = parse_string_param_bare [OF this, of rest] and int = parse_int_param_bare [OF this, of rest]
  show ?thesis
  proof (cases fmt)
    case (Cons f fs)
    show ?thesis
    proof (cases "f = 0x25 \<and> fs \<noteq> []")
      case True
      then obtain k ks where fs: "fs = k # ks" by (cases fs) auto
      show ?thesis
      proof (cases "k = 0x73")
        case True
        with str show ?thesis by (elim disjE exE conjE) (simp_all add: parse_format_specifier_def Cons fs skip)
      next
        case False
        with int show ?thesis by (cases "k = 0x64") (auto simp: parse_format_specifier_def Cons fs skip)
      qed
    qed (auto simp: parse_format_specifier_def Cons)
  qed (simp add: parse_format_specifier_def)
qed

lemma parse_command_bare:
  assumes "0 \<notin> set fmt" "bare l"
  shows "\<exists>args. parse_command fmt (l @ 0 # rest) = Some args"
  using assms
proof (induction "length fmt" arbitrary: fmt l rule: less_induct)
  case less
  show ?case
  proof (cases fmt)
    case Nil
    then show ?thesis by (simp add: parse_command.simps)
  next
    case (Cons f fs)
    have next_line: "\<exists>args. parse_command fs (l' @ 0 # rest) = Some args" if "bare l'" for l'
      using less.hyps [of fs l'] less.prems(1) that Cons by simp
    have next_drop: "\<exists>args. parse_command (drop 1 fs) (l' @ 0 # rest) = Some args" if "bare l'" for l'
      using less.hyps [of "drop 1 fs" l'] less.prems(1) that Cons by (auto dest: in_set_dropD simp: less_Suc_eq_le)
    let ?l = "dropWhile (\<lambda>c. c = 0x20 \<or> c = 0x09) l"
    have skip: "skip_whitespace (l @ 0 # rest) = Some (?l @ 0 # rest)" using skip_line less.prems(2) by (simp add: bare_def)
    have "\<exists>m. parse_non_whitespace f (l @ 0 # rest) = Some m \<and> (\<forall>s. m = Some s \<longrightarrow> (\<exists>l'. s = l' @ 0 # rest \<and> bare l'))"
    proof (cases "f = 0x20")
      case False
      have "f \<noteq> 0" using less.prems(1) Cons by auto
      then show ?thesis
        using skip False bare_suffix(3) [OF less.prems(2), of "\<lambda>c. c = 0x20 \<or> c = 0x09"]
        by (cases ?l) (auto simp: parse_non_whitespace_def dest: bare_suffix(2))
    qed (use less.prems(2) in \<open>auto simp: parse_non_whitespace_def\<close>)
    then obtain m where m: "parse_non_whitespace f (l @ 0 # rest) = Some m" "\<And>s. m = Some s \<Longrightarrow> \<exists>l'. s = l' @ 0 # rest \<and> bare l'"
      by blast
    have found: ?thesis if "parse_format_specifier fmt (l @ 0 # rest) = Some (SpecFound a (l' @ 0 # rest))" "bare l'" for a l'
      using next_drop [OF that(2)] that(1) Cons by (subst parse_command.simps) auto
    have not_found: ?thesis if "parse_format_specifier fmt (l @ 0 # rest) = Some SpecNotFound"
      using that m next_line Cons by (cases m; subst parse_command.simps) auto
    have failed: ?thesis if "parse_format_specifier fmt (l @ 0 # rest) = Some SpecFail"
      using that Cons by (subst parse_command.simps) auto
    show ?thesis using parse_format_specifier_bare [OF less.prems(2), of fmt rest] found not_found failed by blast
  qed
qed

lemma take_sign_length: "take_sign s = (x, t) \<Longrightarrow> length t \<le> length s"
  by (cases s) (auto split: if_splits)

lemma drop_0x_length: "length (drop_0x s) \<le> length s"
  by (cases s rule: drop_0x.cases) auto

lemma sscanf_fits: "length s < room \<Longrightarrow> list_all (arg_fits room) (sscanf items s)"
proof (induction items s rule: sscanf.induct)
  case (2 fmt s)
  then show ?case using length_dropWhile_le [of is_space s] by simp
next
  case (3 x fmt s)
  then show ?case by (cases s) auto
next
  case (4 fmt s)
  obtain x t where t: "take_sign (dropWhile is_space s) = (x, t)" by (cases "take_sign (dropWhile is_space s)")
  then have "length (dropWhile is_digit t) < room"
    using 4(2) take_sign_length [OF t] length_dropWhile_le [of is_space s] length_dropWhile_le [of is_digit t] by linarith
  with t 4(1) show ?case by auto
next
  case (5 fmt s)
  obtain x t where t: "take_sign (dropWhile is_space s) = (x, t)" by (cases "take_sign (dropWhile is_space s)")
  then have "length (dropWhile (\<lambda>c. hex_value c \<noteq> None) (drop_0x t)) < room"
    using 5(2) take_sign_length [OF t] length_dropWhile_le [of is_space s] drop_0x_length [of t]
      length_dropWhile_le [of "\<lambda>c. hex_value c \<noteq> None" "drop_0x t"] by linarith
  with t 5(1) show ?case by (auto simp: Let_def)
next
  case (6 fmt s)
  have "length (dropWhile (\<lambda>c. \<not> is_space c) (dropWhile is_space s)) < room"
      "length (takeWhile (\<lambda>c. \<not> is_space c) (dropWhile is_space s)) < room"
    using 6(2) length_dropWhile_le [of is_space s] length_dropWhile_le [of "\<lambda>c. \<not> is_space c" "dropWhile is_space s"]
      length_takeWhile_le [of "\<lambda>c. \<not> is_space c" "dropWhile is_space s"] by linarith+
  with 6(1) show ?case by (auto simp: Let_def)
qed simp

fun branch_ok :: "branch \<Rightarrow> bool" where
  "branch_ok (Parses fmt n f) \<longleftrightarrow> 0 \<notin> set (ascii fmt)"
| "branch_ok (Scans w items room n f) \<longleftrightarrow> 128 \<le> room"
| "branch_ok _ \<longleftrightarrow> True"

lemma cstr_line: "0 \<notin> set l \<Longrightarrow> cstr (l @ 0 # rest) = l"
  by (induction l) (auto simp: cstr_def)

lemma first_branch_bare: "bare l \<Longrightarrow> list_all branch_ok bs \<Longrightarrow> \<exists>c. first_branch bs (l @ 0 # rest) = Some c"
proof (induction bs)
  case (Cons b bs)
  then have IH: "\<exists>c. first_branch bs (l @ 0 # rest) = Some c" by simp
  have l: "cstr (l @ 0 # rest) = l" using Cons.prems(1) by (simp add: bare_def cstr_line)
  show ?case
  proof (cases b)
    case (Parses fmt n f)
    then obtain args where "parse_command (ascii fmt) (l @ 0 # rest) = Some args"
      using parse_command_bare Cons.prems by fastforce
    then show ?thesis using IH Parses by auto
  next
    case (Scans w items room n f)
    then have "list_all (arg_fits room) (sscanf (fmt_word w items) l)"
      using Cons.prems by (intro sscanf_fits) (auto simp: bare_def)
    then show ?thesis using IH Scans l by (auto simp: Let_def)
  qed (use IH l in auto)
qed simp

lemma command_branches_ok: "list_all branch_ok command_branches"
  by (simp add: command_branches_def)

section \<open>Quoted parameters\<close>

text \<open>One step of \<open>parse_command\<close> on a known character.\<close>

lemma parse_done: "parse_command [] str = Some []"
  by (simp add: parse_command.simps)

lemma parse_space: "parse_command (0x20 # fmt) str = parse_command fmt str"
  by (subst parse_command.simps) (simp add: parse_format_specifier_def parse_non_whitespace_def)

lemma parse_char:
  "f \<noteq> 0x25 \<Longrightarrow> f \<noteq> 0x20 \<Longrightarrow> c \<noteq> 0x20 \<Longrightarrow> c \<noteq> 0x09 \<Longrightarrow>
   parse_command (f # fmt) (c # str) = (if f = c then parse_command fmt str else Some [])"
  by (subst parse_command.simps) (simp add: parse_format_specifier_def parse_non_whitespace_def)

lemma parse_skip:
  "f \<noteq> 0x20 \<Longrightarrow> parse_command (f # fmt) (0x20 # str) = parse_command (f # fmt) str"
  by (subst (1 2) parse_command.simps) (simp add: parse_format_specifier_def parse_non_whitespace_def split: list.split)

lemma up_to_end: "e \<notin> set a \<Longrightarrow> 0 \<notin> set a \<Longrightarrow> c = e \<or> c = 0 \<Longrightarrow> up_to e (a @ c # str) = Some (a, c # str)"
  by (induction a) auto

definition arg_ok :: "bytes \<Rightarrow> bool" where
  "arg_ok a \<longleftrightarrow> a \<noteq> [] \<and> 0 \<notin> set a \<and> 0x22 \<notin> set a"

lemma parse_quoted:
  "arg_ok a \<Longrightarrow> length a < 1024 \<Longrightarrow>
   parse_command (0x25 # 0x73 # fmt) (0x22 # a @ 0x22 # str) = map_option ((#) (StrArg a)) (parse_command fmt str)"
  by (subst parse_command.simps)
    (simp add: parse_format_specifier_def parse_string_param_def is_quote_def up_to_end arg_ok_def map_option_case split: option.split)

lemma parse_word:
  "a \<noteq> [] \<Longrightarrow> 0x20 \<notin> set a \<Longrightarrow> 0 \<notin> set a \<Longrightarrow> length a < 1024 \<Longrightarrow> hd a \<noteq> 0x09 \<Longrightarrow> \<not> is_quote (hd a) \<Longrightarrow> c = 0x20 \<or> c = 0 \<Longrightarrow>
   parse_command (0x25 # 0x73 # fmt) (a @ c # str) = map_option ((#) (StrArg a)) (parse_command fmt (c # str))"
  using up_to_end [of "0x20" a c str]
  by (subst parse_command.simps, cases a)
    (auto simp: parse_format_specifier_def parse_string_param_def map_option_case split: option.split)

lemma parse_nothing: "parse_command (0x25 # 0x73 # fmt) (0 # str) = Some []"
  by (subst parse_command.simps) (simp add: parse_format_specifier_def parse_string_param_def is_quote_def)

lemma cstr_simps [simp]: "cstr (0 # s) = []" "c \<noteq> 0 \<Longrightarrow> cstr (c # s) = c # cstr s"
  by (simp_all add: cstr_def)

lemma cstr_append: "0 \<notin> set a \<Longrightarrow> cstr (a @ s) = a @ cstr s"
  by (induction a) (auto simp: cstr_def)

text \<open>A number is whatever stands before the next blank.\<close>

lemma parse_int_word:
  "a \<noteq> [] \<Longrightarrow> 0x20 \<notin> set a \<Longrightarrow> 0 \<notin> set a \<Longrightarrow> length a < 128 \<Longrightarrow> hd a \<noteq> 0x09 \<Longrightarrow> c = 0x20 \<or> c = 0 \<Longrightarrow>
   parse_command (0x25 # 0x64 # fmt) (a @ c # str) = map_option ((#) (IntArg (atoi a))) (parse_command fmt (c # str))"
  using up_to_end [of "0x20" a c str]
  by (subst parse_command.simps, cases a)
    (auto simp: parse_format_specifier_def parse_int_param_def map_option_case split: option.split)

lemmas parse_steps = parse_done parse_space parse_char parse_skip parse_quoted parse_nothing

section \<open>Properties\<close>

text \<open>Command lines with their file names in quotes, and the calls they stand for.\<close>

definition quote :: "bytes \<Rightarrow> bytes" where
  "quote a = 0x22 # a @ [0x22]"

definition quoted_lines :: "bytes \<Rightarrow> bytes \<Rightarrow> (bytes \<times> command) list" where
  "quoted_lines a b =
     [(ascii ''get '' @ quote a @ 0x20 # quote b, DownloadFile a b False),
      (ascii ''put '' @ quote a @ 0x20 # quote b, UploadFile a b),
      (ascii ''rename '' @ quote a @ 0x20 # quote b, RenameFileOrDir a b),
      (ascii ''get '' @ quote a, DownloadFile a a False),
      (ascii ''put '' @ quote a, UploadFile a (last_element a)),
      (ascii ''dput '' @ quote a, WrapUpload a),
      (ascii ''del '' @ quote a, DeleteFileOrDir a),
      (ascii ''mkdir '' @ quote a, CreateDir a),
      (ascii ''cd '' @ quote a, ChangeDir a),
      (ascii ''dir '' @ quote a, ShowDirectory (Some a)),
      (ascii ''clusters '' @ quote a, DownloadFile a a True),
      (ascii ''mount '' @ quote a, MountFile a)]"

text \<open>
  C29: file names in quotes arrive unchanged.  Whatever characters but quotes they have, blanks
  included, the commands get, put, rename, dput, del, mkdir, cd, dir, clusters and mount call
  their functions with exactly these names.
\<close>
theorem quoted_names_arrive:
  assumes "arg_ok a" "arg_ok b" "length a + length b < 980"
  shows "list_all (\<lambda>(line, c). command_of (line @ 0 # s) = Some c) (quoted_lines a b)"
  using assms assms(1,2) [unfolded arg_ok_def]
  by (simp add: quoted_lines_def quote_def command_of_def command_branches_def parse_steps cstr_append fmt_word_def)

theorem quoted_names_arrive_witness:
  "command_of (ascii ''rename \"a b\" \"c d\"'' @ [0]) = Some (RenameFileOrDir (ascii ''a b'') (ascii ''c d''))"
  using quoted_names_arrive [of "ascii ''a b''" "ascii ''c d''" "[]"]
  by (simp add: quoted_lines_def quote_def arg_ok_def)

text \<open>
  C30: a line without quotes stays in its memory.  Shorter than 128 characters, it is read up to
  its end at most, whatever it says: \<open>execute_command\<close> always comes to a decision.
\<close>
theorem bare_lines_decided:
  assumes "bare l"
  shows "\<exists>c. command_of (l @ 0 # s) = Some c"
  using first_branch_bare [OF assms command_branches_ok] assms by (auto simp: command_of_def bare_def cstr_line)

theorem bare_lines_decided_witness: "\<exists>c. command_of (ascii ''get x'' @ [0]) = Some c"
  using bare_lines_decided [of "ascii ''get x''" "[]"] by (simp add: bare_def is_quote_def)

text \<open>A quote that is not closed leads behind the end of the line.\<close>

lemma open_quote_overruns: "command_of (ascii ''rename \"a'' @ [0]) = None"
proof -
  have "parse_command [0x25, 0x73, 0x20, 0x25, 0x73] [0x22, 0x61, 0] = None"
    by (simp add: parse_command.simps parse_format_specifier_def parse_string_param_def is_quote_def parse_non_whitespace_def)
  then show ?thesis by (simp add: command_of_def command_branches_def parse_steps)
qed

text \<open>
  Lines that are taken for other commands.  A command needs no blank behind its name, so that
  \<open>delete x\<close> deletes \<open>ete\<close>; and \<open>sector $\<close> with a hexadecimal number always shows
  sector 0, because the branch for decimal numbers already accepts it.
\<close>
lemma commands_misread:
  assumes "w \<noteq> []" "0 \<notin> set w" "0x20 \<notin> set w" "length w < 120" "hd w \<noteq> 0x09" "\<not> is_quote (hd w)" "length (cstr t) < 800"
  shows "command_of (ascii ''del'' @ w @ 0x20 # t) = Some (DeleteFileOrDir w)
    \<and> command_of (ascii ''sector $'' @ w @ 0 # t) = Some (ShowSector True 0)"
proof
  show "command_of (ascii ''del'' @ w @ 0x20 # t) = Some (DeleteFileOrDir w)"
    using assms parse_word [of w "0x20" "[]" t]
    by (simp add: command_of_def command_branches_def parse_steps cstr_append fmt_word_def)
  have "atoi (0x24 # w) = 0" by (simp add: atoi_def is_space_def is_digit_def)
  then show "command_of (ascii ''sector $'' @ w @ 0 # t) = Some (ShowSector True 0)"
    using assms parse_int_word [of "0x24 # w" 0 "[]" t]
    by (simp add: command_of_def command_branches_def parse_steps cstr_append fmt_word_def)
qed

lemma delete_misread:
  "command_of (ascii ''delete x'' @ [0]) = Some (DeleteFileOrDir (ascii ''ete''))"
  using commands_misread [of "ascii ''ete''" "ascii ''x'' @ [0]"] by (simp add: is_quote_def)

end
