(* ===== verification/Bit2mcs.thy ===== *)
theory Bit2mcs
  imports Scan
begin

text \<open>
  The conversion of a bitstream to an MCS file (\<open>src/lib/libm65ftp/bit2mcs.c\<close>): Intel hex records of
  16 bytes, an extended address record at every multiple of 64 KiB, and a final end record.  The
  files are the bytes read and written; a file that cannot be opened ends the program.
\<close>

section \<open>The conversion\<close>

definition mcs_checksum :: "u32 \<Rightarrow> bytes" where
  "mcs_checksum chksum = hex2 (unat ((- chksum) AND 0xFF)) @ [0x0a]"

definition mcs_segment :: "u32 \<Rightarrow> bytes" where
  "mcs_segment loadAddr =
     (if loadAddr AND 0xFFFF = 0 then
        ascii '':02000004'' @ hex4 (unat (drop_bit 16 loadAddr))
        @ mcs_checksum (0x02 + 0x04 + (drop_bit 24 loadAddr AND 0xFF) + (drop_bit 16 loadAddr AND 0xFF))
      else [])"

definition mcs_data :: "u32 \<Rightarrow> bytes \<Rightarrow> bytes" where
  "mcs_data loadAddr lineData =
     ascii '':'' @ hex2 (length lineData) @ hex4 (unat (loadAddr AND 0xFFFF)) @ ascii ''00''
     @ concat (map (\<lambda>c. hex2 (unat c)) lineData)
     @ mcs_checksum (sum_list (map ucast lineData) + word_of_nat (length lineData)
         + (drop_bit 8 loadAddr AND 0xFF) + (loadAddr AND 0xFF))"

text \<open>The loop; \<open>infile\<close> is what is left to read.\<close>

function mcs_loop :: "u32 \<Rightarrow> bytes \<Rightarrow> bytes" where
  "mcs_loop loadAddr infile =
     (let lineData = take 16 infile in
      if lineData = [] then mcs_segment loadAddr
      else mcs_segment loadAddr @ mcs_data loadAddr lineData
        @ (if length lineData < 16 then []
           else mcs_loop (loadAddr + word_of_nat (length lineData)) (drop 16 infile)))"
  by pat_completeness auto
termination
  by (relation "measure (\<lambda>(_, infile). length infile)") auto

declare mcs_loop.simps [simp del]

definition mcs_end :: bytes where
  "mcs_end = ascii '':00000001FF'' @ [0x0a]"

text \<open>\<open>main\<close>, with the optional third argument, which \<open>sscanf\<close> reads with \<open>%X\<close>.\<close>

definition mcs_offset :: "bytes \<Rightarrow> u32" where
  "mcs_offset offset_in_hex = (case sscanf [ScanHex] offset_in_hex of [IntArg n] \<Rightarrow> word_of_int n | _ \<Rightarrow> 0)"

definition bit2mcs :: "bytes option \<Rightarrow> bytes \<Rightarrow> bytes" where
  "bit2mcs offset_in_hex infile =
     (case offset_in_hex of None \<Rightarrow> mcs_loop 0 (drop 120 infile) | Some h \<Rightarrow> mcs_loop (mcs_offset h) infile)
     @ mcs_end"

section \<open>Loading such a file\<close>

text \<open>
  A loader of Intel hex files, as the format is defined: a record is a colon, the number of data bytes,
  a 16-bit address, a type, the data, and a checksum that makes the sum of all its bytes 0.
\<close>

fun hex_pairs :: "bytes \<Rightarrow> bytes option" where
  "hex_pairs [] = Some []"
| "hex_pairs [c] = None"
| "hex_pairs (c # d # s) =
     (case (hex_value c, hex_value d, hex_pairs s) of
        (Some x, Some y, Some r) \<Rightarrow> Some (word_of_nat (16 * x + y) # r)
      | _ \<Rightarrow> None)"

type_synonym hex_memory = "nat \<rightharpoonup> u8"

definition store_bytes :: "nat \<Rightarrow> bytes \<Rightarrow> hex_memory \<Rightarrow> hex_memory" where
  "store_bytes a bs m = (\<lambda>x. if a \<le> x \<and> x < a + length bs then Some (bs ! (x - a)) else m x)"

text \<open>The result of a record: the upper half of the address and the memory; \<open>None\<close> rejects it.\<close>

definition load_record :: "bytes \<Rightarrow> nat \<times> hex_memory \<Rightarrow> (nat \<times> hex_memory) option" where
  "load_record r x =
     (let addr = 256 * unat (r ! 1) + unat (r ! 2); data = take (length r - 5) (drop 4 r) in
      if length r < 5 \<or> unat (r ! 0) + 5 \<noteq> length r \<or> sum_list r \<noteq> 0 then None
      else case x of (base, m) \<Rightarrow>
        if r ! 3 = 0 then Some (base, store_bytes (65536 * base + addr) data m)
        else if r ! 3 = 4 \<and> length data = 2 then Some (256 * unat (data ! 0) + unat (data ! 1), m)
        else None)"

definition end_record :: bytes where
  "end_record = [0, 0, 0, 1, 0xff]"

text \<open>The lines up to the end record.\<close>

function load_mcs :: "bytes \<Rightarrow> nat \<times> hex_memory \<Rightarrow> hex_memory option" where
  "load_mcs file x =
     (case file of
        [] \<Rightarrow> None
      | c # s \<Rightarrow>
          if c \<noteq> 0x3a then None
          else (case hex_pairs (takeWhile (\<lambda>c. c \<noteq> 0x0a) s) of
            None \<Rightarrow> None
          | Some r \<Rightarrow>
              if r = end_record then Some (snd x)
              else (case load_record r x of
                None \<Rightarrow> None
              | Some y \<Rightarrow> load_mcs (drop 1 (dropWhile (\<lambda>c. c \<noteq> 0x0a) s)) y)))"
  by pat_completeness auto
termination
  by (relation "measure (\<lambda>(file, _). length file)") (auto simp: length_dropWhile_le less_Suc_eq_le le_diff_conv le_SucI)

declare load_mcs.simps [simp del]

section \<open>Bytes of a record\<close>

definition hexs :: "bytes \<Rightarrow> bytes" where
  "hexs r = concat (map (\<lambda>c. hex2 (unat c)) r)"

lemma hexs_simps [simp]: "hexs [] = []" "hexs (c # r) = hex2 (unat c) @ hexs r" "hexs (r @ r') = hexs r @ hexs r'"
  by (simp_all add: hexs_def)

lemma mod_div_16: "(n :: nat) mod 256 div 16 = n div 16 mod 16"
  by (simp add: mod_mult2_eq [of n 16 16, simplified])

lemma hex2_hexs: "hex2 n = hexs [word_of_nat n]"
  by (simp add: hexs_def hex2_def unat_of_nat take_bit_eq_mod mod_div_16 mod_mod_cancel)

lemma hex4_hexs: "hex4 n = hexs [word_of_nat (n div 256), word_of_nat n]"
  using hex2_hexs by (simp add: hex4_def)

lemma hex_pairs_hexs [simp]: "hex_pairs (hexs r) = Some r"
proof (induction r)
  case (Cons c r)
  have "unat c div 16 < 16" using unsigned_less [of c, where 'a = nat] by simp
  then have "word_of_nat (16 * (unat c div 16 mod 16) + unat c mod 16) = c" by simp
  with Cons show ?case by (simp add: hex2_def)
qed simp

lemma hexs_no_newline: "0x0a \<notin> set (hexs r)"
proof (induction r)
  case (Cons c r)
  then show ?case using hex_char_newline [of "unat c div 16 mod 16"] hex_char_newline [of "unat c mod 16"] by (auto simp: hex2_def)
qed simp

text \<open>A whole record as a line.\<close>

definition mcs_line :: "bytes \<Rightarrow> bytes" where
  "mcs_line r = 0x3a # hexs r @ [0x0a]"

lemma load_mcs_line:
  "load_mcs (mcs_line r @ rest) x =
     (if r = end_record then Some (snd x) else case load_record r x of None \<Rightarrow> None | Some y \<Rightarrow> load_mcs rest y)"
proof -
  have "takeWhile (\<lambda>c. c \<noteq> 0x0a) (hexs r @ 0x0a # rest) = hexs r" "dropWhile (\<lambda>c. c \<noteq> 0x0a) (hexs r @ 0x0a # rest) = 0x0a # rest"
    using hexs_no_newline [of r] by (auto simp: takeWhile_append dropWhile_append)
  then show ?thesis by (subst load_mcs.simps) (simp add: mcs_line_def split: option.split)
qed

section \<open>Checksums\<close>

lemma low_byte_arith:
  "(ucast (x + y :: u32) :: u8) = ucast x + ucast y" "(ucast (- x :: u32) :: u8) = - ucast x"
  "(ucast (x AND 0xFF :: u32) :: u8) = ucast x"
proof -
  show add: "(ucast (x + y :: u32) :: u8) = ucast x + ucast y" for x y
    by (simp add: word_unat_eq_iff unat_word_ariths unsigned_ucast_eq take_bit_eq_mod mod_mod_cancel mod_add_eq)
  have mask: "(0xFF :: u32) = mask 8" by (simp add: mask_eq_exp_minus_1)
  have "(ucast (- x :: u32) :: u8) + ucast x = 0"
    using add [of "- x" x] by simp
  then show "(ucast (- x :: u32) :: u8) = - ucast x" by (simp add: eq_neg_iff_add_eq_0)
  show "(ucast (x AND 0xFF :: u32) :: u8) = ucast x"
    unfolding mask by (rule bit_word_eqI) (auto simp: bit_simps)
qed

lemma ucast_sum_list: "(ucast (sum_list (map ucast line) :: u32) :: u8) = sum_list line"
proof (induction line)
  case (Cons a line)
  have "(ucast (ucast a :: u32) :: u8) = a" by (rule bit_word_eqI) (simp add: bit_simps)
  with Cons show ?case by (simp add: low_byte_arith)
qed simp

lemma mcs_checksum_hexs: "mcs_checksum c = hexs [- ucast c] @ [0x0a]"
proof -
  have "word_of_nat (unat ((- c) AND 0xFF :: u32)) = (- ucast c :: u8)"
    using low_byte_arith(2,3) [of c] low_byte_arith(3) [of "- c"] by simp
  then show ?thesis using hex2_hexs [of "unat ((- c) AND 0xFF)"] by (simp add: mcs_checksum_def)
qed

lemma word_of_nat_high: "(word_of_nat (unat w div 256) :: u8) = ucast (drop_bit 8 (w :: u32))"
proof -
  have "unat w div 256 = unat (drop_bit 8 w)" by (simp add: unsigned_drop_bit_eq drop_bit_eq_div)
  then show ?thesis by (simp only:) simp
qed

lemma mcs_data_line:
  "mcs_data a line = mcs_line (word_of_nat (length line) # ucast (drop_bit 8 a) # ucast a # 0 # line
     @ [- (sum_list line + word_of_nat (length line) + ucast (drop_bit 8 a) + ucast a)])"
proof -
  have len: "hex2 (length line) = hexs [word_of_nat (length line)]" by (rule hex2_hexs)
  have mask: "(0xFFFF :: u32) = mask 16" by (simp add: mask_eq_exp_minus_1)
  have lo: "(word_of_nat (unat (a AND 0xFFFF)) :: u8) = ucast a"
    unfolding mask by (rule bit_word_eqI) (auto simp: bit_simps)
  have "(word_of_nat (unat (a AND 0xFFFF) div 256) :: u8) = ucast (drop_bit 8 (a AND 0xFFFF))"
    by (rule word_of_nat_high)
  also have "\<dots> = ucast (drop_bit 8 a)" unfolding mask by (rule bit_word_eqI) (auto simp: bit_simps)
  finally have addr: "hex4 (unat (a AND 0xFFFF)) = hexs [ucast (drop_bit 8 a), ucast a]"
    using lo by (simp add: hex4_hexs)
  have type: "ascii ''00'' = hexs [0]" by (simp add: hex2_def hex_char_def)
  have cnt: "(ucast (word_of_nat (length line) :: u32) :: u8) = word_of_nat (length line)"
    by (rule bit_word_eqI) (auto simp: bit_simps)
  have join: "hexs (n # h # l # 0 # line @ [k]) = hexs [n] @ hexs [h, l] @ hexs [0] @ hexs line @ hexs [k]" for n h l k
    by (simp only: hexs_simps append.simps append_assoc append_Nil2)
  have colon: "ascii '':'' = [0x3a]" by simp
  show ?thesis
    by (simp only: mcs_data_def mcs_line_def len addr type colon mcs_checksum_hexs low_byte_arith ucast_sum_list cnt join
        hexs_def [symmetric, of line] append_assoc append.simps)
qed

lemma mcs_segment_line:
  assumes "a AND 0xFFFF = 0"
  shows "mcs_segment a = mcs_line [2, 0, 0, 4, ucast (drop_bit 24 a), ucast (drop_bit 16 a),
    - (6 + ucast (drop_bit 24 a) + ucast (drop_bit 16 a))]"
proof -
  have head: "ascii '':02000004'' = 0x3a # hexs [2, 0, 0, 4]" by (simp add: hex2_def hex_char_def)
  have addr: "hex4 (unat (drop_bit 16 a)) = hexs [ucast (drop_bit 24 a), ucast (drop_bit 16 a)]"
    using word_of_nat_high [of "drop_bit 16 a"] by (simp add: hex4_hexs del: hexs_simps)
  have six: "(0x02 + 0x04 :: u32) = 6" "(ucast (6 :: u32) :: u8) = 6" by simp_all
  have join: "hexs [2, 0, 0, 4] @ hexs [h, l] @ hexs [k] = hexs [2, 0, 0, 4, h, l, k]" for h l k
    by (simp only: hexs_simps append.simps append_assoc append_Nil2)
  show ?thesis
    by (simp only: mcs_segment_def assms simp_thms if_True mcs_line_def head addr mcs_checksum_hexs six low_byte_arith(1,3)
        append_assoc append.simps flip: join)
qed

text \<open>What the two kinds of record do when they are loaded.\<close>

lemma unat_low_byte: "unat (ucast (w :: u32) :: u8) = unat w mod 256"
  by (simp add: unsigned_ucast_eq take_bit_eq_mod)

lemma unat_drop: "unat (drop_bit k (w :: u32)) = unat w div 2 ^ k"
  using drop_bit_eq_div [of k "unat w"] unsigned_less [of w, where 'a = nat]
  by (simp add: unsigned_drop_bit_eq take_bit_nat_eq_self)

lemma load_segment:
  "load_record [2, 0, 0, 4, ucast (drop_bit 24 a), ucast (drop_bit 16 a),
      - (6 + ucast (drop_bit 24 a) + ucast (drop_bit 16 a))] (base, m) = Some (unat (a :: u32) div 65536, m)"
proof -
  have top: "unat a div 2 ^ 24 < 256" using unsigned_less [of a, where 'a = nat] by (simp add: less_mult_imp_div_less)
  have "256 * (unat a div 2 ^ 24 mod 256) + unat a div 2 ^ 16 mod 256 = unat a div 65536"
    using div_mult2_eq [of "unat a" 65536 256] top by simp
  with top show ?thesis by (simp add: load_record_def unat_low_byte unat_drop)
qed

lemma load_data:
  assumes "length line \<le> 16"
  shows "load_record (word_of_nat (length line) # ucast (drop_bit 8 a) # ucast a # 0 # line
      @ [- (sum_list line + word_of_nat (length line) + ucast (drop_bit 8 a) + ucast a)]) (base, m)
    = Some (base, store_bytes (65536 * base + unat (a :: u32) mod 65536) line m)"
proof -
  have "256 * (unat a div 2 ^ 8 mod 256) + unat a mod 256 = unat a mod 65536"
    using mod_mult2_eq [of "unat a" 256 256] by simp
  moreover have "unat (word_of_nat (length line) :: u8) = length line" using assms by (simp add: unat_of_nat)
  ultimately show ?thesis by (simp add: load_record_def unat_low_byte unat_drop)
qed

section \<open>Properties\<close>

lemma store_bytes_Nil [simp]: "store_bytes a [] m = m"
  by (auto simp: store_bytes_def fun_eq_iff)

lemma store_bytes_append: "store_bytes (a + length xs) ys (store_bytes a xs m) = store_bytes a (xs @ ys) m"
  by (auto simp: store_bytes_def nth_append fun_eq_iff)

lemma load_after_segment:
  assumes "unat a mod 65536 = 0 \<or> base = unat a div 65536"
  shows "load_mcs (mcs_segment a @ rest) (base, m) = load_mcs rest (unat a div 65536, m)"
proof -
  have mask: "(0xFFFF :: u32) = mask 16" by (simp add: mask_eq_exp_minus_1)
  have seg: "a AND 0xFFFF = 0 \<longleftrightarrow> unat a mod 65536 = 0"
    unfolding mask by (simp add: word_unat_eq_iff unat_and_mask)
  show ?thesis
  proof (cases "a AND 0xFFFF = 0")
    case True
    show ?thesis by (simp only: mcs_segment_line [OF True] load_mcs_line load_segment option.case) (simp add: end_record_def)
  next
    case False
    then show ?thesis using assms seg by (simp add: mcs_segment_def)
  qed
qed

lemma load_after_data:
  assumes "length line \<le> 16"
  shows "load_mcs (mcs_data a line @ rest) (unat a div 65536, m) = load_mcs rest (unat a div 65536, store_bytes (unat a) line m)"
proof -
  have "65536 * (unat a div 65536) + unat a mod 65536 = unat a" by simp
  then show ?thesis
    by (simp only: mcs_data_line load_mcs_line load_data [OF assms] option.case) (simp add: end_record_def)
qed

lemma next_segment: "x mod 16 = 0 \<Longrightarrow> (x + 16) mod 65536 = 0 \<or> x div 65536 = (x + 16 :: nat) div 65536"
proof -
  assume "x mod 16 = 0"
  then have "x mod 65536 mod 16 = 0" by (simp add: mod_mod_cancel)
  then obtain q where q: "x mod 65536 = 16 * q" by (elim dvdE [OF mod_0_imp_dvd])
  have "16 * q < 65536" by (simp flip: q)
  have x: "x = 65536 * (x div 65536) + 16 * q" by (simp flip: q)
  have "x + 16 = 65536 * (x div 65536) + 16 * (q + 1)" by (subst x) (simp only: add_mult_distrib2 mult_1_right add.assoc)
  then show ?thesis
  proof (cases "q = 4095")
    case True
    then have "x + 16 = 65536 * (x div 65536 + 1)" using \<open>x + 16 = _\<close> by simp
    then show ?thesis by (metis mod_mult_self1_is_0)
  next
    case False
    then have "16 * (q + 1) < 65536" using \<open>16 * q < 65536\<close> by simp
    moreover have "(65536 * d + s) div 65536 = d" if "s < 65536" for d s :: nat using that by simp
    ultimately show ?thesis using \<open>x + 16 = _\<close> by metis
  qed
qed

lemma mcs_loop_loads:
  assumes "16 dvd unat a" "unat a + length inp \<le> 2 ^ 32" "unat a mod 65536 = 0 \<or> base = unat a div 65536"
    and "\<And>y. load_mcs rest y = Some (snd y)"
  shows "load_mcs (mcs_loop a inp @ rest) (base, m) = Some (store_bytes (unat a) inp m)"
  using assms(1-3)
proof (induction "length inp" arbitrary: a inp base m rule: less_induct)
  case less
  let ?b = "unat a div 65536" and ?line = "take 16 inp"
  show ?case
  proof (cases "length inp < 16")
    case True
    then show ?thesis
      using load_after_segment [OF less.prems(3)] load_after_data [of ?line a rest m] assms(4)
      by (subst mcs_loop.simps) (auto simp: Let_def)
  next
    case False
    let ?a = "a + word_of_nat (length ?line)"
    have len: "length ?line = 16" using False by simp
    have next_a: "unat ?a = (unat a + 16) mod 2 ^ 32" by (simp only: len unat_word_ariths) simp
    have wrap: "unat ?a = unat a + 16 \<or> unat a + 16 = 2 ^ 32 \<and> unat ?a = 0 \<and> length inp = 16"
      using next_a less.prems(2) False by (cases "unat a + 16 = 2 ^ 32") auto
    have "unat ?a mod 65536 = 0 \<or> ?b = unat ?a div 65536"
    proof (cases "unat ?a = 0")
      case False
      then have "unat ?a = unat a + 16" using wrap by simp
      then show ?thesis using next_segment [of "unat a"] less.prems(1) by (simp only:) simp
    qed simp
    moreover have "16 dvd unat ?a"
      using wrap less.prems(1) by auto
    moreover have "unat ?a + length (drop 16 inp) \<le> 2 ^ 32"
      using wrap less.prems(2) False by auto
    moreover have "store_bytes (unat ?a) (drop 16 inp) (store_bytes (unat a) ?line m) = store_bytes (unat a) inp m"
      using wrap store_bytes_append [of "unat a" ?line "drop 16 inp" m] len by auto
    ultimately have "load_mcs (mcs_loop ?a (drop 16 inp) @ rest) (?b, store_bytes (unat a) ?line m) = Some (store_bytes (unat a) inp m)"
      using less.hyps [of "drop 16 inp" ?a ?b] False by simp
    then show ?thesis
      using load_after_segment [OF less.prems(3)] load_after_data [of ?line a _ m] len
      by (subst mcs_loop.simps) (auto simp: Let_def)
  qed
qed

lemma load_end: "load_mcs mcs_end y = Some (snd y)"
proof -
  have "mcs_end = mcs_line end_record @ []"
    by (simp add: mcs_end_def mcs_line_def end_record_def hex2_def hex_char_def)
  then show ?thesis using load_mcs_line [of end_record "[]" y] by (metis (full_types))
qed

lemma bit2mcs_at_offset:
  assumes "unat (mcs_offset h) mod 65536 = 0" "unat (mcs_offset h) + length infile \<le> 2 ^ 32"
  shows "load_mcs (bit2mcs (Some h) infile) (0, Map.empty) = Some (store_bytes (unat (mcs_offset h)) infile Map.empty)"
proof -
  have "16 dvd unat (mcs_offset h)"
    using assms(1) mod_mod_cancel [of 16 65536 "unat (mcs_offset h)"] by (simp add: dvd_eq_mod_eq_0)
  then show ?thesis
    using mcs_loop_loads [of "mcs_offset h" infile 0 mcs_end Map.empty] load_end assms by (simp add: bit2mcs_def)
qed

text \<open>
  C34: an MCS file loads as the file it was made from.  A loader that follows the format, checksums
  included, puts the bytes of the input, after the 120 bytes of a bitstream's header or from the
  start, at the addresses from the offset on, for an offset that is a multiple of 64 KiB.
\<close>
theorem mcs_loads_back:
  assumes "unat (mcs_offset h) mod 65536 = 0" "unat (mcs_offset h) + length infile \<le> 2 ^ 32"
  shows "load_mcs (bit2mcs (Some h) infile) (0, Map.empty) = Some (store_bytes (unat (mcs_offset h)) infile Map.empty)
    \<and> load_mcs (bit2mcs None infile) (0, Map.empty) = Some (store_bytes 0 (drop 120 infile) Map.empty)"
  using bit2mcs_at_offset [OF assms] assms(2) load_end
    mcs_loop_loads [of 0 "drop 120 infile" 0 mcs_end Map.empty]
  by (simp add: bit2mcs_def)

theorem mcs_loads_back_witness:
  "load_mcs (bit2mcs (Some (ascii ''800000'')) (replicate 70000 7)) (0, Map.empty) = Some (store_bytes 0x800000 (replicate 70000 7) Map.empty)"
proof -
  have "mcs_offset (ascii ''800000'') = 0x800000" by (simp add: mcs_offset_def is_space_def hex_value_def)
  then show ?thesis using mcs_loads_back [of "ascii ''800000''" "replicate 70000 7"] by simp
qed

text \<open>With any other offset the upper half of the address is missing: \<open>800010\<close> is loaded at address \<open>10\<close>.\<close>

lemma odd_offset_loads_low:
  assumes "unat (mcs_offset h) mod 65536 \<noteq> 0" "length infile < 16" "infile \<noteq> []"
  shows "load_mcs (bit2mcs (Some h) infile) (0, Map.empty) = Some (store_bytes (unat (mcs_offset h) mod 65536) infile Map.empty)"
proof -
  let ?a = "mcs_offset h" 
  have mask: "(0xFFFF :: u32) = mask 16" by (simp add: mask_eq_exp_minus_1)
  have "?a AND 0xFFFF \<noteq> 0" using assms(1) unfolding mask by (auto simp: word_unat_eq_iff unat_and_mask)
  then have "bit2mcs (Some h) infile = mcs_data ?a infile @ mcs_end"
    using assms(2,3) by (simp add: bit2mcs_def mcs_loop.simps [of ?a infile] mcs_segment_def)
  also have "load_mcs \<dots> (0, Map.empty) = load_mcs mcs_end (0, store_bytes (unat ?a mod 65536) infile Map.empty)"
    using assms(2) by (simp only: mcs_data_line load_mcs_line load_data [OF less_imp_le] option.case) (simp add: end_record_def)
  finally show ?thesis by (simp only: load_end snd_conv)
qed

end
