(* ===== verification/Flash.thy ===== *)
theory Flash
  imports Bit2mcs DirTree
begin

text \<open>
  Flashing a core (\<open>src/lib/libm65ftp/mega65_ftp.c\<close>): the table of the hardware models, the checks
  before anything is flashed, and the two files, \<open>out.mcs\<close> and \<open>write-flash.tcl\<close>, that Vivado is
  then given.  What \<open>mega65_peek\<close> answers at the address of the model is the argument \<open>hw\<close>; files on
  the host are the function \<open>host\<close>.  \<open>None\<close> is an access through a null pointer.
\<close>

section \<open>The hardware models\<close>

record model =
  model_id :: u8
  model_name :: bytes
  slot_size :: int
  slot_count :: int
  fpga_part :: bytes
  qspi_part :: bytes

definition model_row :: "u8 \<Rightarrow> string \<Rightarrow> int \<Rightarrow> int \<Rightarrow> string \<Rightarrow> string \<Rightarrow> model" where
  "model_row i n sz cnt fpga qspi =
     \<lparr>model_id = i, model_name = ascii n, slot_size = sz, slot_count = cnt, fpga_part = ascii fpga, qspi_part = ascii qspi\<rparr>"

definition unknown_model :: model where
  "unknown_model = model_row 0xFF ''? unknown ?'' 0 0 '''' ''''"

definition models :: "model list" where
  "models =
     [model_row 0x01 ''MEGA65 R1'' 4 4 ''xc7a200t_0'' ''s25fl128sxxxxxx0-spi-x1_x2_x4'',
      model_row 0x02 ''MEGA65 R2'' 4 8 ''xc7a100t_0'' ''s25fl256sxxxxxx0-spi-x1_x2_x4'',
      model_row 0x03 ''MEGA65 R3'' 8 4 ''xc7a200t_0'' ''s25fl256sxxxxxx0-spi-x1_x2_x4'',
      model_row 0x04 ''MEGA65 R4'' (- 1) 8 ''xc7a200t_0'' ''s25fl512s-spi-x1_x2_x4'',
      model_row 0x05 ''MEGA65 R5'' (- 1) 8 ''xc7a200t_0'' ''s25fl512s-spi-x1_x2_x4'',
      model_row 0x06 ''MEGA65 R6'' (- 1) 8 ''xc7a200t_0'' ''s25fl512s-spi-x1_x2_x4'',
      model_row 0x21 ''MEGAphone R1'' 4 4 ''xc7a200t_0'' ''s25fl128sxxxxxx0-spi-x1_x2_x4'',
      model_row 0x40 ''Nexys4 PSRAM'' 4 4 ''xc7a100t_0'' ''s25fl128sxxxxxx0-spi-x1_x2_x4'',
      model_row 0x41 ''Nexys4DDR'' 4 4 ''xc7a100t_0'' ''s25fl128sxxxxxx0-spi-x1_x2_x4'',
      model_row 0x42 ''Nexys4DDR with widget board'' 4 4 ''xc7a100t_0'' ''s25fl128sxxxxxx0-spi-x1_x2_x4'',
      model_row 0xFD ''QMTECH Wukong A100T board'' 4 4 ''xc7a100t_0'' ''s25fl128sxxxxxx0-spi-x1_x2_x4'',
      model_row 0xFE ''Simulation'' 0 0 '''' '''',
      unknown_model]"

definition get_model :: "u8 \<Rightarrow> model" where
  "get_model i = (case find (\<lambda>m. i = model_id m) models of Some m \<Rightarrow> m | None \<Rightarrow> last models)"

section \<open>The checks\<close>

text \<open>
  \<open>get_file_extension\<close>: from the last dot on, \<open>Some None\<close> without one; for an empty name the
  character before the string is looked at.
\<close>

definition get_file_extension :: "bytes \<Rightarrow> bytes option option" where
  "get_file_extension filename =
     (if filename = [] then None
      else Some (case find (\<lambda>i. filename ! i = 0x2e) (rev [0 ..< length filename]) of
        None \<Rightarrow> None
      | Some i \<Rightarrow> Some (drop i filename)))"

definition is_d81_file :: "bytes \<Rightarrow> bool option" where
  "is_d81_file filename =
     do { ext \<leftarrow> get_file_extension filename; e \<leftarrow> ext; Some (e = ascii ''.d81'' \<or> e = ascii ''.D81'') }"

text \<open>The file is read with one \<open>fread\<close> of 512 bytes; closing a file that was not opened crashes.\<close>

definition get_model_id_from_core_file :: "bytes option \<Rightarrow> u8 option" where
  "get_model_id_from_core_file corefile =
     (case corefile of None \<Rightarrow> None | Some f \<Rightarrow> Some (if length (take 512 f) > 0x70 then f ! 0x70 else 0))"

text \<open>\<open>answer\<close> is whether the user types \<open>y\<close>.\<close>

definition check_model_id_field :: "u8 \<Rightarrow> bool \<Rightarrow> bool \<Rightarrow> bytes option \<Rightarrow> bool option" where
  "check_model_id_field hw ignore_q answer corefile =
     do {
       core_model_id \<leftarrow> get_model_id_from_core_file corefile;
       Some (if hw = core_model_id then True
             else if core_model_id = 0 then (if ignore_q then True else answer)
             else False)
     }"

definition initial_flashing_checks :: "bool \<Rightarrow> bool \<Rightarrow> u8 \<Rightarrow> int \<Rightarrow> bool" where
  "initial_flashing_checks ethernet_mode xemu_flag hw slotnum =
     (let mdl = get_model hw in
      if ethernet_mode then False
      else if xemu_flag then False
      else if slotnum \<ge> slot_count mdl then False
      else if slot_size mdl = - 1 then False
      else True)"

section \<open>The script\<close>

text \<open>A line of the script; \<open>fpga\<close>, \<open>qspi\<close>, \<open>hwcfg\<close> and \<open>hwcfgtype\<close> are the texts \<open>sprintf\<close> makes.\<close>

definition tcl_line :: "bytes list \<Rightarrow> bytes" where
  "tcl_line parts = concat parts @ [0x0a]"

definition set_property :: "string \<Rightarrow> bytes \<Rightarrow> bytes" where
  "set_property what hwcfg = tcl_line [ascii ''set_property PROGRAM.'', ascii what, ascii '' '', hwcfg]"

definition write_tcl_script :: "model \<Rightarrow> bytes" where
  "write_tcl_script mdl =
     (let fpga = ascii ''[lindex [get_hw_devices '' @ fpga_part mdl @ ascii ''] 0]'';
          qspi = ascii ''[lindex [get_cfgmem_parts {'' @ qspi_part mdl @ ascii ''}] 0]'';
          hwcfg = ascii ''[ get_property PROGRAM.HW_CFGMEM '' @ fpga @ ascii '']'';
          hwcfgtype = ascii ''[ get_property PROGRAM.HW_CFGMEM_TYPE '' @ fpga @ ascii '']'' in
      concat
       [tcl_line [ascii ''open_hw''],
        tcl_line [ascii ''connect_hw_server''],
        tcl_line [ascii ''open_hw_target''],
        tcl_line [ascii ''create_hw_cfgmem -hw_device '', fpga, ascii '' '', qspi],
        set_property ''BLANK_CHECK  0'' hwcfg,
        set_property ''ERASE  1'' hwcfg,
        set_property ''CFG_PROGRAM  1'' hwcfg,
        set_property ''VERIFY  1'' hwcfg,
        set_property ''CHECKSUM  0'' hwcfg,
        tcl_line [ascii ''refresh_hw_device '', fpga],
        set_property ''ADDRESS_RANGE  {use_file}'' hwcfg,
        set_property ''FILES [list \"out.mcs\" ]'' hwcfg,
        set_property ''PRM_FILE {}'' hwcfg,
        set_property ''UNUSED_PIN_TERMINATION {pull-none}'' hwcfg,
        set_property ''BLANK_CHECK  0'' hwcfg,
        set_property ''ERASE  1'' hwcfg,
        set_property ''CFG_PROGRAM  1'' hwcfg,
        set_property ''VERIFY  1'' hwcfg,
        set_property ''CHECKSUM  0'' hwcfg,
        tcl_line [ascii ''startgroup''],
        tcl_line [ascii ''if {![string equal '', hwcfgtype, ascii '' [get_property MEM_TYPE [get_property CFGMEM_PART '', hwcfg,
          ascii '']]] }  { create_hw_bitstream -hw_device '', fpga, ascii '' [get_property PROGRAM.HW_CFGMEM_BITFILE '', fpga,
          ascii '']; program_hw_devices '', fpga, ascii ''; };''],
        tcl_line [ascii ''program_hw_cfgmem -hw_cfgmem '', hwcfg],
        tcl_line [ascii ''endgroup''],
        tcl_line [ascii ''quit'']])"

section \<open>Flashing\<close>

text \<open>\<open>%08X\<close>.\<close>

definition hex8 :: "u32 \<Rightarrow> bytes" where
  "hex8 w = hex4 (unat w div 65536) @ hex4 (unat w mod 65536)"

text \<open>The files that Vivado is run on; the client ends after it.\<close>

datatype flash_result = Refused | Flashed bytes bytes

definition flash_core_to_slot :: "u8 \<Rightarrow> bool \<Rightarrow> bool \<Rightarrow> (bytes \<Rightarrow> bytes option) \<Rightarrow> bytes \<Rightarrow> int \<Rightarrow> flash_result option" where
  "flash_core_to_slot hw ignore_q answer host fname slotnum =
     (let mdl = get_model hw in
      do {
        ext \<leftarrow> get_file_extension fname;
        e \<leftarrow> ext;
        if stricmp e (ascii ''.cor'') \<noteq> 0 then Some Refused
        else do {
          ok \<leftarrow> check_model_id_field hw ignore_q answer (host fname);
          if \<not> ok then Some Refused
          else do {
            core \<leftarrow> host fname;
            Some (Flashed (bit2mcs (Some (hex8 (word_of_int (slotnum * slot_size mdl * 1048576)))) core) (write_tcl_script mdl))
          }
        }
      })"

definition perform_flash ::
  "bool \<Rightarrow> bool \<Rightarrow> u8 \<Rightarrow> bool \<Rightarrow> bool \<Rightarrow> (bytes \<Rightarrow> bytes option) \<Rightarrow> bytes \<Rightarrow> int \<Rightarrow> flash_result option" where
  "perform_flash ethernet_mode xemu_flag hw ignore_q answer host fname slotnum =
     (if \<not> initial_flashing_checks ethernet_mode xemu_flag hw slotnum then Some Refused
      else flash_core_to_slot hw ignore_q answer host fname slotnum)"

text \<open>The name the file host gives; without one, \<open>get_file_extension\<close> is called with a null pointer.\<close>

definition perform_filehost_flash ::
  "bool \<Rightarrow> bool \<Rightarrow> u8 \<Rightarrow> bool \<Rightarrow> bool \<Rightarrow> (bytes \<Rightarrow> bytes option) \<Rightarrow> (bytes \<times> bytes) option \<Rightarrow> int \<Rightarrow> flash_result option" where
  "perform_filehost_flash ethernet_mode xemu_flag hw ignore_q answer host file slotnum =
     (if \<not> initial_flashing_checks ethernet_mode xemu_flag hw slotnum then Some Refused
      else do { (fname, body) \<leftarrow> file; flash_core_to_slot hw ignore_q answer (host(fname \<mapsto> body)) fname slotnum })"

section \<open>The offset\<close>

lemma is_space_hex [simp]: "n < 16 \<Longrightarrow> \<not> is_space (hex_char n)"
  by (drule nibble_range, elim insertE emptyE) (simp_all add: hex_char_def is_space_def)

text \<open>A character that is a digit is neither a sign nor the letter of a prefix.\<close>

lemma hex_value_special: "hex_value 0x2d = None" "hex_value 0x2b = None" "hex_value 0x78 = None" "hex_value 0x58 = None"
  by (simp_all add: hex_value_def)

lemma scan_hex_digits:
  assumes "\<forall>c \<in> set (c1 # c2 # s). hex_value c \<noteq> None \<and> \<not> is_space c"
  shows "sscanf [ScanHex] (c1 # c2 # s) = [IntArg (int (hex_digits_value 0 (c1 # c2 # s)))]"
proof -
  have "c1 \<noteq> 0x2d" "c1 \<noteq> 0x2b" "c2 \<noteq> 0x78" "c2 \<noteq> 0x58" "\<not> is_space c1" "hex_value c1 \<noteq> None"
    using assms hex_value_special by auto
  then show ?thesis by (auto simp: Let_def)
qed

lemma hex_digits_hex2: "hex_digits_value n (hex2 x @ s) = hex_digits_value (256 * n + x mod 256) s"
proof -
  have "16 * (x div 16 mod 16) + x mod 16 = x mod 256" using mod_mult2_eq [of x 16 16] by simp
  then show ?thesis by (simp add: hex2_def add.assoc)
qed

lemma hex_digits_hex4: "hex_digits_value n (hex4 x @ s) = hex_digits_value (65536 * n + x mod 65536) s"
proof -
  have "256 * (x div 256 mod 256) + x mod 256 = x mod 65536" using mod_mult2_eq [of x 256 256] by simp
  then show ?thesis by (simp add: hex4_def hex_digits_hex2 add.assoc)
qed

lemma hex4_chars: "\<forall>c \<in> set (hex4 x). hex_value c \<noteq> None \<and> \<not> is_space c"
  by (simp add: hex4_def hex2_def)

lemma mcs_offset_hex8 [simp]: "mcs_offset (hex8 w) = w"
proof -
  have "unat w div 65536 < 65536"
    using unsigned_less [of w, where 'a = nat] by (simp add: less_mult_imp_div_less)
  then have "hex_digits_value 0 (hex8 w @ []) = unat w"
    unfolding hex8_def append_assoc by (simp only: hex_digits_hex4) simp
  moreover obtain c1 c2 s where h: "hex8 w = c1 # c2 # s"
    by (simp add: hex8_def hex4_def hex2_def)
  moreover have "\<forall>c \<in> set (hex8 w). hex_value c \<noteq> None \<and> \<not> is_space c"
    using hex4_chars by (auto simp: hex8_def)
  ultimately show ?thesis
    using scan_hex_digits [of c1 c2 s] by (simp add: mcs_offset_def del: sscanf.simps hex_digits_value.simps)
qed

section \<open>Properties\<close>

lemma models_slots:
  "slot_size (get_model hw) = - 1 \<or> slot_count (get_model hw) = 0
    \<or> (slot_size (get_model hw) = 4 \<or> slot_size (get_model hw) = 8) \<and> slot_count (get_model hw) \<le> 8"
  by (simp add: get_model_def models_def unknown_model_def model_row_def)



text \<open>A negative slot passes all checks: for slot \<open>- 1\<close> the offset wraps around.\<close>

lemma negative_slot_accepted: "initial_flashing_checks False False 3 (- 1)"
  by (simp add: initial_flashing_checks_def get_model_def models_def model_row_def Let_def)

end
