(* ===== verification/Diskman.thy ===== *)
theory Diskman
  imports Dir
begin

text \<open>
  The disk image that \<open>dput\<close> wraps a program in (\<open>src/lib/libm65ftp/diskman.c\<close>): a 1581 disk of
  80 tracks of 40 sectors, its header and block availability map (BAM), one directory entry, and the
  program on a chain of sectors from track 1 on.  The array \<open>data\<close> is a function from offsets; an
  access past its 819200 bytes is \<open>None\<close>.  The local file is the argument \<open>host\<close>.
\<close>

section \<open>Tracks and sectors\<close>

type_synonym d81 = "nat \<Rightarrow> u8"

definition d81_size :: nat where
  "d81_size = 819200"

definition calc_offset :: "nat \<Rightarrow> nat \<Rightarrow> nat \<Rightarrow> nat" where
  "calc_offset track sector offset = (track - 1) * (256 * 40) + sector * 256 + offset"

definition write_tso_byte :: "nat \<Rightarrow> nat \<Rightarrow> nat \<Rightarrow> u8 \<Rightarrow> d81 \<Rightarrow> d81" where
  "write_tso_byte track sector offset val d = d(calc_offset track sector offset := val)"

text \<open>The string up to its end, then padding.\<close>

definition write_tso_str :: "nat \<Rightarrow> nat \<Rightarrow> nat \<Rightarrow> bytes \<Rightarrow> nat \<Rightarrow> d81 \<Rightarrow> d81" where
  "write_tso_str track sector offset str maxlen d =
     fold (\<lambda>k. write_tso_byte track sector (offset + k) (if k < length str then str ! k else 0xa0)) [0 ..< maxlen] d"

definition write_tso_bytes :: "nat \<Rightarrow> nat \<Rightarrow> (nat \<times> u8) list \<Rightarrow> d81 \<Rightarrow> d81" where
  "write_tso_bytes track sector vs d = fold (\<lambda>(offset, val). write_tso_byte track sector offset val) vs d"

definition empty_track :: bytes where
  "empty_track = [0x28, 0xff, 0xff, 0xff, 0xff, 0xff]"

text \<open>One of the two BAM sectors, with the link to the next.\<close>

definition write_bam_sector :: "nat \<Rightarrow> u8 \<Rightarrow> u8 \<Rightarrow> bytes \<Rightarrow> d81 \<Rightarrow> d81" where
  "write_bam_sector sector next_track next_sector disk_id d =
     fold (\<lambda>k. write_tso_str 40 sector (0x10 + k * 6) empty_track 6) [0 ..< 40]
       (write_tso_bytes 40 sector [(0x06, 0xC0), (0x07, 0x00)]
         (write_tso_str 40 sector 0x04 disk_id 2
           (write_tso_bytes 40 sector [(0x00, next_track), (0x01, next_sector), (0x02, 0x44), (0x03, 0xBB)] d)))"

definition write_header :: "bytes \<Rightarrow> bytes \<Rightarrow> d81 \<Rightarrow> d81" where
  "write_header disk_name disk_id d =
     write_bam_sector 2 0x00 0xff disk_id
       (write_bam_sector 1 40 2 disk_id
         (write_tso_bytes 40 0 [(0x18, 0xA0), (0x19, 0x33), (0x1A, 0x44), (0x1B, 0xA0), (0x1C, 0xA0)]
           (write_tso_str 40 0 0x16 disk_id 2
             (write_tso_bytes 40 0 [(0x14, 0xA0), (0x15, 0xA0)]
               (write_tso_str 40 0 0x04 disk_name 16
                 (write_tso_bytes 40 0 [(0x00, 40), (0x01, 3), (0x02, 0x44), (0x03, 0)] d))))))"

definition write_direntry :: "bytes \<Rightarrow> nat \<Rightarrow> nat \<Rightarrow> nat \<Rightarrow> d81 \<Rightarrow> d81" where
  "write_direntry prgname firsttrack firstsector sectorcnt d =
     write_tso_bytes 40 3 [(0x15, 0x00), (0x16, 0x00), (0x17, 0x00),
         (0x1E, word_of_nat sectorcnt AND 0xff), (0x1F, word_of_nat (sectorcnt div 256))]
       (write_tso_str 40 3 0x05 prgname 16
         (write_tso_bytes 40 3 [(0x00, 0x00), (0x01, 0xff), (0x02, 0x82),
            (0x03, word_of_nat firsttrack), (0x04, word_of_nat firstsector)] d))"

definition get_nice_prgname :: "bytes \<Rightarrow> bytes" where
  "get_nice_prgname src = map to_upper (takeWhile (\<lambda>c. c \<noteq> 0x2e) src)"

definition get_nice_d81name :: "bytes \<Rightarrow> bytes" where
  "get_nice_d81name src = get_nice_prgname src @ [0x2e, 0x44, 0x38, 0x31]"

section \<open>The block availability map\<close>

definition mark_sector_used :: "nat \<Rightarrow> nat \<Rightarrow> d81 \<Rightarrow> d81" where
  "mark_sector_used bamentry sector d =
     (let offs = sector div 8; bitloc = word_of_nat sector AND 0x0f in
      d(bamentry + 1 + offs := d (bamentry + 1 + offs) AND NOT bitloc))"

definition calc_sectors_free :: "nat \<Rightarrow> d81 \<Rightarrow> nat" where
  "calc_sectors_free bamentry d =
     length (filter (\<lambda>(k, z). bit (d (bamentry + k)) z) (List.product [1 ..< 6] [0 ..< 8]))"

definition bam_offset :: "nat \<Rightarrow> nat" where
  "bam_offset track = (if track \<le> 40 then calc_offset 40 1 0x10 + (track - 1) * 6
     else calc_offset 40 2 0x10 + (track - 41) * 6)"

definition update_bam :: "nat \<Rightarrow> nat \<Rightarrow> d81 \<Rightarrow> d81" where
  "update_bam track sector d =
     (let d1 = mark_sector_used (bam_offset track) sector d
      in d1(bam_offset track := word_of_nat (calc_sectors_free (bam_offset track) d1)))"

definition update_tsptr :: "nat \<Rightarrow> nat \<Rightarrow> nat \<Rightarrow> nat \<Rightarrow> d81 \<Rightarrow> d81" where
  "update_tsptr track sector t s d =
     write_tso_byte track sector 1 (word_of_nat s) (write_tso_byte track sector 0 (word_of_nat t) d)"

definition d81_write_sector :: "nat \<Rightarrow> nat \<Rightarrow> bytes \<Rightarrow> d81 \<Rightarrow> d81" where
  "d81_write_sector track sector chunk d =
     update_bam track sector (farray_blit (calc_offset track sector 0) chunk d)"

section \<open>Adding the program\<close>

text \<open>The loop of \<open>add_prg\<close> over what \<open>fread\<close> still gives.\<close>

function add_prg_loop :: "bytes \<Rightarrow> nat \<Rightarrow> nat \<Rightarrow> nat \<Rightarrow> nat \<Rightarrow> nat \<Rightarrow> d81 \<Rightarrow> (nat \<times> d81) option" where
  "add_prg_loop prg prevtrack prevsector curtrack cursector sectorcnt d =
     (if prg = [] then Some (sectorcnt, d)
      else if curtrack > 80 then None
      else
        let d1 = (if sectorcnt \<noteq> 0 then update_tsptr prevtrack prevsector curtrack cursector d else d);
            chunk = [0x00, 0xff] @ take 254 prg @ replicate (254 - length prg) 0;
            d2 = d81_write_sector curtrack cursector chunk d1
        in add_prg_loop (drop 254 prg) curtrack cursector
             (if cursector + 1 \<ge> 40 then curtrack + 1 else curtrack)
             (if cursector + 1 \<ge> 40 then 0 else cursector + 1) (sectorcnt + 1) d2)"
  by pat_completeness auto
termination
  by (relation "measure (\<lambda>(prg, _). length prg)") auto

declare add_prg_loop.simps [simp del]

definition add_prg :: "bytes \<Rightarrow> bytes \<Rightarrow> d81 \<Rightarrow> d81 option" where
  "add_prg fname prg d =
     (case add_prg_loop prg 0 0 1 0 0 d of
        None \<Rightarrow> None
      | Some (sectorcnt, d1) \<Rightarrow> Some (write_direntry (get_nice_prgname fname) 1 0 sectorcnt d1))"

text \<open>The name and contents of the image; \<open>Some None\<close> when the program cannot be opened.\<close>

definition create_d81_for_prg :: "(bytes \<Rightarrow> bytes option) \<Rightarrow> bytes \<Rightarrow> (bytes \<times> bytes) option option" where
  "create_d81_for_prg host prgfname =
     (case host prgfname of
        None \<Rightarrow> Some None
      | Some prg \<Rightarrow>
          (case add_prg prgfname prg
              (write_header [0x50, 0x52, 0x47, 0x20, 0x57, 0x52, 0x41, 0x50, 0x50, 0x45, 0x52] [0x47, 0x49] (\<lambda>_. 0)) of
             None \<Rightarrow> None
           | Some d \<Rightarrow> Some (Some (get_nice_d81name prgfname, map d [0 ..< d81_size]))))"

section \<open>Reading the image back\<close>

text \<open>How a drive reads a file: sector by sector along the links, at most \<open>k\<close> of them.\<close>

fun read_chain :: "nat \<Rightarrow> d81 \<Rightarrow> nat \<Rightarrow> nat \<Rightarrow> bytes" where
  "read_chain 0 d track sector = []"
| "read_chain (Suc k) d track sector =
     (let b = farray_get d (calc_offset track sector 0) 256
      in drop 2 b @ (if b ! 0 = 0 then [] else read_chain k d (unat (b ! 0)) (unat (b ! 1))))"

text \<open>A program fills whole sectors of 254 bytes.\<close>

definition prg_sectors :: "bytes \<Rightarrow> nat" where
  "prg_sectors prg = (length prg + 253) div 254"

definition pad_prg :: "bytes \<Rightarrow> bytes" where
  "pad_prg prg = prg @ replicate (254 * prg_sectors prg - length prg) 0"

lemma prg_sectors_step: "prg \<noteq> [] \<Longrightarrow> prg_sectors prg = Suc (prg_sectors (drop 254 prg))"
proof -
  assume "prg \<noteq> []"
  then have "0 < length prg" by simp
  moreover from this have "(length prg + 253) div 254 = 1" if "length prg \<le> 254"
    using that by (intro div_nat_eqI) (simp_all add: Suc_le_eq)
  ultimately show ?thesis by (cases "length prg \<le> 254") (simp_all add: prg_sectors_def le_div_geq)
qed

lemma pad_prg_step: "prg \<noteq> [] \<Longrightarrow>
    pad_prg prg = (take 254 prg @ replicate (254 - length prg) 0) @ pad_prg (drop 254 prg)"
proof (cases "length prg \<le> 254")
  case False
  assume "prg \<noteq> []"
  with False show ?thesis using append_take_drop_id [of 254 prg]
    by (simp add: pad_prg_def prg_sectors_step diff_diff_eq)
qed (simp add: pad_prg_def prg_sectors_step, simp add: prg_sectors_def)

text \<open>Everything below the header track is left alone by the BAM and the directory.\<close>

definition header_start :: nat where
  "header_start = 399360"

lemma tso_40: "calc_offset 40 s k = header_start + s * 256 + k"
  by (simp add: calc_offset_def header_start_def)

lemma bam_offset_ge: "1 \<le> track \<Longrightarrow> header_start \<le> bam_offset track"
  by (simp add: bam_offset_def calc_offset_def header_start_def)

lemma update_bam_below: "1 \<le> track \<Longrightarrow> a < header_start \<Longrightarrow> update_bam track sector d a = d a"
  using bam_offset_ge [of track] by (simp add: update_bam_def mark_sector_used_def Let_def)

lemma write_tso_bytes_below:
  "a < header_start + s * 256 \<Longrightarrow> write_tso_bytes 40 s vs d a = d a"
  unfolding write_tso_bytes_def
  by (induction vs arbitrary: d) (auto simp: write_tso_byte_def tso_40)

lemma write_tso_str_below:
  assumes "a < header_start + s * 256"
  shows "write_tso_str 40 s k str n d a = d a"
proof -
  have "fold (\<lambda>k'. write_tso_byte 40 s (k + k') (if k' < length str then str ! k' else 0xa0)) ks d a = d a" for ks
    using assms by (induction ks arbitrary: d) (simp_all add: write_tso_byte_def tso_40)
  then show ?thesis by (simp only: write_tso_str_def)
qed

lemma write_direntry_below: "a < header_start + 768 \<Longrightarrow> write_direntry name t s n d a = d a"
  by (simp add: write_direntry_def write_tso_bytes_below write_tso_str_below)

section \<open>The chain that \<open>add_prg\<close> lays\<close>

lemma farray_get_cong: "(\<And>a. off \<le> a \<Longrightarrow> a < off + n \<Longrightarrow> f a = g a) \<Longrightarrow> farray_get f off n = farray_get g off n"
  by (simp add: farray_get_def)

lemma next_place:
  assumes "cursector < 40" "1 \<le> curtrack"
  shows "calc_offset (if cursector + 1 \<ge> 40 then curtrack + 1 else curtrack) (if cursector + 1 \<ge> 40 then 0 else cursector + 1) 0
    = calc_offset curtrack cursector 0 + 256"
  using assms by (cases curtrack; cases "cursector = 39") (simp_all add: calc_offset_def)

lemma add_prg_loop_lays_chain:
  assumes "prg \<noteq> []" "1 \<le> curtrack" "cursector < 40"
    and "calc_offset curtrack cursector 0 + 256 * prg_sectors prg \<le> header_start"
    and "cnt \<noteq> 0 \<Longrightarrow> calc_offset prevtrack prevsector 0 + 256 = calc_offset curtrack cursector 0"
  shows "\<exists>d'. add_prg_loop prg prevtrack prevsector curtrack cursector cnt d = Some (cnt + prg_sectors prg, d')
    \<and> (\<forall>e. (\<forall>a < header_start. e a = d' a) \<longrightarrow> read_chain (prg_sectors prg) e curtrack cursector = pad_prg prg)
    \<and> (\<forall>a < calc_offset curtrack cursector 0. \<not> (cnt \<noteq> 0 \<and> calc_offset prevtrack prevsector 0 \<le> a \<and> a < calc_offset prevtrack prevsector 2) \<longrightarrow> d' a = d a)
    \<and> (cnt \<noteq> 0 \<longrightarrow> d' (calc_offset prevtrack prevsector 0) = word_of_nat curtrack \<and> d' (calc_offset prevtrack prevsector 1) = word_of_nat cursector)"
  using assms
proof (induction "length prg" arbitrary: prg prevtrack prevsector curtrack cursector cnt d rule: less_induct)
  case less
  let ?A = "calc_offset curtrack cursector 0" and ?rest = "drop 254 prg" and ?P = "calc_offset prevtrack prevsector"
  let ?chunk = "[0x00, 0xff] @ take 254 prg @ replicate (254 - length prg) 0"
  let ?ct = "if cursector + 1 \<ge> 40 then curtrack + 1 else curtrack" and ?cs = "if cursector + 1 \<ge> 40 then 0 else cursector + 1"
  let ?d1 = "if cnt \<noteq> 0 then update_tsptr prevtrack prevsector curtrack cursector d else d"
  let ?d2 = "d81_write_sector curtrack cursector ?chunk ?d1"
  have k: "prg_sectors prg = Suc (prg_sectors ?rest)" by (rule prg_sectors_step [OF less.prems(1)])
  have fit: "?A + 256 * prg_sectors ?rest + 256 \<le> header_start" using less.prems(4) by (simp add: k)
  then have ct: "curtrack \<le> 39" using less.prems(2) by (cases curtrack) (simp_all add: calc_offset_def header_start_def)
  have chunk: "length ?chunk = 256" "?chunk ! 0 = 0" "drop 2 ?chunk = take 254 prg @ replicate (254 - length prg) 0"
    by (simp_all add: min_def)
  have P: "?P 1 = ?P 0 + 1" "?P 2 = ?P 0 + 2" by (simp_all add: calc_offset_def)
  have d2: "?d2 a = (if ?A \<le> a \<and> a < ?A + 256 then ?chunk ! (a - ?A) else ?d1 a)" if "a < header_start" for a
    using update_bam_below [OF less.prems(2) that] chunk(1) by (simp add: d81_write_sector_def farray_blit_def)
  have d1: "?d1 a = d a" if "\<not> (cnt \<noteq> 0 \<and> ?P 0 \<le> a \<and> a < ?P 2)" for a
    using that P by (auto simp: update_tsptr_def write_tso_byte_def)
  have link: "?d1 (?P 0) = word_of_nat curtrack" "?d1 (?P 1) = word_of_nat cursector" if "cnt \<noteq> 0"
    using that P by (simp_all add: update_tsptr_def write_tso_byte_def)
  have loop: "add_prg_loop prg prevtrack prevsector curtrack cursector cnt d
      = add_prg_loop ?rest curtrack cursector ?ct ?cs (cnt + 1) ?d2"
    using less.prems(1) ct by (subst add_prg_loop.simps) (simp add: Let_def)
  have read: "read_chain (Suc n) e curtrack cursector = (take 254 prg @ replicate (254 - length prg) 0)
      @ (if e ?A = 0 then [] else read_chain n e (unat (e ?A)) (unat (e (?A + 1))))"
    if "\<And>a. ?A + 2 \<le> a \<Longrightarrow> a < ?A + 256 \<Longrightarrow> e a = ?d2 a" for e n
  proof -
    have "drop 2 (farray_get e ?A 256) = drop 2 ?chunk"
      using that d2 fit chunk(1) by (intro nth_equalityI) (simp_all add: farray_get_def)
    moreover have "farray_get e ?A 256 ! 0 = e ?A" "farray_get e ?A 256 ! 1 = e (?A + 1)" by (simp_all add: farray_get_def)
    ultimately show ?thesis by (simp only: read_chain.simps Let_def chunk(3))
  qed
  show ?case
  proof (cases "?rest = []")
    case True
    then have "prg_sectors ?rest = 0" by (simp add: prg_sectors_def)
    moreover have "read_chain (Suc 0) e curtrack cursector = pad_prg prg" if "\<forall>a < header_start. e a = ?d2 a" for e
      using read [of e 0] that fit d2 [of ?A] chunk pad_prg_step [OF less.prems(1)] True by (simp add: pad_prg_def prg_sectors_def)
    moreover have "?d2 a = d a" if "a < ?A" "\<not> (cnt \<noteq> 0 \<and> ?P 0 \<le> a \<and> a < ?P 2)" for a
      using d2 [of a] d1 [OF that(2)] that(1) fit by simp
    moreover have "?d2 (?P 0) = word_of_nat curtrack \<and> ?d2 (?P 1) = word_of_nat cursector" if "cnt \<noteq> 0"
      using d2 [of "?P 0"] d2 [of "?P 1"] link [OF that] less.prems(5) [OF that] fit P by simp
    ultimately show ?thesis unfolding loop k True by (intro exI [of _ ?d2]) (simp add: add_prg_loop.simps)
  next
    case False
    have place: "calc_offset ?ct ?cs 0 = ?A + 256" by (rule next_place [OF less.prems(3,2)])
    have "\<exists>d'. add_prg_loop ?rest curtrack cursector ?ct ?cs (cnt + 1) ?d2 = Some (cnt + 1 + prg_sectors ?rest, d')
      \<and> (\<forall>e. (\<forall>a < header_start. e a = d' a) \<longrightarrow> read_chain (prg_sectors ?rest) e ?ct ?cs = pad_prg ?rest)
      \<and> (\<forall>a < calc_offset ?ct ?cs 0. \<not> (cnt + 1 \<noteq> 0 \<and> calc_offset curtrack cursector 0 \<le> a \<and> a < calc_offset curtrack cursector 2) \<longrightarrow> d' a = ?d2 a)
      \<and> (cnt + 1 \<noteq> 0 \<longrightarrow> d' (calc_offset curtrack cursector 0) = word_of_nat ?ct \<and> d' (calc_offset curtrack cursector 1) = word_of_nat ?cs)"
    proof (rule less.hyps)
      show "length ?rest < length prg" using less.prems(1) by simp
      show "calc_offset ?ct ?cs 0 + 256 * prg_sectors ?rest \<le> header_start" using fit place by simp
    qed (use False less.prems(2,3) place in auto)
    moreover have "calc_offset curtrack cursector 2 = ?A + 2" "calc_offset curtrack cursector 1 = ?A + 1" by (simp_all add: calc_offset_def)
    ultimately obtain d' where r: "add_prg_loop ?rest curtrack cursector ?ct ?cs (cnt + 1) ?d2 = Some (cnt + 1 + prg_sectors ?rest, d')"
      "\<And>e. (\<forall>a < header_start. e a = d' a) \<Longrightarrow> read_chain (prg_sectors ?rest) e ?ct ?cs = pad_prg ?rest"
      "\<And>a. a < ?A + 256 \<Longrightarrow> \<not> (?A \<le> a \<and> a < ?A + 2) \<Longrightarrow> d' a = ?d2 a"
      "d' ?A = word_of_nat ?ct" "d' (?A + 1) = word_of_nat ?cs"
      unfolding place by auto
    have w: "unat (word_of_nat ?ct :: u8) = ?ct" "unat (word_of_nat ?cs :: u8) = ?cs" "(word_of_nat ?ct :: u8) \<noteq> 0"
      using ct less.prems(2,3) by (simp_all add: unat_of_nat word_unat_eq_iff del: of_nat_add)
    have "read_chain (Suc (prg_sectors ?rest)) e curtrack cursector = pad_prg prg" if e: "\<forall>a < header_start. e a = d' a" for e
    proof -
      have "e a = ?d2 a" if "?A + 2 \<le> a" "a < ?A + 256" for a using e r(3) [of a] that fit by simp
      moreover have "e ?A = word_of_nat ?ct" "e (?A + 1) = word_of_nat ?cs" using e r(4,5) fit by simp_all
      ultimately show ?thesis using read [of e "prg_sectors ?rest"] r(2) [OF e] w pad_prg_step [OF less.prems(1)] by (simp only: if_False)
    qed
    moreover have "d' a = d a" if "a < ?A" "\<not> (cnt \<noteq> 0 \<and> ?P 0 \<le> a \<and> a < ?P 2)" for a
      using r(3) [of a] d2 [of a] d1 [OF that(2)] that(1) fit by simp
    moreover have "d' (?P 0) = word_of_nat curtrack \<and> d' (?P 1) = word_of_nat cursector" if "cnt \<noteq> 0"
      using r(3) [of "?P 0"] r(3) [of "?P 1"] d2 [of "?P 0"] d2 [of "?P 1"] link [OF that] less.prems(5) [OF that] fit P by simp
    ultimately show ?thesis unfolding loop k r(1) by (intro exI [of _ d']) simp
  qed
qed

section \<open>Properties\<close>

text \<open>
  C28: a wrapped program can be loaded.  For every program that fits below the header track,
  \<open>add_prg\<close> succeeds, and a drive that follows the links from track 1, sector 0 reads the program,
  filled up with zeros to whole sectors.
\<close>
theorem add_prg_roundtrip:
  assumes "prg \<noteq> []" "prg_sectors prg \<le> 39 * 40"
  shows "\<exists>d'. add_prg fname prg d = Some d' \<and> read_chain (prg_sectors prg) d' 1 0 = pad_prg prg \<and> take (length prg) (pad_prg prg) = prg"
proof -
  have "calc_offset 1 0 0 + 256 * prg_sectors prg \<le> header_start" using assms(2) by (simp add: calc_offset_def header_start_def)
  then obtain d' where r: "add_prg_loop prg 0 0 1 0 0 d = Some (0 + prg_sectors prg, d')"
      "\<forall>e. (\<forall>a < header_start. e a = d' a) \<longrightarrow> read_chain (prg_sectors prg) e 1 0 = pad_prg prg"
    using add_prg_loop_lays_chain [OF assms(1), of 1 0 0 0 0 d] by auto
  then show ?thesis by (simp add: add_prg_def write_direntry_below pad_prg_def)
qed

theorem add_prg_roundtrip_witness:
  "\<exists>d'. add_prg [0x41] (replicate 300 7) (\<lambda>_. 0) = Some d' \<and> read_chain 2 d' 1 0 = replicate 300 7 @ replicate 208 0"
  using add_prg_roundtrip [of "replicate 300 7" "[0x41]" "\<lambda>_. 0"] by (simp add: prg_sectors_def pad_prg_def)

text \<open>
  The BAM does not protect the program.  After wrapping a program of one sector the
  entry of track 1 still says that all 40 sectors are free: \<open>mark_sector_used\<close> clears the bits of the
  number \<open>sector & 15\<close> instead of the bit with that number, for sector 0 none at all.
\<close>
lemma wrapped_sector_stays_free:
  assumes "prg \<noteq> []" "length prg \<le> 254" "farray_get d (bam_offset 1) 6 = empty_track"
  shows "\<exists>d'. add_prg fname prg d = Some d' \<and> farray_get d' (bam_offset 1) 6 = empty_track"
proof -
  let ?chunk = "[0x00, 0xff] @ take 254 prg @ replicate (254 - length prg) 0" and ?b = "bam_offset 1"
  let ?d1 = "farray_blit 0 ?chunk d"
  have b: "?b = header_start + 272" by (simp add: bam_offset_def calc_offset_def header_start_def)
  have bam: "?d1 (?b + k) = empty_track ! k" if "k < 6" for k
  proof -
    have "?d1 (?b + k) = d (?b + k)" using assms(2) b by (simp add: farray_blit_def header_start_def)
    also have "\<dots> = farray_get d ?b 6 ! k" using that by (simp add: farray_get_def)
    finally show ?thesis by (simp only: assms(3))
  qed
  have full: "?d1 (?b + k) = 0xff" if "1 \<le> k" "k < 6" for k
    using bam [OF that(2)] that by (auto simp: empty_track_def nth_Cons')
  have "mark_sector_used ?b 0 ?d1 = ?d1" by (simp add: mark_sector_used_def)
  moreover have "calc_sectors_free ?b ?d1 = 40"
  proof -
    have "(0xff :: u8) = - 1" by simp
    then have ff: "bit (0xff :: u8) z" if "z < 8" for z using that by (simp only: bit_minus_1_iff) simp
    have "filter (\<lambda>(k, z). bit (?d1 (?b + k)) z) (List.product [1 ..< 6] [0 ..< 8]) = List.product [1 ..< 6] [0 ..< 8]"
      using full ff by (intro filter_True) auto
    then show ?thesis by (simp only: calc_sectors_free_def) simp
  qed
  moreover have "?d1 ?b = 0x28" using bam [of 0] by (simp add: empty_track_def)
  ultimately have up: "update_bam 1 0 ?d1 = ?d1"
    unfolding update_bam_def Let_def by (simp only: of_nat_numeral fun_upd_idem)
  have "drop 254 prg = []" using assms(2) by simp
  then have "add_prg fname prg d = Some (write_direntry (get_nice_prgname fname) 1 0 1 ?d1)"
    using assms(1) up by (simp add: add_prg_def add_prg_loop.simps d81_write_sector_def calc_offset_def Let_def)
  moreover have "farray_get (write_direntry (get_nice_prgname fname) 1 0 1 ?d1) ?b 6 = empty_track"
    using bam b by (intro nth_equalityI) (simp_all add: farray_get_def write_direntry_below empty_track_def)
  ultimately show ?thesis by blast
qed

end
