(* ===== verification/Filehost.thy ===== *)
theory Filehost
  imports DirTree Scan "HOL-Library.Multiset"
begin

text \<open>
  The list of files on the file host (\<open>src/lib/libm65ftp/filehost.c\<close>): the character by character
  reader of the JSON rows, the list it fills, and the recognition of a response's header.  The static
  variables of the readers are records.  A string that overflows its array, and \<open>exit\<close>, are \<open>None\<close>;
  the connection is the list of the blocks that \<open>do_read\<close> gives before it gives nothing for good.
\<close>

section \<open>Entries\<close>

record file_info =
  fh_title :: bytes
  fh_os :: bytes
  fh_filename :: bytes
  fh_location :: bytes
  fh_author :: bytes
  fh_published :: bytes

definition no_info :: file_info where
  "no_info = \<lparr>fh_title = [], fh_os = [], fh_filename = [], fh_location = [], fh_author = [], fh_published = []\<rparr>"

text \<open>\<open>clean_copy\<close> leaves every backslash out.\<close>

definition clean_copy :: "bytes \<Rightarrow> bytes" where
  "clean_copy src = filter (\<lambda>c. c \<noteq> 0x5c) src"

text \<open>
  \<open>cleanup\<close> deletes a backslash in place and goes on behind the character that moved into its
  position.
\<close>

fun cleanup :: "bytes \<Rightarrow> bytes" where
  "cleanup [] = []"
| "cleanup (c # s) =
     (if c = 0x5c then (case s of [] \<Rightarrow> [] | d # r \<Rightarrow> d # cleanup r) else c # cleanup s)"

definition key_title :: bytes where "key_title = [0x74, 0x69, 0x74, 0x6c, 0x65]"
definition key_os :: bytes where "key_os = [0x6f, 0x73]"
definition key_filename :: bytes where "key_filename = [0x66, 0x69, 0x6c, 0x65, 0x6e, 0x61, 0x6d, 0x65]"
definition key_location :: bytes where "key_location = [0x6c, 0x6f, 0x63, 0x61, 0x74, 0x69, 0x6f, 0x6e]"
definition key_author :: bytes where "key_author = [0x61, 0x75, 0x74, 0x68, 0x6f, 0x72]"
definition key_published :: bytes where "key_published = [0x70, 0x75, 0x62, 0x6c, 0x69, 0x73, 0x68, 0x65, 0x64]"

lemmas keys = key_title_def key_os_def key_filename_def key_location_def key_author_def key_published_def

definition assess_key_val :: "bytes \<Rightarrow> bytes \<Rightarrow> file_info \<Rightarrow> file_info option" where
  "assess_key_val key val finfo =
     (if key = key_title then (if length val < 256 then Some (finfo\<lparr>fh_title := val\<rparr>) else None)
      else if key = key_os then (if length val < 256 then Some (finfo\<lparr>fh_os := val\<rparr>) else None)
      else if key = key_filename then (if length val < 256 then Some (finfo\<lparr>fh_filename := val\<rparr>) else None)
      else if key = key_location then
        (if length (clean_copy val) < 256 then Some (finfo\<lparr>fh_location := clean_copy val\<rparr>) else None)
      else if key = key_author then (if length val < 64 then Some (finfo\<lparr>fh_author := val\<rparr>) else None)
      else if key = key_published then
        (if length val < 64 then Some (finfo\<lparr>fh_published := cleanup val\<rparr>) else None)
      else Some finfo)"

section \<open>The list\<close>

text \<open>\<open>strcmp(a, b) <= 0\<close>\<close>

fun strcmp_le :: "bytes \<Rightarrow> bytes \<Rightarrow> bool" where
  "strcmp_le [] b = True"
| "strcmp_le (x # a) [] = False"
| "strcmp_le (x # a) (y # b) = (x < y \<or> x = y \<and> strcmp_le a b)"

fun add_to_list :: "bool \<Rightarrow> file_info \<Rightarrow> file_info list \<Rightarrow> file_info list" where
  "add_to_list sort_date_flag finfo [] = [finfo]"
| "add_to_list sort_date_flag finfo (itm # lst) =
     (if sort_date_flag \<and> strcmp_le (fh_published finfo) (fh_published itm) then finfo # itm # lst
      else itm # add_to_list sort_date_flag finfo lst)"

section \<open>The reader of the rows\<close>

record reader =
  squarebrackstart :: bool
  curlbrackstart :: bool
  quotestart :: bool
  finfo :: file_info
  iskey :: bool
  tmp :: bytes
  key :: bytes
  val :: bytes
  sort_date_flag :: bool
  lst_finfos :: "file_info list"

definition read_in_key_or_value_string :: "u8 \<Rightarrow> u8 \<Rightarrow> reader \<Rightarrow> reader option" where
  "read_in_key_or_value_string prevc c s =
     (if c \<noteq> 0x22 \<or> prevc = 0x5c then
        (if length (tmp s) < 4096 then Some (s\<lparr>tmp := tmp s @ [c]\<rparr>) else None)
      else if \<not> length (tmp s) < 4096 then None
      else
        let s1 = s\<lparr>quotestart := False, tmp := []\<rparr> in
        if iskey s then Some (s1\<lparr>key := cstr (tmp s), iskey := False\<rparr>)
        else do { f \<leftarrow> assess_key_val (key s) (cstr (tmp s)) (finfo s);
                  Some (s1\<lparr>val := cstr (tmp s), iskey := True, finfo := f\<rparr>) })"

fun is_prefix :: "bytes \<Rightarrow> bytes \<Rightarrow> bool" where
  "is_prefix [] s = True"
| "is_prefix (x # p) [] = False"
| "is_prefix (x # p) (y # s) = (x = y \<and> is_prefix p s)"

fun has_substring :: "bytes \<Rightarrow> bytes \<Rightarrow> bool" where  \<comment> \<open>\<open>strstr(s, p) != NULL\<close>\<close>
  "has_substring p [] = (p = [])"
| "has_substring p (x # s) = (is_prefix p (x # s) \<or> has_substring p s)"

definition mega65_name :: bytes where
  "mega65_name = [0x4d, 0x45, 0x47, 0x41, 0x36, 0x35]"

text \<open>
  One round of the loop of \<open>read_rows\<close>: \<open>before\<close> is \<open>str[k - 1]\<close>.  The result is whether the list is
  complete, and \<open>prevc\<close>.
\<close>

definition read_row_char :: "u8 \<Rightarrow> u8 \<Rightarrow> u8 \<Rightarrow> reader \<Rightarrow> (bool \<times> u8 \<times> reader) option" where
  "read_row_char before prevc c s =
     (if \<not> squarebrackstart s then Some (False, prevc, if c = 0x5b then s\<lparr>squarebrackstart := True\<rparr> else s)
      else if \<not> curlbrackstart s \<and> c = 0x2c then Some (False, prevc, s)
      else if \<not> curlbrackstart s \<and> c = 0x5d then Some (True, prevc, s\<lparr>squarebrackstart := False\<rparr>)
      else if \<not> curlbrackstart s then
        (if c = 0x7b then Some (False, prevc, s\<lparr>curlbrackstart := True, finfo := no_info\<rparr>) else None)
      else if \<not> quotestart s \<and> \<not> iskey s \<and> c = 0x3a then Some (False, prevc, s)
      else if \<not> quotestart s \<and> iskey s \<and> c = 0x2c then Some (False, prevc, s)
      else if \<not> quotestart s \<and> iskey s \<and> c = 0x7d then
        Some (False, prevc,
          (if fh_author (finfo s) \<noteq> [] \<and> has_substring mega65_name (fh_os (finfo s))
           then s\<lparr>lst_finfos := add_to_list (sort_date_flag s) (finfo s) (lst_finfos s), finfo := no_info,
                  curlbrackstart := False\<rparr>
           else s\<lparr>curlbrackstart := False\<rparr>))
      else if c = 0x22 \<and> before \<noteq> 0x5c \<and> \<not> quotestart s then Some (False, prevc, s\<lparr>quotestart := True\<rparr>)
      else do { s' \<leftarrow> read_in_key_or_value_string prevc c s; Some (False, c, s') })"

fun read_rows_from :: "u8 \<Rightarrow> u8 \<Rightarrow> bytes \<Rightarrow> reader \<Rightarrow> (bool \<times> reader) option" where
  "read_rows_from before prevc [] s = Some (True, s)"
| "read_rows_from before prevc (c # str) s =
     do { (complete, prevc', s') \<leftarrow> read_row_char before prevc c s;
          if complete then Some (False, s') else read_rows_from c prevc' str s' }"

text \<open>
  \<open>read_rows\<close>: whether to go on reading.  What lies before the buffer is not specified in C; the
  argument \<open>before\<close> stands for it.
\<close>

definition read_rows :: "u8 \<Rightarrow> bytes \<Rightarrow> reader \<Rightarrow> (bool \<times> reader) option" where
  "read_rows before str s = read_rows_from before 0 str s"

text \<open>
  The reading loop of \<open>read_filehost_struct\<close>.  Its variable \<open>total\<close> stays 0, so the loop goes on
  even when the connection has ended.
\<close>

partial_function (option) read_blocks :: "u8 \<Rightarrow> bytes list \<Rightarrow> reader \<Rightarrow> reader option" where
  "read_blocks before blocks s =
     do { (more, s') \<leftarrow> read_rows before (case blocks of [] \<Rightarrow> [] | b # _ \<Rightarrow> b) s;
          if more then read_blocks before (tl blocks) s' else Some s' }"

declare read_blocks.simps [code]

text \<open>\<open>clear_list\<close>, the search term \<open>-t\<close>, and then the reading.\<close>

definition read_filehost_struct :: "u8 \<Rightarrow> bytes list \<Rightarrow> bytes option \<Rightarrow> reader \<Rightarrow> (bytes option \<times> reader) option" where
  "read_filehost_struct before blocks searchterm s =
     (let by_date = (searchterm = Some [0x2d, 0x74]) in
      do { s' \<leftarrow> read_blocks before blocks (s\<lparr>sort_date_flag := by_date, lst_finfos := []\<rparr>);
           Some (if by_date then Some [] else searchterm, s') })"

text \<open>The entries that \<open>print_items\<close> prints, with their numbers.\<close>

fun print_items_from :: "bytes option \<Rightarrow> nat \<Rightarrow> file_info list \<Rightarrow> (nat \<times> file_info) list option" where
  "print_items_from searchterm cnt [] = Some []"
| "print_items_from searchterm cnt (itm # lst) =
     do {
       shown \<leftarrow> (case searchterm of None \<Rightarrow> Some True
         | Some t \<Rightarrow> if t = [] then Some True
             else do { a \<leftarrow> is_match (fh_title itm) t False;
                       b \<leftarrow> (if a then Some True else is_match (fh_filename itm) t False);
                       if b then Some True else is_match (fh_author itm) t False });
       rest \<leftarrow> print_items_from searchterm (cnt + 1) lst;
       Some (if shown then (cnt, itm) # rest else rest)
     }"

definition print_items :: "bytes option \<Rightarrow> reader \<Rightarrow> (nat \<times> file_info) list option" where
  "print_items searchterm s = print_items_from searchterm 1 (lst_finfos s)"

section \<open>Responses\<close>

record header_scan =
  hdr_start_idx :: nat
  hdr_match :: bool
  hdr_idx :: nat
  hdr_value :: bytes

definition header_end :: bytes where
  "header_end = [0x0d, 0x0a, 0x0d, 0x0a]"

text \<open>\<open>check_file_start\<close>: a mismatch starts over behind the character that did not fit.\<close>

definition check_file_start :: "u8 \<Rightarrow> header_scan \<Rightarrow> bool \<times> header_scan" where
  "check_file_start c h =
     (if c = header_end ! hdr_start_idx h then
        (if hdr_start_idx h + 1 = 4 then (True, h\<lparr>hdr_start_idx := 0\<rparr>)
         else (False, h\<lparr>hdr_start_idx := hdr_start_idx h + 1\<rparr>))
      else (False, h\<lparr>hdr_start_idx := 0\<rparr>))"

definition content_length_term :: bytes where
  "content_length_term = [0x43, 0x6f, 0x6e, 0x74, 0x65, 0x6e, 0x74, 0x2d, 0x4c, 0x65, 0x6e, 0x67, 0x74, 0x68, 0x3a, 0x20]"

definition check_content_length :: "u8 \<Rightarrow> int \<times> header_scan \<Rightarrow> (int \<times> header_scan) option" where
  "check_content_length c x =
     (case x of (content_length, h) \<Rightarrow>
        if \<not> hdr_match h then
          Some (content_length,
            if c = content_length_term ! hdr_idx h then
              (if hdr_idx h + 1 = 16 then h\<lparr>hdr_match := True, hdr_idx := 0\<rparr> else h\<lparr>hdr_idx := hdr_idx h + 1\<rparr>)
            else h\<lparr>hdr_idx := 0\<rparr>)
        else if \<not> length (hdr_value h) < 128 then None
        else if c = 0x0d \<or> c = 0x0a then Some (atoi (hdr_value h), h\<lparr>hdr_match := False, hdr_idx := 0, hdr_value := []\<rparr>)
        else Some (content_length, h\<lparr>hdr_value := hdr_value h @ [c]\<rparr>))"

text \<open>
  The loop of \<open>download_file_from_filehost\<close> over what the connection gives: the bytes of the file.
  \<open>started\<close> is \<open>file_started\<close>, \<open>out\<close> what has been written; a connection that ends early is waited
  for without end.
\<close>

fun download_body :: "bytes \<Rightarrow> int \<Rightarrow> bool \<Rightarrow> bytes \<Rightarrow> header_scan \<Rightarrow> (bytes \<times> header_scan) option" where
  "download_body [] content_length started out h = None"
| "download_body (c # s) content_length started out h =
     do {
       (n, h1) \<leftarrow> (if content_length = 0 then check_content_length c (0, h) else Some (content_length, h));
       if n = 0 then download_body s 0 started out h1
       else if \<not> started then
         (case check_file_start c h1 of (go, h2) \<Rightarrow> download_body s n go out h2)
       else if int (length (out @ [c])) = n then Some (out @ [c], h1)
       else download_body s n True (out @ [c]) h1
     }"

definition strupper :: "bytes \<Rightarrow> bytes" where
  "strupper s = map to_upper s"

text \<open>The entry with a number; \<open>Some None\<close> for an index that is not in the list.\<close>

definition download_file_from_filehost ::
  "nat \<Rightarrow> bytes \<Rightarrow> header_scan \<Rightarrow> reader \<Rightarrow> ((bytes \<times> bytes) option \<times> header_scan) option" where
  "download_file_from_filehost fileidx response h s =
     (if fileidx = length (lst_finfos s) + 1 then None
      else if fileidx = 0 \<or> fileidx > length (lst_finfos s) then Some (None, h)
      else do { (body, h') \<leftarrow> download_body response 0 False [] h;
                Some (Some (strupper (fh_filename (lst_finfos s ! (fileidx - 1))), body), h') })"

section \<open>The list in order of date\<close>

lemma strcmp_le_refl [simp]: "strcmp_le a a"
  by (induction a) simp_all

lemma strcmp_le_trans: "strcmp_le a b \<Longrightarrow> strcmp_le b c \<Longrightarrow> strcmp_le a c"
proof (induction a b arbitrary: c rule: strcmp_le.induct)
  case (3 x a y b)
  then show ?case by (cases c) auto
qed simp_all

lemma strcmp_le_total: "strcmp_le a b \<or> strcmp_le b a"
  by (induction a b rule: strcmp_le.induct) auto

definition by_date :: "file_info list \<Rightarrow> bool" where
  "by_date lst \<longleftrightarrow> sorted_wrt (\<lambda>f g. strcmp_le (fh_published f) (fh_published g)) lst"

lemma mset_add_to_list [simp]: "mset (add_to_list b f lst) = add_mset f (mset lst)"
  by (induction lst) simp_all

lemma set_add_to_list [simp]: "set (add_to_list b f lst) = insert f (set lst)"
  by (induction lst) (auto split: if_splits)

lemma add_to_list_by_date: "by_date lst \<Longrightarrow> by_date (add_to_list True f lst)"
  unfolding by_date_def
proof (induction lst)
  case (Cons g lst)
  then show ?case using strcmp_le_total [of "fh_published f" "fh_published g"] strcmp_le_trans by auto
qed simp

lemma add_to_list_appends: "add_to_list False f lst = lst @ [f]"
  by (induction lst) simp_all

text \<open>What every step of the reader keeps.\<close>

definition reader_sorted :: "reader \<Rightarrow> bool" where
  "reader_sorted s \<longleftrightarrow> (sort_date_flag s \<longrightarrow> by_date (lst_finfos s))"

lemma read_in_keeps:
  "read_in_key_or_value_string p c s = Some s' \<Longrightarrow> sort_date_flag s' = sort_date_flag s \<and> lst_finfos s' = lst_finfos s"
  by (auto simp: read_in_key_or_value_string_def Let_def bind_eq_Some_conv split: if_splits)

lemma read_row_char_sorted:
  "read_row_char b p c s = Some (r, p', s') \<Longrightarrow> reader_sorted s \<Longrightarrow>
     reader_sorted s' \<and> sort_date_flag s' = sort_date_flag s"
  by (auto simp: read_row_char_def reader_sorted_def bind_eq_Some_conv dest!: read_in_keeps
      intro: add_to_list_by_date split: if_splits)

lemma read_rows_from_sorted:
  "read_rows_from b p str s = Some (r, s') \<Longrightarrow> reader_sorted s \<Longrightarrow> reader_sorted s' \<and> sort_date_flag s' = sort_date_flag s"
proof (induction str arbitrary: b p s)
  case (Cons c str)
  then obtain x p1 s1 where "read_row_char b p c s = Some (x, p1, s1)"
      "(if x then Some (False, s1) else read_rows_from c p1 str s1) = Some (r, s')"
    by (auto simp: bind_eq_Some_conv)
  then show ?case using Cons.IH [of c p1 s1] Cons.prems read_row_char_sorted by (auto split: if_splits)
qed simp

lemma read_blocks_sorted:
  assumes "read_blocks b blocks s = Some s'"
  shows "reader_sorted s \<Longrightarrow> reader_sorted s' \<and> sort_date_flag s' = sort_date_flag s"
  using assms
proof (induction b blocks s s' rule: read_blocks.raw_induct [rotated, consumes 1])
  case (1 rb b blocks s s')
  then obtain more s1 where "read_rows b (case blocks of [] \<Rightarrow> [] | x # _ \<Rightarrow> x) s = Some (more, s1)"
      "(if more then rb b (tl blocks) s1 else Some s1) = Some s'"
    by (auto simp: bind_eq_Some_conv)
  then show ?case using 1(1,3) read_rows_from_sorted [of b 0 _ s more s1] by (auto simp: read_rows_def split: if_splits)
qed

section \<open>Well-formed rows\<close>

text \<open>Strings that need no escapes, and the rows as the file host sends them.\<close>

definition plain :: "bytes \<Rightarrow> bool" where
  "plain s \<longleftrightarrow> (\<forall>c \<in> set s. c \<noteq> 0x22 \<and> c \<noteq> 0x5c \<and> c \<noteq> 0) \<and> length s < 4096"

definition quoted :: "bytes \<Rightarrow> bytes" where
  "quoted s = 0x22 # s @ [0x22]"

fun render_pairs :: "(bytes \<times> bytes) list \<Rightarrow> bytes" where
  "render_pairs [] = []"
| "render_pairs ((k, v) # kvs) = quoted k @ [0x3a] @ quoted v @ (if kvs = [] then [] else 0x2c # render_pairs kvs)"

definition info_pairs :: "file_info \<Rightarrow> (bytes \<times> bytes) list" where
  "info_pairs f = [(key_title, fh_title f), (key_os, fh_os f), (key_filename, fh_filename f),
     (key_location, fh_location f), (key_author, fh_author f), (key_published, fh_published f)]"

definition render_info :: "file_info \<Rightarrow> bytes" where
  "render_info f = 0x7b # render_pairs (info_pairs f) @ [0x7d]"

fun render_infos :: "file_info list \<Rightarrow> bytes" where
  "render_infos [] = []"
| "render_infos (f # fs) = render_info f @ (if fs = [] then [] else 0x2c # render_infos fs)"

definition info_ok :: "file_info \<Rightarrow> bool" where
  "info_ok f \<longleftrightarrow> plain (fh_title f) \<and> length (fh_title f) < 256 \<and> plain (fh_os f) \<and> length (fh_os f) < 256
     \<and> plain (fh_filename f) \<and> length (fh_filename f) < 256 \<and> plain (fh_location f) \<and> length (fh_location f) < 256
     \<and> plain (fh_author f) \<and> length (fh_author f) < 64 \<and> plain (fh_published f) \<and> length (fh_published f) < 64"

definition listed :: "file_info \<Rightarrow> bool" where
  "listed f \<longleftrightarrow> fh_author f \<noteq> [] \<and> has_substring mega65_name (fh_os f)"

text \<open>The reader inside an object, between two strings.\<close>

definition in_object :: "reader \<Rightarrow> bool" where
  "in_object s \<longleftrightarrow> squarebrackstart s \<and> curlbrackstart s \<and> \<not> quotestart s \<and> tmp s = []"

lemma read_plain_chars:
  assumes "\<forall>c \<in> set str. c \<noteq> 0x22" "squarebrackstart s" "curlbrackstart s" "quotestart s" "length (tmp s) + length str < 4096"
  shows "read_rows_from b p (str @ rest) s
    = read_rows_from (if str = [] then b else last str) (if str = [] then p else last str) rest (s\<lparr>tmp := tmp s @ str\<rparr>)"
  using assms
proof (induction str arbitrary: b p s)
  case (Cons c str)
  then have "read_row_char b p c s = Some (False, c, s\<lparr>tmp := tmp s @ [c]\<rparr>)"
    by (simp add: read_row_char_def read_in_key_or_value_string_def)
  then show ?case using Cons.IH [of "s\<lparr>tmp := tmp s @ [c]\<rparr>" c c] Cons.prems by simp
qed simp

lemma cstr_plain: "plain s \<Longrightarrow> cstr s = s"
  by (simp add: cstr_def plain_def)

text \<open>A key, then a value.\<close>

lemma read_quoted:
  assumes "in_object s" "plain str" "b \<noteq> 0x5c" "p \<noteq> 0x5c"
  shows "read_rows_from b p (quoted str @ rest) s
    = do { s' \<leftarrow> (if iskey s then Some (s\<lparr>key := str, iskey := False\<rparr>)
                 else do { f \<leftarrow> assess_key_val (key s) str (finfo s); Some (s\<lparr>val := str, iskey := True, finfo := f\<rparr>) });
           read_rows_from 0x22 0x22 rest s' }"
proof -
  note o = assms(1) [unfolded in_object_def]
  have str: "\<forall>c \<in> set str. c \<noteq> 0x22" "length str < 4096" "\<forall>c \<in> set str. c \<noteq> 0x5c" using assms(2) by (simp_all add: plain_def)
  have one: "read_row_char b p 0x22 s = Some (False, p, s\<lparr>quotestart := True\<rparr>)"
    using o assms(3) by (auto simp: read_row_char_def)
  have two: "read_rows_from 0x22 p (str @ 0x22 # rest) (s\<lparr>quotestart := True\<rparr>)
      = read_rows_from (if str = [] then 0x22 else last str) (if str = [] then p else last str) (0x22 # rest) (s\<lparr>quotestart := True, tmp := str\<rparr>)"
    using read_plain_chars [of str "s\<lparr>quotestart := True\<rparr>" "0x22" p "0x22 # rest"] str o by simp
  have "(if str = [] then p else last str) \<noteq> 0x5c" using str(3) assms(4) by simp
  then have three: "read_row_char b' (if str = [] then p else last str) 0x22 (s\<lparr>quotestart := True, tmp := str\<rparr>)
      = do { s' \<leftarrow> (if iskey s then Some (s\<lparr>key := str, iskey := False\<rparr>)
                 else do { f \<leftarrow> assess_key_val (key s) str (finfo s); Some (s\<lparr>val := str, iskey := True, finfo := f\<rparr>) });
             Some (False, 0x22, s') }" for b'
    using o str(2) cstr_plain [OF assms(2)]
    by (cases s) (simp add: read_row_char_def read_in_key_or_value_string_def Let_def)
  show ?thesis
    unfolding quoted_def using one two three
    by (simp add: bind_assoc del: read_rows_from.simps) (simp add: bind_assoc)
qed

fun assess_pairs :: "(bytes \<times> bytes) list \<Rightarrow> file_info \<Rightarrow> file_info option" where
  "assess_pairs [] f = Some f"
| "assess_pairs ((k, v) # kvs) f = do { f' \<leftarrow> assess_key_val k v f; assess_pairs kvs f' }"

lemma assess_info: "info_ok f \<Longrightarrow> assess_pairs (info_pairs f) no_info = Some f"
proof -
  assume ok: "info_ok f"
  have clean: "clean_copy s = s" "cleanup s = s" if "plain s" for s
  proof -
    show "clean_copy s = s" using that by (auto simp: clean_copy_def plain_def intro: filter_True)
    have "\<forall>c \<in> set s. c \<noteq> 0x5c" using that by (simp add: plain_def)
    then show "cleanup s = s" by (induction s) simp_all
  qed
  show ?thesis
    using ok clean by (cases f) (simp add: info_ok_def info_pairs_def assess_key_val_def no_info_def keys)
qed

lemma read_pairs:
  assumes "in_object s" "iskey s" "kvs \<noteq> []" "\<forall>(k, v) \<in> set kvs. plain k \<and> plain v" "b \<noteq> 0x5c" "p \<noteq> 0x5c"
    and "assess_pairs kvs (finfo s) = Some f"
  shows "\<exists>k v. read_rows_from b p (render_pairs kvs @ rest) s = read_rows_from 0x22 0x22 rest (s\<lparr>key := k, val := v, finfo := f\<rparr>)"
  using assms
proof (induction kvs arbitrary: b p s)
  case (Cons kv kvs)
  obtain k v where kv: "kv = (k, v)" by fastforce
  obtain f1 where f1: "assess_key_val k v (finfo s) = Some f1" "assess_pairs kvs f1 = Some f"
    using Cons.prems(7) by (auto simp: kv bind_eq_Some_conv)
  have plain: "plain k" "plain v" using Cons.prems(4) by (simp_all add: kv)
  let ?s1 = "s\<lparr>key := k, iskey := False\<rparr>" and ?s2 = "s\<lparr>key := k, val := v, finfo := f1\<rparr>"
  let ?tail = "(if kvs = [] then [] else 0x2c # render_pairs kvs) @ rest"
  have o: "in_object ?s1" "in_object ?s2" "iskey ?s2" using Cons.prems(1,2) by (simp_all add: in_object_def)
  have "read_rows_from b p (render_pairs (kv # kvs) @ rest) s = read_rows_from 0x22 0x22 (0x3a # quoted v @ ?tail) ?s1"
    using read_quoted [OF Cons.prems(1) plain(1) Cons.prems(5,6), of "0x3a # quoted v @ ?tail"] Cons.prems(2) by (simp add: kv)
  also have "\<dots> = read_rows_from 0x3a 0x22 (quoted v @ ?tail) ?s1"
    using o(1) by (simp add: read_row_char_def in_object_def)
  also have "\<dots> = read_rows_from 0x22 0x22 ?tail (?s1\<lparr>val := v, iskey := True, finfo := f1\<rparr>)"
    using read_quoted [OF o(1) plain(2), of "0x3a" "0x22" ?tail] f1(1) by simp
  also have "?s1\<lparr>val := v, iskey := True, finfo := f1\<rparr> = ?s2" using Cons.prems(2) by (cases s) simp
  finally have step: "read_rows_from b p (render_pairs (kv # kvs) @ rest) s = read_rows_from 0x22 0x22 ?tail ?s2" .
  show ?case
  proof (cases "kvs = []")
    case True
    then show ?thesis using step f1(2) by (intro exI [of _ k] exI [of _ v]) simp
  next
    case False
    have "read_rows_from 0x22 0x22 ?tail ?s2 = read_rows_from 0x2c 0x22 (render_pairs kvs @ rest) ?s2"
      using False o(2,3) by (simp add: read_row_char_def in_object_def)
    moreover obtain k' v' where "read_rows_from 0x2c 0x22 (render_pairs kvs @ rest) ?s2
        = read_rows_from 0x22 0x22 rest (?s2\<lparr>key := k', val := v', finfo := f\<rparr>)"
      using Cons.IH [OF o(2,3) False, of "0x2c" "0x22"] Cons.prems(4) f1(2) by auto
    ultimately show ?thesis using step by (intro exI [of _ k'] exI [of _ v']) simp
  qed
qed simp

text \<open>Between two objects.\<close>

definition ready :: "reader \<Rightarrow> bool" where
  "ready s \<longleftrightarrow> squarebrackstart s \<and> \<not> curlbrackstart s \<and> \<not> quotestart s \<and> tmp s = [] \<and> iskey s"

definition list_infos :: "bool \<Rightarrow> file_info list \<Rightarrow> file_info list \<Rightarrow> file_info list" where
  "list_infos flag fs lst = fold (add_to_list flag) (filter listed fs) lst"

lemma list_infos_appends: "list_infos False fs lst = lst @ filter listed fs"
  by (induction fs arbitrary: lst) (simp_all add: list_infos_def add_to_list_appends)

lemma read_info:
  assumes "ready s" "info_ok f" "p \<noteq> 0x5c"
  shows "\<exists>s'. read_rows_from b p (render_info f @ rest) s = read_rows_from 0x7d 0x22 rest s' \<and> ready s'
    \<and> sort_date_flag s' = sort_date_flag s \<and> lst_finfos s' = list_infos (sort_date_flag s) [f] (lst_finfos s)"
proof -
  let ?s1 = "s\<lparr>curlbrackstart := True, finfo := no_info\<rparr>"
  have kp: "\<forall>(k, v) \<in> set (info_pairs f). plain k \<and> plain v" using assms(2) by (auto simp: info_ok_def info_pairs_def plain_def keys)
  have o: "in_object ?s1" "iskey ?s1" using assms(1) by (simp_all add: ready_def in_object_def)
  have "read_rows_from b p (render_info f @ rest) s = read_rows_from 0x7b p (render_pairs (info_pairs f) @ 0x7d # rest) ?s1"
    using assms(1) by (simp add: render_info_def read_row_char_def ready_def)
  moreover obtain k v where "read_rows_from 0x7b p (render_pairs (info_pairs f) @ 0x7d # rest) ?s1
      = read_rows_from 0x22 0x22 (0x7d # rest) (?s1\<lparr>key := k, val := v, finfo := f\<rparr>)"
    using read_pairs [OF o _ kp, of "0x7b" p f "0x7d # rest"] assess_info [OF assms(2)] assms(3) by (auto simp: info_pairs_def)
  ultimately have e: "read_rows_from b p (render_info f @ rest) s
      = read_rows_from 0x22 0x22 (0x7d # rest) (?s1\<lparr>key := k, val := v, finfo := f\<rparr>)" by simp
  let ?s2 = "?s1\<lparr>key := k, val := v, finfo := f\<rparr>"
  let ?s3 = "if listed f then ?s2\<lparr>lst_finfos := add_to_list (sort_date_flag s) f (lst_finfos s), finfo := no_info, curlbrackstart := False\<rparr>
    else ?s2\<lparr>curlbrackstart := False\<rparr>"
  have "read_rows_from 0x22 0x22 (0x7d # rest) ?s2 = read_rows_from 0x7d 0x22 rest ?s3"
    using assms(1) by (simp add: read_row_char_def ready_def listed_def)
  then show ?thesis unfolding e using assms(1) by (intro exI [of _ ?s3]) (simp add: ready_def list_infos_def)
qed

lemma read_infos:
  assumes "ready s" "\<forall>f \<in> set fs. info_ok f" "p \<noteq> 0x5c"
  shows "\<exists>b' p' s'. read_rows_from b p (render_infos fs @ rest) s = read_rows_from b' p' rest s' \<and> ready s'
    \<and> sort_date_flag s' = sort_date_flag s \<and> lst_finfos s' = list_infos (sort_date_flag s) fs (lst_finfos s)"
  using assms
proof (induction fs arbitrary: b p s)
  case Nil
  then show ?case by (intro exI [of _ b] exI [of _ p] exI [of _ s]) (simp add: list_infos_def)
next
  case (Cons f fs)
  let ?tail = "(if fs = [] then [] else 0x2c # render_infos fs) @ rest"
  obtain s1 where s1: "read_rows_from b p (render_info f @ ?tail) s = read_rows_from 0x7d 0x22 ?tail s1" "ready s1"
      "sort_date_flag s1 = sort_date_flag s" "lst_finfos s1 = list_infos (sort_date_flag s) [f] (lst_finfos s)"
    using read_info [OF Cons.prems(1) _ Cons.prems(3), of f b ?tail] Cons.prems(2) by auto
  have both: "list_infos g (f # fs) l = list_infos g fs (list_infos g [f] l)" for g l by (simp add: list_infos_def)
  show ?case
  proof (cases "fs = []")
    case True
    then show ?thesis using s1 by (intro exI [of _ "0x7d"] exI [of _ "0x22"] exI [of _ s1]) simp
  next
    case False
    have "read_rows_from 0x7d 0x22 ?tail s1 = read_rows_from 0x2c 0x22 (render_infos fs @ rest) s1"
      using False s1(2) by (simp add: read_row_char_def ready_def)
    moreover obtain b' p' s' where "read_rows_from 0x2c 0x22 (render_infos fs @ rest) s1 = read_rows_from b' p' rest s'" "ready s'"
        "sort_date_flag s' = sort_date_flag s1" "lst_finfos s' = list_infos (sort_date_flag s1) fs (lst_finfos s1)"
      using Cons.IH [OF s1(2), of "0x22" "0x2c"] Cons.prems(2) by auto
    ultimately show ?thesis using s1 both [of "sort_date_flag s" "lst_finfos s"]
      by (intro exI [of _ b'] exI [of _ p'] exI [of _ s']) simp
  qed
qed

section \<open>Properties\<close>

text \<open>The reader before the list: nothing is open.\<close>

definition idle :: "reader \<Rightarrow> bool" where
  "idle s \<longleftrightarrow> \<not> squarebrackstart s \<and> \<not> curlbrackstart s \<and> \<not> quotestart s \<and> tmp s = [] \<and> iskey s"

lemma read_preamble:
  assumes "idle s" "0x5b \<notin> set hdr"
  shows "\<exists>b'. read_rows_from b p (hdr @ 0x5b # rest) s = read_rows_from b' p rest (s\<lparr>squarebrackstart := True\<rparr>)"
  using assms by (induction hdr arbitrary: b) (auto simp: idle_def read_row_char_def)


definition reader_start :: reader where
  "reader_start = \<lparr>squarebrackstart = False, curlbrackstart = False, quotestart = False, finfo = no_info, iskey = True,
     tmp = [], key = [], val = [], sort_date_flag = False, lst_finfos = []\<rparr>"

definition sample_info :: "bytes \<Rightarrow> file_info" where
  "sample_info date = no_info\<lparr>fh_author := [0x6d], fh_os := mega65_name, fh_published := date\<rparr>"


text \<open>
  A listing by date is in order.  Whatever the server sends and however it is cut into
  blocks, when \<open>read_filehost_struct\<close> is called with \<open>-t\<close> and returns, the list is sorted by the date
  of publication, and the search term is empty.
\<close>
lemma filehost_list_by_date:
  assumes "read_filehost_struct before blocks (Some [0x2d, 0x74]) s = Some (t, s')"
  shows "by_date (lst_finfos s') \<and> t = Some []"
proof -
  let ?s = "s\<lparr>sort_date_flag := True, lst_finfos := []\<rparr>"
  have r: "read_blocks before blocks ?s = Some s'" "t = Some []"
    using assms by (auto simp: read_filehost_struct_def Let_def bind_eq_Some_conv)
  have "reader_sorted ?s" by (simp add: reader_sorted_def by_date_def)
  from read_blocks_sorted [OF r(1) this] r(2) show ?thesis by (simp add: reader_sorted_def)
qed

text \<open>
  The list depends on how the network cuts it.  Inside a string, an escaped quote is part of
  the string when it arrives in one block, but ends the string when the block ends between the
  backslash and the quote, because \<open>prevc\<close> starts at 0 in every call of \<open>read_rows\<close>.
\<close>
lemma escaped_quote_split:
  assumes "squarebrackstart s" "curlbrackstart s" "quotestart s" "iskey s" "length (tmp s) < 4000"
  shows "\<exists>s1 s2 s3. read_rows before [0x5c, 0x22] s = Some (True, s1) \<and> quotestart s1 \<and> tmp s1 = tmp s @ [0x5c, 0x22]
    \<and> read_rows before [0x5c] s = Some (True, s2) \<and> read_rows before2 [0x22] s2 = Some (True, s3)
    \<and> \<not> quotestart s3 \<and> key s3 = cstr (tmp s @ [0x5c])"
  using assms by (simp add: read_rows_def read_row_char_def read_in_key_or_value_string_def Let_def)

text \<open>A connection that ends before the closing bracket is read for ever.\<close>

lemma read_blocks_after_end:
  assumes "read_blocks b [] s = Some y"
  shows False
proof -
  have "blocks = [] \<Longrightarrow> False" if "read_blocks b blocks s = Some y" for b blocks s y
    using that
  proof (induction b blocks s y rule: read_blocks.raw_induct [rotated, consumes 1])
    case (1 rb b blocks s y)
    then show ?case by (auto simp: read_rows_def)
  qed
  with assms show False by blast
qed

lemma unfinished_list_never_returns:
  assumes "read_rows before str s = Some (True, s')"
  shows "read_blocks before [str] s = None"
proof (cases "read_blocks before [] s'")
  case None
  then show ?thesis using assms by (subst read_blocks.simps) simp
qed (use read_blocks_after_end in blast)

end
