(* ===== verification/Client.thy ===== *)
theory Client
  imports SectorTools CommandLine Flash Diskman Filehost
begin

text \<open>
  The commands of the client that put its parts together (\<open>src/lib/libm65ftp/mega65_ftp.c\<close>): listings,
  the ROM versions, mounting a disk image on the MEGA65, wrapped uploads, files from the file host,
  and the calls of \<open>execute_command\<close> on the state.  Printed output is a value.
\<close>

section \<open>Listings\<close>

text \<open>The items that \<open>show_directory\<close> prints, and its two counts.\<close>

fun shown_items :: "bytes option \<Rightarrow> m65dirent list \<Rightarrow> m65dirent list option" where
  "shown_items searchterm [] = Some []"
| "shown_items searchterm (itm # lst) =
     do {
       sel \<leftarrow> selected searchterm itm;
       rest \<leftarrow> shown_items searchterm lst;
       Some (if sel \<and> (is_dir_entry itm \<or> d_name itm ! 0 \<noteq> 0 \<and> d_filelen itm \<ge> 0) then itm # rest else rest)
     }"

definition show_directory ::
  "'s sector_io \<Rightarrow> vol \<Rightarrow> bytes option \<Rightarrow> 's dir_state \<Rightarrow> ((int \<times> m65dirent list \<times> nat \<times> nat) \<times> 's dir_state) option" where
  "show_directory io v path d =
     do {
       (res, d1) \<leftarrow> read_remote_dirents io v (case path of None \<Rightarrow> current_dir d | Some p \<Rightarrow> if p = [] then current_dir d else p) d;
       case res of
         None \<Rightarrow> Some ((- 1, [], 0, 0), d1)
       | Some (lst, searchterm) \<Rightarrow>
           do { items \<leftarrow> shown_items searchterm lst;
                Some ((0, items, length (filter is_dir_entry items), length (filter (\<lambda>i. \<not> is_dir_entry i) items)), d1) }
     }"

text \<open>
  The local directory: names with what \<open>stat\<close> says, whether it is a directory and its size, or
  nothing.  Directories come first.
\<close>

type_synonym local_dir = "(bytes \<times> (bool \<times> nat) option) list"

fun local_matches :: "bytes option \<Rightarrow> bool \<Rightarrow> local_dir \<Rightarrow> (bytes \<times> nat) list option" where
  "local_matches pat want [] = Some []"
| "local_matches pat want ((n, st) # rest) =
     do {
       sel \<leftarrow> (case pat of None \<Rightarrow> Some True | Some p \<Rightarrow> is_match n p True);
       r \<leftarrow> local_matches pat want rest;
       Some (case st of
          Some (is_dir, sz) \<Rightarrow> if sel \<and> is_dir = want \<and> (want \<or> n \<noteq> []) then (n, sz) # r else r
        | None \<Rightarrow> r)
     }"

definition show_local_directory :: "local_dir \<Rightarrow> bytes option \<Rightarrow> ((bytes \<times> nat) list \<times> (bytes \<times> nat) list) option" where
  "show_local_directory dir pat =
     do { folders \<leftarrow> local_matches pat True dir; others \<leftarrow> local_matches pat False dir; Some (folders, others) }"

section \<open>ROM versions\<close>

definition rom_version :: "sector \<Rightarrow> bytes" where
  "rom_version b =
     (if b ! 0x16 = 0x56 then cstr (subbuf 0x16 7 b)
      else if b ! 0x10 = 0x4f \<or> b ! 0x10 = 0x56 then cstr (subbuf 0x10 9 b)
      else ascii ''???'')"

text \<open>The first sector of each ROM; a file that is not found, or a failed read, ends the list.\<close>

fun roms_of :: "'s sector_io \<Rightarrow> 's sector_io \<Rightarrow> vol \<Rightarrow> m65dirent list \<Rightarrow> 's dir_state \<Rightarrow> ((bytes \<times> bytes) list \<times> 's dir_state) option" where
  "roms_of io ioa v [] d = Some ([], d)"
| "roms_of io ioa v (itm # lst) d =
     do {
       m \<leftarrow> is_match (cstr (d_name itm)) (ascii ''MEGA6*.ROM'') True;
       if \<not> m then roms_of io ioa v lst d
       else do {
         (sector_number, d1) \<leftarrow> get_first_sector_of_file io v (cstr (d_name itm)) d;
         if sector_number = - 1 then Some ([], d1)
         else case rd ioa sector_number (store d1) of
           (None, s) \<Rightarrow> Some ([], d1\<lparr>store := s\<rparr>)
         | (Some b, s) \<Rightarrow> do {
             (rest, d2) \<leftarrow> roms_of io ioa v lst (d1\<lparr>store := s\<rparr>);
             Some (if d_name itm ! 0 \<noteq> 0 \<and> d_filelen itm \<ge> 0 then (cstr (d_name itm), rom_version b) # rest else rest, d2)
           }
       }
     }"

text \<open>An empty listing is one node without an item, which is dereferenced.\<close>

definition list_all_roms :: "'s sector_io \<Rightarrow> 's sector_io \<Rightarrow> vol \<Rightarrow> 's dir_state \<Rightarrow> ((bytes \<times> bytes) list \<times> 's dir_state) option" where
  "list_all_roms io ioa v d =
     do {
       ((ok, lst), d1) \<leftarrow> read_direntries io v [] [0x2f] d;
       if \<not> ok then Some ([], d1) else if lst = [] then None else roms_of io ioa v lst d1
     }"

section \<open>Mounting\<close>

definition petscify_char :: "u8 \<Rightarrow> u8" where
  "petscify_char t = (let c = t AND 0xdf in if 0x41 \<le> c \<and> c \<le> 0x5a then t XOR 0x20 else t)"

definition petscify_text :: "bytes \<Rightarrow> bytes" where
  "petscify_text text = map petscify_char text"

text \<open>The job, unless the name is too long.\<close>

definition queue_mount_file :: "bytes \<Rightarrow> job_queue \<Rightarrow> job_queue option" where
  "queue_mount_file filename q =
     (if length filename > 63 then None else Some (queue_add_job (0x12 # filename @ [0]) q))"

text \<open>\<open>mount_file\<close>, over Ethernet; errors are only printed.\<close>

definition mount_file :: "'c card_ops \<Rightarrow> vol \<Rightarrow> bytes \<Rightarrow> 'c blk dir_state \<Rightarrow> 'c blk dir_state option" where
  "mount_file ops v filename d =
     (if current_dir d \<noteq> [0x2f] then Some d
      else do {
        (ok, d1) \<leftarrow> safe_open_dir (blk_io ops) v d;
        if \<not> ok then Some d1
        else do {
          (found, d2) \<leftarrow> find_file_in_curdir (blk_io ops) v filename d1;
          Some (if found = None then d2
                else case queue_mount_file (petscify_text filename) (job_q (store d2)) of
                  None \<Rightarrow> d2
                | Some q \<Rightarrow> d2\<lparr>store := run_queue ops ((store d2)\<lparr>job_q := q\<rparr>)\<rparr>)
        }
      })"

section \<open>Wrapped uploads and the file host\<close>

text \<open>What the commands ask of the host: its files, the local directory, the options, the time.\<close>

record client_env =
  env_host :: "bytes \<Rightarrow> bytes option"
  env_local :: local_dir
  env_ignore_q :: bool
  env_answer :: bool
  env_now :: tm
  env_junk :: "nat \<Rightarrow> sector"
  env_filehost :: reader
  env_response :: bytes
  env_model :: u8

definition env_upload :: "'s sector_io \<Rightarrow> vol \<Rightarrow> client_env \<Rightarrow> (bytes \<Rightarrow> bytes option) \<Rightarrow> bytes \<Rightarrow> bytes \<Rightarrow> 's dir_state \<Rightarrow> (int \<times> 's dir_state) option" where
  "env_upload io v env host name dest_name d =
     upload_file io v (env_ignore_q env) (env_answer env) (env_now env) host
       (map (\<lambda>(n, st). (n, map_option fst st)) (env_local env)) name dest_name d"

definition wrap_upload :: "'s sector_io \<Rightarrow> vol \<Rightarrow> client_env \<Rightarrow> bytes \<Rightarrow> 's dir_state \<Rightarrow> 's dir_state option" where
  "wrap_upload io v env fname d =
     do {
       image \<leftarrow> create_d81_for_prg (env_host env) fname;
       case image of
         None \<Rightarrow> Some d
       | Some (d81name, contents) \<Rightarrow>
           do { (_, d1) \<leftarrow> env_upload io v env ((env_host env)(d81name \<mapsto> contents)) d81name d81name d; Some d1 }
     }"

text \<open>\<open>strcmp\<close> with what \<open>strrchr\<close> finds; a name without a dot crashes.\<close>

definition endswith :: "bytes \<Rightarrow> bytes \<Rightarrow> bool option" where
  "endswith fname ext =
     (case find (\<lambda>i. fname ! i = 0x2e) (rev [0 ..< length fname]) of None \<Rightarrow> None | Some i \<Rightarrow> Some (drop i fname = ext))"

text \<open>The name is looked at before it is known whether there is one.\<close>

definition perform_filehost_get ::
  "'s sector_io \<Rightarrow> vol \<Rightarrow> client_env \<Rightarrow> int \<Rightarrow> bytes option \<Rightarrow> 's dir_state \<Rightarrow> 's dir_state option" where
  "perform_filehost_get io v env num destname d =
     do {
       (file, _) \<leftarrow> (if num < 0 then Some (None, \<lparr>hdr_start_idx = 0, hdr_match = False, hdr_idx = 0, hdr_value = []\<rparr>)
         else download_file_from_filehost (nat num) (env_response env)
                \<lparr>hdr_start_idx = 0, hdr_match = False, hdr_idx = 0, hdr_value = []\<rparr> (env_filehost env));
       (fname, body) \<leftarrow> file;
       let host = (env_host env)(fname \<mapsto> body);
       p \<leftarrow> endswith fname (ascii ''.prg'');
       p' \<leftarrow> (if p then Some True else endswith fname (ascii ''.PRG''));
       (name, host') \<leftarrow> (if p' then do { image \<leftarrow> create_d81_for_prg host fname; (n, c) \<leftarrow> image; Some (n, host(n \<mapsto> c)) }
                        else Some (fname, host));
       if destname = Some [0x2d] then Some d
       else do { (_, d1) \<leftarrow> env_upload io v env host' name (case destname of None \<Rightarrow> name | Some n \<Rightarrow> n) d; Some d1 }
     }"

section \<open>The boot sector\<close>

text \<open>The values \<open>show_vbrinfo\<close> prints, in the order of its lines.\<close>

definition vbr_values :: "sector \<Rightarrow> u32 list" where
  "vbr_values b =
     (let chars = (\<lambda>from to. map (\<lambda>i. ucast (b ! i)) [from ..< to + 1]) in
      chars 0x03 0x0a
      @ [le16_at b 0x0b, ucast (b ! 0x0d), le16_at b 0x0e, ucast (b ! 0x10), le16_at b 0x11, le16_at b 0x13,
         ucast (b ! 0x15), le16_at b 0x16, le16_at b 0x18, le16_at b 0x1a, le32_at b 0x1c, le32_at b 0x20,
         le32_at b 0x24, ucast (b ! 0x28), ucast (b ! 0x29), ucast (b ! 0x2a), ucast (b ! 0x2b), le32_at b 0x2c,
         le16_at b 0x30, le16_at b 0x32, ucast (b ! 0x40), ucast (b ! 0x41), ucast (b ! 0x42)]
      @ chars 0x43 0x46 @ chars 0x47 0x51 @ chars 0x52 0x59)"

definition show_vbrinfo :: "'s sector_io \<Rightarrow> vol \<Rightarrow> 's \<Rightarrow> u32 list \<times> 's" where
  "show_vbrinfo io v s =
     (case rd io (partition_start v) s of
        (None, s1) \<Rightarrow> ([], s1)
      | (Some sector, s1) \<Rightarrow> (vbr_values sector, s1))"

section \<open>Commands\<close>

text \<open>\<open>show_sector\<close>; the branch for decimal numbers empties the cache first.\<close>

definition show_sector :: "'c card_ops \<Rightarrow> bool \<Rightarrow> u32 \<Rightarrow> 'c blk \<Rightarrow> sector option \<times> 'c blk" where
  "show_sector ops clear sector_num s = read_sector ops True 0 sector_num (if clear then s\<lparr>sector_cache := []\<rparr> else s)"

text \<open>What a command shows or leaves on the host.\<close>

datatype shown =
    ShownNothing
  | ShownSector "sector option"
  | ShownFiles "(bytes \<times> bytes) list"
  | ShownListing "m65dirent list"
  | ShownLocal "(bytes \<times> nat) list" "(bytes \<times> nat) list"
  | ShownClustermap "(int \<times> u32 \<times> u32) list"
  | ShownCluster "(u32 \<times> sector) list"
  | ShownPartitions "shown_partition list option"
  | ShownNumbers "u32 list"
  | ShownError

definition after :: "shown \<Rightarrow> 's dir_state option \<Rightarrow> (shown \<times> 's dir_state) option" where
  "after out r = map_option (\<lambda>d. (out, d)) r"

text \<open>What is left of a command that may have flashed: the client goes on only if it was refused.\<close>

fun unless_flashed :: "flash_result option \<Rightarrow> 's dir_state \<Rightarrow> (shown \<times> 's dir_state) option" where
  "unless_flashed (Some Refused) d = Some (ShownNothing, d)"
| "unless_flashed _ d = None"

text \<open>
  The calls of \<open>execute_command\<close>, whose results it ignores, for a client on Ethernet.  \<open>None\<close> is a
  client that has ended: by \<open>exit\<close>, as the last step of flashing, by a crash, or because reading
  the flash memory is not possible over Ethernet.  \<open>DirentRaw\<close>, \<open>ShowLocalPwd\<close>,
  \<open>ChangeLocalDir\<close> and \<open>FilehostRead\<close> change only an option, the host's working directory and the
  list of the file host, which are the environment of the next command.
\<close>

fun run_command :: "'c card_ops \<Rightarrow> vol \<Rightarrow> client_env \<Rightarrow> command \<Rightarrow> 'c blk dir_state \<Rightarrow> (shown \<times> 'c blk dir_state) option" where
  "run_command ops v env (UploadSlot slot src) d =
     (case upload_slot (blk_io ops) v (env_host env) (env_junk env) slot src (store d) of (_, s) \<Rightarrow> Some (ShownNothing, d\<lparr>store := s\<rparr>))"
| "run_command ops v env (DownloadSlot slot dst) d =
     (case download_slot (blk_ahead ops 64) v slot (store d) of
        ((_, out), s) \<Rightarrow> Some (ShownFiles (case out of None \<Rightarrow> [] | Some f \<Rightarrow> [(dst, f)]), d\<lparr>store := s\<rparr>))"
| "run_command ops v env (DownloadFile src dst showClusters) d =
     do { ((_, saved), d1) \<leftarrow> download_file (blk_io ops) (blk_ahead ops 128) v src dst showClusters d; Some (ShownFiles saved, d1) }"
| "run_command ops v env (UploadFile src dst) d = after ShownNothing (map_option snd (env_upload (blk_io ops) v env (env_host env) src dst d))"
| "run_command ops v env (WrapUpload src) d = after ShownNothing (wrap_upload (blk_io ops) v env src d)"
| "run_command ops v env (DeleteFileOrDir src) d =
     after ShownNothing (map_option snd (client_delete (blk_io ops) v (env_ignore_q env) (env_answer env) src d))"
| "run_command ops v env (RenameFileOrDir src dst) d =
     after ShownNothing (map_option snd (rename_file_or_dir (blk_io ops) v (env_now env) src dst d))"
| "run_command ops v env (ShowSector clear n) d =
     (case show_sector ops clear (word_of_int n) (store d) of (b, s) \<Rightarrow> Some (ShownSector b, d\<lparr>store := s\<rparr>))"
| "run_command ops v env DiskFree d =
     (case disk_free (blk_io ops) v (store d) of
        ((free_mb, total_mb, free_count, total_count), s) \<Rightarrow>
          Some (ShownNumbers [free_mb, total_mb, word_of_nat free_count, word_of_nat total_count], d\<lparr>store := s\<rparr>))"
| "run_command ops v env (ShowDirectory path) d =
     do { ((_, items, _, _), d1) \<leftarrow> show_directory (blk_io ops) v path d; Some (ShownListing items, d1) }"
| "run_command ops v env (ShowLocalDirectory pat) d =
     do { (folders, others) \<leftarrow> show_local_directory (env_local env) pat; Some (ShownLocal folders others, d) }"
| "run_command ops v env (CreateDir src) d = after ShownNothing (map_option snd (create_dir (blk_io ops) v (env_now env) src d))"
| "run_command ops v env (ChangeDir src) d = after ShownNothing (change_dir (blk_io ops) v src d)"
| "run_command ops v env (MountFile src) d = after ShownNothing (mount_file ops v src d)"
| "run_command ops v env (ShowClustermap start cnt) d =
     do { (out, d1) \<leftarrow> show_clustermap (blk_io ops) v start cnt d; Some (ShownClustermap out, d1) }"
| "run_command ops v env (ShowCluster n) d =
     (case show_cluster (blk_io ops) v n d of (out, d1) \<Rightarrow> Some (ShownCluster out, d1))"
| "run_command ops v env (DumpSectors f start cnt) d =
     (case dump_sectors (blk_io ops) start (nat cnt) d of (out, d1) \<Rightarrow> Some (ShownFiles [(f, out)], d1))"
| "run_command ops v env (RestoreSectors f start) d =
     do { contents \<leftarrow> env_host env f; Some (ShownNothing, restore_sectors (blk_io ops) contents start d) }"
| "run_command ops v env ShowSecinfo d = Some (ShownNumbers (show_secinfo v), d)"
| "run_command ops v env ShowMbrinfo d =
     (case show_mbrinfo (blk_io ops) (store d) of (out, s) \<Rightarrow> Some (ShownPartitions out, d\<lparr>store := s\<rparr>))"
| "run_command ops v env (ParsePokes cmd) d = after ShownNothing (parse_pokes (blk_io ops) cmd d)"
| "run_command ops v env (FilehostGet num destname) d = after ShownNothing (perform_filehost_get (blk_io ops) v env num destname d)"
| "run_command ops v env ListAllRoms d =
     do { (out, d1) \<leftarrow> list_all_roms (blk_io ops) (blk_ahead ops 128) v d; Some (ShownFiles out, d1) }"
| "run_command ops v env ShowVbrinfo d =
     (case show_vbrinfo (blk_io ops) v (store d) of (out, s) \<Rightarrow> Some (ShownNumbers out, d\<lparr>store := s\<rparr>))"
| "run_command ops v env (PerformFlash f slotnum) d =
     unless_flashed (perform_flash True False (env_model env) (env_ignore_q env) (env_answer env) (env_host env) f slotnum) d"
| "run_command ops v env (FilehostFlash num slotnum) d =
     unless_flashed (perform_filehost_flash True False (env_model env) (env_ignore_q env) (env_answer env) (env_host env) None slotnum) d"
| "run_command ops v env (DirentRaw n) d = Some (ShownNothing, d)"
| "run_command ops v env ShowLocalPwd d = Some (ShownNothing, d)"
| "run_command ops v env (ChangeLocalDir path) d = Some (ShownNothing, d)"
| "run_command ops v env (FilehostRead searchterm) d = Some (ShownNothing, d)"
| "run_command ops v env Help d = Some (ShownNothing, d)"
| "run_command ops v env Unknown d = Some (ShownError, d)"
| "run_command ops v env TooLong d = Some (ShownError, d)"
| "run_command ops v env (DownloadFlashslot slot dst) d = (if slot < 0 \<or> slot \<ge> 8 then Some (ShownNothing, d) else None)"
| "run_command ops v env Quit d = None"

definition execute_command :: "'c card_ops \<Rightarrow> vol \<Rightarrow> client_env \<Rightarrow> bytes \<Rightarrow> 'c blk dir_state \<Rightarrow> (shown \<times> 'c blk dir_state) option" where
  "execute_command ops v env cmd d = do { c \<leftarrow> command_of cmd; run_command ops v env c d }"

text \<open>The commands given with \<open>-c\<close>, at most 512, each with what it finds on the host.\<close>

definition queue_command :: "bytes \<Rightarrow> bytes list \<Rightarrow> bytes list" where
  "queue_command c queued_commands = (if length queued_commands < 512 then queued_commands @ [c] else queued_commands)"

fun run_queued :: "'c card_ops \<Rightarrow> vol \<Rightarrow> (client_env \<times> bytes) list \<Rightarrow> 'c blk dir_state \<Rightarrow> 'c blk dir_state option" where
  "run_queued ops v [] d = Some d"
| "run_queued ops v ((env, c) # cs) d = do { (_, d1) \<leftarrow> execute_command ops v env c d; run_queued ops v cs d1 }"

section \<open>Mounting: names and packets\<close>

definition petscify_ok :: "u8 \<Rightarrow> bool" where
  "petscify_ok t \<longleftrightarrow> (petscify_char t = 0 \<longleftrightarrow> t = 0) \<and> petscify_char (petscify_char t) = t"

lemma petscify_all: "petscify_ok t"
proof -
  have all: "list_all (\<lambda>n. petscify_ok (word_of_nat n)) [0..<256]" by code_simp
  have "unat t \<in> set [0..<256]" using unsigned_less [of t, where ?'a = nat] by simp
  then have "petscify_ok (word_of_nat (unat t))" using all unfolding list_all_iff by blast
  then show ?thesis by simp
qed

lemma petscify_bounds:
  "petscify_char t = 0 \<longleftrightarrow> t = 0" "petscify_char (petscify_char t) = t"
  using petscify_all [of t] by (simp_all add: petscify_ok_def)

lemma petscify_text_props [simp]:
  "petscify_text (petscify_text s) = s" "length (petscify_text s) = length s" "0 \<in> set (petscify_text s) \<longleftrightarrow> 0 \<in> set s"
proof -
  show "petscify_text (petscify_text s) = s" by (simp add: petscify_text_def petscify_bounds comp_def)
  show "length (petscify_text s) = length s" by (simp add: petscify_text_def)
  show "0 \<in> set (petscify_text s) \<longleftrightarrow> 0 \<in> set s"
    using petscify_bounds(1) by (force simp: petscify_text_def)
qed

lemma takeWhile_nul: "0 \<notin> set s \<Longrightarrow> takeWhile (\<lambda>b. b \<noteq> 0) (s @ [0]) = (s :: bytes)"
  by (induction s) auto

lemma run_mount_job:
  assumes "blk_wf ops s" "length name \<le> 63" "0 \<notin> set name"
    and "s' = run_queue ops (s\<lparr>job_q := queue_add_job (0x12 # name @ [0]) (job_q s)\<rparr>)"
  shows "blk_wf ops s' \<and> blk_card s' = blk_card s
    \<and> eth_res s' = (eth_res s)\<lparr>mount_file_response := card_mount ops (mreq @ [0, 0, 0x12] @ name @ [0]) (blk_card s)\<rparr>"
proof -
  let ?job = "0x12 # name @ [0]"
  let ?js = "\<lparr>jb_card = blk_card s, jb_result = eth_res s, jb_batch_counter = write_batch_counter s, jb_sent = [], jb_exited = exited s\<rparr>"
  have q: "queue_add_job ?job (job_q s) = \<lparr>queue_cmds = ?job, queue_addr = queue_base + word_of_nat (length ?job), queue_jobs = 1\<rparr>"
    using assms(1) by (cases "job_q s") (simp add: queue_add_job_def blk_wf_def del: of_nat_add)
  have x: "\<not> exited s" using assms(1) by (simp add: blk_wf_def)
  have body: "takeWhile (\<lambda>b. b \<noteq> 0) ?job = 0x12 # name" using takeWhile_nul [OF assms(3)] by simp
  define r where "r = process_ethernet_mount_file_job ops ?job ?js"
  have r: "r = (8 + length name, ?js\<lparr>jb_sent := [mreq @ [0, 0] @ (0x12 # name) @ [0]],
      jb_result := ethernet_process_result 0 (mrsp @ [0, 0, 0x12, card_mount ops (mreq @ [0, 0] @ (0x12 # name) @ [0]) (blk_card s)])
        ((eth_res s)\<lparr>mount_file_response := 0xff\<rparr>)\<rparr>)"
    unfolding r_def process_ethernet_mount_file_job_def Let_def body using assms(2) by simp
  have "process_jobs ops (concat (write_data s)) 1 ?job ?js = snd r"
    using x by (subst process_jobs.simps) (simp add: r_def process_jobs.simps [of _ _ 0] case_prod_beta Let_def)
  then have "s' = (s\<lparr>job_q := \<lparr>queue_cmds = ?job, queue_addr = queue_base, queue_jobs = 0\<rparr>\<rparr>)
      \<lparr>blk_card := jb_card (snd r), eth_res := jb_result (snd r), write_batch_counter := jb_batch_counter (snd r), exited := jb_exited (snd r)\<rparr>"
    unfolding assms(4) run_queue_def queue_execute_def process_jobs_ethernet_def q by simp
  then show ?thesis
    using assms(1) x by (simp add: r blk_wf_def ethernet_process_result_def mrsp_def)
qed

text \<open>
  A disk image with a name of at most 63 characters is mounted by exactly this name with the
  case of its letters swapped: one request arrives at the MEGA65, its answer is stored, the card
  is not changed and the block layer can go on; longer names are refused.
\<close>
lemma mount_name_arrives:
  assumes "blk_wf ops s" "0 \<notin> set filename"
  shows "(case queue_mount_file (petscify_text filename) (job_q s) of
      None \<Rightarrow> length filename > 63
    | Some q \<Rightarrow> length filename \<le> 63
        \<and> (let s' = run_queue ops (s\<lparr>job_q := q\<rparr>); packet = mreq @ [0, 0, 0x12] @ petscify_text filename @ [0]
           in blk_wf ops s' \<and> blk_card s' = blk_card s
             \<and> eth_res s' = (eth_res s)\<lparr>mount_file_response := card_mount ops packet (blk_card s)\<rparr>
             \<and> petscify_text (petscify_text filename) = filename))"
  using run_mount_job [OF assms(1) _ _ refl, of "petscify_text filename"] assms(2)
  by (auto simp: queue_mount_file_def Let_def)

definition mounted_name :: bytes where
  "mounted_name = [0x47, 0x2e, 0x64, 0x38, 0x31]"

lemma cache_fill_eth_res:
  "blk_wf ops t \<Longrightarrow> eth_res (fold (\<lambda>k t. cache_store ops (n + word_of_nat k)
     (farray_get (queue_read_data (eth_res t)) (512 * k) 512) t) ks t) = eth_res t"
  by (induction ks arbitrary: t) (simp_all add: cache_store_wf cache_store_eth_res)

text \<open>
  \<open>sector N\<close> empties the cache although sectors may wait in the queue: it shows what the card
  held before the write.
\<close>
lemma show_sector_stale:
  assumes "blk_inv ops s" "\<not> direct_sdcard_device s"
  shows "fst (show_sector ops True n s) = Some (card_read ops (blk_card s) n)"
proof -
  let ?s = "s\<lparr>sector_cache := []\<rparr>"
  have wf: "blk_wf ops ?s" using assms(1) by (simp add: blk_inv_def blk_wf_def)
  let ?s1 = "run_queue ops (?s\<lparr>job_q := queue_read_sectors n (word_of_nat 16) (job_q ?s)\<rparr>)"
  note job = run_read_job [OF wf _ refl, of 16 n]
  have wf1: "blk_wf ops ?s1"
    using wf job(1) by (simp add: blk_wf_def frame_simps)
  show ?thesis
    using cache_fill_eth_res [OF wf1, of n "[0 ..< 16]"] job(2) [rule_format, of 0] assms(2)
    by (simp add: show_sector_def read_sector_def read_batch_size_def cache_fill_eth_res Let_def)
qed

end
