(* ===== verification/Etherload.thy ===== *)
theory Etherload
  imports JobQueue "HOL-Library.Monad_Syntax"
begin

text \<open>
  The UDP transport (\<open>src/lib/libm65ftp/etherload/etherload_common.c\<close>): a window of frames that
  wait for their acknowledgement, retransmission of the oldest one, and the packet formats of the
  loader and of the job protocol (\<open>ethernet_*\<close> in \<open>mega65_ftp.c\<close>).

  The socket and the clock are the record \<open>net\<close> over a state \<open>'w\<close>, which also holds what the
  matching callback of a client changes.  A call that is \<open>None\<close> does not come back: it waits for
  ever, or the client's time-out handler ended the process.
\<close>

section \<open>State\<close>

definition MAX_UNACKED_FRAMES :: nat where "MAX_UNACKED_FRAMES = 256"
definition ack_timeout :: int where "ack_timeout = 4000000"

record 'w net =
  n_time :: "'w \<Rightarrow> int \<times> 'w"
  n_recv :: "'w \<Rightarrow> (bytes \<times> bool) option \<times> 'w"  \<comment> \<open>a datagram, and whether the MEGA65 sent it\<close>
  n_send :: "bytes \<Rightarrow> 'w \<Rightarrow> bool \<times> 'w"            \<comment> \<open>\<open>False\<close>: failed with \<open>EAGAIN\<close>\<close>
  n_broadcast :: "bytes \<Rightarrow> 'w \<Rightarrow> 'w"
  n_sleep :: "nat \<Rightarrow> 'w \<Rightarrow> 'w"

record 'w callbacks =
  get_packet_seq :: "bytes \<Rightarrow> int"
  match_payloads :: "bytes \<Rightarrow> bytes \<Rightarrow> 'w \<Rightarrow> bool \<times> 'w"
  is_duplicate :: "bytes \<Rightarrow> bytes \<Rightarrow> bool"
  embed_packet_seq :: "bytes \<Rightarrow> int \<Rightarrow> bytes"
  timeout_handler :: "('w \<Rightarrow> 'w option) option"

text \<open>One element of \<open>frame_unacked\<close>, \<open>unacked_frame_payloads\<close> with its length, and \<open>unacked_sent_times\<close>.\<close>

record frame =
  frame_unacked :: bool
  unacked_frame_payload :: bytes
  unacked_sent_time :: int

record 'w ethl =
  frames :: "frame list"
  queue_length :: nat
  retx_interval :: int
  retx_cnt :: int
  last_resend_time :: int
  last_rx_time :: int
  last_rx_intv :: int
  packet_seq :: int
  last_rx_seq :: int
  cbs :: "'w callbacks"
  dma_load_rom_write_enable :: bool
  rom_write_enabled :: bool
  ethlet_dma_load :: bytes
  world :: 'w

definition free_frame :: frame where
  "free_frame = \<lparr>frame_unacked = False, unacked_frame_payload = [], unacked_sent_time = 0\<rparr>"

definition ethl_setup_callbacks :: "'w callbacks \<Rightarrow> 'w ethl \<Rightarrow> 'w ethl" where
  "ethl_setup_callbacks c s = s\<lparr>cbs := c\<rparr>"

definition gettime_us :: "'w net \<Rightarrow> 'w ethl \<Rightarrow> int \<times> 'w ethl" where
  "gettime_us net s = (case n_time net (world s) of (t, w) \<Rightarrow> (t, s\<lparr>world := w\<rparr>))"

definition set_last_resend :: "'w net \<Rightarrow> 'w ethl \<Rightarrow> 'w ethl" where
  "set_last_resend net s = (case gettime_us net s of (t, s1) \<Rightarrow> s1\<lparr>last_resend_time := t\<rparr>)"

section \<open>Acknowledgements\<close>

definition window :: "'w ethl \<Rightarrow> frame list" where
  "window s = take (queue_length s) (frames s)"

definition get_num_unacked_frames :: "'w ethl \<Rightarrow> nat" where
  "get_num_unacked_frames s = length (filter frame_unacked (window s))"

text \<open>The product is a \<open>long long\<close> that is stored in an \<open>int\<close>.\<close>

definition update_retx_interval :: "'w ethl \<Rightarrow> 'w ethl" where
  "update_retx_interval s =
     (let r = sint (word_of_int (2000 + retx_cnt s * last_rx_intv s) :: 32 word);
          r1 = (if r < 50000 then 50000 else r);
          r2 = (if r1 > 1000000 then 1000000 else r1)
      in s\<lparr>retx_interval := r2\<rparr>)"

text \<open>The loop over the slots: the first waiting frame that the payload answers.\<close>

fun ack_scan :: "bytes \<Rightarrow> nat list \<Rightarrow> 'w ethl \<Rightarrow> nat option \<times> 'w ethl" where
  "ack_scan rx [] s = (None, s)"
| "ack_scan rx (i # is) s =
     (if frame_unacked (frames s ! i) then
        (case match_payloads (cbs s) rx (unacked_frame_payload (frames s ! i)) (world s) of (m, w) \<Rightarrow>
           if m then (Some i, s\<lparr>world := w\<rparr>) else ack_scan rx is (s\<lparr>world := w\<rparr>))
      else ack_scan rx is s)"

definition free_slot :: "nat \<Rightarrow> 'w ethl \<Rightarrow> 'w ethl" where
  "free_slot i s = s\<lparr>frames := (frames s)[i := (frames s ! i)\<lparr>frame_unacked := False\<rparr>]\<rparr>"

definition note_reception :: "'w net \<Rightarrow> int \<Rightarrow> 'w ethl \<Rightarrow> 'w ethl" where
  "note_reception net seq_num s =
     (case gettime_us net (s\<lparr>last_rx_seq := seq_num\<rparr>) of (now, s1) \<Rightarrow>
      update_retx_interval (s1\<lparr>last_rx_intv := (if last_rx_time s1 = - 1 then 0 else now - last_rx_time s1),
        last_rx_time := now, retx_cnt := 0\<rparr>))"

definition check_if_ack :: "'w net \<Rightarrow> bytes \<Rightarrow> 'w ethl \<Rightarrow> bool \<times> 'w ethl" where
  "check_if_ack net rx s =
     (let seq_num = get_packet_seq (cbs s) rx in
      if seq_num < 0 then (False, s)
      else case ack_scan rx [0 ..< queue_length s] (note_reception net seq_num s) of
        (None, s1) \<Rightarrow> (False, s1)
      | (Some i, s1) \<Rightarrow> (True, set_last_resend net (free_slot i s1)))"

text \<open>The inner loop \<open>while (r > -1)\<close>: everything that has arrived; other senders are ignored.\<close>

partial_function (option) receive_acks :: "'w net \<Rightarrow> 'w ethl \<Rightarrow> 'w ethl option" where
  "receive_acks net s =
     (case n_recv net (world s) of
        (None, w) \<Rightarrow> Some (s\<lparr>world := w\<rparr>)
      | (Some (rx, from_mega65), w) \<Rightarrow>
          if from_mega65 \<and> rx \<noteq> [] then receive_acks net (snd (check_if_ack net rx (s\<lparr>world := w\<rparr>)))
          else receive_acks net (s\<lparr>world := w\<rparr>))"

declare receive_acks.simps [code]

section \<open>Retransmission\<close>

text \<open>The frame that was sent first: its time, -1 for none, and its slot.\<close>

fun oldest_scan :: "frame list \<Rightarrow> nat \<Rightarrow> int \<Rightarrow> nat \<Rightarrow> int \<times> nat" where
  "oldest_scan [] i oldest_sent_time slot = (oldest_sent_time, slot)"
| "oldest_scan (f # fs) i oldest_sent_time slot =
     (if frame_unacked f \<and> (oldest_sent_time = - 1 \<or> unacked_sent_time f < oldest_sent_time)
      then oldest_scan fs (i + 1) (unacked_sent_time f) i
      else oldest_scan fs (i + 1) oldest_sent_time slot)"

definition call_timeout_handler :: "'w ethl \<Rightarrow> 'w ethl option" where
  "call_timeout_handler s =
     (case timeout_handler (cbs s) of None \<Rightarrow> Some s | Some h \<Rightarrow> map_option (\<lambda>w. s\<lparr>world := w\<rparr>) (h (world s)))"

definition maybe_send_ack :: "'w net \<Rightarrow> 'w ethl \<Rightarrow> 'w ethl option" where
  "maybe_send_ack net s =
     (case oldest_scan (window s) 0 (- 1) 0 of (oldest_sent_time, slot) \<Rightarrow>
      if oldest_sent_time = - 1 then Some s
      else case gettime_us net s of (now, s1) \<Rightarrow>
        if now - last_resend_time s1 > retx_interval s1 then do {
          s2 \<leftarrow> (if now - oldest_sent_time > ack_timeout \<and> last_rx_time s1 \<noteq> - 1 \<and> now - last_rx_time s1 > ack_timeout
                 then call_timeout_handler s1 else Some s1);
          let s3 = update_retx_interval (s2\<lparr>retx_cnt := retx_cnt s2 + 1\<rparr>);
          let w = snd (n_send net (unacked_frame_payload (frames s3 ! slot)) (world s3));
          Some (set_last_resend net (s3\<lparr>world := w\<rparr>))
        } else Some s1)"

text \<open>What both waiting loops do between two looks at the slots.\<close>

definition poll_acks :: "'w net \<Rightarrow> 'w ethl \<Rightarrow> 'w ethl option" where
  "poll_acks net s =
     do { s1 \<leftarrow> receive_acks net s; s2 \<leftarrow> maybe_send_ack net s1; Some (s2\<lparr>world := n_sleep net 20 (world s2)\<rparr>) }"

section \<open>Sending\<close>

definition has_duplicate :: "bytes \<Rightarrow> 'w ethl \<Rightarrow> bool" where
  "has_duplicate payload s \<longleftrightarrow>
     (\<exists>f \<in> set (window s). frame_unacked f \<and> is_duplicate (cbs s) payload (unacked_frame_payload f))"

definition note_frame :: "'w net \<Rightarrow> bytes \<Rightarrow> nat \<Rightarrow> 'w ethl \<Rightarrow> bytes \<times> 'w ethl" where
  "note_frame net payload i s =
     (let p = embed_packet_seq (cbs s) payload (packet_seq s);
          s1 = update_retx_interval (s\<lparr>packet_seq := packet_seq s + 1\<rparr>)
      in case gettime_us net s1 of (t, s2) \<Rightarrow>
         (p, set_last_resend net (s2\<lparr>frames := (frames s2)[i := \<lparr>frame_unacked = True, unacked_frame_payload = p,
            unacked_sent_time = t\<rparr>]\<rparr>)))"

partial_function (option) expect_ack_since ::
  "'w net \<Rightarrow> int \<Rightarrow> int \<Rightarrow> bytes \<Rightarrow> 'w ethl \<Rightarrow> ((bool \<times> bytes) \<times> 'w ethl) option" where
  "expect_ack_since net start timeout_ms payload s =
     (let slot = first_index (\<lambda>f. \<not> frame_unacked f) (window s) in
      if slot < length (window s) \<and> \<not> has_duplicate payload s
      then (case note_frame net payload slot s of (p, s1) \<Rightarrow> Some ((True, p), s1))
      else do {
        s1 \<leftarrow> poll_acks net s;
        case gettime_us net s1 of (now, s2) \<Rightarrow>
          if now - start > timeout_ms * 1000 then Some ((False, payload), s2)
          else expect_ack_since net start timeout_ms payload s2
      })"

declare expect_ack_since.simps [code]

definition expect_ack :: "'w net \<Rightarrow> bytes \<Rightarrow> int \<Rightarrow> 'w ethl \<Rightarrow> ((bool \<times> bytes) \<times> 'w ethl) option" where
  "expect_ack net payload timeout_ms s =
     (case gettime_us net s of (start, s1) \<Rightarrow> expect_ack_since net start timeout_ms payload s1)"

partial_function (option) wait_slots_since ::
  "'w net \<Rightarrow> int \<Rightarrow> nat \<Rightarrow> int \<Rightarrow> 'w ethl \<Rightarrow> (bool \<times> 'w ethl) option" where
  "wait_slots_since net start num_free_slots_needed timeout_ms s =
     (case gettime_us net s of (now, s1) \<Rightarrow>
      if now - start < timeout_ms * 1000 then
        if queue_length s1 - get_num_unacked_frames s1 \<ge> num_free_slots_needed then Some (True, s1)
        else do { s2 \<leftarrow> poll_acks net s1; wait_slots_since net start num_free_slots_needed timeout_ms s2 }
      else Some (False, s1))"

declare wait_slots_since.simps [code]

definition wait_ack_slots_available :: "'w net \<Rightarrow> nat \<Rightarrow> int \<Rightarrow> 'w ethl \<Rightarrow> (bool \<times> 'w ethl) option" where
  "wait_ack_slots_available net num_free_slots_needed timeout_ms s =
     (case gettime_us net s of (start, s1) \<Rightarrow> wait_slots_since net start num_free_slots_needed timeout_ms s1)"

definition wait_all_acks :: "'w net \<Rightarrow> int \<Rightarrow> 'w ethl \<Rightarrow> (bool \<times> 'w ethl) option" where
  "wait_all_acks net timeout_ms s = wait_ack_slots_available net (queue_length s) timeout_ms s"

partial_function (option) send_until_taken :: "'w net \<Rightarrow> bytes \<Rightarrow> 'w \<Rightarrow> 'w option" where
  "send_until_taken net payload w =
     (case n_send net payload w of (ok, w1) \<Rightarrow> if ok then Some w1 else send_until_taken net payload w1)"

declare send_until_taken.simps [code]

definition ethl_send_packet :: "'w net \<Rightarrow> bytes \<Rightarrow> int \<Rightarrow> 'w ethl \<Rightarrow> ((bool \<times> bytes) \<times> 'w ethl) option" where
  "ethl_send_packet net payload timeout_ms s =
     do {
       ((ok, p), s1) \<leftarrow> expect_ack net payload timeout_ms s;
       if \<not> ok then Some ((False, p), s1)
       else do { w \<leftarrow> send_until_taken net p (world s1); Some ((True, p), s1\<lparr>world := w\<rparr>) }
     }"

definition send_ethlet :: "'w net \<Rightarrow> bytes \<Rightarrow> 'w ethl \<Rightarrow> 'w ethl" where
  "send_ethlet net data s = s\<lparr>world := snd (n_send net data (world s))\<rparr>"

definition ethl_send_packet_unscheduled :: "'w net \<Rightarrow> bytes \<Rightarrow> 'w ethl \<Rightarrow> 'w ethl" where
  "ethl_send_packet_unscheduled net payload s = s\<lparr>world := snd (n_send net payload (world s))\<rparr>"

definition ethl_schedule_ack :: "'w net \<Rightarrow> bytes \<Rightarrow> int \<Rightarrow> 'w ethl \<Rightarrow> ((bool \<times> bytes) \<times> 'w ethl) option" where
  "ethl_schedule_ack net payload timeout_ms s = expect_ack net payload timeout_ms s"

text \<open>Changing the window with frames waiting is only logged; the result is \<open>False\<close> for a window that is too long.\<close>

definition ethl_set_queue_length :: "u16 \<Rightarrow> 'w ethl \<Rightarrow> bool \<times> 'w ethl" where
  "ethl_set_queue_length len s =
     (if unat len > MAX_UNACKED_FRAMES then (False, s) else (True, s\<lparr>queue_length := unat len\<rparr>))"

definition ethl_get_current_seq_num :: "'w ethl \<Rightarrow> int" where
  "ethl_get_current_seq_num s = packet_seq s"

section \<open>Packet formats\<close>

definition seq_bytes :: "int \<Rightarrow> bytes" where
  "seq_bytes n = [word_of_int n, word_of_int (drop_bit 8 n)]"

definition seq_at :: "nat \<Rightarrow> bytes \<Rightarrow> int" where
  "seq_at i p = uint (p ! i) + push_bit 8 (uint (p ! (i + 1)))"

text \<open>A single command: any answer of the right size will do.\<close>

definition singlecmd_get_packet_seq :: "bytes \<Rightarrow> int" where
  "singlecmd_get_packet_seq p = (if length p \<noteq> 1024 then - 1 else seq_at 1022 p)"

definition singlecmd_embed_packet_seq :: "bytes \<Rightarrow> int \<Rightarrow> bytes" where
  "singlecmd_embed_packet_seq p seq_num = (if length p \<noteq> 1024 then p else blit 1022 (seq_bytes seq_num) p)"

definition singlecmd_match_payloads :: "bytes \<Rightarrow> bytes \<Rightarrow> 'w \<Rightarrow> bool \<times> 'w" where
  "singlecmd_match_payloads rx tx w = (length rx = 1024 \<and> length tx = 1024, w)"

definition echo_callbacks :: "'w callbacks \<Rightarrow> 'w callbacks" where
  "echo_callbacks c = c\<lparr>embed_packet_seq := singlecmd_embed_packet_seq, get_packet_seq := singlecmd_get_packet_seq,
     match_payloads := singlecmd_match_payloads\<rparr>"

definition ethl_single_command :: "'w net \<Rightarrow> bytes \<Rightarrow> int \<Rightarrow> 'w ethl \<Rightarrow> (bool \<times> 'w ethl) option" where
  "ethl_single_command net payload timeout_ms s =
     do {
       (_, s1) \<leftarrow> wait_all_acks net timeout_ms s;
       let orig = cbs s1;
       let s2 = s1\<lparr>cbs := echo_callbacks orig\<rparr>;
       ((ok, _), s3) \<leftarrow> ethl_send_packet net payload timeout_ms s2;
       if \<not> ok then Some (False, s3)
       else do {
         (result, s4) \<leftarrow> wait_all_acks net timeout_ms s3;
         Some (result, s4\<lparr>cbs := (cbs s4)\<lparr>embed_packet_seq := embed_packet_seq orig,
                   get_packet_seq := get_packet_seq orig, match_payloads := match_payloads orig\<rparr>\<rparr>)
       }
     }"

text \<open>\<open>ethlet_echo\<close> is a 6502 program; its bytes are a parameter.\<close>

definition ethl_ping :: "'w net \<Rightarrow> bytes \<Rightarrow> int \<Rightarrow> 'w ethl \<Rightarrow> (bool \<times> 'w ethl) option" where
  "ethl_ping net ethlet_echo timeout_ms s = ethl_single_command net ethlet_echo timeout_ms s"

text \<open>The loader's packets; the offsets are those of \<open>ethlet_dma_load_map.h\<close>.\<close>

definition ethlet_dma_load_offset_rom_write_enable :: nat where "ethlet_dma_load_offset_rom_write_enable = 0x13"
definition ethlet_dma_load_offset_dest_mb :: nat where "ethlet_dma_load_offset_dest_mb = 0x24"
definition ethlet_dma_load_offset_byte_count :: nat where "ethlet_dma_load_offset_byte_count = 0x27"
definition ethlet_dma_load_offset_dest_address :: nat where "ethlet_dma_load_offset_dest_address = 0x2c"
definition ethlet_dma_load_offset_dest_bank :: nat where "ethlet_dma_load_offset_dest_bank = 0x2e"
definition ethlet_dma_load_offset_seq_num :: nat where "ethlet_dma_load_offset_seq_num = 0xbe"
definition ethlet_dma_load_offset_data :: nat where "ethlet_dma_load_offset_data = 0xc0"

lemmas ethlet_offsets =
  ethlet_dma_load_offset_rom_write_enable_def ethlet_dma_load_offset_dest_mb_def ethlet_dma_load_offset_byte_count_def
  ethlet_dma_load_offset_dest_address_def ethlet_dma_load_offset_dest_bank_def ethlet_dma_load_offset_seq_num_def
  ethlet_dma_load_offset_data_def

definition dmaload_parse_load_addr :: "bytes \<Rightarrow> int" where
  "dmaload_parse_load_addr p =
     push_bit 20 (uint (p ! ethlet_dma_load_offset_dest_mb))
     + push_bit 16 (uint (p ! ethlet_dma_load_offset_dest_bank AND 0xf))
     + push_bit 8 (uint (p ! (ethlet_dma_load_offset_dest_address + 1)))
     + uint (p ! ethlet_dma_load_offset_dest_address)"

definition dmaload_get_packet_seq :: "bytes \<Rightarrow> int" where
  "dmaload_get_packet_seq p = (if length p \<noteq> 1280 then - 1 else seq_at ethlet_dma_load_offset_seq_num p)"

definition dmaload_match_payloads :: "bytes \<Rightarrow> bytes \<Rightarrow> 'w \<Rightarrow> bool \<times> 'w" where
  "dmaload_match_payloads rx tx w = (length rx = length tx \<and> rx = tx, w)"

definition dmaload_is_duplicate :: "bytes \<Rightarrow> bytes \<Rightarrow> bool" where
  "dmaload_is_duplicate p q \<longleftrightarrow> length p = 1280 \<and> length q = 1280 \<and> dmaload_parse_load_addr p = dmaload_parse_load_addr q"

definition dmaload_embed_packet_seq :: "bytes \<Rightarrow> int \<Rightarrow> bytes" where
  "dmaload_embed_packet_seq p seq_num =
     (if length p \<noteq> 1280 then p else blit ethlet_dma_load_offset_seq_num (seq_bytes seq_num) p)"

definition ethl_setup_dmaload :: "'w ethl \<Rightarrow> 'w ethl" where
  "ethl_setup_dmaload s = s\<lparr>cbs := (cbs s)\<lparr>get_packet_seq := dmaload_get_packet_seq, match_payloads := dmaload_match_payloads,
     is_duplicate := dmaload_is_duplicate, embed_packet_seq := dmaload_embed_packet_seq\<rparr>\<rparr>"

definition dmaload_no_pending_ack :: "int \<Rightarrow> 'w ethl \<Rightarrow> bool" where
  "dmaload_no_pending_ack addr s \<longleftrightarrow>
     \<not> (\<exists>f \<in> set (window s). frame_unacked f \<and> dmaload_parse_load_addr (unacked_frame_payload f) = addr)"

definition set_send_mem_rom_write_enable :: "'w ethl \<Rightarrow> 'w ethl" where
  "set_send_mem_rom_write_enable s = s\<lparr>dma_load_rom_write_enable := True\<rparr>"

section \<open>Loading memory\<close>

text \<open>The entry of \<open>send_mem\<close>: the first packet after the request enables writing to ROM.\<close>

definition mark_rom_write :: "'w ethl \<Rightarrow> 'w ethl" where
  "mark_rom_write s =
     (let i = ethlet_dma_load_offset_rom_write_enable + 1 in
      if \<not> rom_write_enabled s \<and> dma_load_rom_write_enable s
      then s\<lparr>rom_write_enabled := True, ethlet_dma_load := (ethlet_dma_load s)[i := 1]\<rparr>
      else s\<lparr>ethlet_dma_load := (ethlet_dma_load s)[i := 0]\<rparr>)"

definition mb_boundary :: "u32 \<Rightarrow> u32" where
  "mb_boundary address = (address AND 0xFFF00000) + 0x100000"

definition mem_packet :: "u32 \<Rightarrow> bytes \<Rightarrow> bytes \<Rightarrow> bytes" where
  "mem_packet address buffer p =
     (let p1 = p[ethlet_dma_load_offset_dest_address := ucast address,
                 ethlet_dma_load_offset_dest_address + 1 := ucast (drop_bit 8 address),
                 ethlet_dma_load_offset_dest_bank := ucast (drop_bit 16 address) AND 0x0f,
                 ethlet_dma_load_offset_dest_mb := ucast (drop_bit 20 address),
                 ethlet_dma_load_offset_byte_count := word_of_nat (length buffer),
                 ethlet_dma_load_offset_byte_count + 1 := word_of_nat (length buffer div 256)]
      in blit ethlet_dma_load_offset_data buffer p1)"

text \<open>The rest of \<open>send_mem\<close>, for a range that does not cross a megabyte.\<close>

definition send_mem_packet :: "'w net \<Rightarrow> u32 \<Rightarrow> bytes \<Rightarrow> int \<Rightarrow> 'w ethl \<Rightarrow> (bool \<times> 'w ethl) option" where
  "send_mem_packet net address buffer timeout_ms s =
     do {
       ((ok, p), s1) \<leftarrow> ethl_send_packet net (mem_packet address buffer (ethlet_dma_load s)) timeout_ms s;
       Some (ok, s1\<lparr>ethlet_dma_load := p\<rparr>)
     }"

text \<open>A range that crosses a megabyte is sent in two parts, the first by a recursive call, which does not cross.\<close>

definition send_mem :: "'w net \<Rightarrow> u32 \<Rightarrow> bytes \<Rightarrow> int \<Rightarrow> 'w ethl \<Rightarrow> (bool \<times> 'w ethl) option" where
  "send_mem net address buffer timeout_ms s =
     (let s1 = mark_rom_write s; boundary = mb_boundary address in
      if address + word_of_nat (length buffer) > boundary then
        let n = unat (boundary - address) in
        do {
          (ok, s2) \<leftarrow> send_mem_packet net address (take n buffer) timeout_ms (mark_rom_write s1);
          if \<not> ok then Some (False, s2) else send_mem_packet net boundary (drop n buffer) timeout_ms s2
        }
      else send_mem_packet net address buffer timeout_ms s1)"

definition magic_string :: bytes where
  "magic_string = [0x65, 0x47, 0x53, 0x4b, 0x45, 0x59, 0x43, 0x4f, 0x44, 0x45, 0x00, 0x80]"

definition trigger_eth_hyperrupt :: "'w net \<Rightarrow> 'w ethl \<Rightarrow> 'w ethl" where
  "trigger_eth_hyperrupt net s =
     (let w = n_broadcast net (blit 0x24 magic_string (replicate 128 0)) (world s);
          s1 = snd (gettime_us net (s\<lparr>world := n_sleep net 10000 w\<rparr>))
      in set_last_resend net s1)"

section \<open>The job protocol\<close>

definition ethernet_get_packet_seq :: "bytes \<Rightarrow> int" where
  "ethernet_get_packet_seq p = (if length p < 6 then - 1 else seq_at 4 p)"

definition ethernet_embed_packet_seq :: "bytes \<Rightarrow> int \<Rightarrow> bytes" where
  "ethernet_embed_packet_seq p seq_num = (if length p < 7 then p else blit 4 (seq_bytes seq_num) p)"

definition ethernet_is_duplicate :: "bytes \<Rightarrow> bytes \<Rightarrow> bool" where
  "ethernet_is_duplicate p q = False"

text \<open>
  Whether a reply answers a request, by its command, and what the reply leaves in the read
  buffers (\<open>ethernet_process_result\<close>).  The world of the transport is that of the socket with them.
\<close>

definition ethernet_match_payloads :: "u32 \<Rightarrow> bytes \<Rightarrow> bytes \<Rightarrow> 'n \<times> eth_result \<Rightarrow> bool \<times> ('n \<times> eth_result)" where
  "ethernet_match_payloads eth_batch_start_sector rx tx w =
     (let process = (fst w, ethernet_process_result eth_batch_start_sector rx (snd w));
          cmd = rx ! 6
      in if length rx < 7 \<or> length tx < 7 \<or> take 4 rx \<noteq> mrsp \<or> take 4 tx \<noteq> mreq then (False, w)
         else if cmd = 0x02 then (length rx = 14 \<and> subbuf 7 7 rx = subbuf 7 7 tx, w)
         else if cmd = 0x04 then
           (if length rx \<noteq> 512 + 13 \<or> subbuf 9 4 rx \<noteq> subbuf 9 4 tx then (False, w) else (True, process))
         else if cmd = 0x11 then
           (if length rx < 13 \<or> subbuf 7 5 rx \<noteq> subbuf 7 5 tx then (False, w) else (True, process))
         else if cmd = 0x12 then
           (if length rx \<noteq> 8 \<or> subbuf 4 2 rx \<noteq> subbuf 4 2 tx then (False, w) else (True, process))
         else if cmd = 0xfd then (length rx = 7, w)
         else if cmd = 0xff then (length rx = 7, w)
         else (False, w))"

text \<open>\<open>ethernet_timeout_handler\<close> ends the process.\<close>

definition ethernet_timeout_handler :: "'w \<Rightarrow> 'w option" where
  "ethernet_timeout_handler w = None"

definition ethernet_callbacks :: "u32 \<Rightarrow> ('n \<times> eth_result) callbacks" where
  "ethernet_callbacks eth_batch_start_sector =
     \<lparr>get_packet_seq = ethernet_get_packet_seq, match_payloads = ethernet_match_payloads eth_batch_start_sector,
      is_duplicate = ethernet_is_duplicate, embed_packet_seq = ethernet_embed_packet_seq,
      timeout_handler = Some ethernet_timeout_handler\<rparr>"

definition ethernet_login ::
  "('n \<times> eth_result) net \<Rightarrow> int \<Rightarrow> ('n \<times> eth_result) ethl \<Rightarrow> (bool \<times> ('n \<times> eth_result) ethl) option" where
  "ethernet_login net timeout_ms s =
     do { (_, s1) \<leftarrow> ethl_send_packet net (mreq @ [0, 0] @ [0xfd]) timeout_ms s; wait_all_acks net timeout_ms s1 }"

text \<open>Quitting, and reading one byte of memory; \<open>None\<close> as a byte is the call of \<open>exit\<close>.\<close>

definition request_quit ::
  "('n \<times> eth_result) net \<Rightarrow> int \<Rightarrow> ('n \<times> eth_result) ethl \<Rightarrow> (bool \<times> ('n \<times> eth_result) ethl) option" where
  "request_quit net timeout_ms s =
     do {
       (_, s1) \<leftarrow> wait_all_acks net timeout_ms s;
       (_, s2) \<leftarrow> ethl_send_packet net (mreq @ [0, 0] @ [0xff]) timeout_ms s1;
       wait_all_acks net timeout_ms s2
     }"

definition peek ::
  "('n \<times> eth_result) net \<Rightarrow> int \<Rightarrow> u32 \<Rightarrow> ('n \<times> eth_result) ethl \<Rightarrow> (u8 option \<times> ('n \<times> eth_result) ethl) option" where
  "peek net timeout_ms addr s =
     do {
       (_, s1) \<leftarrow> wait_all_acks net timeout_ms s;
       let r = (snd (world s1))\<lparr>memory_read_buffer_len := 0\<rparr>;
       (_, s2) \<leftarrow> ethl_send_packet net (mreq @ [0, 0] @ [0x11, 0] @ le32_bytes addr) timeout_ms (s1\<lparr>world := (fst (world s1), r)\<rparr>);
       (_, s3) \<leftarrow> wait_all_acks net timeout_ms s2;
       let r' = snd (world s3);
       Some (if memory_read_buffer_len r' \<noteq> 1 then None else Some (memory_read_buffer r' ! 0), s3)
     }"

definition ethernet_window :: "u8 \<Rightarrow> nat" where
  "ethernet_window hardware_model_id = (if hardware_model_id \<in> {0x01, 0x03, 0x04, 0x21} then 28 else 3)"

definition determine_ethernet_window_size ::
  "('n \<times> eth_result) net \<Rightarrow> int \<Rightarrow> ('n \<times> eth_result) ethl \<Rightarrow> (nat option \<times> ('n \<times> eth_result) ethl) option" where
  "determine_ethernet_window_size net timeout_ms s =
     do { (b, s1) \<leftarrow> peek net timeout_ms 0xFFD3629 s; Some (map_option ethernet_window b, s1) }"

end
