(* ===== verification/Transport.thy ===== *)
theory Transport
  imports Etherload
begin

text \<open>
  The transport keeps its promises: no waiting frame is given up or overwritten without an answer
  that the MEGA65 sent, the waiting loops end when the clock runs, and what goes into a packet
  comes out of it.
\<close>

section \<open>Runs of the world\<close>

inductive world_step :: "'w net \<Rightarrow> 'w callbacks \<Rightarrow> 'w \<Rightarrow> 'w \<Rightarrow> bool" for net cb where
  time: "world_step net cb w (snd (n_time net w))"
| recv: "world_step net cb w (snd (n_recv net w))"
| send: "world_step net cb w (snd (n_send net p w))"
| sleep: "world_step net cb w (n_sleep net n w)"
| matching: "world_step net cb w (snd (match_payloads cb rx tx w))"
| handler: "timeout_handler cb = Some h \<Longrightarrow> h w = Some w' \<Longrightarrow> world_step net cb w w'"

abbreviation world_run :: "'w net \<Rightarrow> 'w callbacks \<Rightarrow> 'w \<Rightarrow> 'w \<Rightarrow> bool" where
  "world_run net cb \<equiv> (world_step net cb)\<^sup>*\<^sup>*"

text \<open>Between two moments the socket gave a packet of the MEGA65 that answers the frame.\<close>

definition answered :: "'w net \<Rightarrow> 'w callbacks \<Rightarrow> 'w \<Rightarrow> 'w \<Rightarrow> bytes \<Rightarrow> bool" where
  "answered net cb w w' tx \<longleftrightarrow>
     (\<exists>rx w1 w2 w3. world_run net cb w w1 \<and> n_recv net w1 = (Some (rx, True), w2) \<and> world_run net cb w2 w'
       \<and> 0 \<le> get_packet_seq cb rx \<and> fst (match_payloads cb rx tx w3))"

lemma answered_extend:
  "answered net cb w w' tx \<Longrightarrow> world_run net cb v w \<Longrightarrow> world_run net cb w' v' \<Longrightarrow> answered net cb v v' tx"
  unfolding answered_def by (meson rtranclp_trans)

text \<open>What waiting may do to the transport: free frames that were answered, and nothing else to them.\<close>

definition acks_only :: "'w net \<Rightarrow> 'w ethl \<Rightarrow> 'w ethl \<Rightarrow> bool" where
  "acks_only net s s' \<longleftrightarrow> cbs s' = cbs s \<and> queue_length s' = queue_length s \<and> packet_seq s' = packet_seq s
     \<and> length (frames s') = length (frames s) \<and> world_run net (cbs s) (world s) (world s')
     \<and> (\<forall>i < length (frames s). frames s' ! i = frames s ! i
          \<or> (frame_unacked (frames s ! i) \<and> frames s' ! i = (frames s ! i)\<lparr>frame_unacked := False\<rparr>
             \<and> answered net (cbs s) (world s) (world s') (unacked_frame_payload (frames s ! i))))"

lemma acks_onlyI:
  "cbs s' = cbs s \<Longrightarrow> queue_length s' = queue_length s \<Longrightarrow> packet_seq s' = packet_seq s \<Longrightarrow> frames s' = frames s
    \<Longrightarrow> world_run net (cbs s) (world s) (world s') \<Longrightarrow> acks_only net s s'"
  by (simp add: acks_only_def)

lemma acks_only_refl [simp]: "acks_only net s s"
  by (rule acks_onlyI) simp_all

lemma acks_only_trans:
  assumes "acks_only net s s1" "acks_only net s1 s2"
  shows "acks_only net s s2"
proof -
  note a = assms [unfolded acks_only_def]
  have run: "world_run net (cbs s) (world s) (world s1)" "world_run net (cbs s) (world s1) (world s2)" using a by simp_all
  have "frames s2 ! i = frames s ! i \<or> (frame_unacked (frames s ! i) \<and> frames s2 ! i = (frames s ! i)\<lparr>frame_unacked := False\<rparr>
      \<and> answered net (cbs s) (world s) (world s2) (unacked_frame_payload (frames s ! i)))" if "i < length (frames s)" for i
  proof (cases "frames s1 ! i = frames s ! i")
    case True
    then show ?thesis using a that answered_extend [OF _ run(1) rtranclp.rtrancl_refl] by metis
  next
    case False
    then have f: "frame_unacked (frames s ! i)" "frames s1 ! i = (frames s ! i)\<lparr>frame_unacked := False\<rparr>"
        "answered net (cbs s) (world s) (world s1) (unacked_frame_payload (frames s ! i))"
      using a that by auto
    then have "frames s2 ! i = frames s1 ! i" using a that by auto
    then show ?thesis using f answered_extend [OF f(3) rtranclp.rtrancl_refl run(2)] by simp
  qed
  then show ?thesis using a by (auto simp: acks_only_def)
qed

text \<open>Reading the clock, sleeping and resending touch no frame.\<close>

lemma gettime_acks [simp]: "acks_only net s (snd (gettime_us net s))"
  using world_step.time [of net "cbs s" "world s"]
  by (intro acks_onlyI) (simp_all add: gettime_us_def case_prod_beta r_into_rtranclp)

lemma gettime_fields [simp]:
  "cbs (snd (gettime_us net s)) = cbs s" "queue_length (snd (gettime_us net s)) = queue_length s"
  "packet_seq (snd (gettime_us net s)) = packet_seq s" "frames (snd (gettime_us net s)) = frames s"
  "world (snd (gettime_us net s)) = snd (n_time net (world s))" "fst (gettime_us net s) = fst (n_time net (world s))"
  by (simp_all add: gettime_us_def case_prod_beta)

lemma update_retx_fields [simp]:
  "cbs (update_retx_interval s) = cbs s" "queue_length (update_retx_interval s) = queue_length s"
  "packet_seq (update_retx_interval s) = packet_seq s" "frames (update_retx_interval s) = frames s"
  "world (update_retx_interval s) = world s"
  by (simp_all add: update_retx_interval_def Let_def)

lemma set_last_resend_fields [simp]:
  "cbs (set_last_resend net s) = cbs s" "queue_length (set_last_resend net s) = queue_length s"
  "packet_seq (set_last_resend net s) = packet_seq s" "frames (set_last_resend net s) = frames s"
  "world (set_last_resend net s) = snd (n_time net (world s))"
  by (simp_all add: set_last_resend_def case_prod_beta)

lemma note_reception_fields [simp]:
  "cbs (note_reception net n s) = cbs s" "queue_length (note_reception net n s) = queue_length s"
  "packet_seq (note_reception net n s) = packet_seq s" "frames (note_reception net n s) = frames s"
  "world (note_reception net n s) = snd (n_time net (world s))"
  by (simp_all add: note_reception_def case_prod_beta)

lemma time_run: "world_run net cb w (snd (n_time net w))"
  by (rule r_into_rtranclp) (rule world_step.time)

section \<open>Acknowledgements\<close>

lemma ack_scan_result:
  assumes "ack_scan rx is s = (r, s')"
  shows "cbs s' = cbs s \<and> queue_length s' = queue_length s \<and> packet_seq s' = packet_seq s \<and> frames s' = frames s
    \<and> world_run net (cbs s) (world s) (world s')
    \<and> (\<forall>i. r = Some i \<longrightarrow> i \<in> set is \<and> frame_unacked (frames s ! i)
         \<and> (\<exists>w. fst (match_payloads (cbs s) rx (unacked_frame_payload (frames s ! i)) w)))"
  using assms
proof (induction rx "is" s rule: ack_scan.induct)
  case (2 rx i "is" s)
  let ?m = "match_payloads (cbs s) rx (unacked_frame_payload (frames s ! i)) (world s)"
  have step: "world_run net (cbs s) (world s) (snd ?m)" by (rule r_into_rtranclp) (rule world_step.matching)
  show ?case
  proof (cases "frame_unacked (frames s ! i)")
    case True
    show ?thesis
    proof (cases "fst ?m")
      case found: True
      then have "r = Some i" "s' = s\<lparr>world := snd ?m\<rparr>" using 2(3) True by (auto simp: case_prod_beta)
      then show ?thesis using True found step by auto
    next
      case False
      then have "ack_scan rx is (s\<lparr>world := snd ?m\<rparr>) = (r, s')" using 2(3) True by (simp add: case_prod_beta)
      from 2(1) [OF True prod.collapse False this] step show ?thesis by (auto intro: rtranclp_trans)
    qed
  qed (use 2 in auto)
qed auto

lemma check_if_ack_acks:
  assumes "n_recv net w = (Some (rx, True), world s)" "queue_length s \<le> length (frames s)"
    and "world_run net (cbs s) w0 w"
  shows "acks_only net (s\<lparr>world := w0\<rparr>) (snd (check_if_ack net rx s))"
proof (cases "get_packet_seq (cbs s) rx < 0")
  case True
  have "world_run net (cbs s) w (world s)" using world_step.recv [of net "cbs s" w] assms(1) by (simp add: r_into_rtranclp)
  then show ?thesis using True assms(3) by (intro acks_onlyI) (auto simp: check_if_ack_def intro: rtranclp_trans)
next
  case False
  let ?s1 = "note_reception net (get_packet_seq (cbs s) rx) s"
  obtain r s2 where scan: "ack_scan rx [0 ..< queue_length s] ?s1 = (r, s2)" by fastforce
  note a = ack_scan_result [OF scan, of net]
  have recv: "world_run net (cbs s) w (world s)" using world_step.recv [of net "cbs s" w] assms(1) by (simp add: r_into_rtranclp)
  have run: "world_run net (cbs s) (world s) (world s2)"
    using time_run [of net "cbs s" "world s"] a by (auto intro: rtranclp_trans)
  show ?thesis
  proof (cases r)
    case None
    then show ?thesis using False scan a recv run assms(3)
      by (intro acks_onlyI) (auto simp: check_if_ack_def intro: rtranclp_trans)
  next
    case (Some i)
    then have i: "i < length (frames s)" "frame_unacked (frames s ! i)"
        "\<exists>w. fst (match_payloads (cbs s) rx (unacked_frame_payload (frames s ! i)) w)"
      using a assms(2) by auto
    let ?s3 = "set_last_resend net (free_slot i s2)"
    have "world_run net (cbs s) (world s) (world ?s3)"
      using run time_run [of net "cbs s" "world s2"] by (auto simp: free_slot_def intro: rtranclp_trans)
    moreover from this have "answered net (cbs s) w0 (world ?s3) (unacked_frame_payload (frames s ! i))"
      unfolding answered_def using assms(1,3) i(3) False by (metis not_less)
    moreover have "snd (check_if_ack net rx s) = ?s3" using False scan Some by (simp add: check_if_ack_def)
    ultimately show ?thesis
      using a i recv assms(3) by (auto simp: acks_only_def free_slot_def nth_list_update intro: rtranclp_trans)
  qed
qed

lemma receive_acks_acks:
  assumes "receive_acks net s = Some s'" "queue_length s \<le> length (frames s)"
  shows "acks_only net s s'"
  using assms
proof (induction net s s' rule: receive_acks.raw_induct [rotated, consumes 1])
  case (1 loop net s s')
  obtain r w where r: "n_recv net (world s) = (r, w)" by fastforce
  have recv: "world_run net (cbs s) (world s) w" using world_step.recv [of net "cbs s" "world s"] r by (simp add: r_into_rtranclp)
  then have skip: "acks_only net s (s\<lparr>world := w\<rparr>)" by (intro acks_onlyI) simp_all
  show ?case
  proof (cases r)
    case None
    then show ?thesis using 1(2) r skip by simp
  next
    case (Some p)
    then obtain rx from_mega where p: "r = Some (rx, from_mega)" by (cases p) auto
    show ?thesis
    proof (cases "from_mega \<and> rx \<noteq> []")
      case True
      let ?s1 = "snd (check_if_ack net rx (s\<lparr>world := w\<rparr>))"
      have "acks_only net ((s\<lparr>world := w\<rparr>)\<lparr>world := world s\<rparr>) ?s1"
        using r p True 1(3) by (intro check_if_ack_acks) auto
      then have a: "acks_only net s ?s1" by simp
      then have "queue_length ?s1 \<le> length (frames ?s1)" using 1(3) by (simp add: acks_only_def)
      moreover have "loop net ?s1 = Some s'" using 1(2) r p True by simp
      ultimately show ?thesis using 1(1) acks_only_trans [OF a] by blast
    next
      case False
      then have "loop net (s\<lparr>world := w\<rparr>) = Some s'" using 1(2) r p by auto
      from 1(1) [OF this] 1(3) show ?thesis using acks_only_trans [OF skip] by simp
    qed
  qed
qed

section \<open>Waiting\<close>

lemma handler_acks: "call_timeout_handler s = Some s' \<Longrightarrow> acks_only net s s'"
  using world_step.handler [of "cbs s" _ "world s" _ net]
  by (auto simp: call_timeout_handler_def intro!: acks_onlyI r_into_rtranclp split: option.splits)

lemma resend_acks:
  "acks_only net s (set_last_resend net (update_retx_interval (s\<lparr>retx_cnt := n\<rparr>)\<lparr>world := snd (n_send net p (world s))\<rparr>))"
proof (rule acks_onlyI)
  have "world_run net (cbs s) (world s) (snd (n_send net p (world s)))" by (rule r_into_rtranclp) (rule world_step.send)
  with time_run [of net "cbs s" "snd (n_send net p (world s))"]
  show "world_run net (cbs s) (world s)
      (world (set_last_resend net (update_retx_interval (s\<lparr>retx_cnt := n\<rparr>)\<lparr>world := snd (n_send net p (world s))\<rparr>)))"
    by (auto intro: rtranclp_trans)
qed simp_all

lemma maybe_send_ack_acks:
  assumes "maybe_send_ack net s = Some s'"
  shows "acks_only net s s'"
proof -
  obtain t i where sc: "oldest_scan (window s) 0 (- 1) 0 = (t, i)" by fastforce
  obtain now s1 where g: "gettime_us net s = (now, s1)" by fastforce
  then have a: "acks_only net s s1" using gettime_acks [of net s] by simp
  show ?thesis
  proof (cases "t = - 1 \<or> \<not> now - last_resend_time s1 > retx_interval s1")
    case True
    then have "s' = s \<or> s' = s1" using assms sc g by (auto simp: maybe_send_ack_def split: if_splits)
    then show ?thesis using a by auto
  next
    case False
    let ?resent = "\<lambda>s2. set_last_resend net (update_retx_interval (s2\<lparr>retx_cnt := retx_cnt s2 + 1\<rparr>)
        \<lparr>world := snd (n_send net (unacked_frame_payload (frames s2 ! i)) (world s2))\<rparr>)"
    let ?late = "now - t > ack_timeout \<and> last_rx_time s1 \<noteq> - 1 \<and> now - last_rx_time s1 > ack_timeout"
    obtain s2 where s2: "(if ?late then call_timeout_handler s1 else Some s1) = Some s2" "s' = ?resent s2"
      using False assms sc g by (simp add: maybe_send_ack_def Let_def bind_eq_Some_conv) blast
    then have "acks_only net s1 s2" using handler_acks by (cases ?late) auto
    with a resend_acks s2(2) show ?thesis by (metis acks_only_trans)
  qed
qed

lemma acks_only_window: "acks_only net s s' \<Longrightarrow> queue_length s \<le> length (frames s) \<Longrightarrow> queue_length s' \<le> length (frames s')"
  by (simp add: acks_only_def)

lemma poll_acks_acks:
  assumes "poll_acks net s = Some s'" "queue_length s \<le> length (frames s)"
  shows "acks_only net s s'"
proof -
  obtain s1 s2 where r: "receive_acks net s = Some s1" and m: "maybe_send_ack net s1 = Some s2"
    and s': "s' = s2\<lparr>world := n_sleep net 20 (world s2)\<rparr>"
    using assms(1) by (auto simp: poll_acks_def bind_eq_Some_conv)
  have "acks_only net s2 s'" unfolding s'
    by (intro acks_onlyI) (simp_all add: r_into_rtranclp world_step.sleep)
  with receive_acks_acks [OF r assms(2)] maybe_send_ack_acks [OF m] show ?thesis by (metis acks_only_trans)
qed

lemma wait_slots_acks:
  assumes "wait_slots_since net start n timeout s = Some y" "queue_length s \<le> length (frames s)"
  shows "acks_only net s (snd y) \<and> (fst y \<longrightarrow> n \<le> queue_length (snd y) - get_num_unacked_frames (snd y))"
  using assms
proof (induction net start n timeout s y rule: wait_slots_since.raw_induct [rotated, consumes 1])
  case (1 loop net start n timeout s y)
  obtain now s1 where t: "gettime_us net s = (now, s1)" by fastforce
  then have a: "acks_only net s s1" using gettime_acks [of net s] by simp
  have q: "queue_length s1 \<le> length (frames s1)" by (rule acks_only_window [OF a 1(3)])
  consider "y = (False, s1)" | "y = (True, s1)" "n \<le> queue_length s1 - get_num_unacked_frames s1"
    | s2 where "poll_acks net s1 = Some s2" "loop net start n timeout s2 = Some y"
    using 1(2) t by (auto simp: bind_eq_Some_conv split: if_splits)
  then show ?case
  proof cases
    case 3
    note p = poll_acks_acks [OF 3(1) q]
    from 1(1) [OF 3(2) acks_only_window [OF p q]] a p show ?thesis by (blast intro: acks_only_trans)
  qed (use a in auto)
qed

lemma expect_ack_acks:
  assumes "expect_ack_since net start timeout payload s = Some y" "queue_length s \<le> length (frames s)"
  shows "\<exists>s1. acks_only net s s1 \<and>
    (if fst (fst y)
     then (\<exists>i < queue_length s1. \<not> frame_unacked (frames s1 ! i) \<and> \<not> has_duplicate payload s1
           \<and> snd y = snd (note_frame net payload i s1) \<and> snd (fst y) = fst (note_frame net payload i s1))
     else snd y = s1 \<and> snd (fst y) = payload)"
  using assms
proof (induction net start timeout payload s y rule: expect_ack_since.raw_induct [rotated, consumes 1])
  case (1 loop net start timeout payload s y)
  let ?i = "first_index (\<lambda>f. \<not> frame_unacked f) (window s)"
  show ?case
  proof (cases "?i < length (window s) \<and> \<not> has_duplicate payload s")
    case True
    then have i: "?i < queue_length s" "\<not> frame_unacked (frames s ! ?i)"
      using first_index_nth [of "\<lambda>f. \<not> frame_unacked f" "window s"] by (auto simp: window_def)
    have "y = ((True, fst (note_frame net payload ?i s)), snd (note_frame net payload ?i s))"
      using 1(2) True by (simp add: Let_def case_prod_beta)
    with i True show ?thesis by (intro exI [of _ s]) auto
  next
    case False
    then obtain s1 where p: "poll_acks net s = Some s1"
      and y: "(case gettime_us net s1 of (now, s2) \<Rightarrow> if now - start > timeout * 1000 then Some ((False, payload), s2)
          else loop net start timeout payload s2) = Some y"
      using 1(2) by (auto simp: Let_def bind_eq_Some_conv)
    obtain now s2 where t: "gettime_us net s1 = (now, s2)" by fastforce
    have a: "acks_only net s s2"
      using poll_acks_acks [OF p 1(3)] gettime_acks [of net s1] t by (metis acks_only_trans snd_conv)
    show ?thesis
    proof (cases "now - start > timeout * 1000")
      case True
      with y t a show ?thesis by (intro exI [of _ s2]) auto
    next
      case False
      with y t have "loop net start timeout payload s2 = Some y" by simp
      from 1(1) [OF this acks_only_window [OF a 1(3)]] show ?thesis using acks_only_trans [OF a] by blast
    qed
  qed
qed

lemma note_frame_fields:
  assumes "r = note_frame net payload i s"
  shows "\<exists>t. frames (snd r) = (frames s)[i := \<lparr>frame_unacked = True, unacked_frame_payload = fst r, unacked_sent_time = t\<rparr>]"
    "fst r = embed_packet_seq (cbs s) payload (packet_seq s)" "packet_seq (snd r) = packet_seq s + 1"
    "cbs (snd r) = cbs s" "world_run net (cbs s) (world s) (world (snd r))"
  using rtranclp_trans [OF time_run [of net "cbs s" "world s"] time_run]
  by (auto simp: assms note_frame_def Let_def gettime_us_def case_prod_beta)

lemma send_until_taken_run: "send_until_taken net p w = Some w' \<Longrightarrow> world_run net cb w w'"
proof (induction net p w w' rule: send_until_taken.raw_induct [rotated, consumes 1])
  case (1 loop net p w w')
  obtain ok v where v: "n_send net p w = (ok, v)" by fastforce
  then have "world_step net cb w v" using world_step.send [of net cb w p] by simp
  then show ?case using 1 v by (auto split: if_splits intro: converse_rtranclp_into_rtranclp)
qed

section \<open>Time\<close>

text \<open>
  A world in which the clock does not go back, sleeping takes its time, only finitely many packets
  have arrived at any moment, and a time-out handler comes back.
\<close>

definition steady :: "'w net \<Rightarrow> 'w callbacks \<Rightarrow> ('w \<Rightarrow> int) \<Rightarrow> ('w \<Rightarrow> nat) \<Rightarrow> bool" where
  "steady net cb clock backlog \<longleftrightarrow>
     (\<forall>w. fst (n_time net w) = clock w) \<and> (\<forall>w w'. world_step net cb w w' \<longrightarrow> clock w \<le> clock w')
     \<and> (\<forall>w. clock w + 20 \<le> clock (n_sleep net 20 w))
     \<and> (\<forall>w. fst (n_recv net w) \<noteq> None \<longrightarrow> backlog (snd (n_recv net w)) < backlog w)
     \<and> (\<forall>w. backlog (snd (n_time net w)) \<le> backlog w)
     \<and> (\<forall>rx tx w. backlog (snd (match_payloads cb rx tx w)) \<le> backlog w)
     \<and> (\<forall>h w. timeout_handler cb = Some h \<longrightarrow> h w \<noteq> None)"

lemma ack_scan_backlog:
  "steady net (cbs s) clock backlog \<Longrightarrow> backlog (world (snd (ack_scan rx is s))) \<le> backlog (world s)"
proof (induction rx "is" s rule: ack_scan.induct)
  case (2 rx i "is" s)
  let ?m = "match_payloads (cbs s) rx (unacked_frame_payload (frames s ! i)) (world s)"
  have m: "backlog (snd ?m) \<le> backlog (world s)" using 2(3) by (simp add: steady_def)
  show ?case
  proof (cases "frame_unacked (frames s ! i) \<and> \<not> fst ?m")
    case True
    then have "backlog (world (snd (ack_scan rx is (s\<lparr>world := snd ?m\<rparr>)))) \<le> backlog (snd ?m)"
      using 2(1) [OF _ prod.collapse] 2(3) by fastforce
    then show ?thesis using True m by (simp add: case_prod_beta)
  qed (use 2 m in \<open>auto simp: case_prod_beta\<close>)
qed simp

lemma check_if_ack_backlog:
  assumes "steady net (cbs s) clock backlog"
  shows "backlog (world (snd (check_if_ack net rx s))) \<le> backlog (world s)" "cbs (snd (check_if_ack net rx s)) = cbs s"
proof -
  let ?s1 = "note_reception net (get_packet_seq (cbs s) rx) s"
  obtain r s2 where scan: "ack_scan rx [0 ..< queue_length s] ?s1 = (r, s2)" by fastforce
  have tm: "backlog (snd (n_time net w)) \<le> backlog w" for w using assms by (simp add: steady_def)
  have "backlog (world s2) \<le> backlog (world ?s1)" using ack_scan_backlog [of net ?s1 clock backlog rx] assms scan by (metis note_reception_fields(1) snd_conv)
  then have "backlog (world s2) \<le> backlog (world s)" using tm [of "world s"] by simp
  moreover have "cbs s2 = cbs s" using ack_scan_result [OF scan, of net] by simp
  ultimately show "backlog (world (snd (check_if_ack net rx s))) \<le> backlog (world s)"
      "cbs (snd (check_if_ack net rx s)) = cbs s"
    using scan tm [of "world s2"] by (auto simp: check_if_ack_def Let_def free_slot_def split: option.split intro: order_trans)
qed

lemma receive_acks_returns: "steady net (cbs s) clock backlog \<Longrightarrow> \<exists>s'. receive_acks net s = Some s'"
proof (induction "backlog (world s)" arbitrary: s rule: less_induct)
  case less
  obtain r w where r: "n_recv net (world s) = (r, w)" by fastforce
  show ?case
  proof (cases r)
    case None
    then show ?thesis using r by (subst receive_acks.simps) simp
  next
    case (Some p)
    then obtain rx from_mega where p: "r = Some (rx, from_mega)" by (cases p) auto
    have b: "backlog w < backlog (world s)" using less.prems r p unfolding steady_def by (metis fst_conv option.distinct(1) snd_conv)
    let ?s = "s\<lparr>world := w\<rparr>"
    have c: "backlog (world (snd (check_if_ack net rx ?s))) \<le> backlog w" "cbs (snd (check_if_ack net rx ?s)) = cbs s"
      using check_if_ack_backlog [of net ?s clock backlog rx] less.prems by simp_all
    show ?thesis
    proof (cases "from_mega \<and> rx \<noteq> []")
      case True
      then show ?thesis using less.hyps [of "snd (check_if_ack net rx ?s)"] b c less.prems r p
        by (subst receive_acks.simps) simp
    next
      case False
      then show ?thesis using less.hyps [of ?s] b less.prems r p by (subst receive_acks.simps) auto
    qed
  qed
qed

lemma maybe_send_ack_returns:
  assumes "steady net (cbs s) clock backlog"
  shows "\<exists>s'. maybe_send_ack net s = Some s'"
proof -
  have "call_timeout_handler (snd (gettime_us net s)) \<noteq> None"
    using assms by (auto simp: call_timeout_handler_def steady_def split: option.split)
  then obtain s2 where "call_timeout_handler (snd (gettime_us net s)) = Some s2" by blast
  then show ?thesis by (simp add: maybe_send_ack_def Let_def case_prod_beta)
qed

lemma steady_run: "steady net cb clock backlog \<Longrightarrow> world_run net cb w w' \<Longrightarrow> clock w \<le> clock w'"
  by (rotate_tac 1, induction rule: rtranclp_induct) (auto simp: steady_def intro: order_trans)

lemma poll_acks_returns:
  assumes "steady net (cbs s) clock backlog" "queue_length s \<le> length (frames s)"
  shows "\<exists>s'. poll_acks net s = Some s' \<and> acks_only net s s' \<and> clock (world s) + 20 \<le> clock (world s')"
proof -
  obtain s1 where r: "receive_acks net s = Some s1" using receive_acks_returns [OF assms(1)] by blast
  note a1 = receive_acks_acks [OF r assms(2)]
  then have st: "steady net (cbs s1) clock backlog" using assms(1) by (simp add: acks_only_def)
  then obtain s2 where m: "maybe_send_ack net s1 = Some s2" using maybe_send_ack_returns by blast
  have a2: "acks_only net s s2" by (rule acks_only_trans [OF a1 maybe_send_ack_acks [OF m]])
  have p: "poll_acks net s = Some (s2\<lparr>world := n_sleep net 20 (world s2)\<rparr>)" using r m by (simp add: poll_acks_def)
  have "clock (world s) \<le> clock (world s2)" using a2 steady_run [OF assms(1)] by (simp add: acks_only_def)
  also have "clock (world s2) + 20 \<le> clock (n_sleep net 20 (world s2))" using assms(1) by (simp add: steady_def)
  finally show ?thesis using p poll_acks_acks [OF p assms(2)] by simp
qed

lemma wait_slots_returns:
  assumes "steady net (cbs s) clock backlog" "queue_length s \<le> length (frames s)"
  shows "\<exists>y. wait_slots_since net start n timeout s = Some y"
  using assms
proof (induction "nat (start + timeout * 1000 - clock (world s))" arbitrary: s rule: less_induct)
  case less
  obtain now s1 where t: "gettime_us net s = (now, s1)" by fastforce
  then have a: "acks_only net s s1" using gettime_acks [of net s] by simp
  have now: "now = clock (world s)" using t less.prems(1) gettime_fields(6) [of net s] by (simp add: steady_def)
  have later: "clock (world s) \<le> clock (world s1)" using a steady_run [OF less.prems(1)] by (simp add: acks_only_def)
  show ?case
  proof (cases "now - start < timeout * 1000 \<and> \<not> n \<le> queue_length s1 - get_num_unacked_frames s1")
    case True
    have "steady net (cbs s1) clock backlog" "queue_length s1 \<le> length (frames s1)"
      using a less.prems acks_only_window [OF a less.prems(2)] by (simp_all add: acks_only_def)
    from poll_acks_returns [OF this] obtain s2 where p: "poll_acks net s1 = Some s2" "acks_only net s1 s2"
        "clock (world s1) + 20 \<le> clock (world s2)" by blast
    have a2: "acks_only net s s2" by (rule acks_only_trans [OF a p(2)])
    have "nat (start + timeout * 1000 - clock (world s2)) < nat (start + timeout * 1000 - clock (world s))"
      using True now later p(3) by linarith
    from less.hyps [OF this] obtain y where "wait_slots_since net start n timeout s2 = Some y"
      using a2 less.prems acks_only_window [OF a2 less.prems(2)] by (auto simp: acks_only_def)
    then show ?thesis using True t p(1) by (subst wait_slots_since.simps) simp
  next
    case False
    then show ?thesis using t by (subst wait_slots_since.simps) auto
  qed
qed

section \<open>Packet formats\<close>

text \<open>
  What the transport relies on in a client's packets: the sequence number put in is the one read
  out, up to 16 bits, it is never negative, and putting it in keeps the packet otherwise.
\<close>

locale packet_format =
  fixes ok :: "bytes \<Rightarrow> bool" and get_seq :: "bytes \<Rightarrow> int" and embed :: "bytes \<Rightarrow> int \<Rightarrow> bytes" and pos :: nat
  assumes embed_eq: "ok p \<Longrightarrow> embed p n = blit pos (seq_bytes n) p"
    and get_eq: "ok p \<Longrightarrow> get_seq p = seq_at pos p"
    and room: "ok p \<Longrightarrow> pos + 2 \<le> length p"
    and ok_length: "ok p \<Longrightarrow> length q = length p \<Longrightarrow> ok q"
begin

lemma embed_length: "ok p \<Longrightarrow> length (embed p n) = length p"
  using room [of p] by (simp add: embed_eq seq_bytes_def)

lemma embed_ok: "ok p \<Longrightarrow> ok (embed p n)"
  using ok_length embed_length by blast

lemma embed_other: "ok p \<Longrightarrow> i < length p \<Longrightarrow> i \<noteq> pos \<Longrightarrow> i \<noteq> pos + 1 \<Longrightarrow> embed p n ! i = p ! i"
proof -
  assume p: "ok p" "i < length p" "i \<noteq> pos" "i \<noteq> pos + 1"
  then have "\<not> (pos \<le> i \<and> i < pos + 2)" by linarith
  with p room [OF p(1)] show ?thesis by (auto simp: embed_eq seq_bytes_def nth_blit)
qed

lemma get_embed: "ok p \<Longrightarrow> get_seq (embed p n) = n mod 2 ^ 16"
proof -
  assume p: "ok p"
  have "embed p n ! pos = word_of_int n" "embed p n ! (pos + 1) = word_of_int (drop_bit 8 n)"
    using room [OF p] by (simp_all add: embed_eq [OF p] seq_bytes_def nth_blit)
  then have "get_seq (embed p n) = uint (word_of_int n :: u8) + push_bit 8 (uint (word_of_int (drop_bit 8 n) :: u8))"
    by (simp add: get_eq [OF embed_ok [OF p]] seq_at_def)
  also have "\<dots> = n mod 2 ^ 8 + 2 ^ 8 * (n div 2 ^ 8 mod 2 ^ 8)"
    by (simp add: uint_word_of_int push_bit_eq_mult drop_bit_eq_div)
  also have "\<dots> = n mod 2 ^ 16" using zmod_zmult2_eq [of "2 ^ 8" n "2 ^ 8"] by simp
  finally show ?thesis .
qed

lemma get_nonneg: "ok p \<Longrightarrow> 0 \<le> get_seq p"
  by (simp add: get_eq seq_at_def push_bit_eq_mult)

end

interpretation dmaload: packet_format "\<lambda>p. length p = 1280" dmaload_get_packet_seq dmaload_embed_packet_seq ethlet_dma_load_offset_seq_num
  by unfold_locales (simp_all add: dmaload_get_packet_seq_def dmaload_embed_packet_seq_def ethlet_offsets)

interpretation ethernet: packet_format "\<lambda>p. 7 \<le> length p" ethernet_get_packet_seq ethernet_embed_packet_seq 4
  by unfold_locales (simp_all add: ethernet_get_packet_seq_def ethernet_embed_packet_seq_def)

interpretation singlecmd: packet_format "\<lambda>p. length p = 1024" singlecmd_get_packet_seq singlecmd_embed_packet_seq 1022
  by unfold_locales (simp_all add: singlecmd_get_packet_seq_def singlecmd_embed_packet_seq_def)

lemma length_mem_packet [simp]: "length p = 1280 \<Longrightarrow> length buffer \<le> 1088 \<Longrightarrow> length (mem_packet address buffer p) = 1280"
  by (simp add: mem_packet_def Let_def ethlet_offsets)

lemma split28:
  fixes a :: int
  shows "2 ^ 20 * (a div 2 ^ 20 mod 2 ^ 8) + 2 ^ 16 * (a div 2 ^ 16 mod 2 ^ 4) + 2 ^ 8 * (a div 2 ^ 8 mod 2 ^ 8) + a mod 2 ^ 8
    = a mod 2 ^ 28"
proof -
  have p: "2 ^ 28 = (2 ^ 20 * 2 ^ 8 :: int)" "2 ^ 20 = (2 ^ 16 * 2 ^ 4 :: int)" "2 ^ 16 = (2 ^ 8 * 2 ^ 8 :: int)" by simp_all
  have "a mod 2 ^ 28 = 2 ^ 20 * (a div 2 ^ 20 mod 2 ^ 8) + a mod 2 ^ 20"
    unfolding p(1) by (rule zmod_zmult2_eq) simp
  moreover have "a mod 2 ^ 20 = 2 ^ 16 * (a div 2 ^ 16 mod 2 ^ 4) + a mod 2 ^ 16"
    unfolding p(2) by (rule zmod_zmult2_eq) simp
  moreover have "a mod 2 ^ 16 = 2 ^ 8 * (a div 2 ^ 8 mod 2 ^ 8) + a mod 2 ^ 8"
    unfolding p(3) by (rule zmod_zmult2_eq) simp
  ultimately show ?thesis by (simp only: add.assoc)
qed

lemma mem_packet_addr:
  assumes "length p = 1280" "length buffer \<le> 1088"
  shows "dmaload_parse_load_addr (mem_packet address buffer p) = uint address mod 2 ^ 28"
proof -
  have f: "mem_packet address buffer p ! 0x24 = ucast (drop_bit 20 address)"
    "mem_packet address buffer p ! 0x2c = ucast address"
    "mem_packet address buffer p ! 0x2d = ucast (drop_bit 8 address)"
    "mem_packet address buffer p ! 0x2e = ucast (drop_bit 16 address) AND 0x0f"
    using assms by (simp_all add: mem_packet_def Let_def ethlet_offsets nth_blit)
  let ?a = "uint address"
  have "?a mod 2 ^ 32 = ?a" using uint_lt2p [of address] by simp
  then have w: "uint (ucast (drop_bit k address) :: u8) = ?a div 2 ^ k mod 2 ^ 8" for k
    by (simp add: unsigned_ucast_eq unsigned_drop_bit_eq take_bit_eq_mod drop_bit_eq_div [where 'a = int])
  have low: "uint (x AND 0x0f AND 0xf) = uint x mod 2 ^ 4" for x :: u8
    using take_bit_eq_mask [of 4 "uint x"] by (simp add: and.assoc uint_and take_bit_eq_mod mask_eq_exp_minus_1)
  have b: "uint (mem_packet address buffer p ! 0x2e AND 0xf) = ?a div 2 ^ 16 mod 2 ^ 4"
    using low [of "ucast (drop_bit 16 address)"] mod_mod_cancel [of "2 ^ 4 :: int" "2 ^ 8" "?a div 2 ^ 16"]
    by (simp only: f w) (simp add: le_imp_power_dvd)
  have f3: "mem_packet address buffer p ! (0x2c + 1) = ucast (drop_bit 8 address)" using f(3) by simp
  have w0: "uint (ucast address :: u8) = ?a mod 2 ^ 8" using w [of 0] by simp
  have "dmaload_parse_load_addr (mem_packet address buffer p)
      = 2 ^ 20 * (?a div 2 ^ 20 mod 2 ^ 8) + 2 ^ 16 * (?a div 2 ^ 16 mod 2 ^ 4) + 2 ^ 8 * (?a div 2 ^ 8 mod 2 ^ 8) + ?a mod 2 ^ 8"
    unfolding dmaload_parse_load_addr_def ethlet_offsets b f(1,2) f3 w w0 push_bit_eq_mult by (simp only: mult.commute)
  also have "\<dots> = ?a mod 2 ^ 28" by (rule split28)
  finally show ?thesis .
qed

section \<open>A sample connection\<close>

text \<open>
  A socket with the packets still to arrive and a clock, with the read buffers of the client; the
  first slot waits for the answer to a hello packet.
\<close>

type_synonym sample_world = "(int \<times> bytes list) \<times> eth_result"

definition sample_net :: "sample_world net" where
  "sample_net = \<lparr>n_time = (\<lambda>w. (fst (fst w), w)),
     n_recv = (\<lambda>w. case snd (fst w) of [] \<Rightarrow> (None, w) | p # ps \<Rightarrow> (Some (p, True), ((fst (fst w), ps), snd w))),
     n_send = (\<lambda>p w. (True, w)), n_broadcast = (\<lambda>p w. w),
     n_sleep = (\<lambda>n w. ((fst (fst w) + int n, snd (fst w)), snd w))\<rparr>"

definition hello :: bytes where
  "hello = mreq @ [0, 0, 0xfd]"

definition sample_ethl :: "bytes list \<Rightarrow> nat \<Rightarrow> sample_world ethl" where
  "sample_ethl inbox n = \<lparr>frames = \<lparr>frame_unacked = True, unacked_frame_payload = hello, unacked_sent_time = 0\<rparr> # replicate 255 free_frame,
     queue_length = n, retx_interval = 1000, retx_cnt = 0, last_resend_time = 0, last_rx_time = - 1, last_rx_intv = 0,
     packet_seq = 1, last_rx_seq = 0, cbs = ethernet_callbacks 0, dma_load_rom_write_enable = False,
     rom_write_enabled = False, ethlet_dma_load = replicate 1280 0,
     world = ((0, inbox), \<lparr>queue_read_data = (\<lambda>_. 0), memory_read_buffer = [], memory_read_buffer_len = 0, mount_file_response = 0\<rparr>)\<rparr>"

definition sample_wait :: "(bool \<times> sample_world ethl) option" where
  "sample_wait = wait_all_acks sample_net 3000 (sample_ethl [mrsp @ [0, 0, 0xfd]] 4)"

lemma sample_wait_result: "map_option fst sample_wait = Some True"
  by code_simp

definition sample_send :: "((bool \<times> bytes) \<times> sample_world ethl) option" where
  "sample_send = ethl_send_packet sample_net hello 3000 (sample_ethl [] 4)"

lemma sample_send_result: "map_option (\<lambda>y. fst (fst y)) sample_send = Some True"
  by code_simp

lemma sample_fits: "n \<le> 256 \<Longrightarrow> queue_length (sample_ethl inbox n) \<le> length (frames (sample_ethl inbox n))"
  by (simp add: sample_ethl_def)

section \<open>Properties\<close>

text \<open>
  C25: no frame is given up.  When \<open>wait_all_acks\<close> reports success, no frame of the window waits any
  more, and for every frame that did wait, the socket delivered, in the meantime, a packet of the MEGA65
  that the client accepted as its answer.
\<close>
theorem wait_all_acks_loses_no_frame:
  assumes "wait_all_acks net timeout_ms s = Some (True, s')" "queue_length s \<le> length (frames s)" "i < queue_length s"
  shows "\<not> frame_unacked (frames s' ! i)
    \<and> (frame_unacked (frames s ! i) \<longrightarrow> answered net (cbs s) (world s) (world s') (unacked_frame_payload (frames s ! i)))"
proof -
  let ?s1 = "snd (gettime_us net s)"
  have "wait_slots_since net (fst (gettime_us net s)) (queue_length s) timeout_ms ?s1 = Some (True, s')"
    using assms(1) by (simp add: wait_all_acks_def wait_ack_slots_available_def case_prod_beta)
  from wait_slots_acks [OF this] assms(2)
  have w: "acks_only net ?s1 s'" "queue_length s \<le> queue_length s' - get_num_unacked_frames s'" by simp_all
  have a: "acks_only net s s'" by (rule acks_only_trans [OF gettime_acks w(1)])
  then have q: "queue_length s' = queue_length s" "length (frames s') = length (frames s)" by (simp_all add: acks_only_def)
  then have "length (filter frame_unacked (window s')) = 0"
    using w(2) assms(3) unfolding get_num_unacked_frames_def by linarith
  then have "filter frame_unacked (window s') = []" by simp
  moreover have "frames s' ! i \<in> set (window s')"
    using assms(2,3) q by (auto simp: window_def in_set_conv_nth intro!: exI [of _ i])
  ultimately have free: "\<not> frame_unacked (frames s' ! i)" by (simp add: filter_empty_conv)
  moreover have "i < length (frames s)" using assms(2,3) by simp
  ultimately show ?thesis using a by (auto simp: acks_only_def)
qed

theorem wait_all_acks_loses_no_frame_witness:
  "\<exists>s'. sample_wait = Some (True, s') \<and> \<not> frame_unacked (frames s' ! 0)
    \<and> answered sample_net (ethernet_callbacks 0) (world (sample_ethl [mrsp @ [0, 0, 0xfd]] 4)) (world s') hello"
proof -
  obtain s' where s': "sample_wait = Some (True, s')" using sample_wait_result by auto
  from wait_all_acks_loses_no_frame [OF this [unfolded sample_wait_def] sample_fits, of 0]
  have "\<not> frame_unacked (frames s' ! 0)
    \<and> answered sample_net (ethernet_callbacks 0) (world (sample_ethl [mrsp @ [0, 0, 0xfd]] 4)) (world s') hello"
    by (simp add: sample_ethl_def)
  with s' show ?thesis by blast
qed

text \<open>
  Sending never pushes a frame out of the window.  When \<open>ethl_send_packet\<close> succeeds, the packet with the
  next sequence number waits in some slot; every frame that waited before still does, or was answered in the
  meantime, also the one whose slot is used again.
\<close>
lemma send_keeps_waiting_frames:
  assumes "ethl_send_packet net payload timeout_ms s = Some ((True, p), s')" "queue_length s \<le> length (frames s)"
  shows "p = embed_packet_seq (cbs s) payload (packet_seq s) \<and> packet_seq s' = packet_seq s + 1
    \<and> (\<exists>i < queue_length s. frame_unacked (frames s' ! i) \<and> unacked_frame_payload (frames s' ! i) = p
        \<and> (\<forall>j < length (frames s). frame_unacked (frames s ! j) \<longrightarrow>
             (j \<noteq> i \<and> frames s' ! j = frames s ! j)
             \<or> answered net (cbs s) (world s) (world s') (unacked_frame_payload (frames s ! j))))"
proof -
  let ?s0 = "snd (gettime_us net s)"
  obtain s2 w where e: "expect_ack_since net (fst (gettime_us net s)) timeout_ms payload ?s0 = Some ((True, p), s2)"
    and w: "send_until_taken net p (world s2) = Some w" "s' = s2\<lparr>world := w\<rparr>"
    using assms(1) by (auto simp: ethl_send_packet_def expect_ack_def case_prod_beta bind_eq_Some_conv split: if_splits)
  from expect_ack_acks [OF e] assms(2) obtain s1 i where a0: "acks_only net ?s0 s1"
    and i: "i < queue_length s1" "\<not> frame_unacked (frames s1 ! i)"
    and n: "s2 = snd (note_frame net payload i s1)" "p = fst (note_frame net payload i s1)"
    by auto
  have a: "acks_only net s s1" by (rule acks_only_trans [OF gettime_acks a0])
  then have q: "queue_length s1 = queue_length s" "length (frames s1) = length (frames s)" "cbs s1 = cbs s"
      "packet_seq s1 = packet_seq s" by (simp_all add: acks_only_def)
  obtain t where f: "frames s2 = (frames s1)[i := \<lparr>frame_unacked = True, unacked_frame_payload = p, unacked_sent_time = t\<rparr>]"
      "p = embed_packet_seq (cbs s1) payload (packet_seq s1)" "packet_seq s2 = packet_seq s1 + 1" "cbs s2 = cbs s1"
      "world_run net (cbs s1) (world s1) (world s2)"
    using note_frame_fields [OF refl [of "note_frame net payload i s1"], folded n] by blast
  have run: "world_run net (cbs s) (world s1) (world s')"
    using f(5) send_until_taken_run [OF w(1), of "cbs s"] w(2) q(3) by (auto intro: rtranclp_trans)
  have "(j \<noteq> i \<and> frames s' ! j = frames s ! j) \<or> answered net (cbs s) (world s) (world s') (unacked_frame_payload (frames s ! j))"
    if j: "j < length (frames s)" "frame_unacked (frames s ! j)" for j
  proof (cases "frames s1 ! j = frames s ! j")
    case True
    then have "j \<noteq> i" using i(2) j(2) by auto
    then show ?thesis using True f(1) w(2) by simp
  next
    case False
    then have "answered net (cbs s) (world s) (world s1) (unacked_frame_payload (frames s ! j))"
      using a j by (auto simp: acks_only_def)
    then show ?thesis using answered_extend [OF _ rtranclp.rtrancl_refl run] by blast
  qed
  moreover have "frame_unacked (frames s' ! i)" "unacked_frame_payload (frames s' ! i) = p"
    using f(1) w(2) i(1) q assms(2) by simp_all
  ultimately show ?thesis using f(2,3) w(2) q i(1) by auto
qed

text \<open>
  C26: waiting comes to an end.  In a world whose clock runs and in which only finitely many packets have arrived
  at any moment, \<open>wait_ack_slots_available\<close> returns, whether the answers come or not.
\<close>
theorem waiting_ends:
  assumes "steady net (cbs s) clock backlog" "queue_length s \<le> length (frames s)"
  shows "\<exists>r s'. wait_ack_slots_available net n timeout_ms s = Some (r, s')"
  using wait_slots_returns [of net "snd (gettime_us net s)" clock backlog "fst (gettime_us net s)" n timeout_ms] assms
  by (simp add: wait_ack_slots_available_def case_prod_beta)

lemma sample_steady: "steady sample_net (cbs (sample_ethl inbox n)\<lparr>timeout_handler := None\<rparr>) (\<lambda>w. fst (fst w)) (\<lambda>w. length (snd (fst w)))"
proof -
  let ?cb = "cbs (sample_ethl inbox n)\<lparr>timeout_handler := None\<rparr>"
  have m: "fst (snd (match_payloads ?cb rx tx w)) = fst w" for rx tx w
    by (simp add: sample_ethl_def ethernet_callbacks_def ethernet_match_payloads_def Let_def)
  have "fst (fst w) \<le> fst (fst w')" if "world_step sample_net ?cb w w'" for w w'
    using that
  proof cases
    case (matching rx tx)
    then show ?thesis using m by simp
  qed (auto simp: sample_net_def split: list.split)
  then show ?thesis using m by (auto simp: steady_def sample_net_def split: list.splits)
qed

theorem waiting_ends_witness:
  "\<exists>r s'. wait_ack_slots_available sample_net 4 3000 ((sample_ethl [hello] 4)\<lparr>cbs := (ethernet_callbacks 0)\<lparr>timeout_handler := None\<rparr>\<rparr>) = Some (r, s')"
  using waiting_ends [of sample_net "(sample_ethl [hello] 4)\<lparr>cbs := (ethernet_callbacks 0)\<lparr>timeout_handler := None\<rparr>\<rparr>"]
    sample_steady [of "[hello]" 4] sample_fits [of 4 "[hello]"] by (simp add: sample_ethl_def)

text \<open>
  A command that times out leaves the transport deaf.  When \<open>ethl_single_command\<close> cannot place its packet in
  the window in time, it fails without putting the client's callbacks back: from then on every answer that is
  not 1024 bytes long is ignored, so no waiting frame of the client is ever acknowledged.
\<close>
lemma single_command_timeout_deaf:
  assumes "wait_all_acks net timeout_ms s = Some (r, s1)" "queue_length s \<le> length (frames s)"
    and "ethl_send_packet net payload timeout_ms (s1\<lparr>cbs := echo_callbacks (cbs s1)\<rparr>) = Some ((False, p), s')"
    and "length rx \<noteq> 1024"
  shows "ethl_single_command net payload timeout_ms s = Some (False, s') \<and> check_if_ack net rx s' = (False, s')"
proof -
  let ?s2 = "s1\<lparr>cbs := echo_callbacks (cbs s1)\<rparr>"
  have "wait_slots_since net (fst (gettime_us net s)) (queue_length s) timeout_ms (snd (gettime_us net s)) = Some (r, s1)"
    using assms(1) by (simp add: wait_all_acks_def wait_ack_slots_available_def case_prod_beta)
  from wait_slots_acks [OF this] assms(2) have "acks_only net (snd (gettime_us net s)) s1" by simp
  then have q: "queue_length s1 \<le> length (frames s1)" using assms(2) by (simp add: acks_only_def)
  have e: "expect_ack_since net (fst (gettime_us net ?s2)) timeout_ms payload (snd (gettime_us net ?s2)) = Some ((False, p), s')"
    using assms(3) by (auto simp: ethl_send_packet_def expect_ack_def case_prod_beta bind_eq_Some_conv split: if_splits)
  from expect_ack_acks [OF e] q have "acks_only net (snd (gettime_us net ?s2)) s'" by auto
  then have "cbs s' = echo_callbacks (cbs s1)" by (simp add: acks_only_def)
  then have "check_if_ack net rx s' = (False, s')"
    using assms(4) by (simp add: check_if_ack_def echo_callbacks_def singlecmd_get_packet_seq_def)
  then show ?thesis using assms(1,3) by (simp add: ethl_single_command_def)
qed

definition sample_deaf :: "(bool \<times> sample_world ethl) option" where
  "sample_deaf = do {
     (_, s1) \<leftarrow> wait_all_acks sample_net 0 (sample_ethl [] 1);
     ((ok, _), s2) \<leftarrow> ethl_send_packet sample_net (replicate 1024 0) 0 (s1\<lparr>cbs := echo_callbacks (cbs s1)\<rparr>);
     Some (ok, s2) }"

lemma sample_deaf_result: "map_option fst sample_deaf = Some False"
  by code_simp

text \<open>
  What \<open>send_mem\<close> packs is what the loader's side reads: the address, up to 28 bits, the data and, after
  the transport has filled it in, the sequence number, up to 16 bits.
\<close>
lemma mem_packet_roundtrip:
  assumes "length p = 1280" "length buffer \<le> 1088"
  shows "length (dmaload_embed_packet_seq (mem_packet address buffer p) n) = 1280
    \<and> dmaload_get_packet_seq (dmaload_embed_packet_seq (mem_packet address buffer p) n) = n mod 2 ^ 16
    \<and> dmaload_parse_load_addr (dmaload_embed_packet_seq (mem_packet address buffer p) n) = uint address mod 2 ^ 28
    \<and> subbuf ethlet_dma_load_offset_data (length buffer) (dmaload_embed_packet_seq (mem_packet address buffer p) n) = buffer"
proof (intro conjI)
  let ?m = "mem_packet address buffer p" and ?q = "dmaload_embed_packet_seq (mem_packet address buffer p) n"
  have m: "length ?m = 1280" using assms by simp
  show len: "length ?q = 1280" using dmaload.embed_length [OF m] m by simp
  show "dmaload_get_packet_seq ?q = n mod 2 ^ 16" by (rule dmaload.get_embed [OF m])
  have same: "?q ! i = ?m ! i" if "i < 1280" "i \<noteq> 0xbe" "i \<noteq> 0xbf" for i
    using dmaload.embed_other [OF m, of i n] that m by (simp add: ethlet_offsets)
  then show "dmaload_parse_load_addr ?q = uint address mod 2 ^ 28"
    using mem_packet_addr [OF assms, of address] by (simp add: dmaload_parse_load_addr_def ethlet_offsets)
  show "subbuf ethlet_dma_load_offset_data (length buffer) ?q = buffer"
  proof (rule nth_equalityI)
    show "length (subbuf ethlet_dma_load_offset_data (length buffer) ?q) = length buffer"
      using len assms(2) by (simp add: ethlet_offsets)
    fix i assume "i < length (subbuf ethlet_dma_load_offset_data (length buffer) ?q)"
    then have i: "i < length buffer" by simp
    then have "subbuf ethlet_dma_load_offset_data (length buffer) ?q ! i = ?m ! (0xc0 + i)"
      using len assms(2) same [of "0xc0 + i"] by (simp add: nth_subbuf ethlet_offsets)
    also have "\<dots> = buffer ! i" using i assms by (simp add: mem_packet_def Let_def ethlet_offsets nth_blit)
    finally show "subbuf ethlet_dma_load_offset_data (length buffer) ?q ! i = buffer ! i" .
  qed
qed

end
