(* ===== verification/Listing.thy ===== *)
theory Listing
  imports DirTree "HOL-Library.Sublist" "HOL-Library.Multiset"
begin

text \<open>
  Listings and wildcards (\<open>src/lib/libm65ftp/mega65_ftp.c\<close>): the order in which
  \<open>read_direntries\<close> puts the entries of a directory, and which names the patterns of
  \<open>is_match\<close> accept.
\<close>

section \<open>Wildcards\<close>

definition folded :: "bool \<Rightarrow> bytes \<Rightarrow> bytes" where
  "folded case_sensitive s = (if case_sensitive then s else map to_lower s)"

definition literal :: "bytes \<Rightarrow> bool" where
  "literal p \<longleftrightarrow> 0x2a \<notin> set p \<and> 0x3f \<notin> set p"

lemma folded_simps [simp]: "folded cs [] = []" "folded cs (c # s) = (if cs then c else to_lower c) # folded cs s"
  by (simp_all add: folded_def)

lemma literal_Cons [simp]: "literal (c # p) \<longleftrightarrow> c \<noteq> 0x2a \<and> c \<noteq> 0x3f \<and> literal p"
  by (auto simp: literal_def)

lemma compare_char_folded: "compare_char a b cs \<longleftrightarrow> (if cs then a else to_lower a) = (if cs then b else to_lower b)"
  by (simp add: compare_char_def)

lemma to_lower_star [simp]: "to_lower c = 0x2a \<longleftrightarrow> c = 0x2a" "to_lower 0x2a = 0x2a"
proof -
  have "unat (to_lower c) = 42 \<longleftrightarrow> unat c = 42" by (auto simp: to_lower_def word_le_nat_alt unat_word_ariths)
  then show "to_lower c = 0x2a \<longleftrightarrow> c = 0x2a" by (simp only: word_unat_eq_iff) simp
qed (simp add: to_lower_def)

lemma folded_Nil_iff [simp]: "folded cs s = [] \<longleftrightarrow> s = []"
  by (simp add: folded_def)

lemma match_literal: "literal p \<Longrightarrow> line \<noteq> [] \<Longrightarrow> p \<noteq> [] \<Longrightarrow> is_match_loop cs False line p = Some (folded cs line = folded cs p)"
proof (induction p arbitrary: line)
  case (Cons x p)
  then obtain c l where l: "line = c # l" by (cases line) auto
  show ?case
  proof (cases "l = [] \<or> p = []")
    case True
    then show ?thesis using Cons.prems by (cases l; cases p) (auto simp: l compare_char_folded)
  next
    case False
    then show ?thesis using Cons by (auto simp: l compare_char_folded)
  qed
qed simp

lemma match_prefix: "literal p \<Longrightarrow> line \<noteq> [] \<Longrightarrow> 0x2a \<notin> set line \<Longrightarrow> is_match_loop cs False line (p @ [0x2a]) = Some (strict_prefix (folded cs p) (folded cs line))"
proof (induction p arbitrary: line)
  case Nil
  then show ?case by (cases line) (auto simp: compare_char_def split: if_splits)
next
  case (Cons x p)
  then obtain c l where l: "line = c # l" by (cases line) auto
  show ?case using Cons.IH [of l] Cons.prems by (cases "l = []") (auto simp: l compare_char_folded)
qed

lemma match_after_star: "literal p \<Longrightarrow> line \<noteq> [] \<Longrightarrow> is_match_loop cs True line p = Some (subseq (folded cs p) (folded cs line))"
proof (induction cs True line p rule: is_match_loop.induct)
  case (3 cs c line)
  then show ?case by (cases line) auto
next
  case (4 cs c line x p)
  then show ?case by (cases line) (auto simp: compare_char_folded dest: list_emb_Nil2)
qed auto

section \<open>Sorted listings\<close>

text \<open>Directories first, then by short name without regard to case.\<close>

definition listed_before :: "m65dirent \<Rightarrow> m65dirent \<Rightarrow> bool" where
  "listed_before a b \<longleftrightarrow>
     (if is_dir_entry a = is_dir_entry b then stricmp (cstr (d_name a)) (cstr (d_name b)) \<le> 0 else is_dir_entry a)"

lemma compare_dirents_le: "compare_dirents a b \<le> 0 \<longleftrightarrow> listed_before a b"
  by (simp add: compare_dirents_def listed_before_def)

lemma stricmp_neg: "0 \<notin> set a \<Longrightarrow> 0 \<notin> set b \<Longrightarrow> stricmp a b > 0 \<Longrightarrow> stricmp b a \<le> 0"
  by (induction a b rule: stricmp.induct) (auto split: if_splits)

lemma to_lower_0 [simp]: "to_lower c = 0 \<longleftrightarrow> c = 0"
proof -
  have "unat (to_lower c) = 0 \<longleftrightarrow> unat c = 0" by (auto simp: to_lower_def word_le_nat_alt unat_word_ariths)
  then show ?thesis by (simp only: word_unat_eq_iff) simp
qed

lemma stricmp_le_trans:
  "0 \<notin> set a \<Longrightarrow> 0 \<notin> set b \<Longrightarrow> 0 \<notin> set c \<Longrightarrow> stricmp a b \<le> 0 \<Longrightarrow> stricmp b c \<le> 0 \<Longrightarrow> stricmp a c \<le> 0"
proof (induction a b arbitrary: c rule: stricmp.induct)
  case (1)
  then show ?case by simp
next
  case (2 b bs)
  then show ?case by (cases c) auto
next
  case (3 a as)
  then show ?case by (auto simp: uint_0_iff)
next
  case (4 a as b bs)
  then show ?case by (cases c) (auto simp: word_uint_eq_iff split: if_splits)
qed

lemma cstr_no_zero: "0 \<notin> set (cstr s)"
  by (auto simp: cstr_def dest: set_takeWhileD)

lemma listed_before_trans: "listed_before a b \<Longrightarrow> listed_before b c \<Longrightarrow> listed_before a c"
  using stricmp_le_trans [OF cstr_no_zero cstr_no_zero cstr_no_zero, of "d_name a" "d_name b" "d_name c"]
  by (auto simp: listed_before_def split: if_splits)

lemma listed_before_total: "compare_dirents a b > 0 \<Longrightarrow> listed_before b a"
  using stricmp_neg [OF cstr_no_zero cstr_no_zero, of "d_name a" "d_name b"]
  by (auto simp: compare_dirents_def listed_before_def split: if_splits)

lemma set_llist_add [simp]: "set (llist_add cmp xs x) = insert x (set xs)"
  by (induction cmp xs x rule: llist_add.induct) auto

lemma mset_llist_add [simp]: "mset (llist_add cmp xs x) = add_mset x (mset xs)"
  by (induction cmp xs x rule: llist_add.induct) auto

lemma llist_add_sorted: "sorted_wrt listed_before xs \<Longrightarrow> sorted_wrt listed_before (llist_add compare_dirents xs x)"
proof (induction xs)
  case (Cons y xs)
  show ?case
  proof (cases "compare_dirents y x > 0")
    case True
    from listed_before_total [OF this] have "listed_before x y" .
    with True Cons.prems show ?thesis using listed_before_trans [of x y] by auto
  next
    case False
    then have "listed_before y x" using compare_dirents_le [of y x] by simp
    with False Cons show ?thesis by simp
  qed
qed simp

text \<open>The entries with a name that successive calls of \<open>fat_readdir\<close> give up to the end of the directory.\<close>

inductive readdir_run ::
  "'s sector_io \<Rightarrow> vol \<Rightarrow> 's dir_state \<Rightarrow> m65dirent list \<Rightarrow> 's dir_state \<Rightarrow> bool" for io v where
  run_end: "fat_readdir io v False d = Some (r, de, d') \<Longrightarrow> r \<noteq> 0 \<Longrightarrow> readdir_run io v d [] d'"
| run_hidden: "fat_readdir io v False d = Some (0, de, d1) \<Longrightarrow> d_name de ! 0 = 0 \<Longrightarrow> readdir_run io v d1 es d'
    \<Longrightarrow> readdir_run io v d es d'"
| run_entry: "fat_readdir io v False d = Some (0, de, d1) \<Longrightarrow> d_name de ! 0 \<noteq> 0 \<Longrightarrow> readdir_run io v d1 es d'
    \<Longrightarrow> readdir_run io v d (de # es) d'"

lemma readdir_all_sorts:
  assumes "readdir_all io v lst d = Some y" "sorted_wrt listed_before lst"
  shows "sorted_wrt listed_before (fst y) \<and> (\<exists>es. readdir_run io v d es (snd y) \<and> mset (fst y) = mset lst + mset es)"
  using assms
proof (induction io v lst d y rule: readdir_all.raw_induct [rotated, consumes 1])
  case (1 rec io v lst d y)
  from 1(2) obtain r de d1 where rd: "fat_readdir io v False d = Some (r, de, d1)"
    by (auto simp: bind_eq_Some_conv)
  show ?case
  proof (cases "r = 0")
    case False
    then have "y = (lst, d1)" using 1(2) rd by simp
    then show ?thesis using 1(3) run_end [OF rd False] by (intro conjI exI [of _ "[]"]) simp_all
  next
    case True
    show ?thesis
    proof (cases "d_name de ! 0 = 0")
      case hidden: True
      then have "rec io v lst d1 = Some y" using 1(2) rd True by simp
      then show ?thesis using 1(1) [OF _ 1(3)] run_hidden [of io v d de d1] rd True hidden by blast
    next
      case False
      then have "rec io v (llist_add compare_dirents lst de) d1 = Some y" using 1(2) rd True by simp
      from 1(1) [OF this llist_add_sorted [OF 1(3)]] obtain es
        where "sorted_wrt listed_before (fst y)" "readdir_run io v d1 es (snd y)" "mset (fst y) = add_mset de (mset lst) + mset es"
        by auto
      then show ?thesis using run_entry [of io v d de d1 es] rd True False by (intro conjI exI [of _ "de # es"]) simp_all
    qed
  qed
qed

context sector_read
begin

lemma readdir_all_returns:
  assumes "dir_view inv disk stable v cs (store d)" "no_open_name (disk (store d)) v cs"
    and "cursor_next (disk (store d)) v cs n d"
  shows "\<exists>y. readdir_all io v lst d = Some y"
  using assms
proof (induction "slot_count v cs - n" arbitrary: n d lst rule: less_induct)
  case less
  from fat_readdir_returns [OF less.prems] obtain r de d1 where
      rd: "fat_readdir io v False d = Some (r, de, d1)" "read_only inv disk stable (store d) (store d1)"
      and step0: "if n < slot_count v cs
       then r = 0 \<and> (\<exists>n' \<ge> n. cursor_at (disk (store d)) v cs n' d1)
          \<and> (let e = dir_slot (disk (store d)) v cs n in
             e ! 0x0B \<noteq> 0x0F \<or> e ! 0 = 0 \<or> e ! 0 = 0xE5 \<longrightarrow>
               cursor_at (disk (store d)) v cs n d1 \<and> de = decode_entry False False e (fill_debug v d1 dirent_zero))
       else r = - 1"
    by (elim exE conjE) (rule that)
  from step0 have step: "if n < slot_count v cs then r = 0 \<and> (\<exists>n' \<ge> n. cursor_at (disk (store d)) v cs n' d1) else r = - 1"
    by (cases "n < slot_count v cs"; simp only: if_True if_False; blast)
  show ?case
  proof (cases "n < slot_count v cs")
    case False
    then show ?thesis using step rd(1) by (subst readdir_all.simps) simp
  next
    case True
    then obtain n' where n': "n \<le> n'" "cursor_at (disk (store d)) v cs n' d1" and r: "r = 0" using step by auto
    have D: "disk (store d1) = disk (store d)" using read_onlyD(2) [OF rd(2)] .
    have "slot_count v cs - Suc n' < slot_count v cs - n" using True n'(1) by linarith
    moreover have "cursor_next (disk (store d1)) v cs (Suc n') d1" using n'(2) by (simp add: cursor_next_def D)
    ultimately have "\<exists>y. readdir_all io v lst' d1 = Some y" for lst'
      using less.hyps [of "Suc n'" d1 lst'] dir_view_read_only [OF rd(2) less.prems(1)] less.prems(2) D by simp
    then show ?thesis using rd(1) r by (subst readdir_all.simps) simp
  qed
qed

text \<open>The root directory can always be listed.\<close>

lemma root_listing_returns:
  assumes "dir_view inv disk stable v cs (store d)" "no_open_name (disk (store d)) v cs" "hd cs = first_cluster v"
  shows "\<exists>lst d'. read_direntries io v [] [] d = Some ((True, lst), d')"
proof -
  have "cs \<noteq> []" "0 < spc v" using assms(1) by (simp_all add: dir_view_def dir_ok_def)
  then have cs: "cs ! 0 = first_cluster v" "dir_sector_no v cs 0 = first_cluster_sector v"
    using assms(3) by (simp_all add: hd_conv_nth dir_sector_no_def cluster_sector_def)
  let ?d0 = "set_cursor_root v d"
  have r: "inv (store ?d0)" "stable (store ?d0) (partition_start v + dir_sector ?d0)"
  proof -
    have "0 < spc v * length cs" using \<open>cs \<noteq> []\<close> \<open>0 < spc v\<close> by simp
    then have "stable (store d) (partition_start v + dir_sector_no v cs 0)" using assms(1) by (simp only: dir_view_def dir_ready_def)
    then show "inv (store ?d0)" "stable (store ?d0) (partition_start v + dir_sector ?d0)"
      using assms(1) cs(2) by (simp_all add: dir_view_def set_cursor_root_def)
  qed
  note l = dir_load_eq [OF r]
  obtain d1 where d1: "fat_opendir io v [] d = Some (0, d1)" "read_only inv disk stable (store d) (store d1)"
      "cursor_next (disk (store d)) v cs 0 d1"
    using l cs by (simp add: fat_opendir_def open_first_def opendir_segments.simps cursor_next_def) (simp add: set_cursor_root_def)
  have D: "disk (store d1) = disk (store d)" using read_onlyD(2) [OF d1(2)] .
  from readdir_all_returns [OF dir_view_read_only [OF d1(2) assms(1)], of 0 "[]"] assms(2) d1 D
  show ?thesis by (auto simp: read_direntries_def)
qed

end

section \<open>Properties\<close>

text \<open>
  C13: a listing is complete and in order.  When \<open>read_direntries\<close> returns a listing, it consists
  of exactly the entries with a name that \<open>fat_readdir\<close> gave, from the first after
  \<open>fat_opendir\<close> to the end, with the directories before the files and each by name without regard to
  case.
\<close>
theorem listing_sorted_complete:
  assumes "read_direntries io v [] path d = Some ((True, lst), d')"
  shows "sorted_wrt listed_before lst
    \<and> (\<exists>d1 es. fat_opendir io v path d = Some (0, d1) \<and> readdir_run io v d1 es d' \<and> mset lst = mset es)"
proof -
  obtain d1 where d1: "fat_opendir io v path d = Some (0, d1)" "readdir_all io v [] d1 = Some (lst, d')"
    using assms by (auto simp: read_direntries_def bind_eq_Some_conv split: if_splits)
  from readdir_all_sorts [OF d1(2)] d1(1) show ?thesis by simp
qed

theorem listing_sorted_complete_witness:
  "\<exists>lst d'. read_direntries (blk_io device_ops) small_vol [] [] small_dir = Some ((True, lst), d') \<and> sorted_wrt listed_before lst"
proof -
  have "hd [2] = first_cluster small_vol" by (simp add: small_vol_def)
  from blk.root_listing_returns [OF small_dir_view small_dir_closed this] obtain lst d'
    where "read_direntries (blk_io device_ops) small_vol [] [] small_dir = Some ((True, lst), d')" by blast
  with listing_sorted_complete [OF this] show ?thesis by blast
qed

text \<open>
  C14: what the patterns mean.  For a name without a star, a pattern without wildcards accepts the
  same name, a pattern that ends in its only star the longer names it begins, and a pattern that
  begins with its only star every name that has the rest of the pattern as a subsequence of its
  characters, not as its end: \<open>*.prg\<close> also accepts \<open>x.p1r2g3\<close>.
\<close>
theorem patterns_accept:
  assumes "line \<noteq> []" "0x2a \<notin> set line" "p \<noteq> []" "literal p"
  shows "is_match line p case_sensitive = Some (folded case_sensitive line = folded case_sensitive p)
    \<and> is_match line (p @ [0x2a]) case_sensitive = Some (strict_prefix (folded case_sensitive p) (folded case_sensitive line))
    \<and> is_match line (0x2a # p) case_sensitive = Some (subseq (folded case_sensitive p) (folded case_sensitive line))"
proof -
  obtain c l where line: "line = c # l" using assms(1) by (cases line) auto
  have "c \<noteq> 0x2a" using assms(2) line by auto
  then have "\<not> compare_char 0x2a c case_sensitive" by (auto simp: compare_char_def split: if_splits)
  then have "is_match line (0x2a # p) case_sensitive = is_match_loop case_sensitive True line p"
    using assms(3) by (simp add: is_match_def line)
  then show ?thesis
    using match_literal [OF assms(4,1,3)] match_prefix [OF assms(4,1,2)] match_after_star [OF assms(4,1)] by (simp add: is_match_def)
qed

text \<open>The pattern \<open>*.c\<close> and the name \<open>a.xcy\<close>.\<close>

theorem patterns_accept_witness:
  "is_match [0x61, 0x2e, 0x78, 0x63, 0x79] [0x2a, 0x2e, 0x63] False = Some True"
  using patterns_accept [of "[0x61, 0x2e, 0x78, 0x63, 0x79]" "[0x2e, 0x63]" False]
  by (simp add: literal_def folded_def to_lower_def)

end
