(* ===== verification/LongNames.thy ===== *)
theory LongNames
  imports DirOps
begin

text \<open>
  Long file names (\<open>src/lib/libm65ftp/mega65_ftp.c\<close>): the entries that \<open>write_vfat_direntry_chunk\<close>
  writes for a name give the name back when \<open>fat_readdir\<close> reads them.
\<close>

section \<open>One entry\<close>

text \<open>The characters of a name as the entries store them: the name, a zero, and then \<open>0xff\<close>.\<close>

definition padded :: "bytes option \<Rightarrow> nat \<Rightarrow> u8" where
  "padded s k = (case s of None \<Rightarrow> 0xff | Some t \<Rightarrow> if k < length t then t ! k else if k = length t then 0 else 0xff)"

lemma padded_drop: "n \<le> length t \<Longrightarrow> padded (Some (drop n t)) k = padded (Some t) (n + k)"
  by (auto simp: padded_def)

lemma length_dname_pairs [simp]: "length (dname_pairs s n) = 2 * n"
  by (induction s n rule: dname_pairs.induct) simp_all

lemma nth_dname_pairs: "k < n \<Longrightarrow> dname_pairs s n ! (2 * k) = padded s k"
proof (induction s n arbitrary: k rule: dname_pairs.induct)
  case (2 n)
  then show ?case by (cases k) (simp_all add: padded_def)
next
  case (3 n)
  then show ?case by (cases k) (simp_all add: padded_def)
next
  case (4 c cs n)
  then show ?case by (cases k) (simp_all add: padded_def)
qed simp

lemma nth_vfat_parts:
  assumes "vfat_parts s = (p1, p2, p3)"
  shows "k < 5 \<Longrightarrow> p1 ! (2 * k) = padded (Some s) k" "k < 6 \<Longrightarrow> p2 ! (2 * k) = padded (Some s) (5 + k)"
    "k < 2 \<Longrightarrow> p3 ! (2 * k) = padded (Some s) (11 + k)" "length p1 = 10" "length p2 = 12" "length p3 = 4"
  using assms by (auto simp: vfat_parts_def nth_dname_pairs padded_drop) (auto simp: padded_def)

definition vfat_count :: "bytes \<Rightarrow> nat" where
  "vfat_count name = (length name - 1) div 13 + 1"

lemma calculate_needed_eq:
  "length name \<le> 255 \<Longrightarrow> calculate_needed_direntries_for_vfat name = Some (vfat_count name)"
  by (simp add: calculate_needed_direntries_for_vfat_def vfat_count_def)

lemma vfat_count_bounds:
  assumes "name \<noteq> []" "length name \<le> 255"
  shows "0 < vfat_count name" "vfat_count name \<le> 20" "13 * (vfat_count name - 1) < length name" "length name \<le> 13 * vfat_count name"
proof -
  have "0 < length name" using assms(1) by simp
  then show "0 < vfat_count name" "vfat_count name \<le> 20" "13 * (vfat_count name - 1) < length name" "length name \<le> 13 * vfat_count name"
    using assms(2) unfolding vfat_count_def by (linarith, linarith, linarith, presburger)
qed

lemma vfat_direntry_shape:
  assumes "vfat_parts (drop (13 * (i - 1)) name) = (p1, p2, p3)"
  shows "vfat_direntry i n name csum =
    (if i = n then word_of_nat i OR 0x40 else word_of_nat i) # p1 @ [0x0f, 0, csum] @ p2 @ [0, 0] @ p3"
  using assms by (simp add: vfat_direntry_def)

lemma length_vfat_direntry [simp]: "length (vfat_direntry i n name csum) = 32"
proof -
  obtain p1 p2 p3 where "vfat_parts (drop (13 * (i - 1)) name) = (p1, p2, p3)" by (metis prod.exhaust)
  then show ?thesis using nth_vfat_parts(4-6) [of "drop (13 * (i - 1)) name" p1 p2 p3] by (simp add: vfat_direntry_shape)
qed

lemma vfat_direntry_head:
  "vfat_direntry i n name csum ! 0 = (if i = n then word_of_nat i OR 0x40 else word_of_nat i)"
  "vfat_direntry i n name csum ! 0x0B = 0x0f"
proof -
  obtain p1 p2 p3 where p: "vfat_parts (drop (13 * (i - 1)) name) = (p1, p2, p3)" by (metis prod.exhaust)
  then show "vfat_direntry i n name csum ! 0 = (if i = n then word_of_nat i OR 0x40 else word_of_nat i)"
    "vfat_direntry i n name csum ! 0x0B = 0x0f"
    using nth_vfat_parts(4) [OF p] by (simp_all add: vfat_direntry_shape [OF p] nth_append)
qed

lemma vfat_chunk_direntry:
  assumes "13 * (i - 1) \<le> length name"
  shows "vfat_chunk (vfat_direntry i n name csum) = map (\<lambda>k. padded (Some name) (13 * (i - 1) + k)) [0 ..< 13]"
proof -
  define b where "b = 13 * (i - 1)"
  obtain p1 p2 p3 where p: "vfat_parts (drop (13 * (i - 1)) name) = (p1, p2, p3)" by (metis prod.exhaust)
  have off: "b \<le> length name" using assms by (simp only: b_def)
  note n = nth_vfat_parts [OF p, folded b_def, unfolded padded_drop [OF off]]
  let ?e = "vfat_direntry i n name csum"
  have e: "?e ! (1 + k) = p1 ! k" if "k < 10" for k
    using that n(4) by (simp add: vfat_direntry_shape [OF p] nth_append)
  have e': "?e ! (14 + k) = p2 ! k" if "k < 12" for k
    using that n(4,5) by (simp add: vfat_direntry_shape [OF p] nth_append nth_Cons')
  have e'': "?e ! (28 + k) = p3 ! k" if "k < 4" for k
    using that n(4-6) by (simp add: vfat_direntry_shape [OF p] nth_append nth_Cons')
  have "vfat_chunk ?e ! k = padded (Some name) (b + k)" if "k < 13" for k
  proof -
    show ?thesis
    proof (cases "k < 5")
      case True
      then show ?thesis using e [of "2 * k"] n(1) [OF True] that
        by (simp add: vfat_chunk_def copy_to_dnamechunk_from_offset_def nth_append mult.commute add.assoc)
    next
      case False
      show ?thesis
      proof (cases "k < 11")
        case True
        then show ?thesis using e' [of "2 * (k - 5)"] n(2) [of "k - 5"] False less_diff_conv2 [of 5 k 6]
          by (simp add: vfat_chunk_def copy_to_dnamechunk_from_offset_def nth_append mult.commute add.assoc)
      next
        case False
        then show ?thesis using e'' [of "2 * (k - 11)"] n(3) [of "k - 11"] that False less_diff_conv2 [of 11 k 2] less_diff_conv2 [of 5 k 6]
          by (simp add: vfat_chunk_def copy_to_dnamechunk_from_offset_def nth_append mult.commute add.assoc)
      qed
    qed
  qed
  then show ?thesis unfolding b_def [symmetric]
    by (intro nth_equalityI) (simp_all add: vfat_chunk_def copy_to_dnamechunk_from_offset_def)
qed

lemma sequence_number:
  assumes "0 < i" "i \<le> 20"
  shows "unat ((if b then word_of_nat i OR 0x40 else word_of_nat i :: u8) AND 0x1F) = i"
    "(if b then word_of_nat i OR 0x40 else word_of_nat i :: u8) \<noteq> 0"
    "(if b then word_of_nat i OR 0x40 else word_of_nat i :: u8) \<noteq> 0xE5"
proof -
  have "list_all (\<lambda>i. \<forall>b. unat ((if b then word_of_nat i OR 0x40 else word_of_nat i :: u8) AND 0x1F) = i
    \<and> (if b then word_of_nat i OR 0x40 else word_of_nat i :: u8) \<noteq> 0
    \<and> (if b then word_of_nat i OR 0x40 else word_of_nat i :: u8) \<noteq> 0xE5) [1 ..< 21]"
    by code_simp
  moreover have "i \<in> set [1 ..< 21]" using assms by simp
  ultimately show "unat ((if b then word_of_nat i OR 0x40 else word_of_nat i :: u8) AND 0x1F) = i"
    "(if b then word_of_nat i OR 0x40 else word_of_nat i :: u8) \<noteq> 0"
    "(if b then word_of_nat i OR 0x40 else word_of_nat i :: u8) \<noteq> 0xE5"
    unfolding list_all_iff by blast+
qed

section \<open>Reading the entries of a name\<close>

lemma advance_keeps_vfat:
  assumes "advance_to_next_entry io v d = (r, d')"
  shows "vfatEntry d' = vfatEntry d" "vfat_entry_count d' = vfat_entry_count d"
    "vfat_dir_cluster d' = vfat_dir_cluster d" "vfat_dir_sector d' = vfat_dir_sector d"
    "vfat_dir_sector_in_cluster d' = vfat_dir_sector_in_cluster d"
    "vfat_dir_sector_offset d' = vfat_dir_sector_offset d" "current_dir d' = current_dir d"
  using assms by (auto simp: advance_to_next_entry_def dir_load_def Let_def split: prod.splits option.splits if_splits)

text \<open>Slots \<open>m\<close> to \<open>m + i - 1\<close> hold the entries \<open>i\<close> to 1 of a name.\<close>

definition name_slots :: "(u32 \<Rightarrow> sector) \<Rightarrow> vol \<Rightarrow> u32 list \<Rightarrow> nat \<Rightarrow> nat \<Rightarrow> bytes \<Rightarrow> u8 \<Rightarrow> bool" where
  "name_slots D v cs m i name csum \<longleftrightarrow>
     (\<forall>j < i. dir_slot D v cs (m + j) = vfat_direntry (i - j) (vfat_count name) name csum)"

lemma name_slots_Suc: "name_slots D v cs m (Suc i) name csum \<longleftrightarrow>
    dir_slot D v cs m = vfat_direntry (Suc i) (vfat_count name) name csum \<and> name_slots D v cs (Suc m) i name csum"
  by (auto simp: name_slots_def less_Suc_eq_0_disj)

text \<open>A proper short entry: not free, not hidden, not a volume label.\<close>

definition plain_entry :: "bytes \<Rightarrow> bool" where
  "plain_entry e \<longleftrightarrow> length e = 32 \<and> e ! 0 \<noteq> 0 \<and> e ! 0 \<noteq> 0xE5 \<and> e ! 0x0B \<noteq> 0x08 \<and> e ! 0x0B AND 0x02 = 0"

text \<open>The position that \<open>fat_readdir\<close> keeps for the first entry of a long name is slot \<open>m\<close>.\<close>

definition saved_at :: "vol \<Rightarrow> u32 list \<Rightarrow> nat \<Rightarrow> 's dir_state \<Rightarrow> bool" where
  "saved_at v cs m d \<longleftrightarrow> vfat_dir_cluster d = cs ! (m div 16 div spc v) \<and> vfat_dir_sector_in_cluster d = m div 16 mod spc v
     \<and> vfat_dir_sector d = dir_sector_no v cs (m div 16) \<and> vfat_dir_sector_offset d = int (32 * (m mod 16))"

lemma cstr_padded:
  assumes "length b = filename_max" "0 \<notin> set name" "length name \<le> 13 * n" "13 * n < filename_max"
    and "\<forall>p < length b. b ! p = (if p < 13 * n then padded (Some name) p else 0)"
  shows "cstr b = name"
proof -
  have "b = name @ 0 # drop (length name + 1) b"
    using assms by (intro nth_equalityI) (auto simp: nth_append nth_Cons' padded_def)
  then have "cstr b = cstr (name @ 0 # drop (length name + 1) b)" by (rule arg_cong)
  also have "\<dots> = name" using assms(2) by (simp add: cstr_def) (subst takeWhile_append2, auto)
  finally show ?thesis .
qed

context sector_read
begin

lemma vfat_loop_collects:
  assumes "dir_view inv disk stable v cs (store d)" "cursor_at (disk (store d)) v cs m d"
    and "0 < i" "i \<le> vfat_count name" "name \<noteq> []" "length name \<le> 255"
    and "name_slots (disk (store d)) v cs m i name csum" "m + i < slot_count v cs"
    and "13 * vfat_count name \<le> length (d_longname de)"
  shows "\<exists>de' d'. vfat_loop io v first de del d = Some (de', del, d') \<and> cursor_at (disk (store d)) v cs (m + i) d'
    \<and> read_only inv disk stable (store d) (store d') \<and> vfat_entry_count d' = vfat_entry_count d + i
    \<and> length (d_longname de') = length (d_longname de)
    \<and> (\<forall>p < length (d_longname de). d_longname de' ! p = (if p < 13 * i then padded (Some name) p else d_longname de ! p))
    \<and> d_name de' = (if first then (d_name de)[i * 13 := 0] else d_name de)
    \<and> vfatEntry d' = vfatEntry d \<and> vfat_dir_cluster d' = vfat_dir_cluster d \<and> vfat_dir_sector d' = vfat_dir_sector d
    \<and> vfat_dir_sector_in_cluster d' = vfat_dir_sector_in_cluster d \<and> vfat_dir_sector_offset d' = vfat_dir_sector_offset d
    \<and> current_dir d' = current_dir d"
  using assms
proof (induction i arbitrary: m d first de)
  case (Suc i)
  let ?D = "disk (store d)" and ?n = "vfat_count name"
  have len: "\<forall>n. length (?D n) = 512" using Suc.prems(1) by (simp add: dir_view_def)
  note e = entry_at [OF Suc.prems(2) len]
  have slot: "dir_slot ?D v cs m = vfat_direntry (Suc i) ?n name csum" and rest: "name_slots ?D v cs (Suc m) i name csum"
    using Suc.prems(7) by (simp_all add: name_slots_Suc)
  have i20: "Suc i \<le> 20" using vfat_count_bounds(2) [OF Suc.prems(5,6)] Suc.prems(4) by simp
  note s = sequence_number [OF zero_less_Suc i20]
  have b0: "unat (entry_byte d 0 AND 0x1F) = Suc i" "entry_byte d 0 \<noteq> 0xE5"
    using s e(2) [of 0] by (simp_all add: slot vfat_direntry_head)
  have off: "13 * (Suc i - 1) \<le> length name" using vfat_count_bounds(3) [OF Suc.prems(5,6)] Suc.prems(4) by simp
  let ?d1 = "d\<lparr>vfat_entry_count := vfat_entry_count d + 1\<rparr>"
  let ?de1 = "if first then de\<lparr>d_name := (d_name de)[Suc i * 13 := 0]\<rparr> else de"
  let ?de = "copy_vfat_chars_into_dname (Suc i) (cur_entry d) ?de1"
  obtain r d2 where adv: "advance_to_next_entry io v ?d1 = (r, d2)" by fastforce
  have d2: "read_only inv disk stable (store d) (store d2)" "cursor_at ?D v cs (Suc m) d2"
    using advance_eq [of v cs ?d1 "Suc m" r d2] Suc.prems(1,2,8) adv by (simp_all add: cursor_next_def)
  have keep: "vfat_entry_count d2 = vfat_entry_count d + 1" "vfatEntry d2 = vfatEntry d" "vfat_dir_cluster d2 = vfat_dir_cluster d"
      "vfat_dir_sector d2 = vfat_dir_sector d" "vfat_dir_sector_in_cluster d2 = vfat_dir_sector_in_cluster d"
      "vfat_dir_sector_offset d2 = vfat_dir_sector_offset d" "current_dir d2 = current_dir d"
    using advance_keeps_vfat [OF adv] by simp_all
  have fit: "13 * i + 13 \<le> length (d_longname de)" using Suc.prems(4,9) by simp
  have name: "d_longname ?de = blit (13 * i) (map (\<lambda>k. padded (Some name) (13 * i + k)) [0 ..< 13]) (d_longname de)"
      "d_name ?de = (if first then (d_name de)[Suc i * 13 := 0] else d_name de)"
    using vfat_chunk_direntry [OF off] by (simp_all add: copy_vfat_chars_into_dname_def e(1) slot)
  then have long: "length (d_longname ?de) = length (d_longname de)"
      "d_longname ?de ! p = (if 13 * i \<le> p \<and> p < 13 * i + 13 then padded (Some name) p else d_longname de ! p)"
      if "p < length (d_longname de)" for p
    using that fit less_diff_conv2 [of "13 * i" p 13] by (auto simp: nth_blit add.commute)
  have llen: "length (d_longname ?de) = length (d_longname de)" unfolding name(1) using fit by simp
  have D2: "disk (store d2) = ?D" using read_onlyD(2) [OF d2(1)] .
  show ?case
  proof (cases i)
    case 0
    then have "vfat_loop io v first de del d = Some (?de, del, d2)"
      using b0 adv by (subst vfat_loop.simps) (simp add: Let_def)
    then show ?thesis using d2 keep name(2) long llen 0 by (intro exI [of _ ?de] exI [of _ d2]) simp
  next
    case (Suc i')
    have "entry_byte d2 0x0B = 0x0F"
      using entry_at(2) [OF d2(2) len, of "0x0B"] rest Suc by (simp add: name_slots_Suc vfat_direntry_head)
    then have step: "vfat_loop io v first de del d = vfat_loop io v False ?de del d2"
      using b0 adv Suc by (subst vfat_loop.simps) (simp add: Let_def)
    obtain de' d' where r: "vfat_loop io v False ?de del d2 = Some (de', del, d')" "cursor_at ?D v cs (Suc m + i) d'"
        "read_only inv disk stable (store d2) (store d')" "vfat_entry_count d' = vfat_entry_count d2 + i"
        "length (d_longname de') = length (d_longname de)"
        "\<forall>p < length (d_longname de). d_longname de' ! p = (if p < 13 * i then padded (Some name) p else d_longname ?de ! p)"
        "d_name de' = d_name ?de"
        "vfatEntry d' = vfatEntry d2" "vfat_dir_cluster d' = vfat_dir_cluster d2" "vfat_dir_sector d' = vfat_dir_sector d2"
        "vfat_dir_sector_in_cluster d' = vfat_dir_sector_in_cluster d2" "vfat_dir_sector_offset d' = vfat_dir_sector_offset d2"
        "current_dir d' = current_dir d2"
      using Suc.IH [of d2 "Suc m" ?de False] dir_view_read_only [OF d2(1) Suc.prems(1)] d2(2) Suc Suc.prems(4-6,8,9) rest D2 llen
      by auto
    have "d_longname de' ! p = (if p < 13 * Suc i then padded (Some name) p else d_longname de ! p)" if "p < length (d_longname de)" for p
      using r(6) that long(2) [OF that] by auto
    then show ?thesis unfolding step r(1)
      using r keep name(2) read_only_trans [OF d2(1) r(3)] by (intro exI [of _ de'] exI [of _ d']) simp
  qed
qed simp

lemma fat_readdir_long_name:
  assumes "dir_view inv disk stable v cs (store d)" "cursor_next (disk (store d)) v cs m d"
    and "name \<noteq> []" "length name \<le> 255" "0 \<notin> set name" "hd name \<noteq> 0x2e"
    and "name_slots (disk (store d)) v cs m (vfat_count name) name csum" "m + vfat_count name < slot_count v cs"
    and "plain_entry (dir_slot (disk (store d)) v cs (m + vfat_count name))"
  shows "\<exists>de d'. fat_readdir io v False d = Some (0, de, d') \<and> cstr (d_longname de) = name
    \<and> (let e = dir_slot (disk (store d)) v cs (m + vfat_count name) in
         d_name de = extract_out_dos8_3name e (replicate filename_max 0) \<and> d_ino de = start_cluster e
         \<and> d_filelen de = sint (le32_at e 0x1C) \<and> d_attr de = e ! 0x0b)
    \<and> vfatEntry d' \<and> vfat_entry_count d' = vfat_count name \<and> saved_at v cs m d'
    \<and> cursor_at (disk (store d)) v cs (m + vfat_count name) d' \<and> read_only inv disk stable (store d) (store d')"
proof -
  let ?D = "disk (store d)" and ?n = "vfat_count name"
  have len: "\<forall>n. length (?D n) = 512" and ok: "dir_ok v cs" using assms(1) by (simp_all add: dir_view_def)
  note n = vfat_count_bounds [OF assms(3,4)]
  let ?d0 = "d\<lparr>vfatEntry := False, vfat_entry_count := 0\<rparr>"
  obtain r d1 where adv: "advance_to_next_entry io v ?d0 = (r, d1)" by fastforce
  have a: "read_only inv disk stable (store d) (store d1)" "r = 0" "cursor_at ?D v cs m d1"
    using advance_eq [of v cs ?d0 m r d1] assms(1,2,8) adv by simp_all
  have D1: "disk (store d1) = ?D" using read_onlyD(2) [OF a(1)] .
  have sec: "dir_sector d1 \<noteq> no_dir" using cursor_at_dir_sector [OF a(3) ok] .
  have "dir_slot ?D v cs m = vfat_direntry ?n ?n name csum"
    using assms(7) n(1) by (auto simp: name_slots_def dest: spec [of _ 0])
  then have first: "entry_byte d1 0x0B = 0x0F" "entry_byte d1 0 \<noteq> 0" "entry_byte d1 0 \<noteq> 0xE5"
    using entry_at(2) [OF a(3) len] sequence_number(2,3) [OF n(1,2), of True] by (simp_all add: vfat_direntry_head)
  let ?d2 = "d1\<lparr>vfatEntry := True, vfat_dir_cluster := dir_cluster d1, vfat_dir_sector := dir_sector d1,
                    vfat_dir_sector_in_cluster := dir_sector_in_cluster d1,
                    vfat_dir_sector_offset := dir_sector_offset d1\<rparr>"
  have dz: "d_longname dirent_zero = replicate filename_max 0" "(d_name dirent_zero)[k := 0] = replicate filename_max 0" for k
    by (simp_all add: dirent_zero_def list_eq_iff_nth_eq) (cases "k < filename_max"; simp add: nth_list_update)
  have big: "13 * ?n \<le> filename_max" using n(2) by (simp add: filename_max_def)
  obtain de' d' where l: "vfat_loop io v True dirent_zero False ?d2 = Some (de', False, d')" "cursor_at ?D v cs (m + ?n) d'"
      "read_only inv disk stable (store d1) (store d')" "vfat_entry_count d' = vfat_entry_count d1 + ?n"
      "length (d_longname de') = filename_max"
      "\<forall>p < filename_max. d_longname de' ! p = (if p < 13 * ?n then padded (Some name) p else 0)" "vfatEntry d'"
      "d_name de' = replicate filename_max 0" "saved_at v cs m d'"
    using vfat_loop_collects [of v cs ?d2 m ?n name csum dirent_zero True False] dir_view_read_only [OF a(1) assms(1)]
      a(3) n(1) assms(3,4,7,8) D1 dz big by (auto simp: saved_at_def cursor_at_def)
  have long: "cstr (d_longname de') = name"
    using cstr_padded [OF l(5) assms(5) n(4)] l(5,6) n(2) by (simp add: filename_max_def)
  then have dot: "d_longname de' ! 0 \<noteq> 0x2e"
    using assms(3,6) l(5) by (cases "d_longname de'") (auto simp: cstr_def filename_max_def split: if_splits)
  note e = assms(9) [unfolded plain_entry_def] and c = entry_at(1) [OF l(2) len]
  have "fat_readdir io v False d = Some (0, decode_entry True False (cur_entry d') (fill_debug v d' de'), d')"
    using adv a(2) sec first l(1) by (simp add: fat_readdir_def next_entry_def)
  moreover have "cstr (d_longname (decode_entry True False (cur_entry d') (fill_debug v d' de'))) = name"
      "let e = dir_slot ?D v cs (m + ?n); de = decode_entry True False (cur_entry d') (fill_debug v d' de') in
         d_name de = extract_out_dos8_3name e (replicate filename_max 0) \<and> d_ino de = start_cluster e
         \<and> d_filelen de = sint (le32_at e 0x1C) \<and> d_attr de = e ! 0x0b"
    using long dot e c l(8) by (simp_all add: decode_entry_def fill_debug_def assemble_time_from_raw_def Let_def)
  moreover have "vfat_entry_count d1 = 0" using advance_keeps_vfat(2) [OF adv] by simp
  ultimately show ?thesis using l read_only_trans [OF a(1) l(3)] by (simp add: Let_def)
qed

end

end
