(* ===== verification/DirCreate.thy ===== *)
theory DirCreate
  imports LongNames FatState
begin

text \<open>
  Writing directory entries (\<open>src/lib/libm65ftp/mega65_ftp.c\<close>): what one written slot changes, and
  that a name created by \<open>create_directory_entry_for_item\<close> is the name that \<open>fat_readdir\<close> reads.
\<close>

section \<open>Writing one slot\<close>

text \<open>
  A directory that can be read and written: its sectors are resident, different from each other, and
  no part of the FAT.
\<close>

definition dir_rw ::
  "('s \<Rightarrow> bool) \<Rightarrow> ('s \<Rightarrow> u32 \<Rightarrow> sector) \<Rightarrow> ('s \<Rightarrow> u32 \<Rightarrow> bool) \<Rightarrow> vol \<Rightarrow> u32 list \<Rightarrow> 's \<Rightarrow> bool" where
  "dir_rw I D R v cs s \<longleftrightarrow> dir_view I D R v cs s \<and> inj_on (dir_sector_no v cs) {..< spc v * length cs}
     \<and> (\<forall>j < spc v * length cs. partition_start v + dir_sector_no v cs j \<notin> fat_sectors v)"

lemma dir_chain_cong: "dir_chain E cs \<Longrightarrow> (\<And>c. c \<in> set cs \<Longrightarrow> E' (unat c) = E (unat c)) \<Longrightarrow> dir_chain E' cs"
  by (induction E cs rule: dir_chain.induct) auto

lemma slot_sector: "n < slot_count v cs \<Longrightarrow> n div 16 < spc v * length cs"
  by (simp add: slot_count_def less_mult_imp_div_less mult.commute)

text \<open>The disk after slot \<open>n\<close> was written.\<close>

definition slot_disk :: "vol \<Rightarrow> u32 list \<Rightarrow> nat \<Rightarrow> bytes \<Rightarrow> (u32 \<Rightarrow> sector) \<Rightarrow> u32 \<Rightarrow> sector" where
  "slot_disk v cs n e D = (let a = partition_start v + dir_sector_no v cs (n div 16)
     in D(a := blit (32 * (n mod 16)) e (D a)))"

lemma slot_range: "32 * (n mod 16) + 32 \<le> (512 :: nat)"
  using mod_less_divisor [of 16 n] by linarith

lemma dir_slot_slot_disk:
  assumes "inj_on (dir_sector_no v cs) {..< spc v * length cs}" "\<forall>a. length (D a) = 512" "length e = 32"
    and "n < slot_count v cs" "m < slot_count v cs"
  shows "dir_slot (slot_disk v cs n e D) v cs m = (if m = n then e else dir_slot D v cs m)"
proof (cases "m div 16 = n div 16")
  case False
  then have "dir_sector_no v cs (m div 16) \<noteq> dir_sector_no v cs (n div 16)"
    using assms(1) slot_sector [OF assms(4)] slot_sector [OF assms(5)] by (auto simp: inj_on_def)
  with False show ?thesis by (auto simp: dir_slot_def slot_disk_def Let_def)
next
  case True
  show ?thesis
  proof (cases "m = n")
    case False
    then have "m mod 16 \<noteq> n mod 16" using True by (metis div_mult_mod_eq)
    then have "32 * (m mod 16) + 32 \<le> 32 * (n mod 16) \<or> 32 * (n mod 16) + 32 \<le> 32 * (m mod 16)" by linarith
    with False True assms(2,3) slot_range [of n] slot_range [of m] show ?thesis
      by (simp add: dir_slot_def slot_disk_def Let_def subbuf_blit_other)
  qed (use assms(2,3) slot_range [of n] in \<open>simp add: dir_slot_def slot_disk_def Let_def subbuf_blit_same\<close>)
qed

lemma cursor_at_slot_disk:
  assumes "inj_on (dir_sector_no v cs) {..< spc v * length cs}" "cursor_at D v cs n d"
  shows "cursor_at (slot_disk v cs n e D) v cs n (set_entry e d)"
proof -
  note c = assms(2) [unfolded cursor_at_def]
  have "nat (dir_sector_offset d) = 32 * (n mod 16)" using c by (simp only: nat_int)
  then have "cursor_at D v cs n d \<Longrightarrow> ?thesis" by (simp only: cursor_at_def slot_disk_def set_entry_def Let_def) simp
  then show ?thesis using assms(2) .
qed

text \<open>The cursor from which the next step goes to slot \<open>n\<close>, also right before the first slot of a sector.\<close>

definition cursor_before :: "(u32 \<Rightarrow> sector) \<Rightarrow> vol \<Rightarrow> u32 list \<Rightarrow> nat \<Rightarrow> ('t, 'a) dir_state_scheme \<Rightarrow> bool" where
  "cursor_before D v cs n d \<longleftrightarrow> cursor_next D v cs n d
     \<or> n mod 16 = 0 \<and> dir_sector_offset d = - 32 \<and> cursor_at D v cs n (d\<lparr>dir_sector_offset := 0\<rparr>)"

context sector_read
begin

lemma advance_before:
  assumes "dir_view inv disk stable v cs (store d)" "cursor_before (disk (store d)) v cs n d" "n < slot_count v cs"
    and "advance_to_next_entry io v d = (r, d')"
  shows "read_only inv disk stable (store d) (store d') \<and> r = 0 \<and> cursor_at (disk (store d)) v cs n d'"
proof (cases "cursor_next (disk (store d)) v cs n d")
  case True
  then show ?thesis using advance_eq [OF assms(1) _ assms(4)] assms(3) by simp
next
  case False
  then have "dir_sector_offset d = - 32" "cursor_at (disk (store d)) v cs n (d\<lparr>dir_sector_offset := 0\<rparr>)"
    using assms(2) by (simp_all add: cursor_before_def)
  then show ?thesis using assms(1,4) by (auto simp: advance_to_next_entry_def dir_view_def intro: read_only_refl)
qed

end

context sector_store
begin

lemma write_slot:
  assumes "dir_rw inv disk resident v cs (store d)" "cursor_at (disk (store d)) v cs n d" "length e = 32"
  shows "\<exists>s'. dir_write io v (set_entry e d) = (True, (set_entry e d)\<lparr>store := s'\<rparr>)
    \<and> dir_rw inv disk resident v cs s' \<and> disk s' = slot_disk v cs n e (disk (store d))
    \<and> cursor_at (disk s') v cs n ((set_entry e d)\<lparr>store := s'\<rparr>) \<and> (\<forall>a. resident (store d) a \<longrightarrow> resident s' a)"
proof -
  define D where "D = disk (store d)"
  define a where "a = partition_start v + dir_sector_no v cs (n div 16)"
  define b where "b = blit (32 * (n mod 16)) e (D a)"
  define s' where "s' = after_wr io a b (store d)"
  have view: "dir_view inv disk resident v cs (store d)" and inj: "inj_on (dir_sector_no v cs) {..< spc v * length cs}"
    and nf: "\<forall>j < spc v * length cs. partition_start v + dir_sector_no v cs j \<notin> fat_sectors v"
    using assms(1) unfolding dir_rw_def by blast+
  have w: "inv (store d)" "dir_ok v cs" "dir_ready resident v cs (store d)" "dir_chain (fat_get D v) cs" "\<forall>n. length (D n) = 512"
    using view unfolding dir_view_def D_def by blast+
  have n: "n div 16 < spc v * length cs" using assms(2) slot_sector [of n v cs] by (simp add: cursor_at_def)
  have len: "length b = 512" using w(5) assms(3) slot_range [of n] by (simp add: b_def)
  have off: "nat (dir_sector_offset d) = 32 * (n mod 16)" using assms(2) unfolding cursor_at_def by (simp only: nat_int)
  have buf: "dir_sector_buffer (set_entry e d) = b" "partition_start v + dir_sector (set_entry e d) = a" "store (set_entry e d) = store d"
  proof -
    have "dir_sector_buffer d = D a" "dir_sector d = dir_sector_no v cs (n div 16)"
      using assms(2) unfolding cursor_at_def a_def D_def by blast+
    then show "dir_sector_buffer (set_entry e d) = b" "partition_start v + dir_sector (set_entry e d) = a" "store (set_entry e d) = store d"
      by (simp_all add: set_entry_def off b_def) (simp add: a_def)
  qed
  have res: "resident (store d) a" using w(3) n by (simp add: dir_ready_def a_def)
  have d: "disk s' = D(a := b)" using w(1) len by (simp add: s'_def D_def)
  then have sd: "disk s' = slot_disk v cs n e D" by (simp add: slot_disk_def Let_def a_def b_def)
  have na: "a \<notin> fat_sectors v" using nf n by (simp add: a_def)
  have "dir_chain (fat_get (disk s') v) cs" unfolding d
    using w(2) by (intro dir_chain_cong [OF w(4)] fat_get_not_fat [OF na]) (simp add: dir_ok_def)
  moreover have kept: "\<forall>a. resident (store d) a \<longrightarrow> resident s' a" using w(1) res len by (simp add: s'_def)
  moreover have "inv s'" "\<forall>n. length (disk s' n) = 512" using w(1,5) len d by (simp_all add: s'_def)
  moreover have "dir_ready resident v cs s'" using w(3) kept by (simp add: dir_ready_def fat_all_def)
  ultimately have "dir_rw inv disk resident v cs s'" using w(2) inj nf by (simp add: dir_rw_def dir_view_def)
  moreover have "dir_write io v (set_entry e d) = (True, (set_entry e d)\<lparr>store := s'\<rparr>)"
    using w(1) len by (simp add: dir_write_def buf s'_def)
  moreover have "cursor_at (disk s') v cs n ((set_entry e d)\<lparr>store := s'\<rparr>)"
    using cursor_at_slot_disk [OF inj assms(2), of e] unfolding sd D_def by (simp add: cursor_at_def)
  ultimately show ?thesis using sd kept unfolding D_def by blast
qed

lemma dir_rw_read_only:
  "read_only inv disk resident s s' \<Longrightarrow> dir_rw inv disk resident v cs s \<Longrightarrow> dir_rw inv disk resident v cs s'"
  using res.dir_view_read_only unfolding dir_rw_def by blast

lemma dir_rw_flush:
  assumes "dir_rw inv disk resident v cs s"
  shows "dir_rw inv disk resident v cs (flush io s)" "disk (flush io s) = disk s" "resident s a \<Longrightarrow> resident (flush io s) a"
proof -
  have i: "inv s" using assms unfolding dir_rw_def dir_view_def by blast
  then show "disk (flush io s) = disk s" and r: "resident s a \<Longrightarrow> resident (flush io s) a" for a by simp_all
  with assms i show "dir_rw inv disk resident v cs (flush io s)"
    unfolding dir_rw_def dir_view_def dir_ready_def fat_all_def by simp
qed

lemma next_entry_is_free:
  assumes "dir_rw inv disk resident v cs (store d)" "cursor_before (disk (store d)) v cs m d" "m < slot_count v cs"
    and "dir_slot (disk (store d)) v cs m ! 0 = 0"
  shows "\<exists>de d'. read_next_direntry_and_assure_is_free io v d = Some (True, de, d') \<and> cursor_at (disk (store d)) v cs m d'
    \<and> read_only inv disk resident (store d) (store d') \<and> current_dir d' = current_dir d"
proof -
  let ?d0 = "d\<lparr>vfatEntry := False, vfat_entry_count := 0\<rparr>"
  have view: "dir_view inv disk resident v cs (store d)" using assms(1) by (simp add: dir_rw_def)
  then have len: "\<forall>n. length (disk (store d) n) = 512" and ok: "dir_ok v cs" by (simp_all add: dir_view_def)
  obtain r d1 where adv: "advance_to_next_entry io v ?d0 = (r, d1)" by fastforce
  have b: "cursor_before (disk (store ?d0)) v cs m ?d0" using assms(2) by (auto simp: cursor_before_def cursor_at_def)
  have a: "read_only inv disk resident (store d) (store d1)" "r = 0" "cursor_at (disk (store d)) v cs m d1"
    using res.advance_before [OF _ b assms(3) adv] view by simp_all
  note e = entry_at [OF a(3) len] and keep = advance_keeps_vfat [OF adv]
  have sec: "dir_sector d1 \<noteq> no_dir" using cursor_at_dir_sector [OF a(3) ok] .
  have "fat_readdir io v True d = Some (0, decode_entry False False (cur_entry d1) (fill_debug v d1 dirent_zero), d1)"
    using adv a(2) sec e(2) [of 0] assms(4) by (simp add: fat_readdir_def next_entry_def)
  moreover have "d_name (decode_entry False False (cur_entry d1) (fill_debug v d1 dirent_zero)) ! 0 = 0"
      "d_type (decode_entry False False (cur_entry d1) (fill_debug v d1 dirent_zero)) = M65DT_FREESLOT"
      "de_raw (decode_entry False False (cur_entry d1) (fill_debug v d1 dirent_zero)) ! 0 = 0"
    using assms(4) e(1) by (simp_all add: decode_entry_def hide_def fill_debug_def assemble_time_from_raw_def dirent_zero_def filename_max_def Let_def)
  ultimately show ?thesis using a keep by (simp add: read_next_direntry_and_assure_is_free_def)
qed

text \<open>One entry written into the free slot under the cursor.\<close>

lemma entry_written:
  assumes "dir_rw inv disk resident v cs (store d)" "cursor_before (disk (store d)) v cs m d" "m < slot_count v cs"
    and "dir_slot (disk (store d)) v cs m ! 0 = 0" "length e = 32"
  shows "\<exists>de d1 d2. read_next_direntry_and_assure_is_free io v d = Some (True, de, d1)
    \<and> dir_write io v (set_entry e d1) = (True, d2) \<and> dir_rw inv disk resident v cs (store d2)
    \<and> disk (store d2) = slot_disk v cs m e (disk (store d)) \<and> cursor_at (disk (store d2)) v cs m d2"
proof -
  obtain de d1 where a: "read_next_direntry_and_assure_is_free io v d = Some (True, de, d1)" "cursor_at (disk (store d)) v cs m d1"
      "read_only inv disk resident (store d) (store d1)"
    using next_entry_is_free [OF assms(1-4)] by blast
  have D: "disk (store d1) = disk (store d)" using read_onlyD(2) [OF a(3)] .
  with write_slot [OF dir_rw_read_only [OF a(3) assms(1)] _ assms(5)] a show ?thesis by fastforce
qed

lemma create_vfat_entries_written:
  assumes "dir_rw inv disk resident v cs (store d)" "cursor_before (disk (store d)) v cs m d" "m + k < slot_count v cs"
    and "\<forall>j < k. dir_slot (disk (store d)) v cs (m + j) ! 0 = 0" "length name \<le> 255"
  shows "\<exists>d'. create_vfat_entries io v k name csum d = Some (True, d') \<and> dir_rw inv disk resident v cs (store d')
    \<and> cursor_before (disk (store d')) v cs (m + k) d' \<and> name_slots (disk (store d')) v cs m k name csum
    \<and> (\<forall>i < slot_count v cs. i < m \<or> m + k \<le> i \<longrightarrow> dir_slot (disk (store d')) v cs i = dir_slot (disk (store d)) v cs i)
    \<and> (\<forall>a. (\<forall>j < spc v * length cs. a \<noteq> partition_start v + dir_sector_no v cs j) \<longrightarrow> disk (store d') a = disk (store d) a)"
  using assms
proof (induction k arbitrary: m d)
  case 0
  then show ?case by (simp add: name_slots_def)
next
  case (Suc k)
  let ?D = "disk (store d)" and ?e = "vfat_direntry (Suc k) (vfat_count name) name csum"
  have m: "m < slot_count v cs" using Suc.prems(3) by simp
  have inj: "inj_on (dir_sector_no v cs) {..< spc v * length cs}" and len: "\<forall>a. length (?D a) = 512"
    using Suc.prems(1) by (simp_all add: dir_rw_def dir_view_def)
  have free: "dir_slot ?D v cs m ! 0 = 0" using Suc.prems(4) by (metis add.right_neutral zero_less_Suc)
  obtain de d1 d2 where w: "read_next_direntry_and_assure_is_free io v d = Some (True, de, d1)"
      "dir_write io v (set_entry ?e d1) = (True, d2)" "dir_rw inv disk resident v cs (store d2)"
      "disk (store d2) = slot_disk v cs m ?e ?D" "cursor_at (disk (store d2)) v cs m d2"
    using entry_written [OF Suc.prems(1,2) m free length_vfat_direntry] by blast
  let ?d3 = "dir_flush io d2"
  note f = dir_rw_flush [OF w(3)]
  have c: "cursor_before (disk (store ?d3)) v cs (Suc m) ?d3"
    using w(5) f(2) by (simp add: cursor_before_def cursor_next_def dir_flush_def cursor_at_def)
  have slot: "dir_slot (disk (store ?d3)) v cs i = (if i = m then ?e else dir_slot ?D v cs i)" if "i < slot_count v cs" for i
    using dir_slot_slot_disk [OF inj len _ m that] f(2) w(4) by (simp add: dir_flush_def)
  have step: "create_vfat_entries io v (Suc k) name csum d = create_vfat_entries io v k name csum ?d3"
    using w(1,2) Suc.prems(5) by (simp add: write_vfat_direntry_chunk_def calculate_needed_eq)
  have "dir_rw inv disk resident v cs (store ?d3)" using f(1) by (simp add: dir_flush_def)
  moreover have "\<forall>j < k. dir_slot (disk (store ?d3)) v cs (Suc m + j) ! 0 = 0"
    using Suc.prems(3,4) slot by (auto dest: spec [of _ "Suc j" for j])
  ultimately obtain d' where r: "create_vfat_entries io v k name csum ?d3 = Some (True, d')" "dir_rw inv disk resident v cs (store d')"
      "cursor_before (disk (store d')) v cs (Suc m + k) d'" "name_slots (disk (store d')) v cs (Suc m) k name csum"
      "\<forall>i < slot_count v cs. i < Suc m \<or> Suc m + k \<le> i \<longrightarrow> dir_slot (disk (store d')) v cs i = dir_slot (disk (store ?d3)) v cs i"
      "\<forall>a. (\<forall>j < spc v * length cs. a \<noteq> partition_start v + dir_sector_no v cs j) \<longrightarrow> disk (store d') a = disk (store ?d3) a"
    using Suc.IH [OF _ c] Suc.prems(3,5) by auto
  have "disk (store ?d3) a = ?D a" if "\<forall>j < spc v * length cs. a \<noteq> partition_start v + dir_sector_no v cs j" for a
    using that slot_sector [OF m] f(2) w(4) by (simp add: dir_flush_def slot_disk_def Let_def)
  moreover have "dir_slot (disk (store d')) v cs m = ?e" using r(5) slot [OF m] m by simp
  moreover have "dir_slot (disk (store d')) v cs i = dir_slot ?D v cs i" if "i < slot_count v cs" "i < m \<or> m + Suc k \<le> i" for i
    using r(5) slot [OF that(1)] that by auto
  ultimately show ?case unfolding step name_slots_Suc r(1) using r(2-4,6) by (intro exI [of _ d']) simp
qed

end

section \<open>The short entry\<close>

lemma short_direntry_bytes:
  assumes "11 \<le> length short"
  shows "length (short_direntry short attrib now) = 32" "short_direntry short attrib now ! 0 = short ! 0"
    "short_direntry short attrib now ! 0x0B = attrib" "start_cluster (short_direntry short attrib now) = 0"
    "le32_at (short_direntry short attrib now) 0x1C = 0"
proof -
  let ?b = "take 11 short @ [attrib] @ replicate 20 0"
  have b: "length ?b = 32" using assms by simp
  have len: "length (assemble_time_into_raw_at_offset k now b') = length b'" if "k + 4 \<le> length b'" for k b'
    using that by (simp add: assemble_time_into_raw_at_offset_def)
  show "length (short_direntry short attrib now) = 32"
    using b by (simp add: short_direntry_def assemble_time_into_raw_def len)
  have nth: "short_direntry short attrib now ! k = ?b ! k" if "k < 14 \<or> 18 \<le> k \<and> k < 22 \<or> 26 \<le> k" "k < 32" for k
    using b that by (auto simp: short_direntry_def assemble_time_into_raw_def assemble_time_into_raw_at_offset_def nth_blit)
  show "short_direntry short attrib now ! 0 = short ! 0" "short_direntry short attrib now ! 0x0B = attrib"
    using assms nth [of 0] nth [of "0x0B"] by (simp_all add: nth_append)
  show "start_cluster (short_direntry short attrib now) = 0"
    using assms nth [of "0x1A"] nth [of "0x1B"] nth [of "0x14"] nth [of "0x15"] by (simp add: start_cluster_def nth_append)
  show "le32_at (short_direntry short attrib now) 0x1C = 0"
    using assms nth [of "0x1C"] nth [of "0x1D"] nth [of "0x1E"] nth [of "0x1F"] by (simp add: le32_at_def nth_append)
qed

context sector_store
begin

lemma item_created:
  assumes "dir_rw inv disk resident v cs (store d)" "cursor_before (disk (store d)) v cs m d" "m + vfat_count name < slot_count v cs"
    and "\<forall>j \<le> vfat_count name. dir_slot (disk (store d)) v cs (m + j) ! 0 = 0" "length name \<le> 255" "11 \<le> length short"
  shows "\<exists>d'. create_directory_entry_for_item io v now name short csum True attrib d = Some (True, d')
    \<and> dir_rw inv disk resident v cs (store d') \<and> cursor_at (disk (store d')) v cs (m + vfat_count name) d'
    \<and> name_slots (disk (store d')) v cs m (vfat_count name) name csum
    \<and> dir_slot (disk (store d')) v cs (m + vfat_count name) = short_direntry short attrib now
    \<and> (\<forall>i < slot_count v cs. i < m \<or> m + vfat_count name < i \<longrightarrow> dir_slot (disk (store d')) v cs i = dir_slot (disk (store d)) v cs i)
    \<and> (\<forall>a. (\<forall>j < spc v * length cs. a \<noteq> partition_start v + dir_sector_no v cs j) \<longrightarrow> disk (store d') a = disk (store d) a)"
proof -
  let ?n = "vfat_count name" and ?D = "disk (store d)" and ?e = "short_direntry short attrib now"
  obtain d1 where c: "create_vfat_entries io v ?n name csum d = Some (True, d1)" "dir_rw inv disk resident v cs (store d1)"
      "cursor_before (disk (store d1)) v cs (m + ?n) d1" "name_slots (disk (store d1)) v cs m ?n name csum"
      "\<forall>i < slot_count v cs. i < m \<or> m + ?n \<le> i \<longrightarrow> dir_slot (disk (store d1)) v cs i = dir_slot ?D v cs i"
      "\<forall>a. (\<forall>j < spc v * length cs. a \<noteq> partition_start v + dir_sector_no v cs j) \<longrightarrow> disk (store d1) a = ?D a"
    using create_vfat_entries_written [OF assms(1-3) _ assms(5), of csum] assms(4) by auto
  have free: "dir_slot (disk (store d1)) v cs (m + ?n) ! 0 = 0" using c(5) assms(3,4) by simp
  obtain de d2 d3 where w: "read_next_direntry_and_assure_is_free io v d1 = Some (True, de, d2)"
      "dir_write io v (set_entry ?e d2) = (True, d3)" "dir_rw inv disk resident v cs (store d3)"
      "disk (store d3) = slot_disk v cs (m + ?n) ?e (disk (store d1))" "cursor_at (disk (store d3)) v cs (m + ?n) d3"
    using entry_written [OF c(2,3) assms(3) free short_direntry_bytes(1) [OF assms(6)]] by blast
  let ?d4 = "dir_flush io d3"
  note f = dir_rw_flush [OF w(3)]
  have D4: "disk (store ?d4) = disk (store d3)" using f(2) by (simp add: dir_flush_def)
  have inj: "inj_on (dir_sector_no v cs) {..< spc v * length cs}" and len: "\<forall>a. length (disk (store d1) a) = 512"
    using c(2) by (simp_all add: dir_rw_def dir_view_def)
  have slot: "dir_slot (disk (store ?d4)) v cs i = (if i = m + ?n then ?e else dir_slot (disk (store d1)) v cs i)" if "i < slot_count v cs" for i
    using dir_slot_slot_disk [OF inj len short_direntry_bytes(1) [OF assms(6)] assms(3) that] D4 w(4) by simp
  have "create_directory_entry_for_item io v now name short csum True attrib d = Some (True, ?d4)"
    using c(1) w(1,2) assms(5) by (simp add: create_directory_entry_for_item_def calculate_needed_eq create_directory_entry_for_shortname_def)
  moreover have "dir_rw inv disk resident v cs (store ?d4)" "cursor_at (disk (store ?d4)) v cs (m + ?n) ?d4"
    using f(1) w(5) D4 by (simp_all add: dir_flush_def cursor_at_def)
  moreover have "name_slots (disk (store ?d4)) v cs m ?n name csum"
    using c(4) slot assms(3) by (simp add: name_slots_def)
  moreover have "disk (store ?d4) a = ?D a" if "\<forall>j < spc v * length cs. a \<noteq> partition_start v + dir_sector_no v cs j" for a
    using that slot_sector [OF assms(3)] D4 w(4) c(6) by (simp add: slot_disk_def Let_def)
  ultimately show ?thesis using c(5) slot assms(3) by (intro exI [of _ ?d4]) auto
qed

end

section \<open>Properties\<close>

text \<open>
  C11: a new file keeps its name.  On free slots of a directory, for every name of up to 255
  characters that does not begin with a dot, \<open>create_directory_entry_for_item\<close> succeeds, changes
  no other slot and no other sector, and a \<open>fat_readdir\<close> that comes to these slots gives the
  long name back, with the attribute asked for, no cluster and size 0.
\<close>
theorem created_entry_read_back:
  assumes "dir_rw (blk_inv ops) (blk_disk ops) blk_resident v cs (store d)" "cursor_before (blk_disk ops (store d)) v cs m d"
    and "m + vfat_count name < slot_count v cs" "\<forall>j \<le> vfat_count name. dir_slot (blk_disk ops (store d)) v cs (m + j) ! 0 = 0"
    and "name \<noteq> []" "length name \<le> 255" "0 \<notin> set name" "hd name \<noteq> 0x2e"
    and "11 \<le> length short" "short ! 0 \<noteq> 0" "short ! 0 \<noteq> 0xE5" "attrib AND 0x02 = 0" "attrib \<noteq> 0x08"
  shows "\<exists>d'. create_directory_entry_for_item (blk_io ops) v now name short csum True attrib d = Some (True, d')
    \<and> (\<forall>i < slot_count v cs. i < m \<or> m + vfat_count name < i \<longrightarrow>
         dir_slot (blk_disk ops (store d')) v cs i = dir_slot (blk_disk ops (store d)) v cs i)
    \<and> (\<forall>a. (\<forall>j < spc v * length cs. a \<noteq> partition_start v + dir_sector_no v cs j) \<longrightarrow>
         blk_disk ops (store d') a = blk_disk ops (store d) a)
    \<and> (\<forall>d2. store d2 = store d' \<and> cursor_next (blk_disk ops (store d2)) v cs m d2 \<longrightarrow>
         (\<exists>de d3. fat_readdir (blk_io ops) v False d2 = Some (0, de, d3) \<and> cstr (d_longname de) = name
            \<and> d_attr de = attrib \<and> d_ino de = 0 \<and> d_filelen de = 0))"
proof -
  let ?D = "\<lambda>d. blk_disk ops (store d)" and ?n = "vfat_count name" and ?e = "short_direntry short attrib now"
  obtain d' where c: "create_directory_entry_for_item (blk_io ops) v now name short csum True attrib d = Some (True, d')"
      "dir_rw (blk_inv ops) (blk_disk ops) blk_resident v cs (store d')" "name_slots (?D d') v cs m ?n name csum"
      "dir_slot (?D d') v cs (m + ?n) = ?e"
      "\<forall>i < slot_count v cs. i < m \<or> m + ?n < i \<longrightarrow> dir_slot (?D d') v cs i = dir_slot (?D d) v cs i"
      "\<forall>a. (\<forall>j < spc v * length cs. a \<noteq> partition_start v + dir_sector_no v cs j) \<longrightarrow> ?D d' a = ?D d a"
    using blk.item_created [OF assms(1-4,6,9), of now csum attrib] by blast
  note e = short_direntry_bytes [OF assms(9), of attrib now]
  have plain: "plain_entry ?e" using e assms(10-13) by (simp add: plain_entry_def)
  have "\<exists>de d3. fat_readdir (blk_io ops) v False d2 = Some (0, de, d3) \<and> cstr (d_longname de) = name
      \<and> d_attr de = attrib \<and> d_ino de = 0 \<and> d_filelen de = 0"
    if "store d2 = store d'" "cursor_next (?D d2) v cs m d2" for d2
    using blk.res.fat_readdir_long_name [OF _ that(2) assms(5-8) _ assms(3), of csum] c(2-4) plain e that(1)
    by (auto simp: dir_rw_def Let_def)
  then show ?thesis using c(1,5,6) by (intro exI [of _ d'] conjI) blast+
qed

text \<open>A directory in cluster 2 of the small volume with the FAT \<open>E\<close>, and an empty one.\<close>

abbreviation table_dir :: "(nat \<Rightarrow> u32) \<Rightarrow> (nat \<Rightarrow> u8) blk dir_state" where
  "table_dir E \<equiv> cursor_start (blk_io device_ops) (table_state E) (blk_disk device_ops)"

abbreviation empty_dir :: "(nat \<Rightarrow> u8) blk dir_state" where
  "empty_dir \<equiv> table_dir (\<lambda>n. if n = 2 then 0x0ffffff8 else 0)"

lemma empty_dir_slot: "dir_slot (blk_disk device_ops (store empty_dir)) small_vol [2] n ! 0 = 0"
proof -
  have byte: "table_device (\<lambda>n. if n = 2 then 0x0ffffff8 else 0) (m * 512 + 32 * r) = 0" if "r < 16" for m r
  proof -
    have e: "m * 512 + 32 * r = 4 * (m * 128 + 8 * r)" by simp
    have "(m * 128 + 8 * r) mod 128 = 8 * r" using that by simp
    moreover have "8 * r \<noteq> 2" by presburger
    ultimately show ?thesis unfolding e by (simp add: table_device_def le32_bytes_def byte_of_def)
  qed
  have "read_sector_from_device m (table_device (\<lambda>n. if n = 2 then 0x0ffffff8 else 0)) ! (32 * (n mod 16)) = 0" for m
    using slot_range [of n] byte [of "n mod 16" "unat m"] by (simp add: read_sector_from_device_def farray_get_def)
  then show ?thesis using slot_range [of n] by (simp add: dir_slot_def cursor_start_def nth_subbuf read_sector_from_device_def)
qed

lemma table_dir_rw:
  assumes "E 2 = 0x0ffffff8"
  shows "dir_rw (blk_inv device_ops) (blk_disk device_ops) blk_resident small_vol [2] (store (table_dir E))"
proof -
  have u: "unat (34 + word_of_nat j :: u32) = 34 + j" "unat (2048 + (34 + word_of_nat j) :: u32) = 2082 + j" if "j < 8" for j
    using that by (simp_all add: unat_word_ariths unat_of_nat)
  have s: "spc small_vol = 8" by (simp add: small_vol_def)
  have inj: "inj_on (dir_sector_no small_vol [2]) {..< spc small_vol * length [2 :: u32]}"
    using u(1) by (auto simp: inj_on_def s small_dir_no) (metis add_left_imp_eq)
  have "dir_ok small_vol [2]" using small_dir_view unfolding dir_view_def by blast
  moreover have "partition_start small_vol + dir_sector_no small_vol [2] j \<notin> fat_sectors small_vol" if "j < 8" for j
  proof -
    have "partition_start small_vol + dir_sector_no small_vol [2] j = 2048 + (34 + word_of_nat j)"
      using that by (simp only: small_dir_no) (simp add: small_vol_def)
    then have "unat (partition_start small_vol + dir_sector_no small_vol [2] j) = 2082 + j" by (simp only: u(2) [OF that])
    moreover have "a \<in> fat_sectors small_vol \<Longrightarrow> unat a = 2080 \<or> unat a = 2081" for a
      by (auto simp: fat_sectors_def) (simp_all add: small_vol_def)
    ultimately show ?thesis by fastforce
  qed
  ultimately show ?thesis using inj assms
    by (simp add: dir_rw_def dir_view_def cursor_start_def dir_ready_def s fat_all_def read_sector_from_device_def)
qed

theorem created_entry_read_back_witness:
  "\<exists>d'. create_directory_entry_for_item (blk_io device_ops) small_vol tm_zero [0x61, 0x2e, 0x62] (replicate 11 0x41) 7 True 0x20 empty_dir
      = Some (True, d')"
proof -
  have c: "cursor_before (blk_disk device_ops (store empty_dir)) small_vol [2] 0 empty_dir"
    by (simp add: cursor_before_def cursor_next_def cursor_start_def small_dir_no) (simp add: small_vol_def)
  have n: "vfat_count [0x61, 0x2e, 0x62] = 1" "slot_count small_vol [2] = 128"
    by (simp_all add: vfat_count_def slot_count_def small_vol_def)
  show ?thesis
    using created_entry_read_back [OF table_dir_rw c, of "[0x61, 0x2e, 0x62]" "replicate 11 0x41" "0x20" tm_zero 7]
      empty_dir_slot by (auto simp: n)
qed

end
