(* ===== verification/Deletion.thy ===== *)
theory Deletion
  imports DirCreate DirTree FatState
begin

text \<open>
  Deleting a file (\<open>src/lib/libm65ftp/mega65_ftp.c\<close>): \<open>wipe_direntries_of_current_file_or_dir\<close> clears
  the entries of its name, \<open>delete_single_file\<close> then frees its clusters.
\<close>

section \<open>Wiping the entries\<close>

text \<open>Slots \<open>m\<close> to \<open>n - 1\<close> are cleared, every other slot and every sector outside the directory is as before.\<close>

definition slots_wiped :: "vol \<Rightarrow> u32 list \<Rightarrow> nat \<Rightarrow> nat \<Rightarrow> (u32 \<Rightarrow> sector) \<Rightarrow> (u32 \<Rightarrow> sector) \<Rightarrow> bool" where
  "slots_wiped v cs m n D D' \<longleftrightarrow>
     (\<forall>i < slot_count v cs. dir_slot D' v cs i = (if m \<le> i \<and> i < n then deleted_entry else dir_slot D v cs i))
     \<and> (\<forall>a. (\<forall>j < spc v * length cs. a \<noteq> partition_start v + dir_sector_no v cs j) \<longrightarrow> D' a = D a)"

lemma slots_wiped_refl: "slots_wiped v cs m m D D"
  by (auto simp: slots_wiped_def)

lemma length_deleted_entry [simp]: "length deleted_entry = 32"
  by (simp add: deleted_entry_def)

lemma slots_wiped_step:
  assumes "slots_wiped v cs m n D D'" "m \<le> n" "n < slot_count v cs"
    and "inj_on (dir_sector_no v cs) {..< spc v * length cs}" "\<forall>a. length (D' a) = 512"
  shows "slots_wiped v cs m (Suc n) D (slot_disk v cs n deleted_entry D')"
proof -
  have "slot_disk v cs n deleted_entry D' a = D a" if "\<forall>j < spc v * length cs. a \<noteq> partition_start v + dir_sector_no v cs j" for a
    using that slot_sector [OF assms(3)] assms(1) by (simp add: slots_wiped_def slot_disk_def Let_def)
  then show ?thesis
    using assms(1,2) dir_slot_slot_disk [OF assms(4,5) length_deleted_entry assms(3)] by (auto simp: slots_wiped_def)
qed

context sector_store
begin

lemma slot_wiped:
  assumes "dir_rw inv disk resident v cs (store d)" "cursor_before (disk (store d)) v cs m d" "m < slot_count v cs"
    and "d' = snd (dir_write io v (set_entry deleted_entry (snd (advance_to_next_entry io v d))))"
  shows "dir_rw inv disk resident v cs (store d')" "cursor_at (disk (store d')) v cs m d'"
    "disk (store d') = slot_disk v cs m deleted_entry (disk (store d))" "resident (store d) a \<Longrightarrow> resident (store d') a"
proof -
  obtain r d1 where adv: "advance_to_next_entry io v d = (r, d1)" by fastforce
  have view: "dir_view inv disk resident v cs (store d)" using assms(1) by (simp add: dir_rw_def)
  have a: "read_only inv disk resident (store d) (store d1)" "cursor_at (disk (store d)) v cs m d1"
    using res.advance_before [OF view assms(2,3) adv] by simp_all
  have D: "disk (store d1) = disk (store d)" using read_onlyD(2) [OF a(1)] .
  obtain s' where w: "dir_write io v (set_entry deleted_entry d1) = (True, (set_entry deleted_entry d1)\<lparr>store := s'\<rparr>)"
      "dir_rw inv disk resident v cs s'" "disk s' = slot_disk v cs m deleted_entry (disk (store d))"
      "cursor_at (disk s') v cs m ((set_entry deleted_entry d1)\<lparr>store := s'\<rparr>)" "\<forall>a. resident (store d1) a \<longrightarrow> resident s' a"
    using write_slot [OF dir_rw_read_only [OF a(1) assms(1)], of m deleted_entry] a(2) unfolding D by auto
  have d': "d' = (set_entry deleted_entry d1)\<lparr>store := s'\<rparr>" using assms(4) adv w(1) by simp
  show "dir_rw inv disk resident v cs (store d')" "cursor_at (disk (store d')) v cs m d'"
    "disk (store d') = slot_disk v cs m deleted_entry (disk (store d))"
    using w(2-4) by (simp_all add: d')
  show "resident (store d) a \<Longrightarrow> resident (store d') a"
    using w(5) a(1) by (simp add: d' read_only_def)
qed

lemma wipe_vfat_entries_wiped:
  assumes "dir_rw inv disk resident v cs (store d)" "cursor_before (disk (store d)) v cs n d" "n + k \<le> slot_count v cs"
    and "slots_wiped v cs m n D0 (disk (store d))" "m \<le> n" "d' = wipe_vfat_entries io v k d"
  shows "dir_rw inv disk resident v cs (store d') \<and> cursor_before (disk (store d')) v cs (n + k) d'
    \<and> slots_wiped v cs m (n + k) D0 (disk (store d')) \<and> (\<forall>a. resident (store d) a \<longrightarrow> resident (store d') a)"
  using assms
proof (induction k arbitrary: n d)
  case (Suc k)
  let ?d1 = "snd (dir_write io v (set_entry deleted_entry (snd (advance_to_next_entry io v d))))"
  have n: "n < slot_count v cs" using Suc.prems(3) by simp
  note w = slot_wiped [OF Suc.prems(1,2) n refl]
  have c: "cursor_before (disk (store ?d1)) v cs (Suc n) ?d1" using w(2) by (simp add: cursor_before_def cursor_next_def)
  have inj: "inj_on (dir_sector_no v cs) {..< spc v * length cs}" and len: "\<forall>a. length (disk (store d) a) = 512"
    using Suc.prems(1) by (simp_all add: dir_rw_def dir_view_def)
  have "slots_wiped v cs m (Suc n) D0 (disk (store ?d1))"
    using slots_wiped_step [OF Suc.prems(4,5) n inj len] by (simp only: w(3))
  then show ?case using Suc.IH [OF w(1) c] Suc.prems(3,5,6) w(4) by simp
qed simp

text \<open>Going back to where the long name begins.\<close>

lemma back_to_saved:
  assumes "dir_rw inv disk resident v cs (store d)" "saved_at v cs m d" "m < slot_count v cs"
    and "d' = snd (dir_load io v (d\<lparr>dir_cluster := vfat_dir_cluster d, dir_sector := vfat_dir_sector d,
      dir_sector_in_cluster := vfat_dir_sector_in_cluster d, dir_sector_offset := vfat_dir_sector_offset d - 32\<rparr>))"
  shows "read_only inv disk resident (store d) (store d') \<and> cursor_before (disk (store d)) v cs m d' \<and> vfat_entry_count d' = vfat_entry_count d"
proof -
  let ?d0 = "d\<lparr>dir_cluster := vfat_dir_cluster d, dir_sector := vfat_dir_sector d,
      dir_sector_in_cluster := vfat_dir_sector_in_cluster d, dir_sector_offset := vfat_dir_sector_offset d - 32\<rparr>"
  let ?a = "partition_start v + dir_sector_no v cs (m div 16)"
  have "dir_view inv disk resident v cs (store d)" using assms(1) by (simp add: dir_rw_def)
  then have r: "inv (store ?d0)" "resident (store ?d0) (partition_start v + dir_sector ?d0)"
    using slot_sector [OF assms(3)] assms(2) by (simp_all add: dir_view_def dir_ready_def saved_at_def)
  note l = res.dir_load_eq [OF r]
  have d': "d' = ?d0\<lparr>store := after_rd io (partition_start v + dir_sector ?d0) (store ?d0), dir_sector_buffer := disk (store ?d0) ?a\<rparr>"
    using l(1) assms(2,4) by (simp add: saved_at_def)
  have "cursor_before (disk (store d)) v cs m d'"
  proof (cases "m mod 16 = 0")
    case True
    then show ?thesis using assms(2,3) by (simp add: d' cursor_before_def cursor_at_def saved_at_def)
  next
    case False
    then obtain k where m: "m = Suc k" by (cases m) simp_all
    then have "k div 16 = m div 16" "Suc (k mod 16) = m mod 16" using False by (simp_all add: div_Suc mod_Suc split: if_splits)
    then show ?thesis using assms(2,3) by (simp add: d' m cursor_before_def cursor_next_def cursor_at_def saved_at_def)
  qed
  then show ?thesis using l(2) d' by simp
qed

lemma direntries_wiped:
  assumes "dir_rw inv disk resident v cs (store d)" "cursor_at (disk (store d)) v cs n d"
    and "if vfatEntry d then saved_at v cs m d \<and> m + vfat_entry_count d = n else m = n"
    and "d' = wipe_direntries_of_current_file_or_dir io v d"
  shows "dir_rw inv disk resident v cs (store d') \<and> slots_wiped v cs m (Suc n) (disk (store d)) (disk (store d'))
    \<and> (\<forall>a. resident (store d) a \<longrightarrow> resident (store d') a)"
proof -
  let ?D = "disk (store d)"
  have n: "n < slot_count v cs" using assms(2) by (simp add: cursor_at_def)
  have inj: "inj_on (dir_sector_no v cs) {..< spc v * length cs}" using assms(1) by (simp add: dir_rw_def)
  obtain d1 where d1: "d' = dir_flush io d1" "dir_rw inv disk resident v cs (store d1)"
      "slots_wiped v cs m (Suc n) ?D (disk (store d1))" "\<forall>a. resident (store d) a \<longrightarrow> resident (store d1) a"
  proof (cases "vfatEntry d")
    case True
    define d0 where "d0 = snd (dir_load io v (d\<lparr>dir_cluster := vfat_dir_cluster d, dir_sector := vfat_dir_sector d,
      dir_sector_in_cluster := vfat_dir_sector_in_cluster d, dir_sector_offset := vfat_dir_sector_offset d - 32\<rparr>))"
    define wv where "wv = wipe_vfat_entries io v (vfat_entry_count d) d0"
    have mn: "saved_at v cs m d" "m + vfat_entry_count d = n" using assms(3) True by simp_all
    then have m: "m < slot_count v cs" using n by simp
    have b: "read_only inv disk resident (store d) (store d0)" "cursor_before ?D v cs m d0"
      using back_to_saved [OF assms(1) mn(1) m d0_def] by simp_all
    have D0: "disk (store d0) = ?D" using read_onlyD(2) [OF b(1)] .
    have w: "dir_rw inv disk resident v cs (store wv)" "cursor_before (disk (store wv)) v cs n wv"
        "slots_wiped v cs m n ?D (disk (store wv))" "\<forall>a. resident (store d0) a \<longrightarrow> resident (store wv) a"
      using wipe_vfat_entries_wiped [OF dir_rw_read_only [OF b(1) assms(1)], of m "vfat_entry_count d" m ?D wv] b(2) D0 mn(2) n
      by (simp_all add: slots_wiped_refl wv_def)
    let ?d1 = "snd (dir_write io v (set_entry deleted_entry (snd (advance_to_next_entry io v wv))))"
    note l = slot_wiped [OF w(1,2) n refl]
    have len: "\<forall>a. length (disk (store wv) a) = 512" using w(1) by (simp add: dir_rw_def dir_view_def)
    have "d' = dir_flush io ?d1"
      using assms(4) True by (simp add: wipe_direntries_of_current_file_or_dir_def Let_def wv_def d0_def)
    moreover have "slots_wiped v cs m (Suc n) ?D (disk (store ?d1))"
      using slots_wiped_step [OF w(3) _ n inj len] mn(2) unfolding l(3) by simp
    moreover have "\<forall>a. resident (store d) a \<longrightarrow> resident (store ?d1) a" using l(4) w(4) b(1) by (simp add: read_only_def)
    ultimately show ?thesis using that l(1) by blast
  next
    case False
    then have mn: "m = n" using assms(3) by simp
    have len: "\<forall>a. length (?D a) = 512" using assms(1) by (simp add: dir_rw_def dir_view_def)
    obtain s' where w: "dir_write io v (set_entry deleted_entry d) = (True, (set_entry deleted_entry d)\<lparr>store := s'\<rparr>)"
      "dir_rw inv disk resident v cs s'" "disk s' = slot_disk v cs n deleted_entry ?D" "\<forall>a. resident (store d) a \<longrightarrow> resident s' a"
      using write_slot [OF assms(1,2) length_deleted_entry] by blast
    have "d' = dir_flush io ((set_entry deleted_entry d)\<lparr>store := s'\<rparr>)"
      using assms(4) False w(1) by (simp add: wipe_direntries_of_current_file_or_dir_def Let_def)
    moreover have "slots_wiped v cs m (Suc n) ?D (disk s')"
      using slots_wiped_step [OF slots_wiped_refl _ n inj len] mn unfolding w(3) by simp
    ultimately show ?thesis using that w(2,4) by simp
  qed
  note f = dir_rw_flush [OF d1(2)]
  show ?thesis using f d1(3,4) by (simp add: d1(1) dir_flush_def)
qed

end

section \<open>Freeing the clusters\<close>

text \<open>The FAT with the clusters of a chain marked as free.\<close>

definition freed :: "u32 list \<Rightarrow> (nat \<Rightarrow> u32) \<Rightarrow> nat \<Rightarrow> u32" where
  "freed cs E m = (if m \<in> unat ` set cs then 0 else E m)"

lemma freed_Cons: "freed (c # cs) E = freed cs (E(unat c := 0))"
  by (auto simp: freed_def fun_eq_iff)

context sector_store
begin

lemma dealloc_step:
  assumes "fat_state inv disk resident v d0 E s" "vol_ok v" "unat c < 128 * fat_len v"
  shows "\<exists>s1 s2 ok. chained_cluster io v c s = (E (unat c), s1) \<and> deallocate_cluster io v c s1 = (ok, s2)
    \<and> fat_state inv disk resident v d0 (E(unat c := 0)) s2"
proof -
  have st: "inv s" "fat_both resident v s" "fat_get (disk s) v (unat c) = E (unat c)"
    using assms(1,3) by (simp_all add: fat_state_def)
  obtain s1 where s1: "chained_cluster io v c s = (E (unat c), s1)" "read_only inv disk resident s s1"
    using res.chained_cluster_eq [OF st(1) fat_both_all [OF st(2)] assms(3)] st(3) by (cases "chained_cluster io v c s") simp
  note k = read_onlyD [OF s1(2)]
  have "fat_state inv disk resident v d0 E s1" using assms(1) k by (simp add: fat_state_def)
  from write_fat_entry_state [OF this assms(2,3), of 0] s1(1) show ?thesis
    by (auto simp: deallocate_cluster_def set_fat_cluster_ptr_def)
qed

lemma dealloc_chain_frees:
  assumes "fat_state inv disk resident v d0 E s" "vol_ok v" "fat_chain E (c # cs)" "distinct (c # cs)"
    and "\<forall>x \<in> set (c # cs). unat x < 128 * fat_len v"
  shows "\<exists>s'. dealloc_chain io v c s = Some s' \<and> fat_state inv disk resident v d0 (freed (c # cs) E) s'"
  using assms
proof (induction cs arbitrary: c E s)
  case Nil
  have "unat c < 128 * fat_len v" using Nil.prems(5) by simp
  then obtain s1 s2 ok where s: "chained_cluster io v c s = (E (unat c), s1)" "deallocate_cluster io v c s1 = (ok, s2)"
      "fat_state inv disk resident v d0 (E(unat c := 0)) s2"
    using dealloc_step [OF Nil.prems(1,2)] by blast
  have "\<not> (E (unat c) > 0 \<and> E (unat c) < end_marker)" using Nil.prems(3) by (auto simp: not_less)
  then have r: "dealloc_chain io v c s = Some s2" using s(1,2) by (subst dealloc_chain.simps) auto
  have "freed [c] E = E(unat c := 0)" by (simp add: freed_def fun_eq_iff)
  then have "fat_state inv disk resident v d0 (freed [c] E) s2" using s(3) by (simp only:)
  with r show ?case by blast
next
  case (Cons d cs)
  have c: "unat c < 128 * fat_len v" "E (unat c) = d" "d \<noteq> 0" "d < end_marker" using Cons.prems(3,5) by simp_all
  obtain s1 s2 ok where s: "chained_cluster io v c s = (d, s1)" "deallocate_cluster io v c s1 = (ok, s2)"
      "fat_state inv disk resident v d0 (E(unat c := 0)) s2"
    using dealloc_step [OF Cons.prems(1,2) c(1)] c(2) by auto
  have "(E(unat c := 0)) (unat x) = E (unat x)" if "x \<in> set (d # cs)" for x
  proof -
    have "x \<noteq> c" using that Cons.prems(4) by auto
    then have "unat x \<noteq> unat c" by (simp only: word_unat_eq_iff) simp
    then show ?thesis by simp
  qed
  moreover have "fat_chain E (d # cs)" using Cons.prems(3) by simp
  ultimately have ch: "fat_chain (E(unat c := 0)) (d # cs)" by (rule fat_chain_cong [rotated])
  have step: "dealloc_chain io v c s = dealloc_chain io v d s2"
    using s(1,2) c(3,4) by (subst dealloc_chain.simps) (simp add: word_gt_0)
  have "distinct (d # cs)" "\<forall>x \<in> set (d # cs). unat x < 128 * fat_len v" using Cons.prems(4,5) by simp_all
  from Cons.IH [OF s(3) Cons.prems(2) ch this] show ?case unfolding freed_Cons [of c] step .
qed

text \<open>All of \<open>delete_entry\<close>: the entries and then the clusters.\<close>

lemma delete_entry_frees:
  assumes "dir_rw inv disk resident v cs (store d)" "cursor_at (disk (store d)) v cs n d"
    and "if vfatEntry d then saved_at v cs m d \<and> m + vfat_entry_count d = n else m = n"
    and "fat_both resident v (store d)" "fat_chain (fat_get (disk (store d)) v) (c # fs)" "distinct (c # fs)"
    and "\<forall>x \<in> set (c # fs). unat x < 128 * fat_len v"
  shows "\<exists>d'. delete_entry io v c d = Some (0, d')
    \<and> (\<forall>i < slot_count v cs. dir_slot (disk (store d')) v cs i = (if m \<le> i \<and> i \<le> n then deleted_entry else dir_slot (disk (store d)) v cs i))
    \<and> (\<forall>k < 128 * fat_len v. fat_get (disk (store d')) v k = freed (c # fs) (fat_get (disk (store d)) v) k)
    \<and> (\<forall>a. a \<notin> fat_sectors v \<and> (\<forall>j < spc v * length cs. a \<noteq> partition_start v + dir_sector_no v cs j) \<longrightarrow>
         disk (store d') a = disk (store d) a)"
proof -
  let ?D = "disk (store d)"
  define d1 where "d1 = wipe_direntries_of_current_file_or_dir io v d"
  have w: "dir_rw inv disk resident v cs (store d1)" "slots_wiped v cs m (Suc n) ?D (disk (store d1))"
      "\<forall>a. resident (store d) a \<longrightarrow> resident (store d1) a"
    using direntries_wiped [OF assms(1-3) d1_def] by simp_all
  have nf: "\<forall>j < spc v * length cs. partition_start v + dir_sector_no v cs j \<notin> fat_sectors v"
    and view: "dir_view inv disk resident v cs (store d1)" using w(1) unfolding dir_rw_def by blast+
  have "disk (store d1) a = ?D a" if "a \<in> fat_sectors v" for a
  proof -
    have "\<forall>j < spc v * length cs. a \<noteq> partition_start v + dir_sector_no v cs j" using nf that by blast
    then show ?thesis using w(2) by (simp add: slots_wiped_def)
  qed
  then have E: "fat_get (disk (store d1)) v k = fat_get ?D v k" if "k < 128 * fat_len v" for k
    by (rule fat_get_cong) (use that in simp_all)
  have "fat_state inv disk resident v (disk (store d1)) (fat_get ?D v) (store d1)"
    using view w(3) assms(4) E by (simp add: fat_state_def dir_view_def fat_both_def)
  moreover have "vol_ok v" using view by (simp add: dir_view_def dir_ok_def)
  ultimately obtain s where s: "dealloc_chain io v c (store d1) = Some s"
      "fat_state inv disk resident v (disk (store d1)) (freed (c # fs) (fat_get ?D v)) s"
    using dealloc_chain_frees [OF _ _ assms(5-7)] by blast
  let ?d' = "dir_flush io (d1\<lparr>store := s\<rparr>)"
  have D': "disk (store ?d') = disk s" using s(2) by (simp add: dir_flush_def fat_state_def)
  have out: "disk s a = disk (store d1) a" if "a \<notin> fat_sectors v" for a using s(2) that by (simp add: fat_state_def)
  have "dir_slot (disk s) v cs i = dir_slot (disk (store d1)) v cs i" if "i < slot_count v cs" for i
    using out nf slot_sector [OF that] by (simp add: dir_slot_def)
  moreover have "delete_entry io v c d = Some (0, ?d')" using s(1) by (simp add: delete_entry_def d1_def)
  moreover have "fat_get (disk s) v k = freed (c # fs) (fat_get ?D v) k" if "k < 128 * fat_len v" for k
    using s(2) that by (simp add: fat_state_def)
  ultimately show ?thesis
    using w(2) out by (intro exI [of _ ?d']) (auto simp: D' slots_wiped_def less_Suc_eq_le)
qed

end

section \<open>Properties\<close>

text \<open>
  C12: deleting leaves nothing behind and touches nothing else.  With the cursor on the short
  entry of a file, and the position of its long name kept by \<open>fat_readdir\<close>, the last part of
  \<open>delete_single_file\<close> returns 0, clears exactly the entries of the file, marks exactly the
  clusters of its chain as free, and changes no sector outside the directory and the FATs.
\<close>
theorem deleting_frees_everything:
  assumes "dir_rw (blk_inv ops) (blk_disk ops) blk_resident v cs (store d)" "cursor_at (blk_disk ops (store d)) v cs n d"
    and "if vfatEntry d then saved_at v cs m d \<and> m + vfat_entry_count d = n else m = n"
    and "fat_both blk_resident v (store d)" "fat_chain (fat_get (blk_disk ops (store d)) v) (c # fs)" "distinct (c # fs)"
    and "\<forall>x \<in> set (c # fs). unat x < 128 * fat_len v"
  shows "\<exists>d'. delete_entry (blk_io ops) v c d = Some (0, d')
    \<and> (\<forall>i < slot_count v cs. dir_slot (blk_disk ops (store d')) v cs i =
         (if m \<le> i \<and> i \<le> n then deleted_entry else dir_slot (blk_disk ops (store d)) v cs i))
    \<and> (\<forall>k < 128 * fat_len v. fat_get (blk_disk ops (store d')) v k =
         (if k \<in> unat ` set (c # fs) then 0 else fat_get (blk_disk ops (store d)) v k))
    \<and> (\<forall>a. a \<notin> fat_sectors v \<and> (\<forall>j < spc v * length cs. a \<noteq> partition_start v + dir_sector_no v cs j) \<longrightarrow>
         blk_disk ops (store d') a = blk_disk ops (store d) a)"
  using blk.delete_entry_frees [OF assms] unfolding freed_def .

theorem deleting_frees_everything_witness:
  "\<exists>d'. delete_entry (blk_io device_ops) small_vol 3
      ((table_dir (\<lambda>n. if n = 3 then 4 else 0x0ffffff8))\<lparr>dir_sector_offset := 0\<rparr>) = Some (0, d')
    \<and> fat_get (blk_disk device_ops (store d')) small_vol 3 = 0 \<and> fat_get (blk_disk device_ops (store d')) small_vol 4 = 0"
proof -
  let ?d = "(table_dir (\<lambda>n. if n = 3 then 4 else 0x0ffffff8))\<lparr>dir_sector_offset := 0\<rparr>"
  have rw: "dir_rw (blk_inv device_ops) (blk_disk device_ops) blk_resident small_vol [2] (store ?d)"
    using table_dir_rw [of "\<lambda>n. if n = 3 then 4 else 0x0ffffff8"] by simp
  have c: "cursor_at (blk_disk device_ops (store ?d)) small_vol [2] 0 ?d"
    by (simp add: cursor_at_def cursor_start_def small_dir_no slot_count_def) (simp add: small_vol_def)
  have "vfatEntry ?d = False" "store ?d = table_state (\<lambda>n. if n = 3 then 4 else 0x0ffffff8)"
    by (simp_all add: cursor_start_def)
  then show ?thesis
    using deleting_frees_everything [OF rw c, of 0 3 "[4]"] by (auto simp: end_marker_def)
qed

text \<open>
  Deleting a file that never got a cluster marks the reserved entry 0 of the FAT, the media
  descriptor, as free, because the loop frees its first cluster before looking at it.
\<close>
lemma deleting_empty_file_frees_entry_0:
  assumes "dir_rw (blk_inv ops) (blk_disk ops) blk_resident v cs (store d)" "cursor_at (blk_disk ops (store d)) v cs n d"
    and "\<not> vfatEntry d" "fat_both blk_resident v (store d)" "0 < fat_len v"
    and "fat_get (blk_disk ops (store d)) v 0 \<ge> end_marker"
  shows "\<exists>d'. delete_entry (blk_io ops) v 0 d = Some (0, d') \<and> fat_get (blk_disk ops (store d')) v 0 = 0
    \<and> (\<forall>k < 128 * fat_len v. k \<noteq> 0 \<longrightarrow> fat_get (blk_disk ops (store d')) v k = fat_get (blk_disk ops (store d)) v k)"
  using blk.delete_entry_frees [OF assms(1,2) _ assms(4), where m = n and c = 0 and fs = "[]"] assms(3,5,6)
  by (auto simp: freed_def)

end
