(* ===== verification/Monitor.thy ===== *)
theory Monitor
  imports Scan Dir
begin

text \<open>
  The serial side of \<open>m65common.c\<close>: the port and the MEGA65's monitor behind it.  Memory is read
  with \<open>m\<close> and \<open>M\<close> commands and written with \<open>l\<close> and \<open>s\<close> commands; the CPU is stopped and started
  with \<open>t1\<close> and \<open>t0\<close>.  The properties are about \<open>fetch_ram\<close> and \<open>push_ram\<close>.
\<close>

section \<open>The port\<close>

text \<open>
  \<open>incoming\<close> is what the coming reads find: bytes, or \<open>None\<close> for a read that fails, which is also
  how a port that does not block says that nothing has come.  A read takes no more than it asks for.
  Writes go on until everything is written.  \<open>clocks\<close> are the values \<open>time(0)\<close> will have.
\<close>

record monitor =
  incoming :: "bytes option list"
  outgoing :: bytes
  clocks :: "int list"
  randoms :: "u32 list"
  cpu_stopped :: bool
  no_rxbuff :: bool
  new_monitor :: bool
  on_xemu :: bool
  saw_c64_mode :: bool
  saw_c65_mode :: bool
  saw_openrom :: bool
  pending_vf011_read :: bool
  pending_vf011_write :: bool
  pending_vf011_track :: u8
  pending_vf011_sector :: u8
  pending_vf011_side :: u8
  recent_bytes :: bytes

fun read_from :: "nat \<Rightarrow> bytes option list \<Rightarrow> bytes option \<times> bytes option list" where
  "read_from n [] = (None, [])"
| "read_from n (None # cs) = (None, cs)"
| "read_from n (Some c # cs) = (if length c \<le> n then (Some c, cs) else (Some (take n c), Some (drop n c) # cs))"

definition serialport_read :: "nat \<Rightarrow> monitor \<Rightarrow> bytes option \<times> monitor" where
  "serialport_read n m = (case read_from n (incoming m) of (b, cs) \<Rightarrow> (b, m\<lparr>incoming := cs\<rparr>))"

definition serialport_write :: "bytes \<Rightarrow> monitor \<Rightarrow> monitor" where
  "serialport_write d m = m\<lparr>outgoing := outgoing m @ d\<rparr>"

definition time_now :: "monitor \<Rightarrow> int \<times> monitor" where
  "time_now m = (case clocks m of [] \<Rightarrow> (0, m) | [t] \<Rightarrow> (t, m) | t # ts \<Rightarrow> (t, m\<lparr>clocks := ts\<rparr>))"

definition slow_write :: "bytes \<Rightarrow> monitor \<Rightarrow> monitor" where
  "slow_write d m = fold (\<lambda>c. serialport_write [c]) d m"

definition slow_write_safe :: "bytes \<Rightarrow> monitor \<Rightarrow> monitor" where
  "slow_write_safe d m =
     (let m1 = (if \<not> cpu_stopped m then slow_write (ascii ''t1'' @ [0x0d]) m else m);
          m2 = slow_write d m1
      in if \<not> cpu_stopped m2 then slow_write (ascii ''t0'' @ [0x0d]) m2 else m2)"

section \<open>Waiting\<close>

fun strstr :: "bytes \<Rightarrow> bytes \<Rightarrow> nat option" where
  "strstr p [] = (if p = [] then Some 0 else None)"
| "strstr p (c # s) = (if take (length p) (c # s) = p then Some 0 else map_option Suc (strstr p s))"

text \<open>Requests of the virtual floppy drive in what was read.\<close>

definition check_vf011_at :: "bytes \<Rightarrow> nat \<Rightarrow> monitor \<Rightarrow> monitor" where
  "check_vf011_at buf i m =
     (let asked = ((buf ! (i - 1) AND buf ! (i - 2) AND buf ! (i - 3)) AND 0x80 \<noteq> 0);
          noted = (\<lambda>m. m\<lparr>pending_vf011_track := buf ! (i - 3) AND 0x7f, pending_vf011_sector := buf ! (i - 2) AND 0x7f,
                          pending_vf011_side := buf ! (i - 1) AND 0x0f\<rparr>);
          m1 = (if buf ! i = 0x21 \<and> asked then noted (m\<lparr>pending_vf011_read := True\<rparr>) else m)
      in if buf ! i = 0x5c \<and> asked then noted (m1\<lparr>pending_vf011_write := True\<rparr>) else m1)"

definition check_for_vf011_jobs :: "bytes \<Rightarrow> nat \<Rightarrow> monitor \<Rightarrow> monitor" where
  "check_for_vf011_jobs read_buff b m = fold (check_vf011_at read_buff) [3 ..< b] m"

text \<open>The buffer has room for 8191 characters and the terminator; behind that the value is \<open>None\<close>.\<close>

partial_function (option) wait_for_string :: "bytes \<Rightarrow> bytes \<Rightarrow> monitor \<Rightarrow> monitor option" where
  "wait_for_string s read_buff m =
     (case serialport_read 1 m of
        (None, m1) \<Rightarrow> wait_for_string s read_buff m1
      | (Some c, m1) \<Rightarrow>
          let read_buff1 = read_buff @ c;
              m2 = check_for_vf011_jobs read_buff1 (length c) m1
          in if length read_buff1 \<ge> 8192 then None
             else if strstr s (cstr read_buff1) \<noteq> None then Some m2
             else wait_for_string s read_buff1 m2)"

partial_function (option) wait_for_prompt :: "bytes \<Rightarrow> monitor \<Rightarrow> monitor option" where
  "wait_for_prompt read_buff m =
     (case serialport_read 1 m of
        (None, m1) \<Rightarrow> wait_for_prompt read_buff m1
      | (Some c, m1) \<Rightarrow>
          let read_buff1 = read_buff @ c;
              m2 = check_for_vf011_jobs read_buff1 (length c) m1;
              m3 = (if strstr [0x21, 0x0d, 0x0a] (cstr read_buff1) \<noteq> None then serialport_write [0x0d] m2 else m2)
          in if length read_buff1 \<ge> 8192 then None
             else if strstr [0x2e] (cstr read_buff1) \<noteq> None then Some m3
             else wait_for_prompt read_buff1 m3)"

partial_function (option) purge_input :: "monitor \<Rightarrow> monitor option" where
  "purge_input m =
     (case serialport_read 8191 m of
        (None, m1) \<Rightarrow> Some m1
      | (Some c, m1) \<Rightarrow> if c = [] then Some m1 else purge_input m1)"

section \<open>Stopping and starting the CPU\<close>

definition trace_cmd :: "bool \<Rightarrow> bytes" where
  "trace_cmd stopP = (if stopP then ascii ''t1'' else ascii ''t0'') @ [0x0d]"

text \<open>The window of three characters; \<open>None\<close> when the echo of the command was seen.\<close>

fun scan_echo :: "bytes \<Rightarrow> bytes \<Rightarrow> bytes \<Rightarrow> bytes option" where
  "scan_echo tag recent [] = Some recent"
| "scan_echo tag recent (c # cs) =
     (let recent1 = tl recent @ [c]
      in if strstr tag (cstr recent1) \<noteq> None then None else scan_echo tag recent1 cs)"

partial_function (option) purge_echo :: "bool \<Rightarrow> bytes \<Rightarrow> int \<Rightarrow> monitor \<Rightarrow> monitor option" where
  "purge_echo stopP recent start m =
     (case serialport_read 8191 m of (b, m1) \<Rightarrow>
        let c = (case b of None \<Rightarrow> [] | Some c \<Rightarrow> c);
            m2 = check_for_vf011_jobs c (length c) m1;
            m3 = m2\<lparr>recent_bytes := drop (length c) (recent_bytes m2 @ c)\<rparr>
        in case scan_echo (trace_cmd stopP) recent c of
             None \<Rightarrow> Some (m3\<lparr>cpu_stopped := stopP\<rparr>)
           | Some recent1 \<Rightarrow>
               (case time_now m3 of (t, m4) \<Rightarrow>
                  if t \<ge> start + 1
                  then (case time_now (slow_write (trace_cmd stopP) m4) of (t1, m5) \<Rightarrow> purge_echo stopP recent1 t1 m5)
                  else purge_echo stopP recent1 start m4))"

definition purge_and_check_for_vf011_jobs :: "bool \<Rightarrow> monitor \<Rightarrow> monitor option" where
  "purge_and_check_for_vf011_jobs stopP m =
     (case time_now m of (start, m1) \<Rightarrow>
        if \<not> no_rxbuff m then purge_echo stopP [0, 0, 0] start m1 else Some m1)"

definition fake_stop_cpu :: "monitor \<Rightarrow> monitor option" where
  "fake_stop_cpu m =
     (if cpu_stopped m then Some m else purge_and_check_for_vf011_jobs True (slow_write_safe (trace_cmd True) m))"

definition real_stop_cpu :: "monitor \<Rightarrow> monitor option" where
  "real_stop_cpu m =
     (if cpu_stopped m then Some m
      else purge_and_check_for_vf011_jobs True (slow_write (trace_cmd True) (m\<lparr>cpu_stopped := True\<rparr>)))"

definition start_cpu :: "monitor \<Rightarrow> monitor option" where
  "start_cpu m = purge_and_check_for_vf011_jobs False (slow_write (trace_cmd False) m)"

section \<open>Writing memory\<close>

text \<open>\<open>%x\<close> and \<open>%X\<close>.\<close>

definition hex_lower :: "nat \<Rightarrow> u8" where
  "hex_lower n = (if n < 10 then word_of_nat (0x30 + n) else word_of_nat (0x57 + n))"

fun hex_text :: "(nat \<Rightarrow> u8) \<Rightarrow> nat \<Rightarrow> bytes" where
  "hex_text digit n = (if n < 16 then [digit n] else hex_text digit (n div 16) @ [digit (n mod 16)])"

text \<open>
  One \<open>l\<close> command must stay inside a block of 64 KiB.  The limit is one short: at the last address
  of a block no byte is left to write.
\<close>

definition push_len :: "nat \<Rightarrow> nat \<Rightarrow> nat" where
  "push_len addr left =
     (let b = left;
          b1 = (if b > 0xffff - addr mod 65536 then 0xffff - addr mod 65536 else b)
      in if b1 > 4096 then 4096 else b1)"

definition push_cmd :: "bool \<Rightarrow> nat \<Rightarrow> nat \<Rightarrow> bytes" where
  "push_cmd newer addr b =
     (if newer
      then ascii ''l'' @ hex_text hex_lower addr @ ascii '' '' @ hex_text hex_lower ((addr + b) mod 65536) @ [0x0d]
      else ascii ''l'' @ hex_text hex_lower ((addr + 2 ^ 64 - 1) mod 2 ^ 64) @ ascii '' ''
             @ hex_text hex_lower ((addr + b + 2 ^ 64 - 1) mod 2 ^ 64) @ [0x0d])"

definition store_cmd :: "nat \<Rightarrow> u8 \<Rightarrow> bytes" where
  "store_cmd addr v = ascii ''s'' @ hex_text hex_lower addr @ ascii '' '' @ hex_text hex_lower (unat v) @ [0x0d]"

partial_function (option) push_loop :: "nat \<Rightarrow> nat \<Rightarrow> bytes \<Rightarrow> nat \<Rightarrow> monitor \<Rightarrow> monitor option" where
  "push_loop address count buffer offset m =
     (if \<not> offset < count then Some m
      else
        let b = push_len (address + offset) (count - offset);
            cmd = (if count = 1 then store_cmd address (buffer ! 0) else push_cmd (new_monitor m) (address + offset) b);
            m1 = slow_write_safe cmd m;
            m2 = (if count = 1 then m1 else serialport_write (take b (drop offset buffer)) m1)
        in do {
             m3 \<leftarrow> wait_for_string cmd [] m2;
             m4 \<leftarrow> wait_for_prompt [] m3;
             push_loop address count buffer (offset + b) m4
           })"

definition push_ram :: "nat \<Rightarrow> nat \<Rightarrow> bytes \<Rightarrow> monitor \<Rightarrow> monitor option" where
  "push_ram address count buffer m =
     (let cpu_stopped_state = cpu_stopped m in
      do {
        m1 \<leftarrow> (if \<not> cpu_stopped_state then real_stop_cpu m else Some m);
        m2 \<leftarrow> push_loop address count buffer 0 m1;
        if \<not> cpu_stopped_state then start_cpu m2 else Some m2
      })"

definition mega65_poke :: "nat \<Rightarrow> u8 \<Rightarrow> monitor \<Rightarrow> monitor option" where
  "mega65_poke addr v m = push_ram addr 1 [v] m"

section \<open>Reading memory\<close>

definition parse_byte :: "bytes \<Rightarrow> u8 option" where
  "parse_byte source =
     do { high \<leftarrow> hex_value (source ! 0); low \<leftarrow> hex_value (source ! 1); Some (word_of_nat (16 * high + low)) }"

text \<open>The address in front of a line, \<open>%08X\<close>, and the line's first characters.\<close>

definition line_start :: "nat \<Rightarrow> bytes" where
  "line_start addr = [0x0a, 0x3a] @ hex4 (addr div 65536) @ hex4 addr @ [0x3a]"

definition dump_cmd :: "nat \<Rightarrow> nat \<Rightarrow> bytes" where
  "dump_cmd addr left =
     (if left < 17 then ascii ''m'' else ascii ''M'') @ hex_text hex_char (addr mod 2 ^ 32) @ [0x0d]"

text \<open>The bytes of a line that were asked for; one that cannot be read leaves the buffer as it was.\<close>

definition take_row :: "nat \<Rightarrow> bytes \<Rightarrow> bytes \<Rightarrow> bytes" where
  "take_row pos found buffer =
     fold (\<lambda>i buffer. if pos + i \<ge> length buffer then buffer
             else case parse_byte (drop (11 + i * 2) found) of None \<Rightarrow> buffer | Some v \<Rightarrow> buffer[pos + i := v])
       [0 ..< 16] buffer"

text \<open>\<open>buffer\<close> is what the caller passes; \<open>read_buff\<close> holds what was read and not used yet.\<close>

partial_function (option) fetch_loop ::
  "nat \<Rightarrow> nat \<Rightarrow> nat \<Rightarrow> bytes \<Rightarrow> int \<Rightarrow> bytes \<Rightarrow> monitor \<Rightarrow> (bytes \<times> monitor) option" where
  "fetch_loop address addr end_addr read_buff last_rx buffer m =
     (if \<not> addr < address + length buffer then Some (buffer, m)
      else
        (case time_now m of (t, m1) \<Rightarrow>
           let left = address + length buffer - addr;
               again = (last_rx < t \<or> addr = end_addr);
               end_addr1 = (if again then (if left < 17 then addr + 0x10 else addr + 0x100) else end_addr);
               (last_rx1, m2) = (if again then time_now (slow_write_safe (dump_cmd addr left) m1) else (last_rx, m1));
               (b, m3) = serialport_read (8191 - length read_buff) m2;
               read_buff1 = read_buff @ (case b of None \<Rightarrow> [] | Some c \<Rightarrow> c)
           in case strstr (line_start addr) (cstr read_buff1) of
                None \<Rightarrow> fetch_loop address addr end_addr1 read_buff1 last_rx1 buffer m3
              | Some i \<Rightarrow>
                  if length (cstr read_buff1) - i \<ge> 43
                  then fetch_loop address (addr + 16) end_addr1 (drop (i + 43) read_buff1) last_rx1
                         (take_row (addr - address) (drop i read_buff1) buffer) m3
                  else fetch_loop address addr end_addr1 read_buff1 last_rx1 buffer m3))"

definition fetch_ram :: "nat \<Rightarrow> bytes \<Rightarrow> monitor \<Rightarrow> (bytes \<times> monitor) option" where
  "fetch_ram address buffer m = fetch_loop address address 0 [] 0 buffer m"

definition mega65_peek :: "nat \<Rightarrow> monitor \<Rightarrow> (u8 \<times> monitor) option" where
  "mega65_peek addr m = do { (b, m1) \<leftarrow> fetch_ram addr [0] m; Some (b ! 0, m1) }"

text \<open>The cache of the first 512 KiB.\<close>

record ram_cache =
  ram_data :: "nat \<Rightarrow> u8"
  ram_cache_valids :: "nat \<Rightarrow> bool"
  ram_cache_initialised :: bool

definition fetch_ram_invalidate :: "ram_cache \<Rightarrow> ram_cache" where
  "fetch_ram_invalidate rc = rc\<lparr>ram_cache_initialised := False\<rparr>"

definition init_ram_cache :: "ram_cache \<Rightarrow> ram_cache" where
  "init_ram_cache rc =
     (if ram_cache_initialised rc then rc
      else rc\<lparr>ram_cache_initialised := True, ram_cache_valids := (\<lambda>i. if i < 512 * 1024 then False else ram_cache_valids rc i),
              ram_data := (\<lambda>i. if i < 512 * 1024 then 0 else ram_data rc i)\<rparr>)"

definition fetch_ram_cacheable :: "nat \<Rightarrow> bytes \<Rightarrow> ram_cache \<Rightarrow> monitor \<Rightarrow> (bytes \<times> ram_cache \<times> monitor) option" where
  "fetch_ram_cacheable address buffer rc m =
     (let rc1 = init_ram_cache rc; count = length buffer in
      if address + count \<ge> 512 * 1024 then do { (b, m1) \<leftarrow> fetch_ram address buffer m; Some (b, rc1, m1) }
      else if list_all (\<lambda>i. ram_cache_valids rc1 (address + i)) [0 ..< count]
      then Some (map (\<lambda>i. ram_data rc1 (address + i)) [0 ..< count], rc1, m)
      else do {
        (b, m1) \<leftarrow> fetch_ram address (map (\<lambda>i. ram_data rc1 (address + i)) [0 ..< 256]) m;
        let rc2 = rc1\<lparr>ram_data := (\<lambda>i. if address \<le> i \<and> i < address + 256 then b ! (i - address) else ram_data rc1 i),
                      ram_cache_valids := (\<lambda>i. address \<le> i \<and> i < address + 256 \<or> ram_cache_valids rc1 i)\<rparr>;
        Some (map (\<lambda>i. ram_data rc2 (address + i)) [0 ..< count], rc2, m1)
      })"

section \<open>Synchronising\<close>

text \<open>The window of sixteen characters; \<open>None\<close> when it ends in the token.\<close>

fun scan_token :: "bytes \<Rightarrow> bytes \<Rightarrow> bytes \<Rightarrow> bytes option" where
  "scan_token cmd recent [] = Some recent"
| "scan_token cmd recent (c # cs) =
     (let recent1 = tl recent @ [c]
      in if drop (16 - length cmd) recent1 = cmd then None else scan_token cmd recent1 cs)"

definition token_cmd :: "u32 \<Rightarrow> bytes" where
  "token_cmd r = ascii ''#'' @ (let t = hex_text hex_lower (unat r) in replicate (8 - length t) 0x30 @ t) @ [0x0d]"

definition read_or_none :: "nat \<Rightarrow> monitor \<Rightarrow> bytes \<times> monitor" where
  "read_or_none n m = (case serialport_read n m of (b, m1) \<Rightarrow> (case b of None \<Rightarrow> [] | Some c \<Rightarrow> c, m1))"

text \<open>Up to three reads; the last of 8192 characters makes room for the terminator.\<close>

definition read_three :: "monitor \<Rightarrow> bytes \<times> monitor" where
  "read_three m =
     (case read_or_none 8192 m of (b1, m1) \<Rightarrow>
      case (if length b1 < 1 then read_or_none 8192 m1 else (b1, m1)) of (b2, m2) \<Rightarrow>
      case (if length b2 < 1 then read_or_none 8192 m2 else (b2, m2)) of (b3, m3) \<Rightarrow>
        (take 8191 b3, m3))"

text \<open>Only the token ends this loop, so the ten tries around it are one.\<close>

partial_function (option) sync_loop :: "bytes \<Rightarrow> bytes \<Rightarrow> int \<Rightarrow> monitor \<Rightarrow> monitor option" where
  "sync_loop cmd recent start m =
     (case read_three m of (b, m1) \<Rightarrow>
      case time_now m1 of (t, m2) \<Rightarrow>
      case (if t - start > 1
            then time_now (slow_write_safe cmd ((serialport_write (replicate 256 0) ^^ 256) m2))
            else (start, m2)) of (start1, m3) \<Rightarrow>
      case scan_token cmd recent b of
        None \<Rightarrow> Some m3
      | Some recent1 \<Rightarrow> sync_loop cmd recent1 start1 m3)"

definition monitor_sync :: "monitor \<Rightarrow> monitor option" where
  "monitor_sync m =
     do {
       m1 \<leftarrow> purge_input m;
       let m2 = slow_write_safe [0x15, 0x23, 0x0d] m1;
       m3 \<leftarrow> (if no_rxbuff m then purge_input m2 else do { m3 \<leftarrow> wait_for_prompt [] m2; purge_input m3 });
       let cmd = token_cmd (hd (randoms m3 @ [0]));
       let m4 = slow_write_safe cmd (m3\<lparr>randoms := tl (randoms m3)\<rparr>);
       let (start, m5) = time_now m4;
       sync_loop cmd (replicate 16 0) start m5
     }"

definition register_dump :: "monitor \<Rightarrow> (bytes \<times> monitor) option" where
  "register_dump m =
     do {
       m1 \<leftarrow> (if \<not> no_rxbuff m then monitor_sync m else Some m);
       let (b, m2) = read_or_none 8192 (slow_write_safe (ascii ''r'' @ [0x0d]) m1);
       Some (cstr (take 8191 b), m2)
     }"

definition in_hypervisor :: "monitor \<Rightarrow> (bool \<times> monitor) option" where
  "in_hypervisor m = do { (s, m1) \<leftarrow> register_dump m; Some (strstr (ascii '' H '') s \<noteq> None, m1) }"

text \<open>The number starts six characters behind the line's start, which may be behind the end.\<close>

definition get_pc :: "monitor \<Rightarrow> (int \<times> monitor) option" where
  "get_pc m =
     do {
       (s, m1) \<leftarrow> register_dump m;
       case strstr [0x0a, 0x2c] s of
         None \<Rightarrow> Some (- 1, m1)
       | Some i \<Rightarrow> if length s < i + 6 then None
                   else Some (case sscanf [ScanHex] (drop (i + 6) s) of [IntArg n] \<Rightarrow> n | _ \<Rightarrow> 0, m1)
     }"

definition breakpoint_set :: "nat \<Rightarrow> monitor \<Rightarrow> monitor option" where
  "breakpoint_set pc m =
     do { m1 \<leftarrow> monitor_sync m; m2 \<leftarrow> start_cpu m1;
          Some (slow_write (ascii ''b'' @ hex_text hex_lower pc @ [0x0d]) m2) }"

text \<open>A character that does not fit starts over with the next one; \<open>None\<close> when the pattern was seen.\<close>

fun match_pattern :: "bytes \<Rightarrow> nat \<Rightarrow> bytes \<Rightarrow> nat option" where
  "match_pattern pattern match_state [] = Some match_state"
| "match_pattern pattern match_state (c # cs) =
     (if c = pattern ! match_state
      then if match_state = 4 then None else match_pattern pattern (match_state + 1) cs
      else match_pattern pattern 0 cs)"

partial_function (option) breakpoint_loop :: "nat \<Rightarrow> int \<Rightarrow> monitor \<Rightarrow> monitor option" where
  "breakpoint_loop match_state start m =
     (case read_or_none 8192 m of (b, m1) \<Rightarrow>
      case time_now m1 of (t, m2) \<Rightarrow>
      case (if t \<noteq> start then time_now (slow_write (ascii ''r'' @ [0x0d]) m2) else (start, m2)) of (start1, m3) \<Rightarrow>
      case match_pattern [0x0a, 0x2c, 0x30, 0x37, 0x37] match_state b of
        None \<Rightarrow> Some (slow_write (trace_cmd True) m3\<lparr>cpu_stopped := True\<rparr>)
      | Some match_state1 \<Rightarrow> breakpoint_loop match_state1 start1 m3)"

definition breakpoint_wait :: "monitor \<Rightarrow> monitor option" where
  "breakpoint_wait m = (case time_now m of (start, m1) \<Rightarrow> breakpoint_loop 0 start m1)"

end
