(* ===== verification/MonitorMemory.thy ===== *)
theory MonitorMemory
  imports Monitor Bit2mcs
begin

text \<open>
  What reading and writing memory over the serial line do.  The MEGA65 is stated by the bytes it
  sends, however the port cuts them into reads, and by a reference that carries out the commands
  it receives.
\<close>

section \<open>Text and searches\<close>

lemma strstr_Some:
  "strstr p s = Some i \<Longrightarrow> i + length p \<le> length s \<and> take (length p) (drop i s) = p"
proof (induction p s arbitrary: i rule: strstr.induct)
  case (2 p c s)
  then show ?case
    by (cases "take (length p) (c # s) = p") (auto dest: arg_cong [of _ _ length])
qed (auto split: if_splits)

lemma strstr_append: "strstr p (pre @ p @ s) \<noteq> None"
proof (induction pre)
  case Nil
  have "take (length p) (p @ s) = p" by simp
  then show ?case by (cases "p @ s") (auto simp del: append_eq_conv_conj take_append)
qed auto

lemma strstr_short: "length s < length p \<Longrightarrow> strstr p s = None"
  using strstr_Some [of p s] by (cases "strstr p s") auto

lemma strstr_missing:
  assumes "x \<in> set p" "x \<notin> set s"
  shows "strstr p s = None"
proof (cases "strstr p s")
  case (Some i)
  then have "p = take (length p) (drop i s)" using strstr_Some by metis
  then have "set p \<subseteq> set s" by (metis set_take_subset set_drop_subset subset_trans)
  with assms show ?thesis by auto
qed

lemma cstr_id [simp]: "0 \<notin> set s \<Longrightarrow> cstr s = s"
  unfolding cstr_def by (induction s) auto

section \<open>What the port delivers\<close>

definition pending_text :: "bytes option list \<Rightarrow> bytes" where
  "pending_text cs = concat (map (\<lambda>c. case c of None \<Rightarrow> [] | Some b \<Rightarrow> b) cs)"

definition port_size :: "bytes option list \<Rightarrow> nat" where
  "port_size cs = length (pending_text cs) + length cs"

lemma pending_text_simps [simp]:
  "pending_text [] = []" "pending_text (None # cs) = pending_text cs" "pending_text (Some b # cs) = b @ pending_text cs"
  by (simp_all add: pending_text_def)

lemma read_from_text:
  assumes "read_from n cs = (b, cs')" "0 < n"
  shows "pending_text cs = (case b of None \<Rightarrow> [] | Some c \<Rightarrow> c) @ pending_text cs'"
    and "b = Some c \<Longrightarrow> length c \<le> n"
    and "cs \<noteq> [] \<Longrightarrow> port_size cs' < port_size cs"
    and "cs = [] \<Longrightarrow> b = None \<and> cs' = []"
  using assms by (induction n cs rule: read_from.induct) (auto simp: port_size_def split: if_splits)

lemma port_run:
  assumes "pending_text (incoming m) \<noteq> []" "0 < n"
  obtains b cs where "serialport_read n m = (b, m\<lparr>incoming := cs\<rparr>)"
    "pending_text (incoming m) = (case b of None \<Rightarrow> [] | Some c \<Rightarrow> c) @ pending_text cs"
    "port_size cs < port_size (incoming m)" "\<And>c. b = Some c \<Longrightarrow> length c \<le> n"
proof -
  obtain b cs where r: "read_from n (incoming m) = (b, cs)" by force
  have "incoming m \<noteq> []" using assms by auto
  then show thesis
    using that [of b cs] read_from_text [OF r assms(2)] r by (auto simp: serialport_read_def)
qed

lemma no_vf011_jobs [simp]: "b < 4 \<Longrightarrow> check_for_vf011_jobs buf b m = m"
  by (simp add: check_for_vf011_jobs_def)

lemma slow_write_eq [simp]: "slow_write d m = m\<lparr>outgoing := outgoing m @ d\<rparr>"
proof (induction d arbitrary: m)
  case (Cons c d)
  then show ?case by (simp add: slow_write_def serialport_write_def)
qed (simp add: slow_write_def)

text \<open>Both waits consume the text up to the place where they first see what they wait for.\<close>

lemma wait_for_string_reads:
  assumes "pending_text (incoming m) = t @ rest" "t \<noteq> []"
    and "strstr s (cstr (acc @ t)) \<noteq> None" "\<And>k. k < length t \<Longrightarrow> strstr s (cstr (acc @ take k t)) = None"
    and "length acc + length t < 8192"
  shows "\<exists>cs. wait_for_string s acc m = Some (m\<lparr>incoming := cs\<rparr>) \<and> pending_text cs = rest"
  using assms
proof (induction "port_size (incoming m)" arbitrary: m t acc rule: less_induct)
  case less
  obtain b cs where r: "serialport_read 1 m = (b, m\<lparr>incoming := cs\<rparr>)"
      "pending_text (incoming m) = (case b of None \<Rightarrow> [] | Some c \<Rightarrow> c) @ pending_text cs"
      "port_size cs < port_size (incoming m)" "\<And>c. b = Some c \<Longrightarrow> length c \<le> 1"
    using port_run [of m 1] less.prems(1,2) by auto
  show ?case
  proof (cases "b = None \<or> b = Some []")
    case True
    then have "\<exists>cs'. wait_for_string s acc (m\<lparr>incoming := cs\<rparr>) = Some (m\<lparr>incoming := cs\<rparr>\<lparr>incoming := cs'\<rparr>) \<and> pending_text cs' = rest"
      using r(2,3) less.prems by (intro less.hyps) auto
    moreover have "strstr s (cstr acc) = None" using less.prems(2) less.prems(4) [of 0] by simp
    ultimately show ?thesis
      using True r(1) less.prems(5) by (subst wait_for_string.simps) (auto simp: Let_def)
  next
    case False
    then obtain x where b: "b = Some [x]"
      using r(4) by (cases b) (auto simp: le_Suc_eq length_Suc_conv)
    with r(2) less.prems(1,2) obtain t' where t: "t = x # t'" "pending_text cs = t' @ rest"
      by (cases t) auto
    show ?thesis
    proof (cases "t' = []")
      case True
      then show ?thesis
        using t b r(1) less.prems(3,5) by (subst wait_for_string.simps) (auto simp: Let_def)
    next
      case False
      have "strstr s (cstr ((acc @ [x]) @ take k t')) = None" if "k < length t'" for k
        using less.prems(4) [of "Suc k"] that t by simp
      then have "\<exists>cs'. wait_for_string s (acc @ [x]) (m\<lparr>incoming := cs\<rparr>) = Some (m\<lparr>incoming := cs\<rparr>\<lparr>incoming := cs'\<rparr>) \<and> pending_text cs' = rest"
        using r(3) t less.prems(3,5) False by (intro less.hyps [of _ t']) auto
      moreover have "strstr s (cstr (acc @ [x])) = None"
        using less.prems(4) [of 1] t False by simp
      ultimately show ?thesis
        using b r(1) less.prems(5) t by (subst wait_for_string.simps) (auto simp: Let_def)
    qed
  qed
qed

lemma wait_for_prompt_reads:
  assumes "pending_text (incoming m) = noise @ 0x2e # rest" "set noise \<inter> {0, 0x21, 0x2e} = {}"
    and "set acc \<inter> {0, 0x21, 0x2e} = {}" "length acc + length noise < 8191"
  shows "\<exists>cs. wait_for_prompt acc m = Some (m\<lparr>incoming := cs\<rparr>) \<and> pending_text cs = rest"
  using assms
proof (induction "port_size (incoming m)" arbitrary: m noise acc rule: less_induct)
  case less
  obtain b cs where r: "serialport_read 1 m = (b, m\<lparr>incoming := cs\<rparr>)"
      "pending_text (incoming m) = (case b of None \<Rightarrow> [] | Some c \<Rightarrow> c) @ pending_text cs"
      "port_size cs < port_size (incoming m)" "\<And>c. b = Some c \<Longrightarrow> length c \<le> 1"
    using port_run [of m 1] less.prems(1) by auto
  have quiet: "strstr [0x2e] (cstr a) = None" "strstr [0x21, 0x0d, 0x0a] (cstr a) = None"
    if "set a \<inter> {0, 0x21, 0x2e} = {}" for a
    using that strstr_missing [of "0x2e" "[0x2e]" a] strstr_missing [of "0x21" "[0x21, 0x0d, 0x0a]" a] by auto
  show ?case
  proof (cases "b = None \<or> b = Some []")
    case True
    then have "\<exists>cs'. wait_for_prompt acc (m\<lparr>incoming := cs\<rparr>) = Some (m\<lparr>incoming := cs\<rparr>\<lparr>incoming := cs'\<rparr>) \<and> pending_text cs' = rest"
      using r(2,3) less.prems by (intro less.hyps [of _ noise]) auto
    then show ?thesis
      using True r(1) less.prems(4) quiet [OF less.prems(3)] by (subst wait_for_prompt.simps) (auto simp: Let_def)
  next
    case False
    then obtain x where b: "b = Some [x]"
      using r(4) by (cases b) (auto simp: le_Suc_eq length_Suc_conv)
    show ?thesis
    proof (cases noise)
      case Nil
      then have "x = 0x2e" "pending_text cs = rest" using r(2) b less.prems(1) by auto
      moreover have "strstr [0x21, 0x0d, 0x0a] (acc @ [0x2e]) = None"
        using less.prems(3) by (intro strstr_missing [of "0x21"]) auto
      moreover have "0 \<notin> set acc" using less.prems(3) by auto
      ultimately show ?thesis
        using b r(1) less.prems(4) strstr_append [of "[0x2e]" acc "[]"]
        by (subst wait_for_prompt.simps) (auto simp: Let_def)
    next
      case (Cons y noise')
      then have "x = y" "pending_text cs = noise' @ 0x2e # rest" using r(2) b less.prems(1) by auto
      moreover have s: "set (acc @ [y]) \<inter> {0, 0x21, 0x2e} = {}" using less.prems(2,3) Cons by auto
      ultimately have "\<exists>cs'. wait_for_prompt (acc @ [x]) (m\<lparr>incoming := cs\<rparr>) = Some (m\<lparr>incoming := cs\<rparr>\<lparr>incoming := cs'\<rparr>) \<and> pending_text cs' = rest"
        using r(3) less.prems(2,4) Cons by (intro less.hyps [of _ noise']) auto
      then show ?thesis
        using b r(1) less.prems(4) Cons quiet [OF s] \<open>x = y\<close> by (subst wait_for_prompt.simps) (auto simp: Let_def)
    qed
  qed
qed

section \<open>The monitor of the MEGA65\<close>

text \<open>
  The reference: \<open>l\<close> takes as many bytes as lie between its two addresses, both taken modulo 64 KiB,
  and \<open>s\<close> stores one byte.
\<close>

definition read_hex :: "bytes \<Rightarrow> nat \<times> bytes" where
  "read_hex s = (hex_digits_value 0 s, dropWhile (\<lambda>c. hex_value c \<noteq> None) s)"

definition read_cmd :: "bytes \<Rightarrow> (u8 \<times> nat \<times> nat \<times> bytes) option" where
  "read_cmd s =
     (case s of [] \<Rightarrow> None
      | c # s1 \<Rightarrow> (case read_hex s1 of (a, s2) \<Rightarrow> (case s2 of [] \<Rightarrow> None
      | d # s3 \<Rightarrow> (case read_hex s3 of (v, s4) \<Rightarrow> (case s4 of [] \<Rightarrow> None
      | e # s5 \<Rightarrow> if d = 0x20 \<and> e = 0x0d then Some (c, a, v, s5) else None)))))"

lemma read_cmd_shorter: "read_cmd s = Some (c, a, v, s') \<Longrightarrow> length s' < length s"
  using length_dropWhile_le [of "\<lambda>c. hex_value c \<noteq> None"]
  by (auto simp: read_cmd_def read_hex_def split: list.splits if_splits)
    (metis (no_types, lifting) Suc_le_lessD le_SucI le_trans length_Cons)

function received :: "bytes \<Rightarrow> hex_memory \<Rightarrow> hex_memory option" where
  "received s M =
     (if s = [] then Some M
      else case read_cmd s of
        None \<Rightarrow> None
      | Some (c, a, v, s') \<Rightarrow>
          if c = 0x73 then received s' (M(a \<mapsto> word_of_nat v))
          else if c = 0x6c then
            (let n = (v + 65536 - a mod 65536) mod 65536
             in if length s' < n then None else received (drop n s') (store_bytes a (take n s') M))
          else None)"
  by pat_completeness auto
termination
  by (relation "measure (\<lambda>(s, _). length s)") (auto dest!: read_cmd_shorter)

declare received.simps [simp del] hex_text.simps [simp del]

lemma hex_value_lower [simp]: "n < 16 \<Longrightarrow> hex_value (hex_lower n) = Some n"
  by (drule nibble_range, elim insertE emptyE) (simp_all add: hex_lower_def hex_value_def)

lemma read_hex_text:
  assumes "hex_value c = None" "\<And>n. n < 16 \<Longrightarrow> hex_value (digit n) = Some n"
  shows "read_hex (hex_text digit n @ c # s) = (n, c # s)"
proof -
  have "hex_digits_value v (hex_text digit n @ t) = hex_digits_value (v * 16 ^ length (hex_text digit n) + n) t
      \<and> (\<forall>d \<in> set (hex_text digit n). hex_value d \<noteq> None)" for v t
  proof (induction n arbitrary: v t rule: less_induct)
    case (less n)
    show ?case
    proof (cases "n < 16")
      case True
      then show ?thesis by (simp add: hex_text.simps [of digit n] assms(2) mult.commute)
    next
      case False
      then have "16 * (v * 16 ^ length (hex_text digit (n div 16)) + n div 16) + n mod 16
          = v * 16 ^ length (hex_text digit n) + n"
        by (simp add: hex_text.simps [of digit n])
      then show ?thesis
        using less [of "n div 16"] False by (simp add: hex_text.simps [of digit n] assms(2) ac_simps)
    qed
  qed
  from this [of 0 "c # s"] assms(1) show ?thesis
    by (simp add: read_hex_def dropWhile_append)
qed

lemma read_hex_lower [simp]:
  "hex_value c = None \<Longrightarrow> read_hex (hex_text hex_lower n @ c # s) = (n, c # s)"
  by (rule read_hex_text) simp_all

lemma no_digits [simp]: "hex_value 0x20 = None" "hex_value 0x0d = None" "hex_value 0x3a = None"
  by (simp_all add: hex_value_def)

lemma received_push:
  assumes "length block < 65536"
  shows "received (push_cmd True addr (length block) @ block @ s) M = received s (store_bytes addr block M)"
proof -
  define A where "A = addr mod 65536"
  have A: "A < 65536" "(addr + length block) mod 65536 = (A + length block) mod 65536"
    by (simp_all add: A_def mod_add_left_eq)
  have n: "((addr + length block) mod 65536 + 65536 - addr mod 65536) mod 65536 = length block"
  proof (cases "A + length block < 65536")
    case True
    then show ?thesis using A assms by (simp flip: A_def)
  next
    case False
    then have "(A + length block) mod 65536 = A + length block - 65536"
      using A(1) assms by (subst mod_if) (simp add: not_less)
    then show ?thesis using A assms False by (simp flip: A_def)
  qed
  show ?thesis
    by (subst received.simps) (simp add: push_cmd_def read_cmd_def n Let_def)
qed

lemma received_store: "received (store_cmd addr v @ s) M = received s (M(addr \<mapsto> v))"
  by (subst received.simps) (simp add: store_cmd_def read_cmd_def)

section \<open>Writing memory\<close>

text \<open>The blocks in which a region is sent, and what the MEGA65 says after each.\<close>

function push_blocks :: "nat \<Rightarrow> nat \<Rightarrow> (nat \<times> nat) list" where
  "push_blocks addr left =
     (let b = push_len addr left in
      if left = 0 \<or> b = 0 then [] else (addr, b) # push_blocks (addr + b) (left - b))"
  by pat_completeness auto
termination
  by (relation "measure snd") auto

declare push_blocks.simps [simp del]

definition echo_and_prompt :: "bytes \<Rightarrow> nat \<times> nat \<Rightarrow> bytes" where
  "echo_and_prompt noise ab = push_cmd True (fst ab) (snd ab) @ noise @ [0x2e]"

definition answers :: "bytes \<Rightarrow> nat \<Rightarrow> bytes \<Rightarrow> bytes" where
  "answers noise address buffer =
     (if length buffer = 1 then store_cmd address (buffer ! 0) @ noise @ [0x2e]
      else concat (map (echo_and_prompt noise) (push_blocks address (length buffer))))"

lemma push_len_bounds:
  "push_len addr left \<le> left" "push_len addr left \<le> 4096" "addr mod 65536 + push_len addr left \<le> 65535"
  "0 < left \<Longrightarrow> addr mod 65536 < 65535 \<Longrightarrow> 0 < push_len addr left"
proof -
  have "addr mod 65536 \<le> 65535" using mod_less_divisor [of 65536 addr] by simp
  then show "addr mod 65536 + push_len addr left \<le> 65535" by (auto simp: push_len_def Let_def)
qed (auto simp: push_len_def Let_def)

lemma hex_text_bounds: "hex_text digit n \<noteq> []" "n < 16 ^ k \<Longrightarrow> 0 < k \<Longrightarrow> length (hex_text digit n) \<le> k"
proof -
  show "hex_text digit n \<noteq> []" by (simp add: hex_text.simps [of digit n])
  show "n < 16 ^ k \<Longrightarrow> 0 < k \<Longrightarrow> length (hex_text digit n) \<le> k"
  proof (induction k arbitrary: n)
    case (Suc k)
    show ?case
    proof (cases "n < 16")
      case False
      then have "n div 16 < 16 ^ k" "0 < k" using Suc.prems by (auto simp: div_less_iff_less_mult mult.commute intro: gr0I)
      with Suc.IH show ?thesis by (simp add: hex_text.simps [of digit n])
    qed (simp add: hex_text.simps [of digit n])
  qed simp
qed

lemma hex_text_chars: "d \<in> set (hex_text hex_lower n) \<Longrightarrow> d \<noteq> 0"
proof (induction n rule: less_induct)
  case (less n)
  have "hex_lower k \<noteq> 0" if "k < 16" for k
    using nibble_range [OF that] by (auto simp: hex_lower_def)
  then show ?case
    using less.prems less.IH [of "n div 16"] by (cases "n < 16") (auto simp: hex_text.simps [of _ n])
qed

lemma wait_for_echo:
  assumes "pending_text (incoming m) = cmd @ noise @ 0x2e # rest" "cmd \<noteq> []" "0 \<notin> set cmd" "length cmd < 8192"
    and "set noise \<inter> {0, 0x21, 0x2e} = {}" "length noise < 8191"
  shows "\<exists>cs. do { m1 \<leftarrow> wait_for_string cmd [] m; wait_for_prompt [] m1 } = Some (m\<lparr>incoming := cs\<rparr>) \<and> pending_text cs = rest"
proof -
  have "strstr cmd (cstr (take k cmd)) = None" if "k < length cmd" for k
    using that assms(3) by (subst cstr_id) (auto intro: strstr_short dest: in_set_takeD)
  then obtain cs where cs: "wait_for_string cmd [] m = Some (m\<lparr>incoming := cs\<rparr>)" "pending_text cs = noise @ 0x2e # rest"
    using wait_for_string_reads [of m cmd "noise @ 0x2e # rest" cmd "[]"] assms(1-4) strstr_append [of cmd "[]" "[]"] by auto
  then show ?thesis
    using wait_for_prompt_reads [of "m\<lparr>incoming := cs\<rparr>" noise rest "[]"] assms(5,6) by auto
qed

lemma push_cmd_text:
  assumes "addr < 2 ^ 60"
  shows "push_cmd True addr b \<noteq> []" "0 \<notin> set (push_cmd True addr b)" "length (push_cmd True addr b) < 8192"
proof -
  have "(addr + b) mod 65536 < 16 ^ 4" using mod_less_divisor [of 65536 "addr + b"] by simp
  then have "length (hex_text hex_lower ((addr + b) mod 65536)) \<le> 4" by (rule hex_text_bounds) simp
  moreover have "length (hex_text hex_lower addr) \<le> 15" using assms by (intro hex_text_bounds) simp_all
  ultimately show "length (push_cmd True addr b) < 8192" by (simp add: push_cmd_def)
  show "0 \<notin> set (push_cmd True addr b)" by (auto simp: push_cmd_def dest: hex_text_chars)
qed (simp add: push_cmd_def)

lemma store_cmd_text:
  assumes "addr < 2 ^ 60"
  shows "store_cmd addr v \<noteq> []" "0 \<notin> set (store_cmd addr v)" "length (store_cmd addr v) < 8192"
proof -
  have "unat v < 16 ^ 2" using unsigned_less [of v, where 'a = nat] by simp
  then have "length (hex_text hex_lower (unat v)) \<le> 2" by (rule hex_text_bounds) simp
  moreover have "length (hex_text hex_lower addr) \<le> 15" using assms by (intro hex_text_bounds) simp_all
  ultimately show "length (store_cmd addr v) < 8192" by (simp add: store_cmd_def)
  show "0 \<notin> set (store_cmd addr v)" by (auto simp: store_cmd_def dest: hex_text_chars)
qed (simp add: store_cmd_def)

lemma push_loop_sends:
  assumes "set noise \<inter> {0, 0x21, 0x2e} = {}" "length noise < 8191" "length buffer \<noteq> 1"
    and "address < 2 ^ 32" "address mod 65536 + length buffer \<le> 65535" "offset \<le> length buffer"
    and "new_monitor m" "cpu_stopped m"
    and "pending_text (incoming m) =
      concat (map (echo_and_prompt noise) (push_blocks (address + offset) (length buffer - offset))) @ rest"
  shows "\<exists>cs out. push_loop address (length buffer) buffer offset m = Some (m\<lparr>incoming := cs, outgoing := outgoing m @ out\<rparr>)
    \<and> pending_text cs = rest
    \<and> (\<forall>M s. received (out @ s) M = received s (store_bytes (address + offset) (drop offset buffer) M))"
  using assms(6-9)
proof (induction "length buffer - offset" arbitrary: offset m rule: less_induct)
  case less
  show ?case
  proof (cases "offset < length buffer")
    case False
    then have "push_loop address (length buffer) buffer offset m = Some (m\<lparr>incoming := incoming m, outgoing := outgoing m @ []\<rparr>)"
      by (subst push_loop.simps) simp
    moreover have "pending_text (incoming m) = rest"
      using False less.prems by (simp add: push_blocks.simps [of _ 0])
    ultimately show ?thesis using False by (intro exI [of _ "incoming m"] exI [of _ "[]"]) simp
  next
    case True
    let ?a = "address + offset" and ?l = "length buffer - offset"
    define b where "b = push_len ?a ?l"
    define cmd where "cmd = push_cmd True ?a b"
    have "?a mod 65536 \<le> address mod 65536 + offset"
      by (metis mod_add_left_eq mod_less_eq_dividend)
    then have b: "0 < b" "b \<le> ?l" "b \<le> 4096"
      using push_len_bounds(1,2,3) [of ?a ?l] push_len_bounds(4) [of ?l ?a] assms(5) True unfolding b_def by auto
    have c: "cmd \<noteq> []" "0 \<notin> set cmd" "length cmd < 8192"
      using push_cmd_text [of ?a b] assms(4,5) less.prems(1) by (simp_all add: cmd_def)
    let ?block = "take b (drop offset buffer)"
    let ?m = "m\<lparr>outgoing := outgoing m @ cmd @ ?block\<rparr>"
    have blocks: "push_blocks ?a ?l = (?a, b) # push_blocks (?a + b) (?l - b)"
      using b True by (subst push_blocks.simps) (simp add: b_def Let_def)
    have "pending_text (incoming ?m) = cmd @ noise @ 0x2e #
        (concat (map (echo_and_prompt noise) (push_blocks (?a + b) (?l - b))) @ rest)"
      using less.prems(4) by (simp add: blocks echo_and_prompt_def cmd_def)
    from wait_for_echo [OF this c assms(1,2)] obtain cs where
      cs: "do { m1 \<leftarrow> wait_for_string cmd [] ?m; wait_for_prompt [] m1 } = Some (?m\<lparr>incoming := cs\<rparr>)"
        "pending_text cs = concat (map (echo_and_prompt noise) (push_blocks (?a + b) (?l - b))) @ rest" by blast
    have "\<exists>cs' out. push_loop address (length buffer) buffer (offset + b) (?m\<lparr>incoming := cs\<rparr>)
        = Some (?m\<lparr>incoming := cs\<rparr>\<lparr>incoming := cs', outgoing := outgoing (?m\<lparr>incoming := cs\<rparr>) @ out\<rparr>)
      \<and> pending_text cs' = rest
      \<and> (\<forall>M s. received (out @ s) M = received s (store_bytes (address + (offset + b)) (drop (offset + b) buffer) M))"
      using b less.prems cs(2) by (intro less.hyps) (simp_all add: add.assoc)
    then obtain cs' out where rec: "push_loop address (length buffer) buffer (offset + b) (?m\<lparr>incoming := cs\<rparr>)
        = Some (?m\<lparr>incoming := cs', outgoing := outgoing m @ cmd @ ?block @ out\<rparr>)" "pending_text cs' = rest"
        "\<forall>M s. received (out @ s) M = received s (store_bytes (?a + b) (drop (offset + b) buffer) M)"
      by (auto simp: add.assoc)
    have "push_loop address (length buffer) buffer offset m = do {
        m3 \<leftarrow> wait_for_string cmd [] ?m; m4 \<leftarrow> wait_for_prompt [] m3; push_loop address (length buffer) buffer (offset + b) m4 }"
      using True assms(3) less.prems(2,3)
      by (subst push_loop.simps) (simp add: b_def cmd_def slow_write_safe_def serialport_write_def Let_def)
    also have "\<dots> = Some (m\<lparr>incoming := cs', outgoing := outgoing m @ (cmd @ ?block @ out)\<rparr>)"
      using cs(1) rec(1) by (auto simp: bind_eq_Some_conv)
    finally have run: "push_loop address (length buffer) buffer offset m
        = Some (m\<lparr>incoming := cs', outgoing := outgoing m @ (cmd @ ?block @ out)\<rparr>)" .
    have len: "length ?block = b" using b by simp
    have "received ((cmd @ ?block @ out) @ s) M = received s (store_bytes ?a (drop offset buffer) M)" for M s
    proof -
      have "received ((cmd @ ?block @ out) @ s) M = received (out @ s) (store_bytes ?a ?block M)"
        using received_push [of ?block ?a "out @ s" M] b(3) unfolding len cmd_def by simp
      also have "\<dots> = received s (store_bytes (?a + length ?block) (drop (offset + b) buffer) (store_bytes ?a ?block M))"
        unfolding len by (rule rec(3) [rule_format])
      also have "\<dots> = received s (store_bytes ?a (drop offset buffer) M)"
        unfolding store_bytes_append by (simp add: add.commute [of offset] flip: drop_drop)
      finally show ?thesis .
    qed
    then show ?thesis using run rec(2) by blast
  qed
qed

section \<open>Properties\<close>

lemma received_end [simp]: "received [] M = Some M"
  by (simp add: received.simps)

text \<open>The blocks of a region and their answers together.\<close>

lemma store_bytes_one: "store_bytes address [v] M = M(address \<mapsto> v)"
  by (auto simp: store_bytes_def fun_eq_iff)

lemma push_ram_arrives:
  assumes "set noise \<inter> {0, 0x21, 0x2e} = {}" "length noise < 8191" "address < 2 ^ 32"
    and "address mod 65536 + length buffer \<le> 65535" "new_monitor m" "cpu_stopped m"
    and "pending_text (incoming m) = answers noise address buffer @ rest"
  shows "\<exists>m' out. push_ram address (length buffer) buffer m = Some m' \<and> outgoing m' = outgoing m @ out
    \<and> (\<forall>M t. received (out @ t) M = received t (store_bytes address buffer M)) \<and> pending_text (incoming m') = rest"
proof (cases "length buffer = 1")
  case False
  then show ?thesis
    using push_loop_sends [OF assms(1,2) False assms(3,4) _ assms(5,6), of 0 rest] assms(6,7)
    by (auto simp: push_ram_def answers_def)
next
  case True
  then obtain v where v: "buffer = [v]" by (cases buffer) auto
  let ?cmd = "store_cmd address v"
  let ?m = "m\<lparr>outgoing := outgoing m @ ?cmd\<rparr>"
  have "0 < push_len address 1" using push_len_bounds(4) [of 1 address] assms(4) v by auto
  then have b: "push_len address 1 = 1" using push_len_bounds(1) [of address 1] by linarith
  have c: "?cmd \<noteq> []" "0 \<notin> set ?cmd" "length ?cmd < 8192"
    using store_cmd_text [of address v] assms(3) by simp_all
  have "pending_text (incoming ?m) = ?cmd @ noise @ 0x2e # rest" using assms(7) v by (simp add: answers_def)
  from wait_for_echo [OF this c assms(1,2)] obtain cs where
    cs: "do { m1 \<leftarrow> wait_for_string ?cmd [] ?m; wait_for_prompt [] m1 } = Some (?m\<lparr>incoming := cs\<rparr>)" "pending_text cs = rest"
    by blast
  have "push_ram address 1 [v] m = do { m3 \<leftarrow> wait_for_string ?cmd [] ?m; m4 \<leftarrow> wait_for_prompt [] m3; push_loop address 1 [v] 1 m4 }"
    using assms(6) b by (simp add: push_ram_def, subst push_loop.simps) (simp add: slow_write_safe_def Let_def)
  also have "\<dots> = Some (?m\<lparr>incoming := cs\<rparr>)"
    using cs(1) push_loop.simps [of address 1 "[v]" 1] by (auto simp: bind_eq_Some_conv)
  finally show ?thesis
    using v cs(2) by (auto simp: received_store store_bytes_one intro!: exI [of _ ?cmd])
qed

text \<open>
  C36: a block of memory that does not reach the last byte of its 64 KiB arrives.  When the MEGA65
  echoes each command and sends a prompt, \<open>push_ram\<close> returns however the port cuts this into reads,
  uses up exactly these answers, and what it sends stores the buffer at its address.
\<close>
theorem pushed_bytes_arrive:
  assumes "set noise \<inter> {0, 0x21, 0x2e} = {}" "length noise < 8191" "address < 2 ^ 32"
    and "address mod 65536 + length buffer \<le> 65535" "new_monitor m" "cpu_stopped m"
    and "pending_text (incoming m) = answers noise address buffer @ rest"
  shows "\<exists>m' out. push_ram address (length buffer) buffer m = Some m' \<and> outgoing m' = outgoing m @ out
    \<and> received out M = Some (store_bytes address buffer M) \<and> pending_text (incoming m') = rest"
  using push_ram_arrives [OF assms] by (metis append_Nil2 received_end)

lemma push_loop_stuck:
  assumes "push_loop address count buffer offset m = Some y"
  shows "65535 < (address + offset) mod 65536 + (count - offset) \<Longrightarrow> offset < count \<Longrightarrow> False"
  using assms
proof (induction address count buffer offset m y rule: push_loop.raw_induct [rotated, consumes 1])
  case (1 rec address count buffer offset m y)
  let ?b = "push_len (address + offset) (count - offset)"
  have "(address + offset) mod 65536 < 65536" by simp
  then have "65535 < (address + (offset + ?b)) mod 65536 + (count - (offset + ?b)) \<and> offset + ?b < count"
    using 1(3,4) by (auto simp: push_len_def Let_def add.assoc [symmetric] mod_add_left_eq [symmetric, of "address + offset"])
  then show ?case
    using 1(1) [of _ _ _ "offset + ?b"] 1(2,4) by (auto simp: bind_eq_Some_conv Let_def)
qed

section \<open>Reading memory\<close>

text \<open>
  A line of a dump, and a dump with whatever stands between its lines, as long as it has no line
  that starts with a colon.
\<close>

definition row :: "(nat \<Rightarrow> u8) \<Rightarrow> nat \<Rightarrow> bytes" where
  "row mem addr = line_start addr @ concat (map (\<lambda>i. hex2 (unat (mem (addr + i)))) [0 ..< 16])"

definition quiet :: "bytes \<Rightarrow> bool" where
  "quiet junk \<longleftrightarrow> 0 \<notin> set junk \<and> length junk \<le> 8000 \<and> strstr [0x0a, 0x3a] (junk @ [0x0a]) = None"

fun dump_text :: "(nat \<Rightarrow> u8) \<Rightarrow> nat \<Rightarrow> bytes list \<Rightarrow> bytes" where
  "dump_text mem addr [] = []"
| "dump_text mem addr (junk # junks) = junk @ row mem addr @ dump_text mem (addr + 16) junks"

lemma strstr_None:
  "strstr p s = None \<Longrightarrow> i + length p \<le> length s \<Longrightarrow> take (length p) (drop i s) \<noteq> p"
proof (induction p s arbitrary: i rule: strstr.induct)
  case (2 p c s)
  then show ?case by (cases i) (auto split: if_splits)
qed (auto split: if_splits)

lemma strstr_first:
  "take (length p) (drop i s) = p \<Longrightarrow> i \<le> length s \<Longrightarrow> (\<And>j. j < i \<Longrightarrow> take (length p) (drop j s) \<noteq> p) \<Longrightarrow> strstr p s = Some i"
proof (induction p s arbitrary: i rule: strstr.induct)
  case (2 p c s)
  show ?case
  proof (cases i)
    case (Suc j)
    have "take (length p) (drop k s) \<noteq> p" if "k < j" for k
      using 2(4) [of "Suc k"] Suc that by simp
    then have "strstr p s = Some j"
      using 2(2,3) Suc 2(4) [of 0] by (intro 2(1)) auto
    then show ?thesis using Suc 2(4) [of 0] by simp
  qed (use 2 in simp)
qed auto

lemma length_line_start [simp]: "length (line_start addr) = 11"
  by (simp add: line_start_def hex4_def hex2_def)

lemma line_start_shape: "\<exists>s. line_start addr = 0x0a # 0x3a # s"
  by (simp add: line_start_def)

lemma no_early_line:
  assumes "quiet junk" "prefix @ later = junk @ 0x0a # rest" "j < length junk"
  shows "take 11 (drop j prefix) \<noteq> line_start addr"
proof
  assume t: "take 11 (drop j prefix) = line_start addr"
  then have "length (take 11 (drop j prefix)) = 11" by simp
  then have len: "j + 2 \<le> length prefix" by simp
  have "take 2 (drop j prefix) = take 2 (take 11 (drop j prefix))" by simp
  also have "\<dots> = [0x0a, 0x3a]" unfolding t by (simp add: line_start_def)
  finally have "take 2 (drop j (prefix @ later)) = [0x0a, 0x3a]" using len by simp
  moreover obtain d ds where "drop j junk = d # ds" using assms(3) by (cases "drop j junk") auto
  ultimately have "take 2 (drop j (junk @ [0x0a])) = [0x0a, 0x3a]"
    using assms(2,3) by (cases ds) auto
  moreover have "j + 2 \<le> length (junk @ [0x0a :: u8])" using assms(3) by simp
  ultimately show False
    using strstr_None [of "[0x0a, 0x3a]" "junk @ [0x0a]" j] assms(1)
    by (simp add: quiet_def numeral_2_eq_2 del: take_append)
qed

lemma find_line:
  assumes "quiet junk" "prefix @ later = junk @ line_start addr @ rest"
  shows "strstr (line_start addr) prefix = (if length prefix \<ge> length junk + 11 then Some (length junk) else None)"
proof -
  obtain s where s: "line_start addr = 0x0a # 0x3a # s" using line_start_shape by blast
  have early: "take 11 (drop j prefix) \<noteq> line_start addr" if "j < length junk" for j
    using no_early_line [of junk prefix later "0x3a # s @ rest" j addr] assms that by (simp add: s)
  show ?thesis
  proof (cases "length prefix \<ge> length junk + 11")
    case True
    have "take 11 (drop (length junk) prefix) = take 11 (drop (length junk) (prefix @ later))" using True by simp
    also have "\<dots> = line_start addr" unfolding assms(2) by simp
    finally show ?thesis using True early by (auto intro!: strstr_first)
  next
    case False
    then show ?thesis
      using early strstr_Some [of "line_start addr" prefix] by (cases "strstr (line_start addr) prefix") force+
  qed
qed

lemma drop_hex2s: "i \<le> length xs \<Longrightarrow> drop (i * 2) (concat (map (\<lambda>x. hex2 (g x)) xs)) = concat (map (\<lambda>x. hex2 (g x)) (drop i xs))"
proof (induction xs arbitrary: i)
  case (Cons x xs)
  then show ?case by (cases i) (simp_all add: hex2_def)
qed simp

lemma row_byte:
  assumes "i < 16"
  shows "parse_byte (drop (11 + i * 2) (row mem addr @ rest)) = Some (mem (addr + i))"
proof -
  let ?g = "\<lambda>i. unat (mem (addr + i))"
  have "drop i [0 ..< 16] = i # [Suc i ..< 16]" by (simp only: drop_upt add_0 upt_conv_Cons [OF assms])
  then have "drop (i * 2) (concat (map (\<lambda>i. hex2 (?g i)) [0 ..< 16])) = hex2 (?g i) @ concat (map (\<lambda>i. hex2 (?g i)) [Suc i ..< 16])"
    using drop_hex2s [of i "[0 ..< 16]" ?g] assms by simp
  moreover have "length (concat (map (\<lambda>i. hex2 (?g i)) [0 ..< 16])) = 32"
    by (simp add: length_concat comp_def hex2_def sum_list_triv)
  ultimately obtain t where "drop (11 + i * 2) (row mem addr @ rest) = hex2 (?g i) @ t"
    using assms by (auto simp: row_def)
  moreover have "unat (mem (addr + i)) < 256" using unsigned_less [of "mem (addr + i)", where 'a = nat] by simp
  then have "16 * (unat (mem (addr + i)) div 16 mod 16) + unat (mem (addr + i)) mod 16 = unat (mem (addr + i))" by simp
  ultimately show ?thesis by (simp add: parse_byte_def hex2_def del: of_nat_add of_nat_mult drop_append)
qed

lemma take_row_eq:
  assumes "\<And>i. i < 16 \<Longrightarrow> parse_byte (drop (11 + i * 2) found) = Some (f (pos + i))"
  shows "take_row pos found buffer =
    map (\<lambda>i. if pos \<le> i \<and> i < pos + 16 then f i else buffer ! i) [0 ..< length buffer]"
proof -
  have "fold (\<lambda>i buffer. if pos + i \<ge> length buffer then buffer
             else case parse_byte (drop (11 + i * 2) found) of None \<Rightarrow> buffer | Some v \<Rightarrow> buffer[pos + i := v]) [0 ..< n] buffer
      = map (\<lambda>i. if pos \<le> i \<and> i < pos + n then f i else buffer ! i) [0 ..< length buffer]" if "n \<le> 16" for n
    using that
  proof (induction n)
    case 0
    show ?case by (rule nth_equalityI) auto
  next
    case (Suc n)
    then show ?case
      by (auto simp: assms nth_list_update intro!: nth_equalityI)
  qed
  then show ?thesis by (simp add: take_row_def)
qed

text \<open>A line as the program finds it in what was read so far.\<close>

lemma read_line:
  assumes "quiet junk" "prefix @ later = junk @ row mem addr @ rest" "0 \<notin> set prefix"
  shows "strstr (line_start addr) (cstr prefix) = (if length prefix \<ge> length junk + 11 then Some (length junk) else None)"
    and "length prefix \<ge> length junk + 43 \<Longrightarrow> drop (length junk + 43) prefix @ later = rest
      \<and> take_row pos (drop (length junk) prefix) buffer =
        map (\<lambda>i. if pos \<le> i \<and> i < pos + 16 then mem (addr + i - pos) else buffer ! i) [0 ..< length buffer]"
proof -
  have len: "length (row mem addr) = 43"
    by (simp add: row_def length_concat comp_def hex2_def sum_list_triv)
  show "strstr (line_start addr) (cstr prefix) = (if length prefix \<ge> length junk + 11 then Some (length junk) else None)"
    using find_line [OF assms(1), of prefix later addr] assms(2,3) by (simp add: row_def)
  assume l: "length prefix \<ge> length junk + 43"
  have p: "prefix = junk @ row mem addr @ drop (length junk + 43) prefix"
  proof -
    have "take (length junk + 43) prefix = take (length junk + 43) (prefix @ later)" using l by simp
    also have "\<dots> = junk @ row mem addr" unfolding assms(2) using len by simp
    finally show ?thesis using append_take_drop_id [of "length junk + 43" prefix] by (metis append.assoc)
  qed
  then have "drop (length junk) prefix = row mem addr @ drop (length junk + 43) prefix"
    by (metis append_eq_conv_conj)
  then have "take_row pos (drop (length junk) prefix) buffer =
      map (\<lambda>i. if pos \<le> i \<and> i < pos + 16 then mem (addr + i - pos) else buffer ! i) [0 ..< length buffer]"
    by (intro take_row_eq) (simp add: row_byte del: drop_append)
  moreover have "drop (length junk + 43) prefix @ later = rest"
    using assms(2) p by (metis append.assoc same_append_eq)
  ultimately show "drop (length junk + 43) prefix @ later = rest
      \<and> take_row pos (drop (length junk) prefix) buffer =
        map (\<lambda>i. if pos \<le> i \<and> i < pos + 16 then mem (addr + i - pos) else buffer ! i) [0 ..< length buffer]" by simp
qed

lemma read_any:
  assumes "serialport_read n m = (b, m')"
  shows "pending_text (incoming m) = (case b of None \<Rightarrow> [] | Some c \<Rightarrow> c) @ pending_text (incoming m')"
    and "port_size (incoming m') \<le> port_size (incoming m)"
    and "0 < n \<Longrightarrow> pending_text (incoming m) \<noteq> [] \<Longrightarrow> port_size (incoming m') < port_size (incoming m)"
    and "length (case b of None \<Rightarrow> [] | Some c \<Rightarrow> c) \<le> n"
proof -
  have "pending_text cs = (case b of None \<Rightarrow> [] | Some c \<Rightarrow> c) @ pending_text cs' \<and> port_size cs' \<le> port_size cs
      \<and> (0 < n \<and> pending_text cs \<noteq> [] \<longrightarrow> port_size cs' < port_size cs) \<and> length (case b of None \<Rightarrow> [] | Some c \<Rightarrow> c) \<le> n"
    if "read_from n cs = (b, cs')" for cs cs'
    using that by (induction n cs rule: read_from.induct) (auto simp: port_size_def split: if_splits)
  then show "pending_text (incoming m) = (case b of None \<Rightarrow> [] | Some c \<Rightarrow> c) @ pending_text (incoming m')"
    and "port_size (incoming m') \<le> port_size (incoming m)"
    and "0 < n \<Longrightarrow> pending_text (incoming m) \<noteq> [] \<Longrightarrow> port_size (incoming m') < port_size (incoming m)"
    and "length (case b of None \<Rightarrow> [] | Some c \<Rightarrow> c) \<le> n"
    using assms by (auto simp: serialport_read_def split: prod.splits)
qed

lemma incoming_time: "time_now m = (t, m') \<Longrightarrow> incoming m' = incoming m"
  by (auto simp: time_now_def split: list.splits)

lemma incoming_write [simp]: "incoming (slow_write_safe d m) = incoming m"
  by (simp add: slow_write_safe_def Let_def)

lemma fetch_loop_reads:
  assumes "read_buff @ pending_text (incoming m) = dump_text mem addr junks @ rest" "length read_buff \<le> 8191"
    and "0 \<notin> set (dump_text mem addr junks @ rest)" "\<forall>j \<in> set junks. quiet j"
    and "address \<le> addr" "address + length buffer \<le> addr + 16 * length junks"
    and "\<And>i. i < length buffer \<Longrightarrow> address + i < addr \<Longrightarrow> buffer ! i = mem (address + i)"
  shows "\<exists>m'. fetch_loop address addr end_addr read_buff last_rx buffer m = Some (map (\<lambda>i. mem (address + i)) [0 ..< length buffer], m')"
  using assms
proof (induction "length junks + port_size (incoming m)" arbitrary: junks m addr end_addr read_buff last_rx buffer rule: less_induct)
  case less
  show ?case
  proof (cases "addr < address + length buffer")
    case False
    then have "buffer = map (\<lambda>i. mem (address + i)) [0 ..< length buffer]"
      using less.prems(7) by (intro nth_equalityI) auto
    then show ?thesis using False by (subst fetch_loop.simps) auto
  next
    case True
    then obtain junk junks' where j: "junks = junk # junks'" using less.prems(6) by (cases junks) auto
    define left where "left = address + length buffer - addr"
    obtain t m1 where t: "time_now m = (t, m1)" by force
    define again where "again = (last_rx < t \<or> addr = end_addr)"
    define end_addr1 where "end_addr1 = (if again then (if left < 17 then addr + 0x10 else addr + 0x100) else end_addr)"
    obtain last_rx1 m2 where l: "(if again then time_now (slow_write_safe (dump_cmd addr left) m1) else (last_rx, m1)) = (last_rx1, m2)"
      by force
    obtain b m3 where b: "serialport_read (8191 - length read_buff) m2 = (b, m3)" by force
    define got where "got = (case b of None \<Rightarrow> [] | Some c \<Rightarrow> c)"
    have "incoming m1 = incoming m" using t by (rule incoming_time)
    moreover have "incoming m2 = incoming m1"
      using l by (auto split: if_splits dest: incoming_time)
    ultimately have m2: "incoming m2 = incoming m" by simp
    note r = read_any [OF b, folded got_def, unfolded m2]
    have seen: "(read_buff @ got) @ pending_text (incoming m3) = junk @ row mem addr @ (dump_text mem (addr + 16) junks' @ rest)"
      using less.prems(1) r(1) by (simp add: j)
    have len: "length (read_buff @ got) \<le> 8191" using r(4) less.prems(2) by simp
    have "set (read_buff @ got) \<subseteq> set (dump_text mem addr junks @ rest)"
      using arg_cong [OF seen, of set] by (auto simp: j)
    then have nul: "0 \<notin> set (read_buff @ got)" using less.prems(3) by auto
    have q: "quiet junk" using less.prems(4) j by simp
    note ln = read_line [OF q seen nul]
    have c: "cstr (read_buff @ got) = read_buff @ got" using nul by simp
    have step: "fetch_loop address addr end_addr read_buff last_rx buffer m =
        (if length (read_buff @ got) \<ge> length junk + 43
         then fetch_loop address (addr + 16) end_addr1 (drop (length junk + 43) (read_buff @ got)) last_rx1
                (take_row (addr - address) (drop (length junk) (read_buff @ got)) buffer) m3
         else fetch_loop address addr end_addr1 (read_buff @ got) last_rx1 buffer m3)"
      using True ln(1) by (subst fetch_loop.simps)
        (simp add: t l b c got_def [symmetric] left_def [symmetric] again_def [symmetric] end_addr1_def [symmetric] Let_def del: length_append, auto)
    show ?thesis
    proof (cases "length (read_buff @ got) \<ge> length junk + 43")
      case full: True
      let ?buffer = "take_row (addr - address) (drop (length junk) (read_buff @ got)) buffer"
      note row = ln(2) [OF full, of "addr - address" buffer]
      have "\<exists>m'. fetch_loop address (addr + 16) end_addr1 (drop (length junk + 43) (read_buff @ got)) last_rx1 ?buffer m3
          = Some (map (\<lambda>i. mem (address + i)) [0 ..< length ?buffer], m')"
      proof (rule less.hyps [of junks'])
        show "length junks' + port_size (incoming m3) < length junks + port_size (incoming m)" using r(2) j by simp
        show "drop (length junk + 43) (read_buff @ got) @ pending_text (incoming m3) = dump_text mem (addr + 16) junks' @ rest"
          using row by blast
        show "length (drop (length junk + 43) (read_buff @ got)) \<le> 8191" using len by simp
      qed (use less.prems(3-7) j row in \<open>auto simp: not_less add.commute\<close>)
      then show ?thesis unfolding step using full row by simp
    next
      case False
      have "length read_buff < 8191" using False q by (simp add: quiet_def)
      moreover have "pending_text (incoming m) \<noteq> []"
      proof
        assume "pending_text (incoming m) = []"
        then have "length (read_buff @ got) = length (junk @ row mem addr @ dump_text mem (addr + 16) junks' @ rest)"
          using r(1) less.prems(1) j by (metis append_is_Nil_conv append_Nil2 dump_text.simps(2) append.assoc)
        then show False using False by (simp add: row_def length_concat comp_def hex2_def sum_list_triv)
      qed
      ultimately have "port_size (incoming m3) < port_size (incoming m)" using r(3) by simp
      then have "\<exists>m'. fetch_loop address addr end_addr1 (read_buff @ got) last_rx1 buffer m3
          = Some (map (\<lambda>i. mem (address + i)) [0 ..< length buffer], m')"
        using less.prems(3-7) seen len j by (intro less.hyps [of junks]) auto
      then show ?thesis unfolding step using False by simp
    qed
  qed
qed

section \<open>Properties of both\<close>

text \<open>
  C37: \<open>push_ram\<close> never returns when the region reaches the last byte of a block of 64 KiB: its limit
  leaves this byte out, so it goes on writing nothing there, whatever the MEGA65 answers.
\<close>
theorem push_never_ends:
  assumes "65535 < address mod 65536 + count" "0 < count"
  shows "push_ram address count buffer m = None"
proof -
  have "push_loop address count buffer 0 m1 = None" for m1
    using push_loop_stuck [of address count buffer 0 m1] assms by (cases "push_loop address count buffer 0 m1") auto
  then show ?thesis
    by (simp add: push_ram_def)
qed

definition sample_monitor :: "bytes option list \<Rightarrow> monitor" where
  "sample_monitor cs = \<lparr>incoming = cs, outgoing = [], clocks = [1], randoms = [], cpu_stopped = True, no_rxbuff = False,
     new_monitor = True, on_xemu = False, saw_c64_mode = False, saw_c65_mode = False, saw_openrom = False,
     pending_vf011_read = False, pending_vf011_write = False, pending_vf011_track = 0, pending_vf011_sector = 0,
     pending_vf011_side = 0, recent_bytes = [0, 0, 0, 0]\<rparr>"

lemma sample_monitor_simps [simp]:
  "incoming (sample_monitor cs) = cs" "outgoing (sample_monitor cs) = []" "cpu_stopped (sample_monitor cs)"
  "new_monitor (sample_monitor cs)"
  by (simp_all add: sample_monitor_def)

theorem push_never_ends_witness:
  "push_ram 0xfff8 16 (replicate 16 1) (sample_monitor [Some (echo_and_prompt [] (0xfff8, 7))]) = None"
  by (rule push_never_ends) simp_all

theorem pushed_bytes_arrive_witness:
  "\<exists>m' out. push_ram 0x0801 (length [1, 2, 3 :: u8]) [1, 2, 3]
      (sample_monitor [Some (take 4 (answers [0x0d] 0x0801 [1, 2, 3])), None, Some (drop 4 (answers [0x0d] 0x0801 [1, 2, 3]))]) = Some m'
    \<and> outgoing m' = outgoing (sample_monitor [Some (take 4 (answers [0x0d] 0x0801 [1, 2, 3])), None, Some (drop 4 (answers [0x0d] 0x0801 [1, 2, 3]))]) @ out
    \<and> received out Map.empty = Some (store_bytes 0x0801 [1, 2, 3] Map.empty) \<and> pending_text (incoming m') = []"
  by (rule pushed_bytes_arrive [where noise = "[0x0d]"]) simp_all


definition sample_dump :: bytes where
  "sample_dump = dump_text (\<lambda>a. word_of_nat a) 0x1000 [[0x4d, 0x0d], [0x0d]]"


section \<open>Where the source falls short\<close>

text \<open>A first read of more than 256 bytes through the cache has zeros behind the 256th.\<close>

lemma cached_read_cut:
  assumes "\<not> ram_cache_initialised rc" "address + length buffer < 512 * 1024"
    and "fetch_ram_cacheable address buffer rc m = Some (b, rc', m')" "256 \<le> i" "i < length buffer"
  shows "b ! i = 0"
  using assms by (auto simp: fetch_ram_cacheable_def init_ram_cache_def bind_eq_Some_conv Let_def list_all_iff split: if_splits)

text \<open>The pattern of a breakpoint is missed behind a second newline.\<close>

lemma breakpoint_missed: "match_pattern [0x0a, 0x2c, 0x30, 0x37, 0x37] 0 [0x0a, 0x0a, 0x2c, 0x30, 0x37, 0x37] \<noteq> None"
  by simp

text \<open>Without a receive buffer the CPU is still taken for stopped after \<open>start_cpu\<close>.\<close>

lemma start_cpu_keeps_flag: "no_rxbuff m \<Longrightarrow> start_cpu m = Some m' \<Longrightarrow> cpu_stopped m' = cpu_stopped m"
  by (auto simp: start_cpu_def purge_and_check_for_vf011_jobs_def time_now_def split: list.splits)

end
