(* ===== verification/JobResults.thy ===== *)
theory JobResults
  imports MonitorMemory JobQueue
begin

text \<open>
  The serial way of the job queue, \<open>job_process_results\<close> and the serial branch of
  \<open>queue_execute\<close> in \<open>mega65_ftp.c\<close>: the jobs are pushed into memory and started, and the
  helper's answer is found in the text it sends.
\<close>

section \<open>The answer to a batch\<close>

text \<open>\<open>recent\<close> is the window of the last 31 characters; its 32nd is the terminator.\<close>

record results =
  rs_rle :: rle_state
  q_rle_enable :: bool
  recent :: bytes

definition batch_done :: bytes where
  "batch_done = ascii ''FTBATCHDONE''"

text \<open>What \<open>%x\<close> leaves of a string.\<close>

definition after_hex :: "bytes \<Rightarrow> bytes" where
  "after_hex s = dropWhile (\<lambda>c. hex_value c \<noteq> None) (drop_0x (snd (take_sign (dropWhile is_space s))))"

text \<open>
  \<open>sscanf\<close> with \<open>%x:%x:%n\<close> behind the tag: the size, and where the format ended if it did; \<open>n\<close> is
  not set if the last colon is missing.
\<close>

definition job_header :: "string \<Rightarrow> bytes \<Rightarrow> (int \<times> nat option) option" where
  "job_header tag s =
     (case sscanf (fmt_word tag [ScanHex, ScanChar 0x3a, ScanHex]) s of
        [IntArg j_addr, IntArg transfer_size] \<Rightarrow>
          Some (transfer_size,
            case after_hex (tl (after_hex (drop (length tag) s))) of
              c # t \<Rightarrow> if c = 0x3a then Some (length s - length t) else None
            | [] \<Rightarrow> None)
      | _ \<Rightarrow> None)"

definition begin_data :: "bool \<Rightarrow> int \<Rightarrow> results \<Rightarrow> results" where
  "begin_data rle transfer_size s =
     s\<lparr>rs_rle := (rs_rle s)\<lparr>q_rle_count := 0, q_raw_count := 0, data_byte_count := sint (word_of_int transfer_size :: u32)\<rparr>,
       q_rle_enable := rle\<rparr>"

definition data_byte :: "u8 \<Rightarrow> results \<Rightarrow> results" where
  "data_byte v s = s\<lparr>rs_rle := (if q_rle_enable s then queue_data_decode v (rs_rle s) else queue_data_decode_raw v (rs_rle s))\<rparr>"

text \<open>The bytes of the window behind the header, as long as data is expected.\<close>

definition ingest :: "bytes \<Rightarrow> results \<Rightarrow> results" where
  "ingest vs s = fold (\<lambda>v s. if data_byte_count (rs_rle s) \<noteq> 0 then data_byte v s else s) vs s"

definition take_header :: "string \<Rightarrow> bool \<Rightarrow> results \<Rightarrow> results option" where
  "take_header tag rle s =
     (case job_header tag (cstr (recent s)) of
        None \<Rightarrow> Some s
      | Some (transfer_size, None) \<Rightarrow> None
      | Some (transfer_size, Some n) \<Rightarrow> Some (ingest (drop n (recent s)) (begin_data rle transfer_size s)))"

text \<open>One byte; the flag says that the batch is done.\<close>

definition job_byte :: "u8 \<Rightarrow> results \<Rightarrow> (bool \<times> results) option" where
  "job_byte v s =
     (if data_byte_count (rs_rle s) \<noteq> 0 then Some (False, data_byte v s)
      else
        let s1 = s\<lparr>recent := tl (recent s) @ [v]\<rparr>
        in if drop 20 (recent s1) = batch_done then Some (True, s1)
           else do {
             s2 \<leftarrow> take_header ''FTJOBDATA:'' True s1;
             s3 \<leftarrow> take_header ''FTJOBDATR:'' False s2;
             Some (False, s3)
           })"

fun job_bytes :: "bytes \<Rightarrow> results \<Rightarrow> (bool \<times> results) option" where
  "job_bytes [] s = Some (False, s)"
| "job_bytes (v # vs) s = do { (finished, s1) \<leftarrow> job_byte v s; if finished then Some (True, s1) else job_bytes vs s1 }"

partial_function (option) results_loop :: "results \<Rightarrow> monitor \<Rightarrow> (results \<times> monitor) option" where
  "results_loop s m =
     (case read_or_none 8192 m of (b, m1) \<Rightarrow>
        do { (finished, s1) \<leftarrow> job_bytes b s; if finished then Some (s1, m1) else results_loop s1 m1 })"

text \<open>\<open>recent0\<close> is what the window holds before anything was written to it.\<close>

definition job_process_results :: "bytes \<Rightarrow> results \<Rightarrow> monitor \<Rightarrow> (results \<times> monitor) option" where
  "job_process_results recent0 s m =
     results_loop (s\<lparr>rs_rle := (rs_rle s)\<lparr>data_byte_count := 0, queue_read_rle := []\<rparr>, recent := recent0\<rparr>) m"

definition queue_execute_serial :: "bytes \<Rightarrow> job_queue \<Rightarrow> results \<Rightarrow> monitor \<Rightarrow> (job_queue \<times> results \<times> monitor) option" where
  "queue_execute_serial recent0 q s m =
     do {
       m1 \<leftarrow> push_ram 0xc001 (unat (queue_addr q - queue_base)) (take (unat (queue_addr q - queue_base)) (queue_cmds q)) m;
       let m2 = slow_write (ascii ''sc000 '' @ hex_text hex_lower (unat (queue_jobs q)) @ [0x0d]) m1;
       (s1, m3) \<leftarrow> job_process_results recent0 s m2;
       Some (q\<lparr>queue_addr := queue_base, queue_jobs := 0\<rparr>, s1, m3)
     }"

section \<open>Reads\<close>

lemma job_bytes_append:
  "job_bytes (xs @ ys) s =
     (case job_bytes xs s of None \<Rightarrow> None | Some (True, s1) \<Rightarrow> Some (True, s1) | Some (False, s1) \<Rightarrow> job_bytes ys s1)"
proof (induction xs arbitrary: s)
  case (Cons v xs)
  show ?case
  proof (cases "job_byte v s")
    case (Some r)
    then show ?thesis by (cases r; cases "fst r") (auto simp: Cons.IH)
  qed simp
qed simp

lemma results_loop_reads:
  "job_bytes (pending_text (incoming m)) s = Some (True, s') \<Longrightarrow> \<exists>m'. results_loop s m = Some (s', m') \<and> outgoing m' = outgoing m"
proof (induction "port_size (incoming m)" arbitrary: m s rule: less_induct)
  case less
  obtain b m1 where b: "serialport_read 8192 m = (b, m1)" by force
  note r = read_any [OF b]
  define got where "got = (case b of None \<Rightarrow> [] | Some c \<Rightarrow> c)"
  have out: "outgoing m1 = outgoing m" using b by (auto simp: serialport_read_def split: prod.splits)
  have run: "read_or_none 8192 m = (got, m1)" by (simp add: read_or_none_def b got_def)
  have "pending_text (incoming m) \<noteq> []" using less.prems by auto
  then have smaller: "port_size (incoming m1) < port_size (incoming m)" using r(3) by simp
  have "job_bytes (got @ pending_text (incoming m1)) s = Some (True, s')"
    using less.prems r(1) by (simp add: got_def)
  then consider "job_bytes got s = Some (True, s')"
    | s1 where "job_bytes got s = Some (False, s1)" "job_bytes (pending_text (incoming m1)) s1 = Some (True, s')"
    by (auto simp: job_bytes_append split: option.splits bool.splits)
  then show ?case
  proof cases
    case 1
    then show ?thesis by (subst results_loop.simps) (simp add: run out)
  next
    case 2
    then show ?thesis using less.hyps [OF smaller 2(2)] by (subst results_loop.simps) (auto simp: run out)
  qed
qed

section \<open>A header\<close>

definition hex_digits :: "(nat \<Rightarrow> u8) \<Rightarrow> bool" where
  "hex_digits digit \<longleftrightarrow> (\<forall>n < 16. hex_value (digit n) = Some n)"

lemma hex_value_plain:
  "hex_value c \<noteq> None \<Longrightarrow> \<not> is_space c \<and> c \<noteq> 0x2d \<and> c \<noteq> 0x2b \<and> c \<noteq> 0x78 \<and> c \<noteq> 0x58 \<and> c \<noteq> 0 \<and> c \<noteq> 0x3a"
proof -
  have "hex_value c = None" if "is_space c \<or> c = 0x2d \<or> c = 0x2b \<or> c = 0x78 \<or> c = 0x58 \<or> c = 0 \<or> c = 0x3a"
    using that by (auto simp: is_space_def hex_value_def word_le_nat_alt)
  then show "hex_value c \<noteq> None \<Longrightarrow> \<not> is_space c \<and> c \<noteq> 0x2d \<and> c \<noteq> 0x2b \<and> c \<noteq> 0x78 \<and> c \<noteq> 0x58 \<and> c \<noteq> 0 \<and> c \<noteq> 0x3a"
    by metis
qed

lemma hex_text_digits:
  assumes "hex_digits digit"
  shows "\<forall>c \<in> set (hex_text digit n). hex_value c \<noteq> None"
proof (induction n rule: less_induct)
  case (less n)
  then show ?case
    using assms less.IH [of "n div 16"] by (cases "n < 16") (auto simp: hex_text.simps [of digit n] hex_digits_def)
qed

lemma read_hex_digits:
  assumes "hex_digits digit" "hex_value c = None"
  shows "hex_digits_value 0 (hex_text digit n @ c # s) = n"
    and "dropWhile (\<lambda>c. hex_value c \<noteq> None) (hex_text digit n @ c # s) = c # s"
  using read_hex_text [OF assms(2), of digit n s] assms(1) by (simp_all add: read_hex_def hex_digits_def)

lemma scan_hex_text:
  assumes "hex_digits digit"
  shows "sscanf (ScanHex # fmt) (hex_text digit n @ 0x3a # s) = IntArg (int n) # sscanf fmt (0x3a # s)"
    and "after_hex (hex_text digit n @ 0x3a # s) = 0x3a # s"
proof -
  obtain c t where t: "hex_text digit n = c # t"
    using hex_text_bounds(1) [of digit n] by (cases "hex_text digit n") auto
  have c: "hex_value c \<noteq> None" using hex_text_digits [OF assms, of n] t by simp
  have second: "hd (t @ 0x3a # s) \<noteq> 0x78 \<and> hd (t @ 0x3a # s) \<noteq> 0x58"
    using hex_text_digits [OF assms, of n] t hex_value_plain by (cases t) auto
  then have start: "drop_0x (snd (take_sign (dropWhile is_space (hex_text digit n @ 0x3a # s)))) = hex_text digit n @ 0x3a # s"
      "take_sign (dropWhile is_space (hex_text digit n @ 0x3a # s)) = (1, hex_text digit n @ 0x3a # s)"
    using hex_value_plain [OF c] by (cases t; simp add: t)+
  have "takeWhile (\<lambda>c. hex_value c \<noteq> None) (hex_text digit n @ 0x3a # s) \<noteq> []" using c by (simp add: t)
  then show "sscanf (ScanHex # fmt) (hex_text digit n @ 0x3a # s) = IntArg (int n) # sscanf fmt (0x3a # s)"
    using start read_hex_digits [OF assms no_digits(3), of n s] by (simp add: Let_def)
  show "after_hex (hex_text digit n @ 0x3a # s) = 0x3a # s"
    unfolding after_hex_def start(1) by (rule read_hex_digits(2) [OF assms no_digits(3)])
qed

lemma sscanf_literal:
  "sscanf (map ScanChar w @ items) (w @ s) = sscanf items s"
  "sscanf (map ScanChar w @ items) s \<noteq> [] \<Longrightarrow> take (length w) s = w"
proof -
  show "sscanf (map ScanChar w @ items) (w @ s) = sscanf items s"
    by (induction w) auto
  show "sscanf (map ScanChar w @ items) s \<noteq> [] \<Longrightarrow> take (length w) s = w"
    by (induction w arbitrary: s) (auto split: list.splits if_splits)
qed

definition header :: "string \<Rightarrow> (nat \<Rightarrow> u8) \<Rightarrow> nat \<Rightarrow> nat \<Rightarrow> bytes" where
  "header tag digit addr n = ascii tag @ hex_text digit addr @ [0x3a] @ hex_text digit n @ [0x3a]"

lemma job_header_found:
  assumes "hex_digits digit"
  shows "job_header tag (header tag digit addr n @ s) = Some (int n, Some (length (header tag digit addr n)))"
proof -
  let ?h = "header tag digit addr n"
  have "?h @ s = ascii tag @ hex_text digit addr @ 0x3a # hex_text digit n @ 0x3a # s"
    by (simp add: header_def)
  moreover have "drop (length tag) (ascii tag @ t) = t" for t by (simp add: ascii_def)
  ultimately show ?thesis
    by (simp add: job_header_def fmt_word_def sscanf_literal(1) scan_hex_text [OF assms] header_def del: sscanf.simps(5) drop_append)
qed

lemma job_header_missing:
  "take (length tag) w \<noteq> ascii tag \<Longrightarrow> job_header tag (cstr w) = None"
proof -
  assume tag: "take (length tag) w \<noteq> ascii tag"
  obtain t where t: "w = cstr w @ t" unfolding cstr_def by (metis takeWhile_dropWhile_id)
  have "sscanf (fmt_word tag items) (cstr w) = []" for items
  proof (rule ccontr)
    assume "sscanf (fmt_word tag items) (cstr w) \<noteq> []"
    then have "take (length (ascii tag)) (cstr w) = ascii tag" unfolding fmt_word_def by (rule sscanf_literal(2))
    then have "take (length tag) (cstr w) = ascii tag" "length tag \<le> length (cstr w)"
      by (auto simp: ascii_def dest: arg_cong [of _ _ length])
    then show False using tag t by (metis take_append append_Nil2 diff_is_0_eq take0)
  qed
  then show ?thesis by (simp add: job_header_def)
qed

section \<open>The text of a batch\<close>

text \<open>A window in which nothing is recognised.\<close>

definition idle_window :: "bytes \<Rightarrow> bool" where
  "idle_window w \<longleftrightarrow> drop 20 w \<noteq> batch_done \<and> take 10 w \<noteq> ascii ''FTJOBDATA:'' \<and> take 10 w \<noteq> ascii ''FTJOBDATR:''"

definition silent :: "bytes \<Rightarrow> nat \<Rightarrow> bool" where
  "silent w n \<longleftrightarrow> list_all (\<lambda>k. idle_window (take 31 (drop k w))) [1 ..< n]"

lemma idle_byte:
  assumes "data_byte_count (rs_rle s) = 0" "idle_window (tl (recent s) @ [v])"
  shows "job_byte v s = Some (False, s\<lparr>recent := tl (recent s) @ [v]\<rparr>)"
proof -
  let ?w = "tl (recent s) @ [v]"
  have ten: "length ''FTJOBDATA:'' = 10" "length ''FTJOBDATR:'' = 10" by simp_all
  have "job_header ''FTJOBDATA:'' (cstr ?w) = None"
    by (rule job_header_missing) (use assms(2) in \<open>simp only: ten idle_window_def\<close>, simp)
  moreover have "job_header ''FTJOBDATR:'' (cstr ?w) = None"
    by (rule job_header_missing) (use assms(2) in \<open>simp only: ten idle_window_def\<close>, simp)
  moreover have "drop 20 ?w \<noteq> batch_done" using assms(2) unfolding idle_window_def by blast
  ultimately show ?thesis
    using assms(1) by (simp add: job_byte_def take_header_def Let_def del: drop_append)
qed

lemma silent_bytes:
  assumes "data_byte_count (rs_rle s) = 0" "length (recent s) = 31" "silent (recent s @ xs) (Suc (length xs))"
  shows "job_bytes (xs @ ys) s = job_bytes ys (s\<lparr>recent := drop (length xs) (recent s @ xs)\<rparr>)"
  using assms
proof (induction xs arbitrary: s)
  case (Cons v xs)
  let ?s = "s\<lparr>recent := tl (recent s) @ [v]\<rparr>"
  obtain c cs where c: "recent s = c # cs" using Cons.prems(2) by (cases "recent s") auto
  have idle: "idle_window (take 31 (drop k (recent s @ v # xs)))" if "1 \<le> k" "k \<le> length (v # xs)" for k
    using Cons.prems(3) that unfolding silent_def list_all_iff set_upt by (auto simp del: drop_append take_append)
  have "idle_window (tl (recent s) @ [v])" using idle [of 1] Cons.prems(2) c by simp
  then have "job_byte v s = Some (False, ?s)" using Cons.prems(1) by (intro idle_byte)
  moreover have "silent (recent ?s @ xs) (Suc (length xs))"
    unfolding silent_def list_all_iff using idle [of "Suc _"] c by auto
  then have "job_bytes (xs @ ys) ?s = job_bytes ys (?s\<lparr>recent := drop (length xs) (recent ?s @ xs)\<rparr>)"
    using Cons.prems(1,2) c by (intro Cons.IH) simp_all
  ultimately show ?case using c by simp
qed simp

lemma raw_byte:
  assumes "\<not> q_rle_enable s" "data_byte_count (rs_rle s) \<noteq> 0" "length (queue_read_rle (rs_rle s)) < queue_read_max"
  shows "data_byte v s = s\<lparr>rs_rle := (rs_rle s)\<lparr>queue_read_rle := queue_read_rle (rs_rle s) @ [v], data_byte_count := data_byte_count (rs_rle s) - 1\<rparr>\<rparr>"
  using assms by (simp add: data_byte_def queue_data_decode_raw_def put_read_byte_def Let_def)

lemma raw_data:
  assumes "\<not> q_rle_enable s" "int (length xs) \<le> data_byte_count (rs_rle s)"
    and "length (queue_read_rle (rs_rle s)) + length xs \<le> queue_read_max"
    and "t = s\<lparr>rs_rle := (rs_rle s)\<lparr>queue_read_rle := queue_read_rle (rs_rle s) @ xs, data_byte_count := data_byte_count (rs_rle s) - int (length xs)\<rparr>\<rparr>"
  shows "ingest xs s = t" "job_bytes (xs @ ys) s = job_bytes ys t"
proof -
  have "ingest xs s = t \<and> job_bytes (xs @ ys) s = job_bytes ys t"
    using assms
  proof (induction xs arbitrary: s)
    case (Cons v xs)
    let ?s = "s\<lparr>rs_rle := (rs_rle s)\<lparr>queue_read_rle := queue_read_rle (rs_rle s) @ [v], data_byte_count := data_byte_count (rs_rle s) - 1\<rparr>\<rparr>"
    have v: "data_byte v s = ?s" "data_byte_count (rs_rle s) \<noteq> 0" using Cons.prems by (auto intro: raw_byte)
    have "ingest xs ?s = t \<and> job_bytes (xs @ ys) ?s = job_bytes ys t"
      using Cons.prems by (intro Cons.IH) simp_all
    then show ?case using v by (simp add: ingest_def job_byte_def)
  qed (simp add: ingest_def)
  then show "ingest xs s = t" "job_bytes (xs @ ys) s = job_bytes ys t" by simp_all
qed

lemma silent_prefix: "silent (w @ u) n \<Longrightarrow> n + 30 \<le> length w \<Longrightarrow> silent w n"
  by (auto simp: silent_def list_all_iff)

lemma silent_less: "silent w n \<Longrightarrow> k \<le> n \<Longrightarrow> silent w k"
  by (auto simp: silent_def list_all_iff)

lemma silent_drop: "silent w (k + n) \<Longrightarrow> silent (drop k w) n"
  unfolding silent_def list_all_iff by (auto simp: drop_drop)

lemma cstr_header: "hex_digits digit \<Longrightarrow> cstr (header ''FTJOBDATR:'' digit addr n @ s) = header ''FTJOBDATR:'' digit addr n @ cstr s"
proof -
  assume d: "hex_digits digit"
  have "0 \<notin> set (hex_text digit k)" for k
    using hex_text_digits [OF d, of k] by (auto simp: hex_value_def)
  then show ?thesis by (simp add: cstr_def header_def takeWhile_append)
qed

lemma header_byte:
  assumes "hex_digits digit" "data_byte_count (rs_rle s) = 0" "queue_read_rle (rs_rle s) = []"
    and "tl (recent s) @ [v] = header ''FTJOBDATR:'' digit addr n @ xs" "length xs \<le> n" "n \<le> queue_read_max"
    and "drop 20 (tl (recent s) @ [v]) \<noteq> batch_done"
  shows "\<exists>t. job_byte v s = Some (False, t) \<and> recent t = tl (recent s) @ [v] \<and> \<not> q_rle_enable t
    \<and> queue_read_rle (rs_rle t) = xs \<and> data_byte_count (rs_rle t) = int (n - length xs)"
proof -
  let ?w = "tl (recent s) @ [v]" and ?s = "s\<lparr>recent := tl (recent s) @ [v]\<rparr>"
  let ?h = "header ''FTJOBDATR:'' digit addr n"
  let ?b = "begin_data False (int n) ?s"
  have ten: "length ''FTJOBDATA:'' = 10" by simp
  have "job_header ''FTJOBDATA:'' (cstr ?w) = None"
    by (rule job_header_missing) (simp only: ten assms(4), simp add: header_def)
  then have first: "take_header ''FTJOBDATA:'' True ?s = Some ?s" by (simp add: take_header_def)
  have "job_header ''FTJOBDATR:'' (cstr ?w) = Some (int n, Some (length ?h))"
    unfolding assms(4) cstr_header [OF assms(1)] by (rule job_header_found [OF assms(1)])
  then have second: "take_header ''FTJOBDATR:'' False ?s = Some (ingest xs ?b)"
    using assms(4) by (simp add: take_header_def)
  have "sint (word_of_int (int n) :: u32) = int n"
    using assms(6) sint_small [of "word_of_nat n"] by (simp add: queue_read_max_def unat_of_nat)
  then have b: "data_byte_count (rs_rle ?b) = int n" "queue_read_rle (rs_rle ?b) = []" "\<not> q_rle_enable ?b" "recent ?b = ?w"
    using assms(3) by (simp_all add: begin_data_def)
  have "ingest xs ?b = ?b\<lparr>rs_rle := (rs_rle ?b)\<lparr>queue_read_rle := xs, data_byte_count := int n - int (length xs)\<rparr>\<rparr>"
    using assms(5,6) b by (intro raw_data(1)) simp_all
  then show ?thesis
    using assms(2,5,7) first second b by (simp add: job_byte_def of_nat_diff Let_def del: drop_append)
qed

lemma tl_drop_Suc: "tl (drop n xs) = drop (Suc n) xs"
  by (simp add: drop_Suc tl_drop)

lemma start_cmd: "ascii ''sc000 '' @ hex_text hex_lower (unat n) @ [0x0d] = store_cmd 0xc000 n"
proof -
  have "hex_text hex_lower 0xc000 = ascii ''c000''"
    by (simp add: hex_text.simps [of _ "0xc000"] hex_text.simps [of _ "3072"] hex_text.simps [of _ "192"]
        hex_text.simps [of _ "12"] hex_lower_def ascii_def)
  then show ?thesis by (simp add: store_cmd_def)
qed

section \<open>Property\<close>

text \<open>The data behind a header and the end of the batch, from a state in which no data is expected.\<close>

lemma batch_bytes:
  assumes "hex_digits digit" "h = header ''FTJOBDATR:'' digit addr (length data)" "length h \<le> 31" "31 \<le> length (h @ data)"
    and "length data \<le> queue_read_max" "length (recent s) = 31"
    and "silent (recent s @ h @ data) 31" "drop 20 (take 31 (h @ data)) \<noteq> batch_done"
    and "silent (take 31 (h @ data) @ post @ batch_done) (length post + 11)"
    and "data_byte_count (rs_rle s) = 0" "queue_read_rle (rs_rle s) = []"
  shows "\<exists>s'. job_bytes (h @ data @ post @ batch_done @ rest) s = Some (True, s') \<and> queue_read_rle (rs_rle s') = data"
proof -
  define xs where "xs = take (31 - length h) data"
  define ys where "ys = drop (31 - length h) data"
  have data: "data = xs @ ys" "length xs = 31 - length h" using assms(3,4) by (simp_all add: xs_def ys_def)
  have w: "take 31 (h @ data) = h @ xs" using assms(3) by (simp add: xs_def)
  have len: "length (h @ xs) = 31" using data(2) assms(3) by simp
  then have "h @ xs \<noteq> []" by (metis list.size(3) zero_neq_numeral)
  then obtain first v where fv: "h @ xs = first @ [v]" by (meson rev_exhaust)
  have "length first = 30" using len unfolding fv by simp
  note fv = fv this
  let ?s1 = "s\<lparr>recent := drop 30 (recent s @ first)\<rparr>"
  let ?most = "take 10 batch_done"
  have split: "h @ data = first @ v # ys" unfolding data(1) using fv(1) by (simp flip: append_assoc)
  have "silent ((recent s @ first) @ v # ys) 31" using assms(7) unfolding split by (simp only: append_assoc)
  then have "silent (recent s @ first) 31"
    by (rule silent_prefix) (simp add: assms(6) fv(2))
  then have a: "job_bytes (first @ ts) s = job_bytes ts ?s1" for ts
    using silent_bytes [of s first ts] assms(6,10) fv(2) by simp
  have r1: "tl (recent ?s1) @ [v] = h @ xs"
    using fv assms(6) by (simp add: tl_drop_Suc)
  obtain t where t: "job_byte v ?s1 = Some (False, t)" "recent t = h @ xs" "\<not> q_rle_enable t"
      "queue_read_rle (rs_rle t) = xs" "data_byte_count (rs_rle t) = int (length ys)"
  proof -
    have n: "drop 20 (tl (recent ?s1) @ [v]) \<noteq> batch_done" unfolding r1 using assms(8) unfolding w .
    have "length xs \<le> length data" "length data - length xs = length ys" unfolding data(1) by simp_all
    then show thesis
      using that header_byte [OF assms(1) _ _ r1 [unfolded assms(2)] _ assms(5) n] r1 assms(10,11) by auto
  qed
  let ?t = "t\<lparr>rs_rle := (rs_rle t)\<lparr>queue_read_rle := xs @ ys, data_byte_count := 0\<rparr>\<rparr>"
  have c: "job_bytes (ys @ ts) t = job_bytes ts ?t" for ts
    using t assms(5) data(1) by (intro raw_data(2)) simp_all
  have bd: "batch_done = ?most @ [0x45]" "length ?most = 10" by (simp_all add: batch_done_def)
  have joined: "(h @ xs) @ post @ batch_done = (h @ xs @ post @ ?most) @ [0x45]" by (subst bd(1)) simp
  then have "silent ((h @ xs @ post @ ?most) @ [0x45]) (length post + 11)" using assms(9) unfolding w by simp
  then have "silent (h @ xs @ post @ ?most) (length post + 11)"
    by (rule silent_prefix) (use bd(2) len in simp)
  moreover have "length post + 11 = Suc (length (post @ ?most))" using bd(2) by simp
  ultimately have "silent (h @ xs @ post @ ?most) (Suc (length (post @ ?most)))" by (simp only:)
  then have d: "job_bytes ((post @ ?most) @ ts) ?t = job_bytes ts (?t\<lparr>recent := drop (length (post @ ?most)) (h @ xs @ post @ ?most)\<rparr>)" for ts
    using silent_bytes [of ?t "post @ ?most" ts] t(2) len by simp
  let ?u = "?t\<lparr>recent := drop (length (post @ ?most)) (h @ xs @ post @ ?most)\<rparr>"
  have "drop 20 (tl (recent ?u) @ [0x45]) = batch_done"
  proof -
    have l: "length (h @ xs @ post @ ?most) = length post + 41" "Suc (length (post @ ?most)) = length post + 11"
      using len bd(2) by simp_all
    have "tl (recent ?u) @ [0x45] = drop (length post + 11) (h @ xs @ post @ ?most) @ [0x45]"
    proof -
      have "recent ?u = drop (length (post @ ?most)) (h @ xs @ post @ ?most)" by simp
      then show ?thesis unfolding l(2) [symmetric] by (simp only: tl_drop_Suc)
    qed
    also have "\<dots> = drop (length post + 11) ((h @ xs @ post @ ?most) @ [0x45])"
      by (simp only: drop_append l(1)) simp
    finally have "drop 20 (tl (recent ?u) @ [0x45]) = drop (length post + 31) ((h @ xs) @ post @ batch_done)"
      unfolding joined [symmetric] by (simp only: drop_drop) (simp add: add.commute)
    moreover have "length ((h @ xs) @ post) = length post + 31" using len by simp
    ultimately show ?thesis by (metis append.assoc append_eq_conv_conj)
  qed
  then have e: "job_byte 0x45 ?u = Some (True, ?u\<lparr>recent := tl (recent ?u) @ [0x45]\<rparr>)"
    by (simp add: job_byte_def Let_def del: drop_append)
  have "h @ data @ post @ batch_done @ rest = first @ v # ys @ (post @ ?most) @ 0x45 # rest"
    using split bd(1) by (metis append.assoc append_Cons append_Nil)
  then have "job_bytes (h @ data @ post @ batch_done @ rest) s = job_bytes (v # ys @ (post @ ?most) @ 0x45 # rest) ?s1"
    by (simp only: a)
  also have "\<dots> = job_bytes (ys @ (post @ ?most) @ 0x45 # rest) t"
    unfolding job_bytes.simps(2) t(1) by simp
  also have "\<dots> = job_bytes ((post @ ?most) @ 0x45 # rest) ?t" by (rule c)
  also have "\<dots> = job_bytes (0x45 # rest) ?u" by (rule d)
  also have "\<dots> = Some (True, ?u\<lparr>recent := tl (recent ?u) @ [0x45]\<rparr>)"
    unfolding job_bytes.simps(2) e by simp
  finally show ?thesis using data(1) by auto
qed

text \<open>Before the header may come anything that is not taken for one, such as the echo of a command.\<close>

lemma batch_data_read:
  assumes "hex_digits digit" "h = header ''FTJOBDATR:'' digit addr (length data)" "length h \<le> 31" "31 \<le> length (h @ data)"
    and "length data \<le> queue_read_max" "length recent0 = 31"
    and "silent (recent0 @ pre @ h @ data) (length pre + 31)" "drop 20 (take 31 (h @ data)) \<noteq> batch_done"
    and "silent (take 31 (h @ data) @ post @ batch_done) (length post + 11)"
    and "pending_text (incoming m) = pre @ h @ data @ post @ batch_done @ rest"
  shows "\<exists>s' m'. job_process_results recent0 s m = Some (s', m') \<and> queue_read_rle (rs_rle s') = data \<and> outgoing m' = outgoing m"
proof -
  let ?s = "s\<lparr>rs_rle := (rs_rle s)\<lparr>data_byte_count := 0, queue_read_rle := []\<rparr>, recent := recent0\<rparr>"
  let ?t = "?s\<lparr>recent := drop (length pre) (recent0 @ pre)\<rparr>"
  have "silent ((recent0 @ pre) @ h @ data) (Suc (length pre))"
    using silent_less [OF assms(7)] by simp
  then have "silent (recent0 @ pre) (Suc (length pre))" by (rule silent_prefix) (simp add: assms(6))
  then have start: "job_bytes (pre @ ts) ?s = job_bytes ts ?t" for ts
    using silent_bytes [of ?s pre ts] assms(6) by simp
  have "silent (drop (length pre) (recent0 @ pre @ h @ data)) 31"
    by (rule silent_drop) (rule assms(7))
  moreover have window: "length (recent ?t) = 31" using assms(6) by simp
  ultimately have "silent (recent ?t @ h @ data) 31" using assms(6) by simp
  then obtain s' where "job_bytes (h @ data @ post @ batch_done @ rest) ?t = Some (True, s')" "queue_read_rle (rs_rle s') = data"
    using batch_bytes [OF assms(1-5) _ _ assms(8,9), of ?t rest] window by auto
  moreover from this(1) have "job_bytes (pending_text (incoming m)) ?s = Some (True, s')" unfolding assms(10) start .
  from results_loop_reads [OF this] obtain m' where "results_loop ?s m = Some (s', m')" "outgoing m' = outgoing m" by blast
  ultimately show ?thesis by (auto simp: job_process_results_def)
qed

text \<open>
  C39: a batch of jobs over the serial line.  When the MEGA65 echoes the commands that write the
  jobs and then, started, sends raw data behind a header with its length and the end of the batch,
  \<open>queue_execute\<close> returns; what it has sent stores the jobs at \<open>c001\<close> and their number at \<open>c000\<close>, the
  data is what ends in \<open>queue_read_data\<close>, and the queue is empty.  This holds however the port cuts
  the text, if nothing else in it can be taken for a header or the end.
\<close>
theorem serial_batch_runs:
  assumes "set noise \<inter> {0, 0x21, 0x2e} = {}" "length noise < 8191" "new_monitor m" "cpu_stopped m"
    and "queue_addr q = queue_base + word_of_nat (length (queue_cmds q))" "length (queue_cmds q) \<le> 0xfff"
    and "hex_digits digit" "h = header ''FTJOBDATR:'' digit addr (length data)" "length h \<le> 31" "31 \<le> length (h @ data)"
    and "length data \<le> queue_read_max" "length recent0 = 31"
    and "silent (recent0 @ pre @ h @ data) (length pre + 31)" "drop 20 (take 31 (h @ data)) \<noteq> batch_done"
    and "silent (take 31 (h @ data) @ post @ batch_done) (length post + 11)"
    and "pending_text (incoming m) = answers noise 0xc001 (queue_cmds q) @ pre @ h @ data @ post @ batch_done @ rest"
  shows "\<exists>s' m' out. queue_execute_serial recent0 q s m = Some (q\<lparr>queue_addr := queue_base, queue_jobs := 0\<rparr>, s', m')
    \<and> queue_read_rle (rs_rle s') = data \<and> outgoing m' = outgoing m @ out
    \<and> received out M = Some ((store_bytes 0xc001 (queue_cmds q) M)(0xc000 \<mapsto> queue_jobs q))"
proof -
  let ?n = "length (queue_cmds q)" and ?start = "store_cmd 0xc000 (queue_jobs q)"
  have n: "unat (queue_addr q - queue_base) = ?n" using assms(5,6) by (simp add: unat_of_nat)
  obtain m1 out where push: "push_ram 0xc001 ?n (queue_cmds q) m = Some m1" "outgoing m1 = outgoing m @ out"
      "\<And>M t. received (out @ t) M = received t (store_bytes 0xc001 (queue_cmds q) M)"
      "pending_text (incoming m1) = pre @ h @ data @ post @ batch_done @ rest"
    using push_ram_arrives [OF assms(1,2) _ _ assms(3,4,16)] assms(6) by auto
  let ?m2 = "m1\<lparr>outgoing := outgoing m1 @ ?start\<rparr>"
  obtain s' m' where read: "job_process_results recent0 s ?m2 = Some (s', m')" "queue_read_rle (rs_rle s') = data"
      "outgoing m' = outgoing ?m2"
    using batch_data_read [OF assms(7-15), of ?m2 rest s] push(4) by auto
  have "queue_execute_serial recent0 q s m = Some (q\<lparr>queue_addr := queue_base, queue_jobs := 0\<rparr>, s', m')"
    unfolding queue_execute_serial_def n start_cmd using push(1) read(1) by (simp add: Let_def)
  moreover have "received (out @ ?start) M = Some ((store_bytes 0xc001 (queue_cmds q) M)(0xc000 \<mapsto> queue_jobs q))"
    using received_store [of "0xc000" "queue_jobs q" "[]"] by (simp add: push(3))
  ultimately show ?thesis using read(2,3) push(2) by auto
qed

definition sample_results :: results where
  "sample_results = \<lparr>rs_rle = \<lparr>data_byte_count = 0, queue_read_rle = [], q_rle_count = 0, q_raw_count = 0\<rparr>,
     q_rle_enable = False, recent = []\<rparr>"

definition sample_answer :: bytes where
  "sample_answer = header ''FTJOBDATR:'' hex_char 0x4000 20 @ replicate 20 7 @ [0x0d, 0x0a] @ batch_done"

lemma sample_header:
  "header ''FTJOBDATR:'' hex_char 0x4000 20 =
     [0x46, 0x54, 0x4a, 0x4f, 0x42, 0x44, 0x41, 0x54, 0x52, 0x3a, 0x34, 0x30, 0x30, 0x30, 0x3a, 0x31, 0x34, 0x3a]"
proof -
  have "hex_text hex_char 0x4000 = [0x34, 0x30, 0x30, 0x30]" "hex_text hex_char 20 = [0x31, 0x34]"
    by (simp_all add: hex_text.simps [of _ "0x4000"] hex_text.simps [of _ "1024"] hex_text.simps [of _ "64"]
        hex_text.simps [of _ "4"] hex_text.simps [of _ "20"] hex_text.simps [of _ "Suc 0"] hex_char_def)
  then show ?thesis by (simp add: header_def)
qed

definition sample_queue :: job_queue where
  "sample_queue = \<lparr>queue_cmds = [2, 0, 2, 0, 0, 0, 0x10, 0], queue_addr = queue_base + 8, queue_jobs = 1\<rparr>"

definition sample_batch :: bytes where
  "sample_batch = answers [0x0d] 0xc001 (queue_cmds sample_queue) @ ascii ''sc000 1'' @ sample_answer"

theorem serial_batch_runs_witness:
  "\<exists>s' m' out. queue_execute_serial (replicate 31 0) sample_queue sample_results
      (sample_monitor [Some (take 25 sample_batch), None, Some (drop 25 sample_batch)])
        = Some (sample_queue\<lparr>queue_addr := queue_base, queue_jobs := 0\<rparr>, s', m')
    \<and> queue_read_rle (rs_rle s') = replicate 20 7
    \<and> outgoing m' = outgoing (sample_monitor [Some (take 25 sample_batch), None, Some (drop 25 sample_batch)]) @ out
    \<and> received out Map.empty = Some ((store_bytes 0xc001 (queue_cmds sample_queue) Map.empty)(0xc000 \<mapsto> queue_jobs sample_queue))"
proof (rule serial_batch_runs)
  show "set [0x0d :: u8] \<inter> {0, 0x21, 0x2e} = {}" "length [0x0d :: u8] < 8191" by simp_all
  show "new_monitor (sample_monitor [Some (take 25 sample_batch), None, Some (drop 25 sample_batch)])"
    "cpu_stopped (sample_monitor [Some (take 25 sample_batch), None, Some (drop 25 sample_batch)])" by simp_all
  show "queue_addr sample_queue = queue_base + word_of_nat (length (queue_cmds sample_queue))" "length (queue_cmds sample_queue) \<le> 0xfff"
    by (simp_all add: sample_queue_def)
  show "hex_digits hex_char" by (simp add: hex_digits_def)
  show "header ''FTJOBDATR:'' hex_char 0x4000 20 = header ''FTJOBDATR:'' hex_char 0x4000 (length (replicate 20 (7 :: u8)))" by simp
  show "length (header ''FTJOBDATR:'' hex_char 0x4000 20) \<le> 31" unfolding sample_header by code_simp
  show "31 \<le> length (header ''FTJOBDATR:'' hex_char 0x4000 20 @ replicate 20 7)" unfolding sample_header by code_simp
  show "length (replicate 20 (7 :: u8)) \<le> queue_read_max" by (simp add: queue_read_max_def)
  show "length (replicate 31 (0 :: u8)) = 31" by simp
  show "silent (replicate 31 0 @ ascii ''sc000 1'' @ header ''FTJOBDATR:'' hex_char 0x4000 20 @ replicate 20 7) (length (ascii ''sc000 1'') + 31)"
    unfolding sample_header by code_simp
  show "drop 20 (take 31 (header ''FTJOBDATR:'' hex_char 0x4000 20 @ replicate 20 7)) \<noteq> batch_done" unfolding sample_header by code_simp
  show "silent (take 31 (header ''FTJOBDATR:'' hex_char 0x4000 20 @ replicate 20 7) @ [0x0d, 0x0a] @ batch_done) (length [0x0d, 0x0a :: u8] + 11)"
    unfolding sample_header by code_simp
  show "pending_text (incoming (sample_monitor [Some (take 25 sample_batch), None, Some (drop 25 sample_batch)]))
      = answers [0x0d] 0xc001 (queue_cmds sample_queue) @ ascii ''sc000 1'' @ header ''FTJOBDATR:'' hex_char 0x4000 20
        @ replicate 20 7 @ [0x0d, 0x0a] @ batch_done @ []"
    by (simp add: sample_batch_def sample_answer_def del: take_append drop_append)
qed

end
