(* ===== verification/Machine.thy ===== *)
theory Machine
  imports JobResults SectorStore
begin

text \<open>
  What the client does with a MEGA65 on the serial line before it can use the card: find out the
  mode it is in, type on its keyboard, load programs and install the helper, and the small
  questions about ROMs and bitstreams (\<open>m65common.c\<close>, \<open>load_helper\<close> in \<open>mega65_ftp.c\<close>).
\<close>

section \<open>The mode\<close>

text \<open>Reads into the start of a buffer.\<close>

definition fetch_into :: "nat \<Rightarrow> nat \<Rightarrow> bytes \<Rightarrow> monitor \<Rightarrow> (bytes \<times> monitor) option" where
  "fetch_into address n mem_buff m =
     do { (b, m1) \<leftarrow> fetch_ram address (take n mem_buff) m; Some (b @ drop n mem_buff, m1) }"

partial_function (option) leave_hypervisor :: "monitor \<Rightarrow> monitor option" where
  "leave_hypervisor m =
     do { (h, m1) \<leftarrow> in_hypervisor m; if h then leave_hypervisor m1 else Some m1 }"

partial_function (option) settle_charset :: "bytes \<Rightarrow> monitor \<Rightarrow> (bytes \<times> monitor) option" where
  "settle_charset mem_buff m =
     do {
       (b, m1) \<leftarrow> fetch_into 0xffd3030 1 mem_buff m;
       if b ! 0 AND 0x01 \<noteq> 0 then settle_charset b m1 else Some (b, m1)
     }"

partial_function (option) settle_hyppo :: "monitor \<Rightarrow> monitor option" where
  "settle_hyppo m = do { (d054, m1) \<leftarrow> mega65_peek 0xffd3054 m; if d054 AND 7 \<noteq> 0 then settle_hyppo m1 else Some m1 }"

partial_function (option) find_mode :: "bytes \<Rightarrow> monitor \<Rightarrow> monitor option" where
  "find_mode mem_buff m =
     do {
       (b1, m1) \<leftarrow> settle_charset mem_buff m;
       m2 \<leftarrow> settle_hyppo m1;
       (b3, m3) \<leftarrow> fetch_into 0xffd3030 1 b1 m2;
       if b3 ! 0 = 0x64 then Some (m3\<lparr>saw_c65_mode := True\<rparr>)
       else do {
         (b4, m4) \<leftarrow> fetch_into 0xffd3060 3 b3 m3;
         (b5, m5) \<leftarrow> (if b4 ! 1 = 0x04 then fetch_into 0x7770001 1 b4 m4 else Some (b4, m4));
         if b4 ! 1 = 0x04 \<and> b5 ! 0 AND 0x0f = 0x07 then Some (m5\<lparr>saw_c64_mode := True\<rparr>)
         else if b5 ! 1 = 0x08 then Some (m5\<lparr>saw_c65_mode := True\<rparr>)
         else find_mode b5 m5
       }
     }"

text \<open>\<open>mem_buff0\<close> is the buffer before anything was read.\<close>

definition detect_mode :: "bytes \<Rightarrow> monitor \<Rightarrow> monitor option" where
  "detect_mode mem_buff0 m =
     do {
       (b, m1) \<leftarrow> fetch_into 0x20010 16 mem_buff0 (m\<lparr>saw_c65_mode := False, saw_c64_mode := False, saw_openrom := False\<rparr>);
       let versioned = (b ! 0 = 0x56 \<or> b ! 0 = 0x4f);
       let b1 = (if versioned then b[9 := 0] else b);
       if versioned \<and> atoi (cstr (tl b1)) > 2000000 then Some (m1\<lparr>saw_openrom := True, saw_c64_mode := True\<rparr>)
       else do { m2 \<leftarrow> leave_hypervisor m1; find_mode b1 m2 }
     }"

section \<open>The keyboard\<close>

text \<open>
  One \<open>%02x\<close> behind a blank, of which the next one leaves three characters; a character above 127
  is negative and begins with \<open>ff\<close>.
\<close>

definition key_text :: "u8 \<Rightarrow> bytes" where
  "key_text c = 0x20 # (if c \<ge> 0x80 then [0x66, 0x66] else [hex_lower (unat (to_upper c) div 16), hex_lower (unat (to_upper c) mod 16)])"

text \<open>Nine characters at a time, and then their number.\<close>

function type_chars :: "nat \<Rightarrow> nat \<Rightarrow> bytes \<Rightarrow> monitor \<Rightarrow> monitor" where
  "type_chars buffer_addr buffer_len_addr s m =
     (if s = [] then m
      else
        let keys = take 9 s;
            addr = hex_text hex_lower buffer_addr;
            cmd = ascii ''s'' @ replicate (4 - length addr) 0x30 @ addr @ concat (map key_text keys)
              @ [0x0d] @ ascii ''s'' @ hex_text hex_lower buffer_len_addr @ [0x20, word_of_nat (0x30 + length keys), 0x0d]
        in type_chars buffer_addr buffer_len_addr (drop 9 s) (slow_write cmd m))"
  by pat_completeness auto
termination
  by (relation "measure (\<lambda>(_, _, s, _). length s)") auto

declare type_chars.simps [simp del]

definition stuff_keybuffer :: "bytes \<Rightarrow> monitor \<Rightarrow> monitor" where
  "stuff_keybuffer s m =
     (let buffer_addr = (if saw_c65_mode m then 0x2b0 else 0x277);
          buffer_len_addr = (if saw_c65_mode m then 0xd0 else 0xc6)
      in type_chars buffer_addr buffer_len_addr s
           (slow_write (ascii ''s'' @ hex_text hex_lower buffer_len_addr @ ascii '' 0'' @ [0x0d]) m))"

fun try_go64 :: "nat \<Rightarrow> bytes \<Rightarrow> monitor \<Rightarrow> monitor option" where
  "try_go64 0 mem_buff0 m = Some m"
| "try_go64 (Suc retries) mem_buff0 m =
     (if saw_c64_mode m then Some m
      else do {
        m1 \<leftarrow> monitor_sync m;
        m2 \<leftarrow> detect_mode mem_buff0 (stuff_keybuffer ([0x0d, 0x0d] @ ascii ''GO64'' @ [0x0d] @ ascii ''Y'' @ [0x0d]) m1);
        try_go64 retries mem_buff0 m2
      })"

definition switch_to_c64mode :: "bytes \<Rightarrow> monitor \<Rightarrow> (bool \<times> monitor) option" where
  "switch_to_c64mode mem_buff0 m =
     do { m1 \<leftarrow> try_go64 10 mem_buff0 (m\<lparr>saw_c65_mode := False\<rparr>); Some (\<not> saw_c64_mode m1, m1) }"

section \<open>Loading programs\<close>

text \<open>The check for the SD card in a Hyppo image is made a jump.\<close>

definition patch_hyppo :: "bytes \<Rightarrow> bytes" where
  "patch_hyppo buf =
     fold (\<lambda>i b. if b ! i = 0x2c \<and> b ! (i + 3) = 0x2c \<and> b ! (i + 4) = 0x34 \<and> b ! (i + 5) = 0x12 then b[i := 0x4c] else b)
       [0 ..< length buf - 5] buf"

definition load_cmd :: "bool \<Rightarrow> nat \<Rightarrow> nat \<Rightarrow> bytes" where
  "load_cmd newer load_addr b =
     (let munged_load_addr = (if load_addr mod 65536 = 0 then load_addr + 0x10000 else load_addr) in
      if newer then push_cmd True load_addr b
      else ascii ''l'' @ hex_text hex_lower (munged_load_addr - 1) @ ascii '' ''
             @ hex_text hex_lower ((munged_load_addr + b - 1) mod 65536) @ [0x0d])"

function load_blocks :: "bytes \<Rightarrow> nat \<Rightarrow> bool \<Rightarrow> monitor \<Rightarrow> monitor option" where
  "load_blocks contents load_addr patchHyppo m =
     (let max_bytes = min (0x10000 - load_addr mod 65536) 4096;
          buf = take max_bytes contents
      in if buf = [] then Some m
         else do {
           let buf1 = (if patchHyppo then patch_hyppo buf else buf);
           let m1 = serialport_write buf1 (slow_write (load_cmd (new_monitor m) load_addr (length buf1)) m);
           m2 \<leftarrow> wait_for_prompt [] m1;
           load_blocks (drop max_bytes contents) (load_addr + length buf1) patchHyppo m2
         })"
  by pat_completeness auto
termination
proof (relation "measure (\<lambda>(contents, _). length contents)", goal_cases)
  case (2 contents load_addr patchHyppo m max_bytes buf)
  have "load_addr mod 65536 < 65536" by simp
  then have "0 < max_bytes" unfolding 2(1) by linarith
  moreover have "contents \<noteq> []" using 2(2,3) by auto
  ultimately show ?case by simp
qed simp

declare load_blocks.simps [simp del]

text \<open>A file that cannot be opened ends the program.\<close>

definition load_file :: "(bytes \<Rightarrow> bytes option) \<Rightarrow> bytes \<Rightarrow> nat \<Rightarrow> bool \<Rightarrow> monitor \<Rightarrow> monitor option" where
  "load_file host filename load_addr patchHyppo m =
     do { f \<leftarrow> host filename; load_blocks f load_addr patchHyppo m }"

definition restart_hyppo :: "monitor \<Rightarrow> monitor option" where
  "restart_hyppo m =
     do {
       m1 \<leftarrow> purge_input m;
       m2 \<leftarrow> wait_for_prompt [] (slow_write (ascii ''g8100'' @ [0x0d]) m1);
       m3 \<leftarrow> wait_for_prompt [] (slow_write (trace_cmd False) m2);
       Some (m3\<lparr>cpu_stopped := False\<rparr>)
     }"

section \<open>The receive buffer\<close>

text \<open>A failed read leaves the text of the one before.\<close>

partial_function (option) rxbuff_loop :: "bytes \<Rightarrow> monitor \<Rightarrow> monitor option" where
  "rxbuff_loop read_buff m =
     (case serialport_read 8192 m of (b, m1) \<Rightarrow>
        let read_buff1 = (case b of None \<Rightarrow> read_buff | Some c \<Rightarrow> cstr c)
        in if strstr (ascii '':00000000:'') read_buff1 \<noteq> None \<and> strstr (ascii '':00000001:'') read_buff1 \<noteq> None
           then Some (m1\<lparr>no_rxbuff := False\<rparr>)
           else if b = None \<or> b = Some [] then Some m1
           else rxbuff_loop read_buff1 m1)"

definition rxbuff_detect :: "monitor \<Rightarrow> (bool \<times> monitor) option" where
  "rxbuff_detect m =
     (if on_xemu m then Some (\<not> no_rxbuff m, m)
      else do {
        m1 \<leftarrow> monitor_sync m;
        m2 \<leftarrow> rxbuff_loop [] (serialport_write ([0x15] @ ascii ''m0'' @ [0x0d] @ ascii ''m1'' @ [0x0d]) m1);
        Some (\<not> no_rxbuff m2, m2)
      })"

section \<open>The helper\<close>

definition poke :: "nat \<Rightarrow> u8 \<Rightarrow> monitor \<Rightarrow> monitor" where
  "poke addr v m = slow_write (store_cmd addr v) m"

definition request_remotesd_version :: "monitor \<Rightarrow> monitor" where
  "request_remotesd_version m = poke 0xc000 0x01 (poke 0xc001 0x13 m)"

definition request_quit_serial :: "monitor \<Rightarrow> monitor" where
  "request_quit_serial m = poke 0xc000 0x01 (poke 0xc001 0xff m)"

text \<open>
  \<open>helperroutine\<close> is the program with its load address, \<open>force\<close> the option \<open>-F\<close>.  The result says
  whether the helper runs.
\<close>

definition launch_helper :: "bytes \<Rightarrow> bytes \<Rightarrow> monitor \<Rightarrow> monitor option" where
  "launch_helper helperroutine mem_buff0 m =
     do {
       m1 \<leftarrow> (if \<not> saw_c64_mode m
              then do { s \<leftarrow> start_cpu m; (_, s1) \<leftarrow> switch_to_c64mode mem_buff0 s; Some s1 } else Some m);
       m2 \<leftarrow> fake_stop_cpu m1;
       m3 \<leftarrow> push_ram 0x0801 (length helperroutine - 2) (drop 2 helperroutine) m2;
       m4 \<leftarrow> (if saw_openrom m3 then Some (stuff_keybuffer (ascii ''RUN'' @ [0x0d]) m3)
              else wait_for_prompt [] (slow_write (ascii ''g080d'' @ [0x0d]) m3));
       wait_for_prompt [] (slow_write (trace_cmd False) m4)
     }"

definition load_helper :: "bytes \<Rightarrow> bool \<Rightarrow> bytes \<Rightarrow> bool \<Rightarrow> monitor \<Rightarrow> (bool \<times> monitor) option" where
  "load_helper helperroutine force mem_buff0 helper_installed m =
     (if helper_installed then Some (True, m)
      else do {
        m1 \<leftarrow> monitor_sync m;
        let (answer, m2) = read_or_none 8192 (request_remotesd_version m1);
        if strstr (ascii ''MEGA65FT1.0'') (cstr answer) \<noteq> None then Some (True, m2)
        else do {
          m3 \<leftarrow> detect_mode mem_buff0 m2;
          let (answer1, m4) = read_or_none 8192
            (serialport_write ((if saw_c64_mode m3 then ascii ''m0801'' else ascii ''m2001'') @ [0x0a]) m3);
          if strstr (ascii ''01:0000'') (cstr answer1) = None \<and> \<not> force then Some (False, m4)
          else do { m5 \<leftarrow> launch_helper helperroutine mem_buff0 m4; Some (True, m5) }
        }
      })"

section \<open>Questions\<close>

text \<open>The word behind the sync sequence; the array ends after 8192 bytes.\<close>

fun find_fpgaid :: "nat \<Rightarrow> nat \<Rightarrow> bytes \<Rightarrow> u32 option" where
  "find_fpgaid 0 i buff = Some 0xffffffff"
| "find_fpgaid (Suc n) i buff =
     (if buff ! i = 0x30 \<and> buff ! (i + 1) = 0x01 \<and> buff ! (i + 2) = 0x80 \<and> buff ! (i + 3) = 0x01
      then if i + 8 > length buff then None
           else Some (push_bit 24 (ucast (buff ! (i + 4))) OR push_bit 16 (ucast (buff ! (i + 5)))
             OR push_bit 8 (ucast (buff ! (i + 6))) OR ucast (buff ! (i + 7)))
      else find_fpgaid n (i + 1) buff)"

text \<open>What was not read is not part of the file; \<open>junk\<close> is what the array holds there.\<close>

definition get_bitstream_fpgaid :: "bytes \<Rightarrow> bytes option \<Rightarrow> u32 option" where
  "get_bitstream_fpgaid junk bitstream =
     (case bitstream of
        None \<Rightarrow> Some 0xffffffff
      | Some f \<Rightarrow> let buff = take 8192 f in find_fpgaid (length buff) 0 (buff @ junk))"

text \<open>
  The text of the version, 18 characters; the second read takes 16 bytes to the fifth place, so
  the list has the two bytes behind the array as well.
\<close>

definition get_system_rom_version :: "bytes \<Rightarrow> monitor \<Rightarrow> (bytes \<times> monitor) option" where
  "get_system_rom_version system_rom_version m =
     do {
       (b, m1) \<leftarrow> fetch_ram 0x20016 (take 7 (drop 4 system_rom_version)) m;
       let v = take 4 system_rom_version @ b @ drop 11 system_rom_version;
       if v ! 4 = 0x56 \<and> v ! 5 = 0x39
       then Some (([if v ! 6 \<ge> 0x32 then 0x4d else 0x43] @ ascii ''65 '' @ drop 4 v)[11 := 0], m1)
       else do {
         (b2, m2) \<leftarrow> fetch_ram 0x20010 (take 16 (drop 4 v)) m1;
         let w = take 4 v @ b2 @ drop 20 v;
         if w ! 4 = 0x4f \<and> w ! 11 = 0x32 \<and> w ! 12 = 0x30 \<and> w ! 13 = 0x20
         then Some ((ascii ''OPEN '' @ drop 5 w)[11 := 0], m2)
         else Some (ascii ''NON MEGA65 ROM'' @ [0] @ drop 15 w, m2)
       }
     }"

text \<open>The help text, \<open>None\<close> on a read error; without an answer it is empty after two seconds.\<close>

partial_function (option) await_help :: "int \<Rightarrow> monitor \<Rightarrow> (bytes option \<times> monitor) option" where
  "await_help timeout m =
     (case time_now m of (t, m1) \<Rightarrow>
        if \<not> timeout + 2 > t then Some (Some [], m1)
        else (case serialport_read 512 m1 of
                (None, m2) \<Rightarrow> Some (None, m2)
              | (Some c, m2) \<Rightarrow> if c \<noteq> [] then Some (Some c, m2) else await_help timeout m2))"

partial_function (option) await_dump :: "monitor \<Rightarrow> (bytes \<times> monitor) option" where
  "await_dump m =
     (case serialport_read 512 m of
        (None, m1) \<Rightarrow> Some ([], m1)
      | (Some c, m1) \<Rightarrow> if c = [] then await_dump m1 else Some (c, m1))"

definition model_digit :: "u8 \<Rightarrow> u8" where
  "model_digit c = c - (if 57 < c \<and> c < 0x80 then 55 else 48)"

definition hardware_name :: "u8 \<Rightarrow> bytes" where
  "hardware_name n =
     (if n = 1 then ascii ''MEGA65 R1''
      else if n = 2 then ascii ''MEGA65 R2''
      else if n = 3 then ascii ''MEGA65 R3''
      else if n = 33 then ascii ''MEGAPHONE R1 PROTOTYPE''
      else if n = 34 then ascii ''MEGAPHONE R4 PROTOTYPE''
      else if n = 64 then ascii ''NEXYS 4 PSRAM''
      else if n = 65 then ascii ''NEXYS 4 DDR (NO WIDGET)''
      else if n = 66 then ascii ''NEXYS 4 DDR (WIDGET)''
      else if n = 253 then ascii ''QMTECH WUKONG BOARD''
      else if n = 254 then ascii ''SIMULATED MEGA65''
      else if n = 255 then ascii ''HARDWARE NOT SPECIFIED''
      else ascii ''UNKNOWN MODEL $'' @ hex2 (unat n))"

text \<open>The 512 bytes of the buffer; a read changes its start, and the rest is what was there.\<close>

definition read_model :: "bytes \<Rightarrow> u8 option option" where
  "read_model buf =
     (case strstr (ascii '':0FFD3629:'') (cstr buf) of
        None \<Rightarrow> Some None
      | Some i \<Rightarrow> if i + 12 > length buf then None
                  else Some (Some (model_digit (buf ! (i + 10)) * 16 + model_digit (buf ! (i + 11)))))"

text \<open>The version, where the help text has one, and the model; \<open>False\<close> is the result \<open>-1\<close>.\<close>

definition get_system_bitstream_version ::
  "bytes \<Rightarrow> monitor \<Rightarrow> ((bool \<times> bytes option \<times> (u8 \<times> bytes) option) \<times> monitor) option" where
  "get_system_bitstream_version buf0 m =
     (case time_now (serialport_write [0x0f, 0x23, 0x0d, 0x68, 0x0d] m) of (timeout, m1) \<Rightarrow>
        do {
          (answer, m2) \<leftarrow> await_help timeout m1;
          case answer of
            None \<Rightarrow> Some ((False, None, None), m2)
          | Some c \<Rightarrow>
              if c = [] then Some ((False, None, None), m2)
              else
                let buf = c @ drop (length c) buf0 in
                case strstr (ascii ''build GIT: '') (cstr buf) of
                  None \<Rightarrow> Some ((False, None, None), m2)
                | Some i \<Rightarrow>
                    let found = drop (i + 11) (cstr buf);
                        v = takeWhile (\<lambda>x. x \<noteq> 0x0d) found;
                        ended = (v \<noteq> found);
                        buf1 = (if ended then buf[i + 11 + length v := 0] else buf);
                        version = (if ended then Some (take 63 v) else None)
                    in do {
                         (c2, m3) \<leftarrow> await_dump (slow_write (ascii ''mffd3629 1'' @ [0x0d]) m2);
                         hw \<leftarrow> read_model (c2 @ drop (length c2) buf1);
                         Some ((hw \<noteq> None, version, map_option (\<lambda>n. (n, hardware_name n)) hw), m3)
                       }
        })"

definition wincp1252_to_screen :: "u8 \<Rightarrow> u8" where
  "wincp1252_to_screen c =
     (if c < 0x20 \<or> c > 0x7b then 0x5e
      else if c < 0x40 then c
      else if c < 0x5b then c
      else if c < 0x5f then 0x94
      else if c = 0x5f then 0x64
      else if c < 0x7b then c AND 0x1f
      else 0x5e)"

text \<open>The lines of \<open>dump_bytes\<close>, without the spaces in front.\<close>

definition dump_line :: "bytes \<Rightarrow> nat \<Rightarrow> bytes" where
  "dump_line b i =
     hex4 i @ ascii '': ''
       @ concat (map (\<lambda>j. if i + j < length b then 0x20 # hex2 (unat (b ! (i + j))) else ascii '' | '') [0 ..< 16])
       @ ascii ''  ''
       @ concat (map (\<lambda>j. if i + j < length b
                          then [if b ! (i + j) \<ge> 0x20 \<and> b ! (i + j) < 0x7c then b ! (i + j) else 0x2e] else []) [0 ..< 16])
       @ [0x0a]"

definition dump_bytes :: "bytes \<Rightarrow> bytes" where
  "dump_bytes b = concat (map (\<lambda>k. dump_line b (16 * k)) [0 ..< (length b + 15) div 16])"

section \<open>The card\<close>

partial_function (option) wait_for_sdready :: "monitor \<Rightarrow> monitor option" where
  "wait_for_sdready m =
     do {
       (st, m1) \<leftarrow> mega65_peek 0xffd3680 m;
       if st AND 3 \<noteq> 0 then do { m2 \<leftarrow> mega65_poke 0xffd3680 0 m1; m3 \<leftarrow> mega65_poke 0xffd3680 1 m2; wait_for_sdready m3 }
       else Some m1
     }"

fun wait_for_sdready_passive :: "nat \<Rightarrow> monitor \<Rightarrow> (bool \<times> monitor) option" where
  "wait_for_sdready_passive tries m =
     do {
       (st, m1) \<leftarrow> mega65_peek 0xffd3680 m;
       if st AND 3 = 0 then Some (True, m1)
       else case tries of 0 \<Rightarrow> Some (False, m1) | Suc n \<Rightarrow> if n = 0 then Some (False, m1) else wait_for_sdready_passive n m1
     }"

text \<open>Three sectors are tried; a card on which sector 1 cannot be read is no SDHC card.\<close>

definition sdhc_check :: "'s sector_io \<Rightarrow> 's \<Rightarrow> (bool \<times> 's) option" where
  "sdhc_check io s =
     (case rd_nocache io 0 s of (r0, s1) \<Rightarrow>
      case rd_nocache io 1 s1 of (r1, s2) \<Rightarrow>
      case rd_nocache io 0x200 s2 of (r200, s3) \<Rightarrow>
        if r0 = None \<or> r200 = None then None else Some (r1 \<noteq> None, s3))"

section \<open>Loading arrives\<close>

text \<open>The number of blocks, each of which is answered by a prompt.\<close>

function load_count :: "nat \<Rightarrow> nat \<Rightarrow> nat" where
  "load_count load_addr left =
     (let b = min (min (0x10000 - load_addr mod 65536) 4096) left in
      if left = 0 then 0 else Suc (load_count (load_addr + b) (left - b)))"
  by pat_completeness auto
termination
proof (relation "measure snd", goal_cases)
  case (2 load_addr left b)
  have "load_addr mod 65536 < 65536" by simp
  then have "0 < b" using 2 by (simp add: min_def)
  then show ?case using 2(2) by simp
qed simp

declare load_count.simps [simp del]

text \<open>
  Unlike \<open>push_ram\<close>, \<open>load_file\<close> gets to the end of a block of 64 KiB and into the next: the file
  arrives at any address.
\<close>

lemma load_blocks_arrive:
  assumes "set noise \<inter> {0, 0x21, 0x2e} = {}" "length noise < 8191" "new_monitor m"
    and "pending_text (incoming m) = concat (replicate (load_count load_addr (length contents)) (noise @ [0x2e])) @ rest"
  shows "\<exists>m' out. load_blocks contents load_addr False m = Some m' \<and> outgoing m' = outgoing m @ out
    \<and> pending_text (incoming m') = rest \<and> (\<forall>M s. received (out @ s) M = received s (store_bytes load_addr contents M))"
  using assms(3,4)
proof (induction "length contents" arbitrary: contents load_addr m rule: less_induct)
  case less
  show ?case
  proof (cases "contents = []")
    case True
    then show ?thesis
      using less.prems by (subst load_blocks.simps) (simp add: load_count.simps [of _ 0])
  next
    case False
    define n where "n = min (0x10000 - load_addr mod 65536) 4096"
    define buf where "buf = take n contents"
    have "load_addr mod 65536 < 65536" by simp
    then have n: "0 < n" "n \<le> 4096" unfolding n_def by auto
    then have buf: "buf \<noteq> []" "length buf < 65536" "length buf = min n (length contents)" "length contents - length buf = length (drop n contents)"
      using False by (auto simp: buf_def)
    let ?cmd = "push_cmd True load_addr (length buf)"
    let ?m = "m\<lparr>outgoing := outgoing m @ ?cmd @ buf\<rparr>"
    have "load_count load_addr (length contents) = Suc (load_count (load_addr + length buf) (length (drop n contents)))"
      using False buf(3,4) by (subst load_count.simps) (simp add: n_def [symmetric] Let_def)
    then have "pending_text (incoming ?m) = noise @ 0x2e #
        (concat (replicate (load_count (load_addr + length buf) (length (drop n contents))) (noise @ [0x2e])) @ rest)"
      using less.prems(2) by simp
    from wait_for_prompt_reads [OF this assms(1), of "[]"] obtain cs where
      cs: "wait_for_prompt [] ?m = Some (?m\<lparr>incoming := cs\<rparr>)"
        "pending_text cs = concat (replicate (load_count (load_addr + length buf) (length (drop n contents))) (noise @ [0x2e])) @ rest"
      using assms(2) by auto
    have "length (drop n contents) < length contents" using n False by simp
    from less.hyps [OF this, of "?m\<lparr>incoming := cs\<rparr>" "load_addr + length buf"] less.prems(1) cs(2) obtain m' out where
      rec: "load_blocks (drop n contents) (load_addr + length buf) False (?m\<lparr>incoming := cs\<rparr>) = Some m'"
        "outgoing m' = outgoing ?m @ out" "pending_text (incoming m') = rest"
        "\<forall>M s. received (out @ s) M = received s (store_bytes (load_addr + length buf) (drop n contents) M)"
      by auto
    have "load_blocks contents load_addr False m = Some m'"
      using buf(1) n(1) False cs(1) rec(1) less.prems(1)
      by (subst load_blocks.simps) (simp add: n_def [symmetric] buf_def [symmetric] load_cmd_def serialport_write_def Let_def)
    moreover have "received ((?cmd @ buf @ out) @ s) M = received s (store_bytes load_addr contents M)" for M s
      using received_push [OF buf(2), of load_addr "out @ s" M] rec(4) store_bytes_append [of load_addr buf "drop n contents" M]
      by (simp add: buf_def)
    ultimately show ?thesis using rec(2,3) by (intro exI [of _ m'] exI [of _ "?cmd @ buf @ out"]) simp
  qed
qed

end
