(* ===== verification/Spec2Isabelle.thy ===== *)
theory Spec2Isabelle
  imports Callbacks Client Transport Listing Deletion Machine
begin

text \<open>
  mega65fs mounts the SD card of a MEGA65 computer as a file system of the host.  The program is a
  stack, and so is this development; each layer is stated against the interface of the one below.

  \<^bold>\<open>The layers and their theories\<close>

  \<^item> \<open>src/lib/libm65ftp/mega65_ftp.c\<close>, the job queue: \<open>queue_add_job\<close>,
    \<open>process_jobs_ethernet\<close> and the run-length decoder of the answers.  \<^theory_text>\<open>JobQueue\<close>.  A job list is a byte
    list, the remote card a function of byte addresses.
  \<^item> The block layer, \<open>read_sector\<close>, \<open>write_sector\<close>, the sector cache and the write queue.
    \<^theory_text>\<open>SectorCache\<close>; the record \<open>blk\<close> holds the globals \<open>sector_cache\<close>,
    \<open>write_sector_numbers\<close>, \dots.  Above it everything uses the interface of
    \<^theory_text>\<open>SectorStore\<close>, a record of the calls with the locales \<open>sector_read\<close> and
    \<open>sector_store\<close>.  They are interpreted on the block layer (\<open>blk\<close>), on the read-ahead of
    downloads (\<open>ahead\<close>), and on bare sectors (\<open>mem\<close>), which serves concrete instances.
  \<^item> The FAT: mounting, geometry, the entries and the searches.  \<^theory_text>\<open>Fat\<close>;
    \<open>fat_get disk v n\<close> is entry \<open>n\<close> of the FAT on a disk.  \<^theory_text>\<open>FatState\<close> separates the
    FAT from the rest of the disk.
  \<^item> Directories: the cursor globals \<open>dir_cluster\<close>, \<open>dir_sector\<close>, \dots are the record
    \<open>dir_state\<close>.  \<^theory_text>\<open>Dir\<close> reads (\<open>fat_opendir\<close>, \<open>fat_readdir\<close>),
    \<^theory_text>\<open>DirOps\<close> writes entries, \<^theory_text>\<open>DirTree\<close> lists, deletes, renames and creates.
    A directory on a chain of clusters is the sequence \<open>dir_slot disk v cs n\<close> of its 32-byte slots.
    \<^theory_text>\<open>LongNames\<close>, \<^theory_text>\<open>DirCreate\<close>, \<^theory_text>\<open>Deletion\<close> and
    \<^theory_text>\<open>Listing\<close> prove what reading, creating, deleting and listing do to the slots.
  \<^item> The file layer, \<open>src/src/m65ftp_lib.c\<close>: \<^theory_text>\<open>Lib\<close> has every call from
    \<open>m65ftp_open\<close> to \<open>m65ftp_rename\<close> and the table \<open>s_files\<close>.
    \<^theory_text>\<open>Descriptors\<close> proves the invariant of the table (locale \<open>descriptor_pool\<close>),
    \<^theory_text>\<open>FileData\<close> what is read, \<^theory_text>\<open>Buffered\<close> what a file in host memory stands
    for, \<^theory_text>\<open>Flush\<close> that flushing it puts the same contents on the card, and
    \<^theory_text>\<open>DirectWrite\<close> that a write in place is a write to the bytes of the file.
  \<^item> The FUSE program, \<open>src/src/mega65fs.c\<close>: \<^theory_text>\<open>FsCache\<close> has the directory cache and
    all callbacks, \<^theory_text>\<open>FuseState\<close> the reachable states (the step relation \<open>fs_step\<close> and the
    locale \<open>listing_cache\<close>), \<^theory_text>\<open>Callbacks\<close> the properties.
  \<^item> The UDP transport, \<open>src/lib/libm65ftp/etherload/etherload_common.c\<close>: \<^theory_text>\<open>Etherload\<close> models
    the window of unacknowledged frames, \<^theory_text>\<open>Transport\<close> proves that no frame is lost and that
    waiting ends.  The socket and the clock are the argument \<open>net\<close>; the packet layouts meet the
    locale \<open>packet_format\<close>.
  \<^item> The command line client: \<^theory_text>\<open>CommandLine\<close> reads a line into a \<open>command\<close>
    (\<open>parse_command\<close> and the branches of \<open>execute_command\<close>), \<^theory_text>\<open>Client\<close> carries it
    out (\<open>run_command\<close>, mounting, listings).  The parts are
    \<^theory_text>\<open>FileTransfer\<close> (uploads and downloads), \<^theory_text>\<open>SectorTools\<close> (freeze slots, dumps,
    pokes, displays), \<^theory_text>\<open>Diskman\<close> (\<open>diskman.c\<close>, the disk image around a program),
    \<^theory_text>\<open>Filehost\<close> (\<open>filehost.c\<close>, the list of files on the web server),
    \<^theory_text>\<open>Flash\<close> (the checks before flashing and the script for Vivado) and
    \<^theory_text>\<open>Bit2mcs\<close> (\<open>bit2mcs.c\<close>, Intel hex files).  \<^theory_text>\<open>Scan\<close> holds
    \<open>atoi\<close>, \<open>sscanf\<close> and \<open>%02X\<close> of the C library as far as the source uses them.
  \<^item> The serial line, \<open>src/lib/libm65ftp/m65common.c\<close>, the other way to the MEGA65:
    \<^theory_text>\<open>Monitor\<close> has the port and the commands of the monitor (\<open>fetch_ram\<close>, \<open>push_ram\<close>, stopping
    the CPU, synchronising), \<^theory_text>\<open>MonitorMemory\<close> proves what reading and writing memory do,
    \<^theory_text>\<open>JobResults\<close> is the serial job queue and \<^theory_text>\<open>Machine\<close> the rest: modes, keyboard,
    loading, installing the helper, versions.  The port is a list of what the coming reads find, so
    a theorem for every such list is a theorem for every way to cut the text into reads.
  \<^item> \<^theory_text>\<open>Prelude\<close>: words, byte buffers, little-endian fields and the simplification sets
    \<open>buf_simps\<close> and \<open>frame_simps\<close>.

  \<^bold>\<open>Conventions\<close>

  Machine integers are words of their width; where the source compares them as \<open>int\<close>, the model
  takes \<open>sint\<close>.  A C string is a list of bytes without its terminator.  Errors are the
  result values of the source.  A function whose result is an option has the value \<open>None\<close> for a
  call that does not come back: a loop that never ends, \<open>exit\<close>, or an access outside an array.  Loops
  that may not end are partial functions into this option; a theorem that a call returns
  states \<open>Some\<close>.  The only bounded recursion is the one of \<open>delete_single_file\<close> into
  sub-directories, whose bound \<open>max_depth = 512\<close> is more than the 1024-byte path buffers of the
  source allow to nest.

  \<^bold>\<open>What is shown\<close>

  The block layer is a disk: a write changes one sector, reads give what was written, except for the
  read-ahead over the write queue.  The FAT operations are updates and searches of the
  function \<open>fat_get\<close>; the search for a contiguous block can go on for ever.  The cursor goes through the slots of a
  directory; a created name is the name read back; deleting clears and frees exactly what belongs to
  the file; a listing is sorted and complete.  Files read and written in memory or
  on the card are sequences of bytes, with the cases where the source leaves them (a write after a
  read, a buffer shortened and extended).  Descriptors and the directory cache keep their invariants
  over every sequence of calls, and the callbacks refine the file layer; the cache can serve stale
  listings.  The transport loses no frame without an answer.  Uploading and downloading
  is the identity on the data, also for freeze slots; a restored dump and a line of pokes write the
  run of sectors or bytes they name and nothing else.  The image of a wrapped program can be loaded,
  and the file list is read as it was sent.  File names in quotes reach the commands unchanged, and
  no line without quotes is read behind its end.  A hex file loads as the core it was made from, and
  a core is flashed only to a slot that exists on a machine it is for.  Mounting sends one request
  with the name asked for.  Over the serial line memory is read as it is and a pushed block arrives,
  except that pushing to the end of a block of 64 KiB never returns; a serial batch
  stores its jobs and their number, starts them and reads exactly the data that was sent back.

  \<^bold>\<open>Not modelled\<close>

  Opening and configuring devices, sockets and ports, the Windows branches, interface discovery,
  logging, and progress output are calls of the operating system or of the
  hardware.  The helper programs for the MEGA65 are byte arrays of machine code.  Reading of options,
  \<open>m65ftp_init\<close> and \<open>main\<close> only connect these.  Delays have no effect on the model.  Locks are left out: each call of
  the file layer runs under \<open>s_mutex\<close>, so the callbacks are the steps of a sequence.
\<close>

end
